(* ===== verification/Yuneta_Prelude.thy ===== *)
theory Yuneta_Prelude
  imports Main "HOL-Library.Word" "HOL-Library.Monad_Syntax"
begin

text \<open>
  Shared vocabulary of the development: the collections its automation uses, the C integer
  conventions (\<open>size_t\<close> written out on natural numbers), the names of addresses, and generic
  lemmas on lists and options that several components need.
\<close>

named_theorems size_t_simps \<open>arithmetic of size_t written out on nat\<close>
named_theorems frame_simps \<open>what an operation leaves unchanged\<close>

section \<open>Addresses and sizes\<close>

text \<open>
  An address is a natural number and a pointer that may be NULL is an \<open>option\<close>. The type
  \<open>size_t\<close> has 64 bits on the supported Linux targets; values are natural numbers below
  \<open>size_t_mod\<close> and every C operation that can wrap around is written out.
\<close>

type_synonym addr = nat
type_synonym size_t = nat
type_synonym byte = "8 word"

definition size_t_mod :: nat where
  "size_t_mod = 2 ^ 64"

definition sz_add :: "size_t \<Rightarrow> size_t \<Rightarrow> size_t" where
  "sz_add a b = (a + b) mod size_t_mod"

definition sz_sub :: "size_t \<Rightarrow> size_t \<Rightarrow> size_t" where
  "sz_sub a b = (if b \<le> a then a - b else (a + size_t_mod) - b)"

lemma size_t_mod_pos [simp]: "0 < size_t_mod"
  by (simp add: size_t_mod_def)

lemma sz_add_no_wrap [size_t_simps]: "a + b < size_t_mod \<Longrightarrow> sz_add a b = a + b"
  by (simp add: sz_add_def)

lemma sz_sub_no_wrap [size_t_simps]: "b \<le> a \<Longrightarrow> sz_sub a b = a - b"
  by (simp add: sz_sub_def)

lemma sz_add_bound: "sz_add a b < size_t_mod"
  by (simp add: sz_add_def)

lemma sz_sub_bound: "a < size_t_mod \<Longrightarrow> b < size_t_mod \<Longrightarrow> sz_sub a b < size_t_mod"
  by (auto simp: sz_sub_def)

section \<open>Ends of a list seen as nullable pointers\<close>

text \<open>The first element of a list, or the pointer \<open>n\<close> behind it when the list is empty.\<close>

definition first_or :: "'a list \<Rightarrow> 'a option \<Rightarrow> 'a option" where
  "first_or xs n = (case xs of [] \<Rightarrow> n | x # _ \<Rightarrow> Some x)"

text \<open>The last element of a list, or the pointer \<open>p\<close> before it when the list is empty.\<close>

definition last_or :: "'a option \<Rightarrow> 'a list \<Rightarrow> 'a option" where
  "last_or p xs = (if xs = [] then p else Some (last xs))"

lemma first_or_simps [simp]:
  "first_or [] n = n"
  "first_or (x # xs) n = Some x"
  by (simp_all add: first_or_def)

lemma last_or_simps [simp]:
  "last_or p [] = p"
  "last_or p (x # xs) = last_or (Some x) xs"
  "last_or p (xs @ [y]) = Some y"
  by (simp_all add: last_or_def)

lemma first_or_append [simp]: "first_or (xs @ ys) n = first_or xs (first_or ys n)"
  by (cases xs) simp_all

lemma last_or_append [simp]: "last_or p (xs @ ys) = last_or (last_or p xs) ys"
  by (cases ys) (auto simp: last_or_def)

lemma first_or_None_iff [simp]: "first_or xs n = None \<longleftrightarrow> xs = [] \<and> n = None"
  by (cases xs) simp_all

lemma last_or_None_iff [simp]: "last_or p xs = None \<longleftrightarrow> xs = [] \<and> p = None"
  by (simp add: last_or_def)

section \<open>Generic lemmas on lists\<close>

lemma remove1_split:
  "x \<notin> set as \<Longrightarrow> remove1 x (as @ x # bs) = as @ bs"
  by (induction as) auto

lemma distinct_mem_splitE:
  assumes "x \<in> set xs" and "distinct xs"
  obtains as bs where "xs = as @ x # bs" "x \<notin> set as" "x \<notin> set bs"
  using assms by (metis distinct.simps(2) distinct_append not_distinct_conv_prefix
    split_list_first)

lemma drop_take_split: "i + n \<le> length xs \<Longrightarrow> take i xs @ take n (drop i xs) @ drop (i + n) xs = xs"
  by (metis add.commute append_take_drop_id drop_drop)

text \<open>
  Overwriting part of a block of memory: \<open>list_blit i ys xs\<close> puts \<open>ys\<close> over \<open>xs\<close> from
  position \<open>i\<close>, as a \<open>memmove\<close> into the middle of an allocated block does.
\<close>

definition list_blit :: "nat \<Rightarrow> 'a list \<Rightarrow> 'a list \<Rightarrow> 'a list" where
  "list_blit i ys xs = take i xs @ ys @ drop (i + length ys) xs"

lemma length_list_blit [simp]:
  "i + length ys \<le> length xs \<Longrightarrow> length (list_blit i ys xs) = length xs"
  by (simp add: list_blit_def)

lemma take_list_blit_before [simp]:
  "n \<le> i \<Longrightarrow> i \<le> length xs \<Longrightarrow> take n (list_blit i ys xs) = take n xs"
  by (simp add: list_blit_def min_def)

lemma take_list_blit_after:
  "i \<le> length xs \<Longrightarrow> take (i + length ys) (list_blit i ys xs) = take i xs @ ys"
  by (simp add: list_blit_def min_def)

lemma nth_list_blit_after [simp]:
  assumes "i + length ys \<le> k" and "i + length ys \<le> length xs"
  shows "list_blit i ys xs ! k = xs ! k"
proof -
  have "list_blit i ys xs ! k = drop (i + length ys) xs ! (k - length (take i xs @ ys))"
    unfolding list_blit_def append_assoc [symmetric] using assms
    by (subst nth_append) simp
  also have "\<dots> = xs ! k"
    using assms by simp
  finally show ?thesis .
qed

lemma nth_list_blit_here:
  "i \<le> length xs \<Longrightarrow> i \<le> k \<Longrightarrow> k < i + length ys \<Longrightarrow>
   list_blit i ys xs ! k = ys ! (k - i)"
  by (auto simp: list_blit_def nth_append min_def)

section \<open>Characters\<close>

text \<open>\<open>isspace\<close> of the C locale: blank, and the control characters 9 to 13.\<close>

definition isspace :: "char \<Rightarrow> bool" where
  "isspace c \<longleftrightarrow> (let n = of_char c :: nat in n = 32 \<or> (9 \<le> n \<and> n \<le> 13))"


section \<open>Partial results\<close>

text \<open>
  A computation whose C counterpart would touch freed memory or never return has the value
  \<open>None\<close>; \<open>holds Q m\<close> says that \<open>Q\<close> is true of the result when there is one.
\<close>

named_theorems holds_simps \<open>conditions for a property of a partial result\<close>

definition holds :: "('a \<Rightarrow> bool) \<Rightarrow> 'a option \<Rightarrow> bool" where
  "holds Q m \<longleftrightarrow> (\<forall>x. m = Some x \<longrightarrow> Q x)"

lemma holds_None [holds_simps]: "holds Q None"
  by (simp add: holds_def)

lemma holds_Some [holds_simps]: "holds Q (Some x) \<longleftrightarrow> Q x"
  by (simp add: holds_def)

lemma holds_bind [holds_simps]: "holds Q (Option.bind m k) \<longleftrightarrow> holds (\<lambda>x. holds Q (k x)) m"
  by (auto simp: holds_def bind_eq_Some_conv)

lemma holds_map [holds_simps]: "holds Q (map_option f m) \<longleftrightarrow> holds (\<lambda>x. Q (f x)) m"
  by (auto simp: holds_def)

lemma holds_if [holds_simps]:
  "holds Q (if b then m else m') \<longleftrightarrow> (b \<longrightarrow> holds Q m) \<and> (\<not> b \<longrightarrow> holds Q m')"
  by simp

lemma holds_mono: "holds P m \<Longrightarrow> (\<And>x. P x \<Longrightarrow> Q x) \<Longrightarrow> holds Q m"
  by (auto simp: holds_def)

lemma holdsD: "holds Q m \<Longrightarrow> m = Some x \<Longrightarrow> Q x"
  by (simp add: holds_def)

lemma holdsI: "(\<And>x. m = Some x \<Longrightarrow> Q x) \<Longrightarrow> holds Q m"
  by (simp add: holds_def)

lemma sorted_wrt_last_le:
  assumes "sorted_wrt (\<lambda>a b. f a < (f b :: nat)) xs" "x \<in> set xs"
  shows "f x \<le> f (last xs)"
  using assms by (induction xs) (auto split: if_splits intro: less_imp_le)


end
