(* ===== verification/Json.thy ===== *)
theory Json
  imports Yuneta_Prelude Complex_Main
begin

text \<open>
  JSON values: the part of the vendored jansson library (\<^verbatim>\<open>value.c\<close>, \<^verbatim>\<open>hashtable.c\<close>) the kernel
  relies on, and the helpers of \<^verbatim>\<open>kernel/c/gobj-c/src/helpers.c\<close> over it: conversion and comparison of
  simple values, lists used as sets, integer ranges, recursive update.

  An object is the list of its pairs in insertion order, which is what iteration over the hash table
  visits; a pointer to a json value that may be NULL is an \<open>option\<close>. Values are passed by value and
  a function that modifies its argument returns the modified value. Strings are valid UTF-8 without
  NUL, so \<open>json_object_set\<close> and \<open>json_object_set_nocheck\<close> agree. A finite C double is the rational
  number it denotes.
\<close>

section \<open>Values\<close>

datatype json =
    JNull
  | JBool bool
  | JInt int
  | JReal rat
  | JString string
  | JArray "json list"
  | JObject "(string \<times> json) list"

type_synonym jn = "json option"

fun json_is_object :: "jn \<Rightarrow> bool" where
  "json_is_object (Some (JObject _)) = True"
| "json_is_object _ = False"

fun json_is_array :: "jn \<Rightarrow> bool" where
  "json_is_array (Some (JArray _)) = True"
| "json_is_array _ = False"

fun json_is_string :: "jn \<Rightarrow> bool" where
  "json_is_string (Some (JString _)) = True"
| "json_is_string _ = False"

fun json_is_integer :: "jn \<Rightarrow> bool" where
  "json_is_integer (Some (JInt _)) = True"
| "json_is_integer _ = False"

fun json_is_real :: "jn \<Rightarrow> bool" where
  "json_is_real (Some (JReal _)) = True"
| "json_is_real _ = False"

fun json_is_boolean :: "jn \<Rightarrow> bool" where
  "json_is_boolean (Some (JBool _)) = True"
| "json_is_boolean _ = False"

fun json_is_true :: "jn \<Rightarrow> bool" where
  "json_is_true (Some (JBool b)) = b"
| "json_is_true _ = False"

fun json_is_null :: "jn \<Rightarrow> bool" where
  "json_is_null (Some JNull) = True"
| "json_is_null _ = False"

fun json_integer_value :: "jn \<Rightarrow> int" where
  "json_integer_value (Some (JInt i)) = i"
| "json_integer_value _ = 0"

fun json_real_value :: "jn \<Rightarrow> rat" where
  "json_real_value (Some (JReal r)) = r"
| "json_real_value _ = 0"

fun json_string_value :: "jn \<Rightarrow> string option" where
  "json_string_value (Some (JString s)) = Some s"
| "json_string_value _ = None"

section \<open>Objects\<close>

text \<open>\<open>hashtable_set\<close> replaces the value of an existing pair in place and appends a new pair.\<close>

fun pairs_set :: "(string \<times> json) list \<Rightarrow> string \<Rightarrow> json \<Rightarrow> (string \<times> json) list" where
  "pairs_set [] k v = [(k, v)]"
| "pairs_set ((k', v') # ps) k v = (if k' = k then (k, v) # ps else (k', v') # pairs_set ps k v)"

definition pairs_del :: "(string \<times> json) list \<Rightarrow> string \<Rightarrow> (string \<times> json) list" where
  "pairs_del ps k = filter (\<lambda>p. fst p \<noteq> k) ps"

fun json_object_get :: "jn \<Rightarrow> string \<Rightarrow> jn" where
  "json_object_get (Some (JObject ps)) k = map_of ps k"
| "json_object_get _ k = None"

fun json_object_size :: "jn \<Rightarrow> nat" where
  "json_object_size (Some (JObject ps)) = length ps"
| "json_object_size _ = 0"

fun json_object_set :: "json \<Rightarrow> string \<Rightarrow> json \<Rightarrow> json" where
  "json_object_set (JObject ps) k v = JObject (pairs_set ps k v)"
| "json_object_set j k v = j"

fun json_object_del :: "json \<Rightarrow> string \<Rightarrow> json" where
  "json_object_del (JObject ps) k = JObject (pairs_del ps k)"
| "json_object_del j k = j"

fun json_object_update :: "json \<Rightarrow> json \<Rightarrow> json" where
  "json_object_update (JObject ps) (JObject qs) =
     JObject (foldl (\<lambda>acc (k, v). pairs_set acc k v) ps qs)"
| "json_object_update j _ = j"

fun json_object_update_existing :: "json \<Rightarrow> json \<Rightarrow> json" where
  "json_object_update_existing (JObject ps) (JObject qs) =
     JObject (foldl (\<lambda>acc (k, v). if map_of acc k \<noteq> None then pairs_set acc k v else acc) ps qs)"
| "json_object_update_existing j _ = j"

fun json_object_update_missing :: "json \<Rightarrow> json \<Rightarrow> json" where
  "json_object_update_missing (JObject ps) (JObject qs) =
     JObject (foldl (\<lambda>acc (k, v). if map_of acc k = None then pairs_set acc k v else acc) ps qs)"
| "json_object_update_missing j _ = j"

section \<open>Arrays\<close>

fun json_array_size :: "jn \<Rightarrow> nat" where
  "json_array_size (Some (JArray xs)) = length xs"
| "json_array_size _ = 0"

fun json_array_get :: "jn \<Rightarrow> nat \<Rightarrow> jn" where
  "json_array_get (Some (JArray xs)) i = (if i \<ge> length xs then None else Some (xs ! i))"
| "json_array_get _ i = None"

fun json_array_append :: "json \<Rightarrow> json \<Rightarrow> json" where
  "json_array_append (JArray xs) v = JArray (xs @ [v])"
| "json_array_append j v = j"

fun json_array_remove :: "json \<Rightarrow> nat \<Rightarrow> json" where
  "json_array_remove (JArray xs) i =
     (if i \<ge> length xs then JArray xs else JArray (take i xs @ drop (i + 1) xs))"
| "json_array_remove j i = j"

section \<open>Equality\<close>

text \<open>
  \<open>json_equal\<close>: objects are compared by size and by the value of every key of the first one,
  whatever the order of the pairs.
\<close>

lemma pairs_size [termination_simp]:
  "(k, v) \<in> set ps \<Longrightarrow> size v < Suc (size_list (size_prod (\<lambda>x. 0) size) ps)"
  by (induction ps) auto

lemma zip_size [termination_simp]:
  "(x, y) \<in> set (zip xs ys) \<Longrightarrow> size x < Suc (size_list size xs)"
  by (induction xs ys rule: list_induct2') auto

fun json_equal :: "json \<Rightarrow> json \<Rightarrow> bool" where
  "json_equal JNull JNull = True"
| "json_equal (JBool a) (JBool b) = (a = b)"
| "json_equal (JInt a) (JInt b) = (a = b)"
| "json_equal (JReal a) (JReal b) = (a = b)"
| "json_equal (JString a) (JString b) = (a = b)"
| "json_equal (JArray xs) (JArray ys) =
     (length xs = length ys \<and> (\<forall>(x, y) \<in> set (zip xs ys). json_equal x y))"
| "json_equal (JObject ps) (JObject qs) =
     (length ps = length qs \<and>
      (\<forall>(k, v) \<in> set ps. case map_of qs k of None \<Rightarrow> False | Some w \<Rightarrow> json_equal v w))"
| "json_equal _ _ = False"


section \<open>Numbers in strings\<close>

text \<open>The value of a digit or letter in \<open>strtoll\<close>.\<close>

definition digit_val :: "char \<Rightarrow> nat option" where
  "digit_val c = (let n = of_char c :: nat in
     if 48 \<le> n \<and> n \<le> 57 then Some (n - 48)
     else if 65 \<le> n \<and> n \<le> 90 then Some (n - 55)
     else if 97 \<le> n \<and> n \<le> 122 then Some (n - 87)
     else None)"

fun digits_loop :: "int \<Rightarrow> int \<Rightarrow> string \<Rightarrow> int" where
  "digits_loop base acc [] = acc"
| "digits_loop base acc (c # cs) = (case digit_val c of
     Some d \<Rightarrow> if int d < base then digits_loop base (acc * base + int d) cs else acc
   | None \<Rightarrow> acc)"

definition hex_prefix :: "string \<Rightarrow> bool" where
  "hex_prefix s \<longleftrightarrow> (case s of
     z # x # d # _ \<Rightarrow> z = CHR ''0'' \<and> (x = CHR ''x'' \<or> x = CHR ''X'') \<and>
       (case digit_val d of Some v \<Rightarrow> v < 16 | None \<Rightarrow> False)
   | _ \<Rightarrow> False)"

text \<open>\<open>strtoll\<close> with its saturation at the ends of \<open>long long\<close>; base 0 detects the prefix.\<close>

definition strtoll :: "string \<Rightarrow> nat \<Rightarrow> int" where
  "strtoll str base =
     (let s = dropWhile isspace str;
          neg = (s \<noteq> [] \<and> hd s = CHR ''-'');
          s = (if s \<noteq> [] \<and> (hd s = CHR ''-'' \<or> hd s = CHR ''+'') then tl s else s);
          hex = ((base = 0 \<or> base = 16) \<and> hex_prefix s);
          b = (if base \<noteq> 0 then base else if hex then 16
               else if s \<noteq> [] \<and> hd s = CHR ''0'' then 8 else 10);
          s = (if hex then drop 2 s else s);
          v = digits_loop (int b) 0 s;
          v = (if neg then - v else v)
      in if v > 2 ^ 63 - 1 then 2 ^ 63 - 1 else if v < - (2 ^ 63) then - (2 ^ 63) else v)"

definition int32 :: "int \<Rightarrow> int" where
  "int32 i = (i + 2 ^ 31) mod 2 ^ 32 - 2 ^ 31"

definition atoi :: "string \<Rightarrow> int" where
  "atoi s = int32 (strtoll s 10)"

text \<open>
  Conversions of floating point numbers that the C library performs, as parameters: \<open>atof\<close>, the
  casts between \<open>double\<close> and \<open>json_int_t\<close> and the format \<open>%.17f\<close>.
\<close>

record libc_real =
  lc_atof :: "string \<Rightarrow> rat"
  lc_real_of_int :: "int \<Rightarrow> rat"
  lc_int_of_real :: "rat \<Rightarrow> int"
  lc_print_real :: "rat \<Rightarrow> string"

section \<open>Simple values: conversion and comparison\<close>

definition jn2real :: "libc_real \<Rightarrow> jn \<Rightarrow> rat" where
  "jn2real lc v = (case v of
     Some (JReal r) \<Rightarrow> r
   | Some (JInt i) \<Rightarrow> lc_real_of_int lc i
   | Some (JString s) \<Rightarrow> lc_atof lc s
   | Some (JBool b) \<Rightarrow> (if b then 1 else 0)
   | _ \<Rightarrow> 0)"

definition jn2integer :: "libc_real \<Rightarrow> jn \<Rightarrow> int" where
  "jn2integer lc v = (case v of
     Some (JReal r) \<Rightarrow> lc_int_of_real lc r
   | Some (JInt i) \<Rightarrow> i
   | Some (JString s) \<Rightarrow>
       (if s \<noteq> [] \<and> hd s = CHR ''0'' then strtoll s 8
        else if s \<noteq> [] \<and> (hd s = CHR ''x'' \<or> hd s = CHR ''X'') then strtoll s 16
        else strtoll s 10)
   | Some (JBool b) \<Rightarrow> (if b then 1 else 0)
   | _ \<Rightarrow> 0)"

fun nat_digits :: "nat \<Rightarrow> string" where
  "nat_digits n = (if n < 10 then [char_of (48 + n)]
     else nat_digits (n div 10) @ [char_of (48 + n mod 10)])"

declare nat_digits.simps [simp del]

definition print_int :: "int \<Rightarrow> string" where
  "print_int i = (if i < 0 then CHR ''-'' # nat_digits (nat (- i)) else nat_digits (nat i))"

definition jn2string :: "libc_real \<Rightarrow> jn \<Rightarrow> string" where
  "jn2string lc v = (case v of
     Some (JString s) \<Rightarrow> s
   | Some (JInt i) \<Rightarrow> print_int i
   | Some (JReal r) \<Rightarrow> lc_print_real lc r
   | Some (JBool b) \<Rightarrow> (if b then ''1'' else ''0'')
   | _ \<Rightarrow> [])"

definition jn2bool :: "jn \<Rightarrow> bool" where
  "jn2bool v = (case v of
     Some (JReal r) \<Rightarrow> r \<noteq> 0
   | Some (JInt i) \<Rightarrow> i \<noteq> 0
   | Some (JString s) \<Rightarrow> s \<noteq> []
   | Some (JBool b) \<Rightarrow> b
   | _ \<Rightarrow> False)"

text \<open>\<open>strcmp\<close> up to the sign of its result.\<close>

fun strcmp :: "string \<Rightarrow> string \<Rightarrow> int" where
  "strcmp [] [] = 0"
| "strcmp [] (d # ds) = -1"
| "strcmp (c # cs) [] = 1"
| "strcmp (c # cs) (d # ds) =
     (if of_char c < (of_char d :: nat) then -1
      else if of_char d < (of_char c :: nat) then 1 else strcmp cs ds)"

definition cmp_values :: "'a::linorder \<Rightarrow> 'a \<Rightarrow> int" where
  "cmp_values a b = (if a > b then 1 else if a < b then -1 else 0)"

definition cmp_two_simple_json :: "libc_real \<Rightarrow> jn \<Rightarrow> jn \<Rightarrow> int" where
  "cmp_two_simple_json lc v1 v2 =
     (if json_is_object v1 \<or> json_is_object v2 \<or> json_is_array v1 \<or> json_is_array v2 then -1
      else if json_is_real v1 \<or> json_is_real v2 then cmp_values (jn2real lc v1) (jn2real lc v2)
      else if json_is_integer v1 \<or> json_is_integer v2
        then cmp_values (jn2integer lc v1) (jn2integer lc v2)
      else if json_is_boolean v1 \<or> json_is_boolean v2
        then cmp_values (jn2integer lc v1) (jn2integer lc v2)
      else strcmp (jn2string lc v1) (jn2string lc v2))"

text \<open>\<open>json_size\<close> of \<^verbatim>\<open>helpers.c\<close>; a string counts one when it is not empty.\<close>

fun json_size :: "jn \<Rightarrow> nat" where
  "json_size (Some (JArray xs)) = length xs"
| "json_size (Some (JObject ps)) = length ps"
| "json_size (Some (JString s)) = (if s = [] then 0 else 1)"
| "json_size _ = 0"

section \<open>Lists used as sets, ranges, recursive update\<close>

fun list_find_loop :: "nat \<Rightarrow> json list \<Rightarrow> json \<Rightarrow> int" where
  "list_find_loop i [] v = -1"
| "list_find_loop i (x # xs) v = (if json_equal x v then int i else list_find_loop (i + 1) xs v)"

definition json_list_find :: "json \<Rightarrow> json \<Rightarrow> int" where
  "json_list_find l v = (case l of JArray xs \<Rightarrow> list_find_loop 0 xs v | _ \<Rightarrow> -1)"

fun list_update_loop :: "bool \<Rightarrow> json \<Rightarrow> json list \<Rightarrow> json" where
  "list_update_loop as_set l [] = l"
| "list_update_loop as_set l (v # vs) =
     (if as_set then
        (if json_list_find l v < 0 then list_update_loop as_set (json_array_append l v) vs
         else list_update_loop as_set l vs)
      else list_update_loop as_set (json_array_append l v) vs)"

definition json_list_update :: "json \<Rightarrow> json \<Rightarrow> bool \<Rightarrow> int \<times> json" where
  "json_list_update l other as_set = (case (l, other) of
     (JArray _, JArray vs) \<Rightarrow> (0, list_update_loop as_set l vs)
   | _ \<Rightarrow> (-1, l))"

definition json_is_range :: "jn \<Rightarrow> (int \<times> int) option" where
  "json_is_range l =
     (if json_array_size l \<noteq> 2 then None
      else let first = json_integer_value (json_array_get l 0);
               second = json_integer_value (json_array_get l 1)
           in if first \<le> second then Some (first, second) else None)"

definition json_range_list :: "jn \<Rightarrow> jn" where
  "json_range_list l = (case json_is_range l of
     None \<Rightarrow> None
   | Some (first, second) \<Rightarrow> Some (JArray (map JInt [first..second])))"

fun listsrange_loop :: "json \<Rightarrow> json list \<Rightarrow> json" where
  "listsrange_loop acc [] = acc"
| "listsrange_loop acc (v # vs) =
     (if json_is_integer (Some v) then
        (if json_list_find acc v < 0 then listsrange_loop (json_array_append acc v) vs
         else listsrange_loop acc vs)
      else if json_is_array (Some v) then
        (if json_is_range (Some v) \<noteq> None then
           (case json_range_list (Some v) of
              Some rng \<Rightarrow> listsrange_loop (snd (json_list_update acc rng True)) vs
            | None \<Rightarrow> listsrange_loop acc vs)
         else listsrange_loop (snd (json_list_update acc v True)) vs)
      else listsrange_loop acc vs)"

definition json_listsrange2set :: "jn \<Rightarrow> jn" where
  "json_listsrange2set l = (case l of
     Some (JArray vs) \<Rightarrow> Some (listsrange_loop (JArray []) vs)
   | _ \<Rightarrow> None)"

text \<open>
  \<open>json_dict_recursive_update\<close>, as the loop over the pairs of \<open>other\<close>: dicts are merged, lists
  are merged as sets when \<open>overwrite\<close>, other values are replaced or kept.
\<close>

fun dict_update_loop :: "bool \<Rightarrow> json \<Rightarrow> (string \<times> json) list \<Rightarrow> json" where
  "dict_update_loop ow obj [] = obj"
| "dict_update_loop ow obj ((k, v) # rest) =
     dict_update_loop ow
       (case (json_object_get (Some obj) k, v) of
          (Some (JObject ps), JObject qs) \<Rightarrow>
            json_object_set obj k (dict_update_loop ow (JObject ps) qs)
        | (Some (JArray xs), JArray ys) \<Rightarrow>
            (if ow then json_object_set obj k (snd (json_list_update (JArray xs) v True)) else obj)
        | (dv, _) \<Rightarrow>
            (if ow then json_object_set obj k v
             else if dv = None then json_object_set obj k v else obj))
       rest"

definition json_dict_recursive_update :: "json \<Rightarrow> json \<Rightarrow> bool \<Rightarrow> int \<times> json" where
  "json_dict_recursive_update obj other ow = (case (obj, other) of
     (JObject _, JObject qs) \<Rightarrow> (0, dict_update_loop ow obj qs)
   | _ \<Rightarrow> (-1, obj))"

section \<open>Well-formed values\<close>

text \<open>A hash table has at most one pair per key; \<open>json_ok\<close> says so at every level.\<close>

fun json_ok :: "json \<Rightarrow> bool" where
  "json_ok (JArray xs) = (\<forall>x \<in> set xs. json_ok x)"
| "json_ok (JObject ps) = (distinct (map fst ps) \<and> (\<forall>(k, v) \<in> set ps. json_ok v))"
| "json_ok _ = True"

lemma map_of_pairs_set [simp]: "map_of (pairs_set ps k v) = (map_of ps)(k \<mapsto> v)"
  by (induction ps k v rule: pairs_set.induct) (auto simp: fun_eq_iff)

lemma keys_pairs_set [simp]: "fst ` set (pairs_set ps k v) = insert k (fst ` set ps)"
  by (induction ps k v rule: pairs_set.induct) auto

lemma distinct_pairs_set [simp]:
  "distinct (map fst ps) \<Longrightarrow> distinct (map fst (pairs_set ps k v))"
proof (induction ps k v rule: pairs_set.induct)
  case (2 k' v' ps k v)
  then have "k' \<noteq> k \<Longrightarrow> k' \<notin> fst ` set (pairs_set ps k v)"
    by (simp del: set_map add: set_map [symmetric]) (simp add: set_map)
  with 2 show ?case by auto
qed simp

lemma set_pairs_set: "set (pairs_set ps k v) \<subseteq> insert (k, v) (set ps)"
  by (induction ps k v rule: pairs_set.induct) auto

lemma map_of_pairs_del [simp]: "map_of (pairs_del ps k) = (map_of ps)(k := None)"
  by (induction ps) (auto simp: pairs_del_def fun_eq_iff)

lemma pairs_del_subset: "set (pairs_del ps k) \<subseteq> set ps"
  by (auto simp: pairs_del_def)

lemma distinct_pairs_del [simp]:
  "distinct (map fst ps) \<Longrightarrow> distinct (map fst (pairs_del ps k))"
  by (simp add: pairs_del_def distinct_map_filter)

lemma map_of_foldl_set:
  "map_of (foldl (\<lambda>acc (k, v). pairs_set acc k v) ps qs) = map_of ps ++ map_of (rev qs)"
  by (induction qs arbitrary: ps) (auto simp: map_add_upd_left map_add_def fun_eq_iff
      split: option.splits)

lemma map_of_rev_distinct: "distinct (map fst qs) \<Longrightarrow> map_of (rev qs) = map_of qs"
  by (simp add: map_of_inject_set rev_map [symmetric])

lemma json_ok_set: "json_ok j \<Longrightarrow> json_ok v \<Longrightarrow> json_ok (json_object_set j k v)"
  by (cases j) (auto dest!: set_mp [OF set_pairs_set])

lemma json_ok_del: "json_ok j \<Longrightarrow> json_ok (json_object_del j k)"
  by (cases j) (auto dest!: set_mp [OF pairs_del_subset])

lemma json_ok_get: "json_ok j \<Longrightarrow> json_object_get (Some j) k = Some v \<Longrightarrow> json_ok v"
  by (cases j) (auto dest: map_of_SomeD)

lemma json_ok_foldl_set:
  "json_ok (JObject ps) \<Longrightarrow> (\<And>k v. (k, v) \<in> set qs \<Longrightarrow> json_ok v) \<Longrightarrow>
   json_ok (JObject (foldl (\<lambda>acc (k, v). pairs_set acc k v) ps qs))"
proof (induction qs arbitrary: ps)
  case Nil
  then show ?case by simp
next
  case (Cons q qs)
  obtain k v where q: "q = (k, v)" by force
  have "json_ok (JObject (pairs_set ps k v))"
    using json_ok_set [of "JObject ps" v k] Cons.prems(1) Cons.prems(2) [of k v] q by simp
  moreover have "(\<And>k v. (k, v) \<in> set qs \<Longrightarrow> json_ok v)"
    using Cons.prems(2) by (metis list.set_intros(2))
  ultimately show ?case
    using Cons.IH q by (simp del: json_ok.simps)
qed

lemma json_ok_update:
  assumes "json_ok j" "json_ok j'"
  shows "json_ok (json_object_update j j')"
proof (cases "\<exists>ps qs. j = JObject ps \<and> j' = JObject qs")
  case True
  then obtain ps qs where jj: "j = JObject ps" "j' = JObject qs" by blast
  have "json_ok (JObject (foldl (\<lambda>acc (k, v). pairs_set acc k v) ps qs))"
    by (rule json_ok_foldl_set) (use assms jj in auto)
  then show ?thesis by (simp add: jj)
next
  case False
  then show ?thesis using assms(1) by (cases j; cases j') simp_all
qed

text \<open>The values of \<open>json_object_update\<close>: the second object wins.\<close>

lemma json_object_get_update:
  assumes "json_is_object (Some j)" "json_is_object (Some j')" "json_ok j'"
  shows "json_object_get (Some (json_object_update j j')) k =
    (case json_object_get (Some j') k of None \<Rightarrow> json_object_get (Some j) k | Some v \<Rightarrow> Some v)"
proof -
  from assms obtain ps qs where "j = JObject ps" "j' = JObject qs"
    by (cases j; cases j') auto
  with assms show ?thesis
    by (auto simp: map_of_foldl_set map_of_rev_distinct map_add_def split: option.splits)
qed

section \<open>Equality is an equivalence\<close>

lemma zip_same_mem: "(x, y) \<in> set (zip xs xs) \<Longrightarrow> x = y \<and> x \<in> set xs"
  by (induction xs) auto

lemma json_equal_refl: "json_ok j \<Longrightarrow> json_equal j j"
proof (induction j)
  case (JArray xs)
  then show ?case by (auto dest!: zip_same_mem)
next
  case (JObject ps)
  show ?case
  proof (simp, safe)
    fix k v assume kv: "(k, v) \<in> set ps"
    then have "map_of ps k = Some v" using JObject.prems by simp
    moreover have "json_equal v v"
      using JObject.IH [OF kv, of v] JObject.prems kv by auto
    ultimately show "case map_of ps k of None \<Rightarrow> False | Some w \<Rightarrow> json_equal v w" by simp
  qed
qed simp_all

text \<open>Two objects are equal when they have the same keys and equal values under every key.\<close>

lemma json_equal_objects:
  assumes "json_ok (JObject ps)" "json_ok (JObject qs)"
  shows "json_equal (JObject ps) (JObject qs) \<longleftrightarrow>
    dom (map_of ps) = dom (map_of qs) \<and>
    (\<forall>k v w. map_of ps k = Some v \<longrightarrow> map_of qs k = Some w \<longrightarrow> json_equal v w)"
    (is "?l \<longleftrightarrow> ?r")
proof
  assume l: ?l
  then have sub: "fst ` set ps \<subseteq> fst ` set qs"
    by (force simp: dom_map_of_conv_image_fst [symmetric] split: option.splits)
  have "card (fst ` set ps) = card (fst ` set qs)"
    using l assms by (simp add: distinct_card flip: set_map)
  with sub have "fst ` set ps = fst ` set qs"
    by (simp add: card_subset_eq)
  moreover have "json_equal v w" if "map_of ps k = Some v" "map_of qs k = Some w" for k v w
    using l map_of_SomeD [OF that(1)] that(2) by fastforce
  ultimately show ?r by (simp add: dom_map_of_conv_image_fst)
next
  assume r: ?r
  then have "fst ` set ps = fst ` set qs" by (simp add: dom_map_of_conv_image_fst)
  then have "length ps = length qs"
    using assms by (metis distinct_card json_ok.simps(2) length_map set_map)
  moreover have "case map_of qs k of None \<Rightarrow> False | Some w \<Rightarrow> json_equal v w"
    if "(k, v) \<in> set ps" for k v
  proof -
    from that assms have "map_of ps k = Some v" by simp
    with r show ?thesis by (cases "map_of qs k") auto
  qed
  ultimately show ?l by auto
qed

lemma json_equal_sym: "json_ok j \<Longrightarrow> json_ok j' \<Longrightarrow> json_equal j j' \<Longrightarrow> json_equal j' j"
proof (induction j j' rule: json_equal.induct)
  case (6 xs ys)
  have "json_equal y x" if "(y, x) \<in> set (zip ys xs)" for x y
  proof -
    from that have xy: "(x, y) \<in> set (zip xs ys)"
      using 6(4) by (auto simp: set_zip)
    then have "json_ok x" "json_ok y"
      using 6(2,3) by (auto dest: set_zip_leftD set_zip_rightD)
    with xy 6(1) [OF xy] 6(4) show ?thesis by auto
  qed
  then show ?case using 6(4) by auto
next
  case (7 ps qs)
  from 7(4) have eq: "dom (map_of ps) = dom (map_of qs)"
    and all: "\<And>k v w. map_of ps k = Some v \<Longrightarrow> map_of qs k = Some w \<Longrightarrow> json_equal v w"
    using json_equal_objects [OF 7(2,3)] by auto
  have "json_equal w v" if "map_of ps k = Some v" "map_of qs k = Some w" for k v w
  proof -
    have mem: "(k, v) \<in> set ps" "(k, w) \<in> set qs"
      using that by (auto dest: map_of_SomeD)
    then have "json_ok v" "json_ok w" using 7(2,3) by auto
    then show ?thesis
      using 7(1) [OF mem(1) refl that(2)] all [OF that] by blast
  qed
  then show ?case
    using json_equal_objects [OF 7(3,2)] eq by simp
qed auto

section \<open>Lists as sets\<close>

lemma list_find_loop_found:
  "list_find_loop i xs v \<ge> 0 \<longleftrightarrow> (\<exists>x \<in> set xs. json_equal x v)"
  by (induction i xs v rule: list_find_loop.induct) auto

lemma json_list_find_found:
  "json_list_find (JArray xs) v < 0 \<longleftrightarrow> \<not> (\<exists>x \<in> set xs. json_equal x v)"
  using list_find_loop_found [of 0 xs v] by (auto simp: json_list_find_def)

text \<open>No two different positions hold equal values.\<close>

definition json_set :: "json list \<Rightarrow> bool" where
  "json_set xs \<longleftrightarrow> sorted_wrt (\<lambda>x y. \<not> json_equal x y) xs"

lemma json_set_snoc:
  "json_set (xs @ [v]) \<longleftrightarrow> json_set xs \<and> \<not> (\<exists>x \<in> set xs. json_equal x v)"
  by (auto simp: json_set_def sorted_wrt_append)

lemma list_update_loop_set:
  assumes "json_set xs" "\<forall>v \<in> set vs. json_ok v"
  shows "\<exists>ys. list_update_loop True (JArray xs) vs = JArray (xs @ ys) \<and> json_set (xs @ ys) \<and>
    set ys \<subseteq> set vs \<and> (\<forall>v \<in> set vs. \<exists>x \<in> set (xs @ ys). json_equal x v)"
  using assms
proof (induction vs arbitrary: xs)
  case Nil
  then show ?case by simp
next
  case (Cons v vs)
  show ?case
  proof (cases "json_list_find (JArray xs) v < 0")
    case True
    then have "json_set (xs @ [v])"
      using Cons.prems by (simp add: json_list_find_found json_set_snoc)
    from Cons.IH [OF this] Cons.prems obtain ys where ys:
      "list_update_loop True (JArray (xs @ [v])) vs = JArray ((xs @ [v]) @ ys)"
      "json_set ((xs @ [v]) @ ys)" "set ys \<subseteq> set vs"
      "\<forall>w \<in> set vs. \<exists>x \<in> set ((xs @ [v]) @ ys). json_equal x w" by auto
    have "json_equal v v" using Cons.prems by (simp add: json_equal_refl)
    with True ys show ?thesis by (intro exI [of _ "v # ys"]) auto
  next
    case False
    from Cons.IH [OF Cons.prems(1)] Cons.prems(2) obtain ys where ys:
      "list_update_loop True (JArray xs) vs = JArray (xs @ ys)"
      "json_set (xs @ ys)" "set ys \<subseteq> set vs"
      "\<forall>w \<in> set vs. \<exists>x \<in> set (xs @ ys). json_equal x w" by auto
    from False obtain x where "x \<in> set xs" "json_equal x v"
      by (auto simp: json_list_find_found)
    with False ys show ?thesis by (intro exI [of _ ys]) auto
  qed
qed

section \<open>Recursive update\<close>

text \<open>Updating one key at a time: keys that are not in \<open>other\<close> keep their value.\<close>

lemma get_set_other [simp]:
  "k \<noteq> k' \<Longrightarrow> json_object_get (Some (json_object_set obj k v)) k' = json_object_get (Some obj) k'"
  by (cases obj) simp_all

lemma get_set_same [simp]:
  "json_is_object (Some obj) \<Longrightarrow> json_object_get (Some (json_object_set obj k v)) k = Some v"
  by (cases obj) simp_all

lemma is_object_set [simp]:
  "json_is_object (Some (json_object_set obj k v)) = json_is_object (Some obj)"
  by (cases obj) simp_all

lemma dict_update_loop_other:
  "k \<notin> fst ` set qs \<Longrightarrow>
   json_object_get (Some (dict_update_loop ow obj qs)) k = json_object_get (Some obj) k"
proof (induction ow obj qs rule: dict_update_loop.induct)
  case (2 ow obj k' v rest)
  then show ?case
    by (auto split: json.split option.split)
qed simp

text \<open>With \<open>overwrite\<close> off nothing that is not a dict on both sides changes.\<close>

lemma dict_update_loop_keeps:
  "json_object_get (Some obj) k = Some w \<Longrightarrow> \<not> json_is_object (Some w) \<Longrightarrow>
   json_object_get (Some (dict_update_loop False obj qs)) k = Some w"
proof (induction qs arbitrary: obj)
  case Nil
  then show ?case by simp
next
  case (Cons q rest)
  obtain k' v where q: "q = (k', v)" by force
  have step: "\<exists>obj'. dict_update_loop False obj (q # rest) = dict_update_loop False obj' rest \<and>
      json_object_get (Some obj') k = Some w"
  proof (cases "k' = k")
    case True
    then show ?thesis
      using Cons.prems by (cases w; cases v) (auto simp: q)
  next
    case False
    then show ?thesis
      using Cons.prems by (auto simp: q split: json.split option.split)
  qed
  then show ?case using Cons.IH Cons.prems(2) by metis
qed

end
