(* ===== verification/KwId.thy ===== *)
theory KwId
  imports Json
begin

text \<open>
  Access to json messages by path: \<^verbatim>\<open>kernel/c/gobj-c/src/kwid.c\<close>. A path is a string of segments
  separated by the delimiter; an object is walked by key and an array by index. The functions that
  write return the modified \<open>kw\<close>, since the C code changes it in place.
\<close>

unbundle bit_operations_syntax

section \<open>Flags and constants\<close>

type_synonym kw_flag = "32 word"

definition KW_REQUIRED :: kw_flag where "KW_REQUIRED = 1"
definition KW_CREATE :: kw_flag where "KW_CREATE = 2"
definition KW_WILD_NUMBER :: kw_flag where "KW_WILD_NUMBER = 4"
definition KW_EXTRACT :: kw_flag where "KW_EXTRACT = 8"

definition has_flag :: "32 word \<Rightarrow> 32 word \<Rightarrow> bool" where
  "has_flag flag bits \<longleftrightarrow> flag AND bits \<noteq> 0"

definition KW_MAX_PATH_DEPTH :: nat where "KW_MAX_PATH_DEPTH = 64"

text \<open>The default delimiter of \<open>kwid.c\<close> and the sizes of its local buffers.\<close>

definition delimiter :: char where "delimiter = CHR 0x60"
definition segment_size :: nat where "segment_size = 256"
definition match_path_size :: nat where "match_path_size = 255"

text \<open>\<open>snprintf(buf, size, "%s", s)\<close>.\<close>

definition snprintf :: "nat \<Rightarrow> string \<Rightarrow> string" where
  "snprintf buf_size s = take (buf_size - 1) s"

section \<open>Reading by path\<close>

definition kw_has_key :: "jn \<Rightarrow> string \<Rightarrow> bool" where
  "kw_has_key kw key = (if \<not> json_is_object kw then False else json_object_get kw key \<noteq> None)"

text \<open>The text before the first delimiter and the text behind it, as \<open>strchr\<close> finds it.\<close>

definition search_delimiter :: "string \<Rightarrow> (string \<times> string) option" where
  "search_delimiter s = (if delimiter \<in> set s
     then Some (takeWhile (\<lambda>c. c \<noteq> delimiter) s, tl (dropWhile (\<lambda>c. c \<noteq> delimiter) s)) else None)"

text \<open>\<open>json_array_get(kw, idx)\<close> with an \<open>int\<close>: a negative index becomes a huge \<open>size_t\<close>.\<close>

definition array_get_int :: "jn \<Rightarrow> int \<Rightarrow> jn" where
  "array_get_int kw idx = (if idx < 0 then None else json_array_get kw (nat idx))"

function kw_find_path_depth :: "jn \<Rightarrow> string option \<Rightarrow> nat \<Rightarrow> jn" where
  "kw_find_path_depth kw path depth =
     (if depth \<ge> KW_MAX_PATH_DEPTH then None
      else if \<not> (json_is_object kw \<or> json_is_array kw) then None
      else case path of None \<Rightarrow> None
      | Some p \<Rightarrow> (case search_delimiter p of
          None \<Rightarrow> (if json_is_object kw then json_object_get kw p else array_get_int kw (atoi p))
        | Some (seg, rest) \<Rightarrow>
            (let segment = snprintf segment_size seg;
                 next_json = (if json_is_object kw then json_object_get kw segment
                              else array_get_int kw (atoi segment))
             in if next_json = None \<or> json_is_null next_json then None
                else kw_find_path_depth next_json (Some rest) (depth + 1))))"
  by pat_completeness auto
termination
  by (relation "measure (\<lambda>(kw, path, depth). KW_MAX_PATH_DEPTH - depth)") auto

declare kw_find_path_depth.simps [simp del]

definition kw_find_path :: "jn \<Rightarrow> string option \<Rightarrow> jn" where
  "kw_find_path kw path = kw_find_path_depth kw path 0"

section \<open>Writing by path\<close>

text \<open>\<open>split2\<close>: the tokens of \<open>strtok_r\<close>, so without empty ones.\<close>

fun split2_loop :: "string \<Rightarrow> string \<Rightarrow> string list" where
  "split2_loop acc [] = (if acc = [] then [] else [acc])"
| "split2_loop acc (c # cs) =
     (if c = delimiter then (if acc = [] then split2_loop [] cs else acc # split2_loop [] cs)
      else split2_loop (acc @ [c]) cs)"

definition split2 :: "string \<Rightarrow> string list" where
  "split2 str = split2_loop [] str"

text \<open>
  The walk of \<open>kw_set_dict_value\<close>: missing dicts are created on the way, the last segment is set
  when it is missing, and an existing value is left as it is. \<open>value\<close> may be NULL.
\<close>

fun set_dict_loop :: "json \<Rightarrow> string list \<Rightarrow> jn \<Rightarrow> json" where
  "set_dict_loop v [] value = v"
| "set_dict_loop v (segment # segments) value = (case v of
     JObject ps \<Rightarrow> (case map_of ps segment of
         None \<Rightarrow> (if segments \<noteq> []
            then JObject (pairs_set ps segment (set_dict_loop (JObject []) segments value))
            else (case value of None \<Rightarrow> v | Some x \<Rightarrow> JObject (pairs_set ps segment x)))
       | Some nxt \<Rightarrow> JObject (pairs_set ps segment (set_dict_loop nxt segments value)))
   | JArray xs \<Rightarrow> (case array_get_int (Some v) (atoi segment) of
         None \<Rightarrow> v
       | Some nxt \<Rightarrow> JArray (xs[nat (atoi segment) := set_dict_loop nxt segments value]))
   | _ \<Rightarrow> v)"

definition kw_set_dict_value :: "jn \<Rightarrow> string \<Rightarrow> jn \<Rightarrow> int \<times> jn" where
  "kw_set_dict_value kw path value = (case kw of
     Some (JObject ps) \<Rightarrow> (0, Some (set_dict_loop (JObject ps) (split2 path) value))
   | _ \<Rightarrow> (-1, kw))"

text \<open>
  Changing the dict found by a path: the same walk as \<open>kw_find_path_depth\<close>, with \<open>f\<close> applied to the
  value it ends at. It stands for writing through the pointer that \<open>kw_find_path\<close> returns.
\<close>

function kw_change_path :: "json \<Rightarrow> string \<Rightarrow> nat \<Rightarrow> (json \<Rightarrow> json) \<Rightarrow> json" where
  "kw_change_path kw path depth f =
     (if depth \<ge> KW_MAX_PATH_DEPTH then kw
      else (case search_delimiter path of
          None \<Rightarrow> (case kw of
              JObject ps \<Rightarrow> (case map_of ps path of None \<Rightarrow> kw
                | Some v \<Rightarrow> JObject (pairs_set ps path (f v)))
            | JArray xs \<Rightarrow> (case array_get_int (Some kw) (atoi path) of None \<Rightarrow> kw
                | Some v \<Rightarrow> JArray (xs[nat (atoi path) := f v]))
            | _ \<Rightarrow> kw)
        | Some (seg, rest) \<Rightarrow>
            (let segment = snprintf segment_size seg in
             case kw of
               JObject ps \<Rightarrow> (case map_of ps segment of None \<Rightarrow> kw
                 | Some v \<Rightarrow> JObject (pairs_set ps segment (kw_change_path v rest (depth + 1) f)))
             | JArray xs \<Rightarrow> (case array_get_int (Some kw) (atoi segment) of None \<Rightarrow> kw
                 | Some v \<Rightarrow>
                     JArray (xs[nat (atoi segment) := kw_change_path v rest (depth + 1) f]))
             | _ \<Rightarrow> kw)))"
  by pat_completeness auto
termination
  by (relation "measure (\<lambda>(kw, path, depth, f). KW_MAX_PATH_DEPTH - depth)") auto

declare kw_change_path.simps [simp del]

text \<open>The text before and behind the last delimiter (\<open>strrchr\<close>).\<close>

definition rsplit :: "string \<Rightarrow> (string \<times> string) option" where
  "rsplit s = (if delimiter \<in> set s
     then Some (rev (tl (dropWhile (\<lambda>c. c \<noteq> delimiter) (rev s))),
                rev (takeWhile (\<lambda>c. c \<noteq> delimiter) (rev s))) else None)"

definition kw_delete :: "jn \<Rightarrow> string \<Rightarrow> int \<times> jn" where
  "kw_delete kw path = (case rsplit path of
     Some (s, k) \<Rightarrow>
       (case json_object_get (kw_find_path kw (Some s)) k of
          None \<Rightarrow> (-1, kw)
        | Some _ \<Rightarrow> (0, map_option (\<lambda>j. kw_change_path j s 0 (\<lambda>v. json_object_del v k)) kw))
   | None \<Rightarrow>
       (case json_object_get kw path of
          None \<Rightarrow> (-1, kw)
        | Some _ \<Rightarrow> (0, map_option (\<lambda>j. json_object_del j path) kw)))"

section \<open>Typed access with flags\<close>

definition kw_get_dict :: "jn \<Rightarrow> string \<Rightarrow> jn \<Rightarrow> kw_flag \<Rightarrow> jn \<times> jn" where
  "kw_get_dict kw path dflt flag = (case kw_find_path kw (Some path) of
     None \<Rightarrow>
       (if has_flag flag KW_CREATE \<and> dflt \<noteq> None \<and> kw \<noteq> None
        then (dflt, snd (kw_set_dict_value kw path dflt)) else (dflt, kw))
   | Some v \<Rightarrow>
       (if \<not> json_is_object (Some v) then (dflt, kw)
        else if has_flag flag KW_EXTRACT then (Some v, snd (kw_delete kw path))
        else (Some v, kw)))"

definition kw_get_list :: "jn \<Rightarrow> string \<Rightarrow> jn \<Rightarrow> kw_flag \<Rightarrow> jn \<times> jn" where
  "kw_get_list kw path dflt flag = (case kw_find_path kw (Some path) of
     None \<Rightarrow>
       (if has_flag flag KW_CREATE \<and> dflt \<noteq> None \<and> kw \<noteq> None
        then (dflt, snd (kw_set_dict_value kw path dflt)) else (dflt, kw))
   | Some v \<Rightarrow>
       (if \<not> json_is_array (Some v) then (dflt, kw)
        else if has_flag flag KW_EXTRACT then (Some v, snd (kw_delete kw path))
        else (Some v, kw)))"

definition kw_get_dict_value :: "jn \<Rightarrow> string \<Rightarrow> jn \<Rightarrow> kw_flag \<Rightarrow> jn \<times> jn" where
  "kw_get_dict_value kw path dflt flag = (case kw_find_path kw (Some path) of
     None \<Rightarrow>
       (if has_flag flag KW_CREATE \<and> dflt \<noteq> None \<and> kw \<noteq> None
        then (dflt, snd (kw_set_dict_value kw path dflt)) else (dflt, kw))
   | Some v \<Rightarrow>
       (if has_flag flag KW_EXTRACT then (Some v, snd (kw_delete kw path)) else (Some v, kw)))"

definition kw_get_int :: "libc_real \<Rightarrow> jn \<Rightarrow> string \<Rightarrow> int \<Rightarrow> kw_flag \<Rightarrow> int \<times> jn" where
  "kw_get_int lc kw path dflt flag = (case kw_find_path kw (Some path) of
     None \<Rightarrow>
       (if has_flag flag KW_CREATE \<and> kw \<noteq> None
        then (dflt, snd (kw_set_dict_value kw path (Some (JInt dflt)))) else (dflt, kw))
   | Some v \<Rightarrow>
       (if \<not> (json_is_real (Some v) \<or> json_is_integer (Some v)) \<and> \<not> has_flag flag KW_WILD_NUMBER
        then (dflt, kw)
        else let kw' = (if has_flag flag KW_EXTRACT then snd (kw_delete kw path) else kw) in
          (case v of
             JInt i \<Rightarrow> (i, kw')
           | JReal r \<Rightarrow> (lc_int_of_real lc r, kw')
           | JBool b \<Rightarrow> (if b then 1 else 0, kw')
           | JString s \<Rightarrow> (strtoll s 0, kw')
           | JNull \<Rightarrow> (0, kw')
           | _ \<Rightarrow> (0, kw))))"

text \<open>\<open>strcasecmp\<close> as an equality test.\<close>

definition lower_char :: "char \<Rightarrow> char" where
  "lower_char c = (let n = of_char c :: nat in if 65 \<le> n \<and> n \<le> 90 then char_of (n + 32) else c)"

definition to_lower :: "string \<Rightarrow> string" where
  "to_lower s = map lower_char s"

definition strcasecmp_eq :: "string \<Rightarrow> string \<Rightarrow> bool" where
  "strcasecmp_eq a b \<longleftrightarrow> to_lower a = to_lower b"

definition kw_get_bool :: "jn \<Rightarrow> string \<Rightarrow> bool \<Rightarrow> kw_flag \<Rightarrow> bool \<times> jn" where
  "kw_get_bool kw path dflt flag = (case kw_find_path kw (Some path) of
     None \<Rightarrow>
       (if has_flag flag KW_CREATE \<and> kw \<noteq> None
        then (dflt, snd (kw_set_dict_value kw path (Some (JBool dflt)))) else (dflt, kw))
   | Some v \<Rightarrow>
       (if \<not> json_is_boolean (Some v) \<and> \<not> has_flag flag KW_WILD_NUMBER then (dflt, kw)
        else let kw' = (if has_flag flag KW_EXTRACT then snd (kw_delete kw path) else kw) in
          (case v of
             JBool b \<Rightarrow> (b, kw')
           | JInt i \<Rightarrow> (i \<noteq> 0, kw')
           | JReal r \<Rightarrow> (r \<noteq> 0, kw')
           | JString s \<Rightarrow>
               (if strcasecmp_eq s ''TRUE'' then True
                else if strcasecmp_eq s ''FALSE'' then False
                else atoi s \<noteq> 0, kw')
           | JNull \<Rightarrow> (False, kw')
           | _ \<Rightarrow> (False, kw))))"

definition kw_get_str :: "jn \<Rightarrow> string \<Rightarrow> string option \<Rightarrow> kw_flag \<Rightarrow> string option \<times> jn" where
  "kw_get_str kw path dflt flag = (case kw_find_path kw (Some path) of
     None \<Rightarrow>
       (if has_flag flag KW_CREATE \<and> kw \<noteq> None
        then (dflt, snd (kw_set_dict_value kw path
                (Some (case dflt of None \<Rightarrow> JNull | Some s \<Rightarrow> JString s))))
        else (dflt, kw))
   | Some (JString s) \<Rightarrow> (Some s, kw)
   | Some _ \<Rightarrow> (dflt, kw))"

section \<open>Removing keys and matching filters\<close>

fun kw_pop :: "json \<Rightarrow> json \<Rightarrow> json" where
  "kw_pop kw1 (JObject ps) = fold (\<lambda>(k, v) acc. json_object_del acc k) ps kw1"
| "kw_pop kw1 (JArray xs) = fold (\<lambda>x acc. kw_pop acc x) xs kw1"
| "kw_pop kw1 (JString s) = json_object_del kw1 s"
| "kw_pop kw1 _ = kw1"

text \<open>
  \<open>_kw_match_simple\<close>: an array matches when some element does, an object when all its keys do.
  A leaf is compared with the value found by path or else by the path taken as a key.
\<close>

function kw_match_rec :: "libc_real \<Rightarrow> jn \<Rightarrow> json \<Rightarrow> string \<Rightarrow> bool"
and match_any :: "libc_real \<Rightarrow> jn \<Rightarrow> json list \<Rightarrow> nat \<Rightarrow> string \<Rightarrow> bool"
and match_all :: "libc_real \<Rightarrow> jn \<Rightarrow> (string \<times> json) list \<Rightarrow> string \<Rightarrow> bool" where
  "kw_match_rec lc kw flt prefix_path = (case flt of
     JArray fs \<Rightarrow> match_any lc kw fs 0 prefix_path
   | JObject ps \<Rightarrow> match_all lc kw ps prefix_path
   | _ \<Rightarrow> False)"
| "match_any lc kw [] idx prefix_path = False"
| "match_any lc kw (f # fs) idx prefix_path =
     (let path = (if prefix_path = [] then snprintf match_path_size prefix_path
        else snprintf match_path_size (prefix_path @ [delimiter] @ nat_digits idx))
      in if kw_match_rec lc kw f path then True else match_any lc kw fs (idx + 1) prefix_path)"
| "match_all lc kw [] prefix_path = True"
| "match_all lc kw ((key, v) # ps) prefix_path =
     (let path = (if prefix_path = [] then snprintf match_path_size key
        else snprintf match_path_size (prefix_path @ [delimiter] @ key))
      in if json_is_array (Some v) \<or> json_is_object (Some v)
         then (if kw_match_rec lc kw v path then match_all lc kw ps prefix_path else False)
         else let found = fst (kw_get_dict_value kw path None 0);
                  rec_value = (if found = None then json_object_get kw path else found)
              in if rec_value = None then False
                 else if cmp_two_simple_json lc rec_value (Some v) \<noteq> 0 then False
                 else match_all lc kw ps prefix_path)"
  by pat_completeness auto
termination
  by (relation "measure (\<lambda>x. case x of
      Inl (lc, kw, flt, p) \<Rightarrow> size flt
    | Inr (Inl (lc, kw, fs, i, p)) \<Rightarrow> size_list size fs
    | Inr (Inr (lc, kw, ps, p)) \<Rightarrow> size_list (size_prod (\<lambda>x. 0) size) ps)")
    auto

declare kw_match_rec.simps [simp del]

definition kw_match_simple :: "libc_real \<Rightarrow> jn \<Rightarrow> jn \<Rightarrow> bool" where
  "kw_match_simple lc kw jn_filter =
     (if json_size jn_filter = 0 then True
      else case jn_filter of None \<Rightarrow> False | Some flt \<Rightarrow> kw_match_rec lc kw flt [])"

section \<open>Paths as lists of segments\<close>

text \<open>A segment a path can name: without delimiter, and short enough for the local buffer.\<close>

definition plain :: "string \<Rightarrow> bool" where
  "plain s \<longleftrightarrow> delimiter \<notin> set s \<and> length s < segment_size"

fun join_path :: "string list \<Rightarrow> string" where
  "join_path [] = []"
| "join_path [s] = s"
| "join_path (s # ss) = s @ delimiter # join_path ss"

text \<open>One step and the whole walk, as a specification of \<open>kw_find_path\<close>.\<close>

definition path_step :: "jn \<Rightarrow> string \<Rightarrow> jn" where
  "path_step v s = (if json_is_object v then json_object_get v s else array_get_int v (atoi s))"

fun path_get :: "jn \<Rightarrow> string list \<Rightarrow> jn" where
  "path_get v [] = v"
| "path_get v (s # ss) = path_get (path_step v s) ss"

lemma path_step_None [simp]: "path_step None s = None"
  by (simp add: path_step_def array_get_int_def)

lemma path_step_simple [simp]:
  "\<not> (json_is_object v \<or> json_is_array v) \<Longrightarrow> path_step v s = None"
  by (cases v; cases "the v") (auto simp: path_step_def array_get_int_def)

lemma path_get_None [simp]: "path_get None ss = None"
  by (induction ss) auto

lemma search_delimiter_plain [simp]: "plain s \<Longrightarrow> search_delimiter s = None"
  by (simp add: plain_def search_delimiter_def)

lemma search_delimiter_cons [simp]:
  "plain s \<Longrightarrow> search_delimiter (s @ delimiter # rest) = Some (s, rest)"
proof -
  assume "plain s"
  then have s: "\<forall>c \<in> set s. c \<noteq> delimiter" by (auto simp: plain_def)
  then have "takeWhile (\<lambda>c. c \<noteq> delimiter) (s @ delimiter # rest) = s"
    "dropWhile (\<lambda>c. c \<noteq> delimiter) (s @ delimiter # rest) = delimiter # rest"
    by (simp_all add: takeWhile_append2 dropWhile_append2)
  then show ?thesis by (simp add: search_delimiter_def)
qed

lemma snprintf_plain [simp]: "plain s \<Longrightarrow> snprintf segment_size s = s"
  by (simp add: plain_def snprintf_def segment_size_def)

lemma json_is_null_iff: "json_is_null v \<longleftrightarrow> v = Some JNull"
  by (cases v; cases "the v") auto

lemma kw_find_path_depth_get:
  "\<forall>s \<in> set ss. plain s \<Longrightarrow> ss \<noteq> [] \<Longrightarrow> depth + length ss \<le> KW_MAX_PATH_DEPTH \<Longrightarrow>
   kw_find_path_depth kw (Some (join_path ss)) depth = path_get kw ss"
proof (induction ss arbitrary: kw depth rule: join_path.induct)
  case 1
  then show ?case by simp
next
  case (2 s)
  show ?case
  proof (cases "json_is_object kw \<or> json_is_array kw")
    case True
    then show ?thesis using 2 by (subst kw_find_path_depth.simps) (simp add: path_step_def)
  next
    case False
    then show ?thesis using 2 by (subst kw_find_path_depth.simps) simp
  qed
next
  case (3 s t ss)
  have rest: "kw_find_path_depth k (Some (join_path (t # ss))) (Suc depth) = path_get k (t # ss)" for k
    using 3 by simp
  show ?case
  proof (cases "json_is_object kw \<or> json_is_array kw")
    case True
    let ?n = "path_step kw s"
    have "kw_find_path_depth kw (Some (join_path (s # t # ss))) depth =
        (if ?n = None \<or> json_is_null ?n then None else path_get ?n (t # ss))"
      using 3(2-4) True
      by (subst kw_find_path_depth.simps) (simp add: path_step_def rest Let_def del: path_get.simps)
    then show ?thesis by (auto simp: json_is_null_iff)
  next
    case False
    then show ?thesis using 3(4) by (subst kw_find_path_depth.simps) simp
  qed
qed

lemma kw_find_path_get:
  assumes "\<forall>s \<in> set ss. plain s" "ss \<noteq> []" "length ss \<le> KW_MAX_PATH_DEPTH"
  shows "kw_find_path kw (Some (join_path ss)) = path_get kw ss"
  using kw_find_path_depth_get [of ss 0 kw] assms by (simp add: kw_find_path_def)

lemma kw_find_path_key [simp]:
  assumes "plain s"
  shows "kw_find_path (Some (JObject ps)) (Some s) = map_of ps s"
  using kw_find_path_get [of "[s]" "Some (JObject ps)"] assms
  by (simp add: KW_MAX_PATH_DEPTH_def path_step_def)

section \<open>Setting by path\<close>

lemma split2_loop_app:
  "delimiter \<notin> set s \<Longrightarrow> split2_loop acc (s @ delimiter # cs) =
   (if acc @ s = [] then split2_loop [] cs else (acc @ s) # split2_loop [] cs)"
  by (induction s arbitrary: acc) auto

lemma split2_loop_end:
  "delimiter \<notin> set s \<Longrightarrow> split2_loop acc s = (if acc @ s = [] then [] else [acc @ s])"
  by (induction s arbitrary: acc) auto

lemma split2_join:
  "\<forall>s \<in> set ss. plain s \<and> s \<noteq> [] \<Longrightarrow> split2 (join_path ss) = ss"
  unfolding split2_def
  by (induction ss rule: join_path.induct)
    (auto simp: plain_def split2_loop_app split2_loop_end)

text \<open>Paths that can be set: only dicts are met, up to the first missing key.\<close>

fun settable :: "json \<Rightarrow> string list \<Rightarrow> bool" where
  "settable v [] = False"
| "settable v (s # ss) = (case v of
     JObject ps \<Rightarrow> (case map_of ps s of None \<Rightarrow> True | Some nxt \<Rightarrow> settable nxt ss)
   | _ \<Rightarrow> False)"

lemma path_get_set_dict_loop:
  "settable v ss \<Longrightarrow> path_get (Some (set_dict_loop v ss (Some x))) ss = Some x"
proof (induction ss arbitrary: v)
  case Nil
  then show ?case by simp
next
  case (Cons s ss)
  from Cons.prems obtain ps where v: "v = JObject ps" by (cases v) auto
  show ?case
  proof (cases "map_of ps s")
    case None
    show ?thesis
    proof (cases "ss = []")
      case True
      then show ?thesis using None v by (simp add: path_step_def)
    next
      case False
      then have "settable (JObject []) ss" by (cases ss) auto
      from Cons.IH [OF this] show ?thesis using None v False by (simp add: path_step_def)
    qed
  next
    case (Some nxt)
    then show ?thesis using Cons v by (simp add: path_step_def)
  qed
qed

lemma pairs_set_same: "map_of ps k = Some v \<Longrightarrow> pairs_set ps k v = ps"
  by (induction ps) (auto split: if_splits)

text \<open>An existing value is never replaced.\<close>

lemma set_dict_loop_existing:
  "path_get (Some v) ss = Some y \<Longrightarrow> set_dict_loop v ss x = v"
proof (induction ss arbitrary: v)
  case Nil
  then show ?case by simp
next
  case (Cons s ss)
  obtain nxt where n: "path_step (Some v) s = Some nxt" "path_get (Some nxt) ss = Some y"
    using Cons.prems by (cases "path_step (Some v) s") auto
  note same = Cons.IH [OF n(2)]
  show ?case
  proof (cases v)
    case (JObject ps)
    then show ?thesis using n(1) same by (simp add: path_step_def pairs_set_same)
  next
    case (JArray xs)
    then have "array_get_int (Some v) (atoi s) = Some nxt" "xs ! nat (atoi s) = nxt"
      using n(1) by (auto simp: path_step_def array_get_int_def split: if_splits)
    then show ?thesis using JArray same by (auto simp: list_update_id)
  qed simp_all
qed

section \<open>Removing and matching\<close>

lemma is_object_del [simp]:
  "json_is_object (Some (json_object_del j k)) = json_is_object (Some j)"
  by (cases j) simp_all

lemma get_object_del:
  "json_object_get (Some (json_object_del j k)) k' =
   (if k' = k then None else json_object_get (Some j) k')"
  by (cases j) simp_all

lemma kw_pop_dict:
  "json_object_get (Some (kw_pop j (JObject ps))) k =
   (if k \<in> fst ` set ps then None else json_object_get (Some j) k)"
proof -
  have "json_object_get (Some (fold (\<lambda>(k, v) acc. json_object_del acc k) ps j)) k =
    (if k \<in> fst ` set ps then None else json_object_get (Some j) k)"
    by (induction ps arbitrary: j) (auto simp: get_object_del split: if_splits)
  then show ?thesis by simp
qed

lemma json_ok_pop: "json_ok j \<Longrightarrow> json_ok (kw_pop j f)"
proof (induction f arbitrary: j)
  case (JObject ps)
  have "json_ok (fold (\<lambda>(k, v) acc. json_object_del acc k) ps j)"
    using JObject.prems by (induction ps arbitrary: j) (auto simp: json_ok_del)
  then show ?case by simp
next
  case (JArray xs)
  have "json_ok (fold (\<lambda>x acc. kw_pop acc x) xs j)"
    using JArray by (induction xs arbitrary: j) auto
  then show ?case by simp
qed (simp_all add: json_ok_del)

text \<open>A leaf of a filter, and what a flat filter accepts.\<close>

definition leaf :: "json \<Rightarrow> bool" where
  "leaf v \<longleftrightarrow> \<not> json_is_array (Some v) \<and> \<not> json_is_object (Some v)"

lemma snprintf_short: "length s < n \<Longrightarrow> snprintf n s = s"
  by (simp add: snprintf_def)

lemma match_all_flat:
  assumes "\<forall>(k, v) \<in> set fs. leaf v \<and> plain k \<and> length k < match_path_size"
  shows "match_all lc (Some (JObject ps)) fs [] \<longleftrightarrow>
    (\<forall>(k, v) \<in> set fs. \<exists>r. map_of ps k = Some r \<and> cmp_two_simple_json lc (Some r) (Some v) = 0)"
  using assms
proof (induction fs)
  case Nil
  then show ?case by simp
next
  case (Cons f fs)
  obtain k v where f: "f = (k, v)" by force
  with Cons.prems have k: "leaf v" "plain k" "snprintf match_path_size k = k"
    by (auto simp: snprintf_short)
  have "fst (kw_get_dict_value (Some (JObject ps)) k None 0) = map_of ps k"
    using k(2) by (simp add: kw_get_dict_value_def has_flag_def split: option.split)
  then show ?case
    using k Cons f by (cases "map_of ps k") (auto simp: leaf_def)
qed

end
