(* ===== verification/GClass.thy ===== *)
theory GClass
  imports KwId
begin

text \<open>
  GClasses: the finite state machines of \<^verbatim>\<open>kernel/c/gobj-c/src/gobj.c\<close> (section GClass functions).
  A gclass is a record with the list of its states, each with its event/action/next-state table, and
  the list of its events. The names of gclasses, states and events are interned C strings: the code
  compares their addresses, so two are the same name when their texts are equal. The registry of
  gclasses is the list \<open>dl_gclass\<close> in the order of registration.
\<close>

section \<open>Data\<close>

type_synonym gobj_event = string
type_synonym gobj_state = string
type_synonym action_fn = nat

record event_action =
  ea_event :: gobj_event
  ea_action :: "action_fn option"
  ea_next_state :: "gobj_state option"

record state =
  state_name :: gobj_state
  dl_actions :: "event_action list"

type_synonym event_flag = "32 word"

record event_type =
  event_name :: gobj_event
  event_flag :: event_flag

definition EVF_NO_WARN_SUBS :: event_flag where "EVF_NO_WARN_SUBS = 1"
definition EVF_OUTPUT_EVENT :: event_flag where "EVF_OUTPUT_EVENT = 2"
definition EVF_SYSTEM_EVENT :: event_flag where "EVF_SYSTEM_EVENT = 4"
definition EVF_PUBLIC_EVENT :: event_flag where "EVF_PUBLIC_EVENT = 8"

text \<open>The methods of \<open>GMETHODS\<close> the modelled code calls; a gclass lists those that are not NULL.\<close>

datatype gmethod =
    mt_destroy | mt_start | mt_stop | mt_play | mt_pause | mt_enable | mt_disable
  | mt_child_removed | mt_inject_event | mt_state_changed | mt_set_bottom_gobj
  | mt_subscription_added | mt_subscription_deleted
  | mt_publish_event | mt_publication_pre_filter | mt_publication_filter

type_synonym gclass_flag = "32 word"

definition gcflag_manual_start :: gclass_flag where "gcflag_manual_start = 1"
definition gcflag_no_check_output_events :: gclass_flag where "gcflag_no_check_output_events = 2"
definition gcflag_required_start_to_play :: gclass_flag where "gcflag_required_start_to_play = 8"

datatype dtp = DTP_STRING | DTP_BOOLEAN | DTP_INTEGER | DTP_REAL | DTP_LIST | DTP_DICT
  | DTP_JSON | DTP_POINTER

record sdata_desc =
  sd_name :: string
  sd_type :: dtp
  sd_flag :: "32 word"

definition SDF_REQUIRED :: "32 word" where "SDF_REQUIRED = 8"

record gclass =
  gclass_name :: string
  dl_states :: "state list"
  dl_events :: "event_type list"
  gmt :: "gmethod list"
  attrs_table :: "sdata_desc list"
  gc_flag :: gclass_flag
  instances :: int
  fsm_checked :: bool

section \<open>Lookup\<close>

text \<open>A walk over a \<open>dl_list\<close> that returns the first item with a property.\<close>

definition find_state :: "gclass \<Rightarrow> gobj_state \<Rightarrow> state option" where
  "find_state gc nm = find (\<lambda>s. nm = state_name s) (dl_states gc)"

definition find_event_action :: "state \<Rightarrow> gobj_event \<Rightarrow> event_action option" where
  "find_event_action s ev = find (\<lambda>ea. ev = ea_event ea) (dl_actions s)"

definition gclass_event_type :: "gclass \<Rightarrow> gobj_event \<Rightarrow> event_type option" where
  "gclass_event_type gc ev = find (\<lambda>e. event_name e = ev) (dl_events gc)"

definition gclass_find_by_name :: "gclass list \<Rightarrow> string \<Rightarrow> gclass option" where
  "gclass_find_by_name reg nm = find (\<lambda>g. nm = gclass_name g) reg"

fun gobj_find_event_type :: "gclass list \<Rightarrow> string \<Rightarrow> event_flag \<Rightarrow> event_type option" where
  "gobj_find_event_type [] ev flag = None"
| "gobj_find_event_type (gc # reg) ev flag =
     (case find (\<lambda>e. (flag = 0 \<or> has_flag (event_flag e) flag) \<and> strcasecmp_eq (event_name e) ev)
         (dl_events gc) of
        Some e \<Rightarrow> Some e
      | None \<Rightarrow> gobj_find_event_type reg ev flag)"

definition gclass_find_public_event :: "gclass list \<Rightarrow> string \<Rightarrow> gobj_event option" where
  "gclass_find_public_event reg ev =
     map_option event_name (gobj_find_event_type reg ev EVF_PUBLIC_EVENT)"

section \<open>Building a state machine\<close>

definition gclass_add_state :: "gclass \<Rightarrow> gobj_state \<Rightarrow> int \<times> gclass" where
  "gclass_add_state gc nm =
     (if find_state gc nm \<noteq> None then (-1, gc)
      else (0, gc\<lparr>dl_states := dl_states gc @ [\<lparr>state_name = nm, dl_actions = []\<rparr>]\<rparr>))"

text \<open>The entry is appended to the first state with the name.\<close>

fun update_state :: "state list \<Rightarrow> gobj_state \<Rightarrow> event_action \<Rightarrow> state list" where
  "update_state [] nm ea = []"
| "update_state (s # ss) nm ea =
     (if nm = state_name s then s\<lparr>dl_actions := dl_actions s @ [ea]\<rparr> # ss
      else s # update_state ss nm ea)"

definition gclass_add_ev_action ::
  "gclass \<Rightarrow> gobj_state \<Rightarrow> gobj_event \<Rightarrow> action_fn option \<Rightarrow> gobj_state option \<Rightarrow> int \<times> gclass" where
  "gclass_add_ev_action gc nm ev action next_state =
     (if nm = [] then (-1, gc)
      else case find_state gc nm of
        None \<Rightarrow> (-1, gc)
      | Some s \<Rightarrow>
          (if find_event_action s ev \<noteq> None then (-1, gc)
           else (0, gc\<lparr>dl_states := update_state (dl_states gc) nm
             \<lparr>ea_event = ev, ea_action = action, ea_next_state = next_state\<rparr>\<rparr>)))"

definition add_event_type :: "event_type list \<Rightarrow> gobj_event \<Rightarrow> event_flag \<Rightarrow> int \<times> event_type list" where
  "add_event_type dl nm flag =
     (if nm = [] then (-1, dl) else (0, dl @ [\<lparr>event_name = nm, event_flag = flag\<rparr>]))"

definition gclass_add_event_type :: "gclass \<Rightarrow> gobj_event \<Rightarrow> event_flag \<Rightarrow> int \<times> gclass" where
  "gclass_add_event_type gc nm flag =
     (let (ret, dl) = add_event_type (dl_events gc) nm flag in (ret, gc\<lparr>dl_events := dl\<rparr>))"

text \<open>The tables a gclass is created from: \<open>states_t\<close> with \<open>ev_action_t\<close>, and \<open>event_type_t\<close>.\<close>

type_synonym ev_action_table = "(gobj_event \<times> action_fn option \<times> gobj_state option) list"
type_synonym states_table = "(gobj_state \<times> ev_action_table) list"

fun build_actions :: "gclass \<Rightarrow> gobj_state \<Rightarrow> ev_action_table \<Rightarrow> gclass" where
  "build_actions gc nm [] = gc"
| "build_actions gc nm ((ev, act, nxt) # rest) =
     build_actions (snd (gclass_add_ev_action gc nm ev act nxt)) nm rest"

fun build_states :: "gclass \<Rightarrow> states_table \<Rightarrow> gclass option" where
  "build_states gc [] = Some gc"
| "build_states gc ((nm, acts) # rest) =
     (let (ret, gc) = gclass_add_state gc nm in
      if ret < 0 then None else build_states (build_actions gc nm acts) rest)"

fun build_events :: "gclass \<Rightarrow> event_type list \<Rightarrow> gclass option" where
  "build_events gc [] = Some gc"
| "build_events gc (e # rest) =
     (if gclass_event_type gc (event_name e) \<noteq> None then None
      else build_events (snd (gclass_add_event_type gc (event_name e) (event_flag e))) rest)"

text \<open>\<open>gclass_check_fsm\<close> subtracts one for every error.\<close>

definition check_action :: "gclass \<Rightarrow> event_action \<Rightarrow> int" where
  "check_action gc ea =
     (if gclass_event_type gc (ea_event ea) = None then -1 else 0) +
     (case ea_next_state ea of None \<Rightarrow> 0 | Some nxt \<Rightarrow> if find_state gc nxt = None then -1 else 0)"

definition check_event :: "gclass \<Rightarrow> event_type \<Rightarrow> int" where
  "check_event gc e =
     (if \<not> has_flag (event_flag e) EVF_OUTPUT_EVENT
      then (if \<exists>s \<in> set (dl_states gc). find_event_action s (event_name e) \<noteq> None then 0 else -1)
      else 0)"

definition gclass_check_fsm :: "gclass \<Rightarrow> int" where
  "gclass_check_fsm gc =
     (if dl_states gc = [] then -1 else 0) +
     (\<Sum>s \<leftarrow> dl_states gc. \<Sum>ea \<leftarrow> dl_actions s. check_action gc ea) +
     (\<Sum>e \<leftarrow> dl_events gc. check_event gc e)"

definition gclass_unregister :: "gclass list \<Rightarrow> gclass \<Rightarrow> gclass list" where
  "gclass_unregister reg gc = (if instances gc > 0 then reg else remove1 gc reg)"

definition gclass_create ::
  "bool \<Rightarrow> gclass list \<Rightarrow> string \<Rightarrow> event_type list \<Rightarrow> states_table \<Rightarrow> gmethod list \<Rightarrow>
   sdata_desc list \<Rightarrow> gclass_flag \<Rightarrow> gclass option \<times> gclass list" where
  "gclass_create initialized reg nm event_types states methods attrs flag =
     (if \<not> initialized then (None, reg)
      else if CHR 0x60 \<in> set nm \<or> CHR ''^'' \<in> set nm \<or> CHR ''.'' \<in> set nm then (None, reg)
      else if gclass_find_by_name reg nm \<noteq> None then (None, reg)
      else if nm = [] then (None, reg)
      else
        let gc = \<lparr>gclass_name = nm, dl_states = [], dl_events = [], gmt = methods,
              attrs_table = attrs, gc_flag = flag, instances = 0, fsm_checked = False\<rparr>
        in (case build_states gc states of None \<Rightarrow> (None, reg)
          | Some gc \<Rightarrow> (case build_events gc event_types of None \<Rightarrow> (None, reg)
            | Some gc \<Rightarrow>
                (if gclass_check_fsm gc < 0 then (None, reg)
                 else let gc = gc\<lparr>fsm_checked := True\<rparr> in (Some gc, reg @ [gc])))))"

text \<open>The loop of \<open>gobj_end\<close> that empties the registry, with the number of its rounds as fuel.\<close>

fun unregister_all :: "nat \<Rightarrow> gclass list \<Rightarrow> gclass list option" where
  "unregister_all fuel [] = Some []"
| "unregister_all 0 (gc # reg) = None"
| "unregister_all (Suc fuel) (gc # reg) = unregister_all fuel (gclass_unregister (gc # reg) gc)"

definition old_to_new_gclass_name :: "string \<Rightarrow> string" where
  "old_to_new_gclass_name nm =
     (if strcasecmp_eq nm ''IEvent_cli'' then ''C_IEVENT_CLI''
      else if strcasecmp_eq nm ''IOGate'' then ''C_IOGATE''
      else if strcasecmp_eq nm ''Channel'' then ''C_CHANNEL''
      else if strcasecmp_eq nm ''GWebSocket'' then ''C_WEBSOCKET''
      else nm)"

section \<open>Well-formed state machines\<close>

definition action_ok :: "gclass \<Rightarrow> event_action \<Rightarrow> bool" where
  "action_ok gc ea \<longleftrightarrow> gclass_event_type gc (ea_event ea) \<noteq> None \<and>
     (\<forall>nxt. ea_next_state ea = Some nxt \<longrightarrow> find_state gc nxt \<noteq> None)"

definition input_handled :: "gclass \<Rightarrow> event_type \<Rightarrow> bool" where
  "input_handled gc e \<longleftrightarrow> has_flag (event_flag e) EVF_OUTPUT_EVENT \<or>
     (\<exists>s \<in> set (dl_states gc). find_event_action s (event_name e) \<noteq> None)"

definition fsm_ok :: "gclass \<Rightarrow> bool" where
  "fsm_ok gc \<longleftrightarrow> dl_states gc \<noteq> [] \<and>
     (\<forall>s \<in> set (dl_states gc). \<forall>ea \<in> set (dl_actions s). action_ok gc ea) \<and>
     (\<forall>e \<in> set (dl_events gc). input_handled gc e)"

definition tables_ok :: "gclass \<Rightarrow> bool" where
  "tables_ok gc \<longleftrightarrow> distinct (map state_name (dl_states gc)) \<and>
     (\<forall>s \<in> set (dl_states gc). distinct (map ea_event (dl_actions s))) \<and>
     distinct (map event_name (dl_events gc)) \<and> (\<forall>e \<in> set (dl_events gc). event_name e \<noteq> [])"

definition gclass_ok :: "gclass \<Rightarrow> bool" where
  "gclass_ok gc \<longleftrightarrow> fsm_ok gc \<and> tables_ok gc"

lemma sum_list_nonpos_zero_iff:
  "(\<And>x. x \<in> set xs \<Longrightarrow> f x \<le> (0 :: int)) \<Longrightarrow>
   (\<Sum>x \<leftarrow> xs. f x) \<le> 0 \<and> ((\<Sum>x \<leftarrow> xs. f x) = 0 \<longleftrightarrow> (\<forall>x \<in> set xs. f x = 0))"
proof (induction xs)
  case Nil
  then show ?case by simp
next
  case (Cons x xs)
  have "f x \<le> 0" using Cons.prems by simp
  moreover have "(\<Sum>x \<leftarrow> xs. f x) \<le> 0 \<and> ((\<Sum>x \<leftarrow> xs. f x) = 0 \<longleftrightarrow> (\<forall>x \<in> set xs. f x = 0))"
    using Cons by simp
  ultimately show ?case by auto
qed

lemma check_action_sign: "check_action gc ea \<le> 0" "check_action gc ea = 0 \<longleftrightarrow> action_ok gc ea"
  by (auto simp: check_action_def action_ok_def split: option.splits)

lemma check_event_sign: "check_event gc e \<le> 0" "check_event gc e = 0 \<longleftrightarrow> input_handled gc e"
  by (auto simp: check_event_def input_handled_def)

lemma gclass_check_fsm_iff:
  "gclass_check_fsm gc \<le> 0 \<and> (gclass_check_fsm gc = 0 \<longleftrightarrow> fsm_ok gc)"
proof -
  let ?st = "\<lambda>s. \<Sum>ea \<leftarrow> dl_actions s. check_action gc ea"
  have st: "?st s \<le> 0 \<and> (?st s = 0 \<longleftrightarrow> (\<forall>ea \<in> set (dl_actions s). action_ok gc ea))" for s
    using sum_list_nonpos_zero_iff [of "dl_actions s" "check_action gc"] check_action_sign by auto
  have states: "(\<Sum>s \<leftarrow> dl_states gc. ?st s) \<le> 0 \<and> ((\<Sum>s \<leftarrow> dl_states gc. ?st s) = 0 \<longleftrightarrow>
      (\<forall>s \<in> set (dl_states gc). \<forall>ea \<in> set (dl_actions s). action_ok gc ea))"
    using sum_list_nonpos_zero_iff [of "dl_states gc" ?st] st by auto
  have events: "(\<Sum>e \<leftarrow> dl_events gc. check_event gc e) \<le> 0 \<and>
      ((\<Sum>e \<leftarrow> dl_events gc. check_event gc e) = 0 \<longleftrightarrow> (\<forall>e \<in> set (dl_events gc). input_handled gc e))"
    using sum_list_nonpos_zero_iff [of "dl_events gc" "check_event gc"] check_event_sign by auto
  show ?thesis
    using states events unfolding gclass_check_fsm_def fsm_ok_def by auto
qed

section \<open>The tables built by gclass_create\<close>

lemma find_None: "find P xs = None \<longleftrightarrow> (\<forall>x \<in> set xs. \<not> P x)"
  by (auto simp: find_None_iff)

lemma find_SomeD: "find P xs = Some x \<Longrightarrow> x \<in> set xs \<and> P x"
  by (auto simp: find_Some_iff)

lemma update_state_names: "map state_name (update_state ss nm ea) = map state_name ss"
  by (induction ss) auto

lemma update_state_mem:
  "s \<in> set (update_state ss nm ea) \<Longrightarrow>
   s \<in> set ss \<or> (\<exists>s0 \<in> set ss. find (\<lambda>s. nm = state_name s) ss = Some s0 \<and>
     s = s0\<lparr>dl_actions := dl_actions s0 @ [ea]\<rparr>)"
  by (induction ss) (auto split: if_splits)

lemma add_state_ok:
  "tables_ok gc \<Longrightarrow> gclass_add_state gc nm = (r, gc') \<Longrightarrow> tables_ok gc'"
  by (auto simp: gclass_add_state_def tables_ok_def find_state_def find_None split: if_splits)

lemma add_ev_action_ok:
  assumes "tables_ok gc" "gclass_add_ev_action gc nm ev act nxt = (r, gc')"
  shows "tables_ok gc'"
proof (cases "gc' = gc")
  case True
  then show ?thesis using assms by simp
next
  case False
  with assms obtain s where s: "find_state gc nm = Some s" "find_event_action s ev = None"
    and gc': "gc' = gc\<lparr>dl_states := update_state (dl_states gc) nm
      \<lparr>ea_event = ev, ea_action = act, ea_next_state = nxt\<rparr>\<rparr>"
    by (auto simp: gclass_add_ev_action_def split: if_splits option.splits)
  have "distinct (map ea_event (dl_actions t))" if "t \<in> set (dl_states gc')" for t
  proof -
    let ?ea = "\<lparr>ea_event = ev, ea_action = act, ea_next_state = nxt\<rparr>"
    from that consider "t \<in> set (dl_states gc)"
      | "t = s\<lparr>dl_actions := dl_actions s @ [?ea]\<rparr>" "s \<in> set (dl_states gc)"
      using update_state_mem [of t "dl_states gc" nm ?ea] s(1) by (auto simp: gc' find_state_def)
    then show ?thesis
    proof cases
      case 1
      then show ?thesis using assms(1) by (simp add: tables_ok_def)
    next
      case 2
      then have "distinct (map ea_event (dl_actions s))"
        using assms(1) by (simp add: tables_ok_def)
      moreover have "ev \<notin> ea_event ` set (dl_actions s)"
        using s(2) by (auto simp: find_event_action_def find_None)
      ultimately show ?thesis using 2 by simp
    qed
  qed
  then show ?thesis
    using assms(1) by (simp add: tables_ok_def gc' update_state_names)
qed

lemma build_actions_ok: "tables_ok gc \<Longrightarrow> tables_ok (build_actions gc nm acts)"
proof (induction gc nm acts rule: build_actions.induct)
  case (2 gc nm ev act nxt rest)
  obtain r gc' where "gclass_add_ev_action gc nm ev act nxt = (r, gc')" by force
  with 2 add_ev_action_ok [of gc nm ev act nxt r gc'] show ?case by simp
qed simp

lemma build_states_ok: "tables_ok gc \<Longrightarrow> build_states gc sts = Some gc' \<Longrightarrow> tables_ok gc'"
proof (induction gc sts rule: build_states.induct)
  case (2 gc nm acts rest)
  obtain r g where g: "gclass_add_state gc nm = (r, g)" by force
  with 2 add_state_ok [of gc nm r g] build_actions_ok [of g nm acts] show ?case
    by (auto split: if_splits)
qed simp

lemma build_events_ok: "tables_ok gc \<Longrightarrow> build_events gc evs = Some gc' \<Longrightarrow> tables_ok gc'"
proof (induction gc evs rule: build_events.induct)
  case (2 gc e rest)
  then have fresh: "event_name e \<notin> event_name ` set (dl_events gc)"
    by (auto simp: gclass_event_type_def find_None split: if_splits)
  then have "tables_ok (snd (gclass_add_event_type gc (event_name e) (event_flag e)))"
    using 2(2) by (auto simp: gclass_add_event_type_def add_event_type_def tables_ok_def)
  with 2 show ?case by (auto split: if_splits)
qed simp

section \<open>The registry\<close>

definition registry_ok :: "gclass list \<Rightarrow> bool" where
  "registry_ok reg \<longleftrightarrow> distinct (map gclass_name reg) \<and> (\<forall>gc \<in> set reg. gclass_ok gc)"

lemma build_actions_name [simp]:
  "gclass_name (build_actions gc nm acts) = gclass_name gc \<and>
   instances (build_actions gc nm acts) = instances gc"
  by (induction gc nm acts rule: build_actions.induct)
    (auto simp: gclass_add_ev_action_def split: option.split)

lemma build_states_name:
  "build_states gc sts = Some gc' \<Longrightarrow>
   gclass_name gc' = gclass_name gc \<and> instances gc' = instances gc"
  by (induction gc sts rule: build_states.induct)
    (auto simp: gclass_add_state_def split: if_splits)

lemma build_events_name:
  "build_events gc evs = Some gc' \<Longrightarrow>
   gclass_name gc' = gclass_name gc \<and> instances gc' = instances gc"
  by (induction gc evs rule: build_events.induct)
    (auto simp: gclass_add_event_type_def add_event_type_def split: if_splits)

lemma gclass_create_some:
  assumes "gclass_create initialized reg nm evs sts ms attrs flag = (Some gc, reg')"
  shows "gclass_ok gc \<and> gclass_name gc = nm \<and> instances gc = 0 \<and> reg' = reg @ [gc] \<and>
    nm \<notin> gclass_name ` set reg \<and> fsm_checked gc \<and> nm \<noteq> []"
proof -
  let ?gc = "\<lparr>gclass_name = nm, dl_states = [], dl_events = [], gmt = ms,
      attrs_table = attrs, gc_flag = flag, instances = 0, fsm_checked = False\<rparr>"
  from assms have new: "gclass_find_by_name reg nm = None" "nm \<noteq> []"
    by (auto simp: gclass_create_def split: if_splits)
  from assms obtain g1 g2 where g: "build_states ?gc sts = Some g1" "build_events g1 evs = Some g2"
    "\<not> gclass_check_fsm g2 < 0" "gc = g2\<lparr>fsm_checked := True\<rparr>" "reg' = reg @ [gc]"
    by (auto simp: gclass_create_def Let_def split: if_splits option.splits)
  have "tables_ok ?gc" by (simp add: tables_ok_def)
  then have "tables_ok g2" using build_states_ok build_events_ok g by blast
  moreover have "fsm_ok g2" using gclass_check_fsm_iff [of g2] g(3) by auto
  ultimately have "gclass_ok gc"
    unfolding g(4) gclass_ok_def tables_ok_def fsm_ok_def action_ok_def input_handled_def
      find_state_def gclass_event_type_def by simp
  moreover have "gclass_name g2 = nm" "instances g2 = 0"
    using build_states_name [OF g(1)] build_events_name [OF g(2)] by simp_all
  moreover have "nm \<notin> gclass_name ` set reg"
    using new by (auto simp: gclass_find_by_name_def find_None)
  ultimately show ?thesis using g new by simp
qed

lemma gclass_create_registry:
  assumes "registry_ok reg" "gclass_create initialized reg nm evs sts ms attrs flag = (r, reg')"
  shows "registry_ok reg'"
proof (cases r)
  case None
  then have "reg' = reg"
    using assms(2) by (auto simp: gclass_create_def Let_def split: if_splits option.splits)
  then show ?thesis using assms by simp
next
  case (Some gc)
  then show ?thesis
    using gclass_create_some [of initialized reg nm evs sts ms attrs flag gc reg'] assms
    by (auto simp: registry_ok_def)
qed

text \<open>The loop of \<open>gobj_end\<close>: it empties the registry unless an instance is left.\<close>

lemma unregister_all_empties:
  "(\<forall>gc \<in> set reg. instances gc \<le> 0) \<Longrightarrow> unregister_all (length reg) reg = Some []"
  by (induction reg) (auto simp: gclass_unregister_def)

lemma unregister_all_stuck:
  "instances gc > 0 \<Longrightarrow> gc \<in> set reg \<Longrightarrow> unregister_all fuel reg = None"
proof (induction fuel reg rule: unregister_all.induct)
  case (3 fuel gc' reg)
  then show ?case by (cases "gc' = gc") (auto simp: gclass_unregister_def)
qed auto

end
