(* ===== verification/GObj.thy ===== *)
theory GObj
  imports GClass
begin

text \<open>
  The world of gobjs of \<^verbatim>\<open>kernel/c/gobj-c/src/gobj.c\<close>: the records of gobjs, subscriptions and
  posted events, the global variables, the tree, the register of services and the walks over
  children. A handle \<open>hgobj\<close> is an address; a freed gobj is no longer in \<open>gobjs\<close>, and reading through
  its handle is undefined behaviour, the value \<open>None\<close>. Tracing is off; error and warning messages
  are appended to \<open>w_log\<close>.
\<close>

section \<open>State\<close>

type_synonym hgobj = nat
type_synonym gobj_flag = "32 word"
type_synonym obflag = "32 word"

definition gobj_flag_yuno :: gobj_flag where "gobj_flag_yuno = 0x0001"
definition gobj_flag_default_service :: gobj_flag where "gobj_flag_default_service = 0x0002"
definition gobj_flag_service :: gobj_flag where "gobj_flag_service = 0x0004"
definition gobj_flag_volatil :: gobj_flag where "gobj_flag_volatil = 0x0008"
definition gobj_flag_pure_child :: gobj_flag where "gobj_flag_pure_child = 0x0010"
definition gobj_flag_top_service :: gobj_flag where "gobj_flag_top_service = 0x0080"
definition gobj_flag_manual_start :: gobj_flag where "gobj_flag_manual_start = 0x0100"

definition obflag_destroying :: obflag where "obflag_destroying = 1"
definition obflag_destroyed :: obflag where "obflag_destroyed = 2"
definition obflag_created :: obflag where "obflag_created = 4"

definition subs_rename_event_name :: "32 word" where "subs_rename_event_name = 1"
definition subs_hard_subscription :: "32 word" where "subs_hard_subscription = 2"
definition subs_own_event :: "32 word" where "subs_own_event = 4"

record subscription =
  subs_publisher :: hgobj
  subs_subscriber :: hgobj
  subs_event :: "gobj_event option"
  subs_renamed :: "gobj_event option"
  subs_flag :: "32 word"
  subs_config :: jn
  subs_global :: jn
  subs_local :: jn
  subs_filter :: jn
  subs_service :: string

record gobj =
  ob_gclass :: string
  ob_parent :: "hgobj option"
  dl_children :: "hgobj list"
  current_state :: "gobj_state option"
  last_state :: "gobj_state option"
  ob_flag :: gobj_flag
  ob_obflag :: obflag
  dl_subscriptions :: "subscription list"
  dl_subscribings :: "subscription list"
  gobj_name :: string
  jn_attrs :: json
  running :: bool
  playing :: bool
  disabled :: bool
  bottom_gobj :: "hgobj option"
  ob_refs :: int

record posted_event =
  pe_id :: size_t
  pe_dst :: hgobj
  pe_src :: "hgobj option"
  pe_event :: gobj_event
  pe_kw :: jn

record world =
  dl_gclass :: "gclass list"
  dl_global_event_types :: "event_type list"
  gobjs :: "hgobj \<Rightarrow> gobj option"
  yuno_gobj :: "hgobj option"
  default_service_gobj :: "hgobj option"
  jn_services :: "(string \<times> hgobj) list"
  dl_posted_events :: "posted_event list"
  posted_last_id :: size_t
  shutdowning :: bool
  w_log :: "string list"
  posted_total :: nat

definition log_msg :: "string \<Rightarrow> world \<Rightarrow> world" where
  "log_msg m w = w\<lparr>w_log := w_log w @ [m]\<rparr>"

text \<open>
  The last field is not in the code: it counts the messages posted since the start, so that
  statements about the ids of messages, which have 64 bits, can say that they have not wrapped.
\<close>

text \<open>Writing through a handle.\<close>

definition upd_gobj :: "hgobj \<Rightarrow> (gobj \<Rightarrow> gobj) \<Rightarrow> world \<Rightarrow> world option" where
  "upd_gobj h f w = (case gobjs w h of None \<Rightarrow> None
     | Some g \<Rightarrow> Some (w\<lparr>gobjs := (gobjs w)(h \<mapsto> f g)\<rparr>))"

definition gclass_of :: "world \<Rightarrow> gobj \<Rightarrow> gclass option" where
  "gclass_of w g = gclass_find_by_name (dl_gclass w) (ob_gclass g)"

definition is_destroying :: "gobj \<Rightarrow> bool" where
  "is_destroying g = has_flag (ob_obflag g) (obflag_destroyed OR obflag_destroying)"

definition is_destroyed :: "gobj \<Rightarrow> bool" where
  "is_destroyed g = has_flag (ob_obflag g) obflag_destroyed"

text \<open>A pointer argument that the code reads when it is not NULL.\<close>

definition deref_opt :: "world \<Rightarrow> hgobj option \<Rightarrow> unit option" where
  "deref_opt w h = (case h of None \<Rightarrow> Some ()
     | Some x \<Rightarrow> (case gobjs w x of None \<Rightarrow> None | Some _ \<Rightarrow> Some ()))"

section \<open>Predicates over one gobj\<close>

text \<open>In these functions NULL is allowed and a freed handle is not.\<close>

definition gobj_is_destroying :: "world \<Rightarrow> hgobj option \<Rightarrow> bool option" where
  "gobj_is_destroying w h = (case h of None \<Rightarrow> Some True
     | Some x \<Rightarrow> map_option is_destroying (gobjs w x))"

definition gobj_is_running :: "world \<Rightarrow> hgobj option \<Rightarrow> bool option" where
  "gobj_is_running w h = (case h of None \<Rightarrow> Some False
     | Some x \<Rightarrow> map_option (\<lambda>g. if is_destroying g then False else running g) (gobjs w x))"

definition gobj_is_playing :: "world \<Rightarrow> hgobj option \<Rightarrow> bool option" where
  "gobj_is_playing w h = (case h of None \<Rightarrow> Some False
     | Some x \<Rightarrow> map_option (\<lambda>g. if is_destroying g then False else playing g) (gobjs w x))"

definition gobj_is_disabled :: "world \<Rightarrow> hgobj option \<Rightarrow> bool option" where
  "gobj_is_disabled w h = (case h of None \<Rightarrow> Some True
     | Some x \<Rightarrow> map_option (\<lambda>g. if is_destroying g then True else disabled g) (gobjs w x))"

definition gobj_is_service :: "world \<Rightarrow> hgobj option \<Rightarrow> bool option" where
  "gobj_is_service w h = (case h of None \<Rightarrow> Some False
     | Some x \<Rightarrow> map_option (\<lambda>g. has_flag (ob_flag g) (gobj_flag_service OR gobj_flag_top_service))
         (gobjs w x))"

definition gobj_is_volatil :: "world \<Rightarrow> hgobj \<Rightarrow> bool option" where
  "gobj_is_volatil w h = map_option (\<lambda>g. has_flag (ob_flag g) gobj_flag_volatil) (gobjs w h)"

definition gobj_is_pure_child :: "world \<Rightarrow> hgobj \<Rightarrow> bool option" where
  "gobj_is_pure_child w h = map_option (\<lambda>g. has_flag (ob_flag g) gobj_flag_pure_child) (gobjs w h)"

definition gobj_set_volatil :: "world \<Rightarrow> hgobj \<Rightarrow> bool \<Rightarrow> world option" where
  "gobj_set_volatil w h set_it = upd_gobj h (\<lambda>g. g\<lparr>ob_flag :=
     (if set_it then ob_flag g OR gobj_flag_volatil else ob_flag g AND NOT gobj_flag_volatil)\<rparr>) w"

definition gobj_set_manual_start :: "world \<Rightarrow> hgobj \<Rightarrow> bool \<Rightarrow> world option" where
  "gobj_set_manual_start w h set_it = upd_gobj h (\<lambda>g. g\<lparr>ob_flag :=
     (if set_it then ob_flag g OR gobj_flag_manual_start
      else ob_flag g AND NOT gobj_flag_manual_start)\<rparr>) w"

section \<open>States and events of a gobj\<close>

definition gobj_current_state :: "world \<Rightarrow> hgobj \<Rightarrow> gobj_state option" where
  "gobj_current_state w h = Option.bind (gobjs w h) current_state"

definition gobj_has_state :: "world \<Rightarrow> hgobj \<Rightarrow> gobj_state \<Rightarrow> bool option" where
  "gobj_has_state w h st = do {
     g \<leftarrow> gobjs w h;
     gc \<leftarrow> gclass_of w g;
     Some (find_state gc st \<noteq> None)
   }"

text \<open>\<open>gobj_event_type\<close> for an event that is not NULL.\<close>

definition event_type_in :: "world \<Rightarrow> gclass \<Rightarrow> gobj_event \<Rightarrow> bool \<Rightarrow> event_type option" where
  "event_type_in w gc ev include_system = (case gclass_event_type gc ev of
     Some et \<Rightarrow> Some et
   | None \<Rightarrow> if include_system then find (\<lambda>e. event_name e = ev) (dl_global_event_types w) else None)"

definition gobj_event_type ::
  "world \<Rightarrow> hgobj \<Rightarrow> gobj_event option \<Rightarrow> bool \<Rightarrow> event_type option option" where
  "gobj_event_type w h ev include_system = do {
     g \<leftarrow> gobjs w h;
     case ev of None \<Rightarrow> Some None
     | Some e \<Rightarrow> do { gc \<leftarrow> gclass_of w g; Some (event_type_in w gc e include_system) }
   }"

definition gobj_has_event :: "world \<Rightarrow> hgobj \<Rightarrow> gobj_event option \<Rightarrow> event_flag \<Rightarrow> bool option" where
  "gobj_has_event w h ev flag = do {
     et \<leftarrow> gobj_event_type w h ev False;
     Some (case et of None \<Rightarrow> False
       | Some e \<Rightarrow> if flag \<noteq> 0 \<and> \<not> has_flag (event_flag e) flag then False else True)
   }"

definition gobj_has_output_event ::
  "world \<Rightarrow> hgobj \<Rightarrow> gobj_event option \<Rightarrow> event_flag \<Rightarrow> bool option" where
  "gobj_has_output_event w h ev flag = do {
     et \<leftarrow> gobj_event_type w h ev False;
     Some (case et of None \<Rightarrow> False
       | Some e \<Rightarrow> if flag \<noteq> 0 \<and> \<not> has_flag (event_flag e) flag then False
           else if \<not> has_flag (event_flag e) EVF_OUTPUT_EVENT then False else True)
   }"

section \<open>The register of services\<close>

definition GOBJ_NAME_MAX :: nat where "GOBJ_NAME_MAX = 255"

definition service_key :: "string \<Rightarrow> string" where
  "service_key nm = to_lower (snprintf (GOBJ_NAME_MAX + 1) nm)"

fun alist_set :: "('a \<times> 'b) list \<Rightarrow> 'a \<Rightarrow> 'b \<Rightarrow> ('a \<times> 'b) list" where
  "alist_set [] k v = [(k, v)]"
| "alist_set ((k', v') # ps) k v = (if k' = k then (k, v) # ps else (k', v') # alist_set ps k v)"

text \<open>The previous holder is read for the error message before it is replaced.\<close>

definition register_service :: "hgobj \<Rightarrow> world \<Rightarrow> (int \<times> world) option" where
  "register_service h w = do {
     g \<leftarrow> gobjs w h;
     let key = service_key (gobj_name g);
     w \<leftarrow> (case map_of (jn_services w) key of
         None \<Rightarrow> Some w
       | Some prev \<Rightarrow> do { _ \<leftarrow> gobjs w prev;
           Some (log_msg ''service ALREADY REGISTERED. Will be UPDATED'' w) });
     Some (0, w\<lparr>jn_services := alist_set (jn_services w) key h\<rparr>)
   }"

definition deregister_service :: "hgobj \<Rightarrow> world \<Rightarrow> (int \<times> world) option" where
  "deregister_service h w = do {
     g \<leftarrow> gobjs w h;
     let key = service_key (gobj_name g);
     if map_of (jn_services w) key = None
     then Some (-1, log_msg ''service NOT found in register'' w)
     else Some (0, w\<lparr>jn_services := filter (\<lambda>p. fst p \<noteq> key) (jn_services w)\<rparr>)
   }"

definition gobj_find_service :: "world \<Rightarrow> string \<Rightarrow> hgobj option" where
  "gobj_find_service w service =
     (if service = [] then None
      else if strcasecmp_eq service ''__default_service__'' then default_service_gobj w
      else if strcasecmp_eq service ''__yuno__'' \<or> strcasecmp_eq service ''__root__''
        then yuno_gobj w
      else map_of (jn_services w) (service_key service))"

partial_function (option) top_service_loop :: "world \<Rightarrow> hgobj option \<Rightarrow> hgobj option option" where
  "top_service_loop w h = (case h of None \<Rightarrow> Some None
     | Some x \<Rightarrow> Option.bind (gobjs w x) (\<lambda>g.
         if has_flag (ob_flag g)
              (gobj_flag_service OR gobj_flag_top_service OR gobj_flag_yuno) then Some (Some x)
         else top_service_loop w (ob_parent g)))"

definition gobj_nearest_top_service :: "world \<Rightarrow> hgobj option \<Rightarrow> hgobj option option" where
  "gobj_nearest_top_service w h = (case h of None \<Rightarrow> Some None
     | Some x \<Rightarrow> Option.bind (gobjs w x) (\<lambda>g.
         if is_destroyed g then Some None else top_service_loop w (ob_parent g)))"

section \<open>Bottom gobjs\<close>

partial_function (option) deep_bottom_gobj :: "world \<Rightarrow> hgobj \<Rightarrow> hgobj option" where
  "deep_bottom_gobj w h = Option.bind (gobjs w h) (\<lambda>g.
     case bottom_gobj g of Some b \<Rightarrow> deep_bottom_gobj w b | None \<Rightarrow> Some h)"

definition gobj_last_bottom_gobj :: "world \<Rightarrow> hgobj \<Rightarrow> hgobj option option" where
  "gobj_last_bottom_gobj w h = do {
     g \<leftarrow> gobjs w h;
     case bottom_gobj g of
       Some b \<Rightarrow> map_option Some (deep_bottom_gobj w b)
     | None \<Rightarrow> Some None
   }"

section \<open>Walking over children\<close>

fun successor :: "'a \<Rightarrow> 'a list \<Rightarrow> 'a option" where
  "successor x [] = None"
| "successor x (y # ys) = (if x = y then (case ys of [] \<Rightarrow> None | z # _ \<Rightarrow> Some z) else successor x ys)"

text \<open>\<open>dl_next(child)\<close>: the link stored in the child, NULL once it is out of its parent's list.\<close>

definition next_child :: "world \<Rightarrow> hgobj \<Rightarrow> hgobj option option" where
  "next_child w c = (case gobjs w c of None \<Rightarrow> None
     | Some g \<Rightarrow> (case ob_parent g of None \<Rightarrow> Some None
       | Some p \<Rightarrow> (case gobjs w p of None \<Rightarrow> Some None
         | Some pg \<Rightarrow> Some (successor c (dl_children pg)))))"

definition first_child :: "world \<Rightarrow> hgobj \<Rightarrow> hgobj option option" where
  "first_child w h = map_option (\<lambda>g. case dl_children g of [] \<Rightarrow> None | c # _ \<Rightarrow> Some c) (gobjs w h)"

text \<open>
  \<open>rc_walk_by_list\<close> first to last: the next item is read before the callback runs. The state of a
  walk is the message the callback shares and the world; the loop need not end, since a callback
  may add children.
\<close>

type_synonym walk_cb = "hgobj \<Rightarrow> jn \<Rightarrow> world \<Rightarrow> (int \<times> jn \<times> world) option"

partial_function (option) walk_by_list ::
  "walk_cb \<Rightarrow> hgobj option \<Rightarrow> jn \<Rightarrow> world \<Rightarrow> (int \<times> jn \<times> world) option" where
  "walk_by_list cb child kw w = (case child of
     None \<Rightarrow> Some (0, kw, w)
   | Some c \<Rightarrow> Option.bind (next_child w c) (\<lambda>nxt.
       Option.bind (cb c kw w) (\<lambda>(ret, kw, w).
         if ret < 0 then Some (ret, kw, w) else walk_by_list cb nxt kw w)))"

text \<open>\<open>rc_walk_by_tree\<close> top to bottom; a positive result of the callback skips the branch.\<close>

partial_function (option) walk_by_tree ::
  "walk_cb \<Rightarrow> hgobj option \<Rightarrow> jn \<Rightarrow> world \<Rightarrow> (int \<times> jn \<times> world) option" where
  "walk_by_tree cb child kw w = (case child of
     None \<Rightarrow> Some (0, kw, w)
   | Some c \<Rightarrow> Option.bind (next_child w c) (\<lambda>nxt.
       Option.bind (cb c kw w) (\<lambda>(ret, kw, w).
         if ret < 0 then Some (ret, kw, w)
         else if ret = 0 then
           Option.bind (first_child w c) (\<lambda>fc.
           Option.bind (walk_by_tree cb fc kw w) (\<lambda>(ret, kw, w).
             if ret < 0 then Some (ret, kw, w) else walk_by_tree cb nxt kw w))
         else walk_by_tree cb nxt kw w)))"

definition gobj_walk_gobj_children ::
  "walk_cb \<Rightarrow> hgobj option \<Rightarrow> jn \<Rightarrow> world \<Rightarrow> (int \<times> jn \<times> world) option" where
  "gobj_walk_gobj_children cb h kw w = do {
     d \<leftarrow> gobj_is_destroying w h;
     if d then Some (0, kw, log_msg ''gobj NULL or destroying'' w)
     else (case h of None \<Rightarrow> Some (0, kw, w)
       | Some x \<Rightarrow> do { fc \<leftarrow> first_child w x; walk_by_list cb fc kw w })
   }"

definition gobj_walk_gobj_children_tree ::
  "walk_cb \<Rightarrow> hgobj option \<Rightarrow> jn \<Rightarrow> world \<Rightarrow> (int \<times> jn \<times> world) option" where
  "gobj_walk_gobj_children_tree cb h kw w = (case h of
     None \<Rightarrow> Some (0, kw, log_msg ''gobj NULL'' w)
   | Some x \<Rightarrow> do { fc \<leftarrow> first_child w x; walk_by_tree cb fc kw w })"


section \<open>Invariants of the walks\<close>

lemma walk_by_list_rule:
  assumes step: "\<And>c kw w. P w \<Longrightarrow> holds (\<lambda>(_, _, w'). P w') (cb c kw w)" and P: "P w"
  shows "holds (\<lambda>(_, _, w'). P w') (walk_by_list cb c kw w)"
proof (rule holdsI)
  have "cb' = cb \<longrightarrow> P w \<longrightarrow> (case r of (_, _, w') \<Rightarrow> P w')" if "walk_by_list cb' c kw w = Some r"
    for cb' c kw w r
  proof (rule walk_by_list.raw_induct [OF _ that], intro impI, goal_cases)
    case (1 walk cb' c kw w r)
    have IH: "holds (\<lambda>(_, _, w'). P w') (walk cb n kw' w')" if "P w'" for n kw' w'
      using 1(1) that unfolding holds_def by blast
    have "holds (\<lambda>(_, _, w'). P w') (Some r)"
      unfolding 1(2) [symmetric] \<open>cb' = cb\<close>
      by (auto simp: holds_simps 1(4) holds_def [of _ "next_child _ _"] split: option.splits
          intro!: holds_mono [OF step] IH)
    then show ?case by (simp add: holds_simps)
  qed
  then show "walk_by_list cb c kw w = Some r \<Longrightarrow> case r of (_, _, w') \<Rightarrow> P w'" for r
    using P by blast
qed

lemma walk_by_tree_rule:
  assumes step: "\<And>c kw w. P w \<Longrightarrow> holds (\<lambda>(_, _, w'). P w') (cb c kw w)" and P: "P w"
  shows "holds (\<lambda>(_, _, w'). P w') (walk_by_tree cb c kw w)"
proof (rule holdsI)
  have "cb' = cb \<longrightarrow> P w \<longrightarrow> (case r of (_, _, w') \<Rightarrow> P w')" if "walk_by_tree cb' c kw w = Some r"
    for cb' c kw w r
  proof (rule walk_by_tree.raw_induct [OF _ that], intro impI, goal_cases)
    case (1 walk cb' c kw w r)
    have IH: "holds (\<lambda>(_, _, w'). P w') (walk cb n kw' w')" if "P w'" for n kw' w'
      using 1(1) that unfolding holds_def by blast
    have "holds (\<lambda>(_, _, w'). P w') (Some r)"
      unfolding 1(2) [symmetric] \<open>cb' = cb\<close>
      by (auto simp: holds_simps 1(4) holds_def [of _ "next_child _ _"]
          holds_def [of _ "first_child _ _"] split: option.splits
          intro!: holds_mono [OF step] holds_mono [OF IH] IH)
    then show ?case by (simp add: holds_simps)
  qed
  then show "walk_by_tree cb c kw w = Some r \<Longrightarrow> case r of (_, _, w') \<Rightarrow> P w'" for r
    using P by blast
qed

lemma walk_children_rule:
  assumes "\<And>c kw w. P w \<Longrightarrow> holds (\<lambda>(_, _, w'). P w') (cb c kw w)" "P w"
    and "\<And>m w. P w \<Longrightarrow> P (log_msg m w)"
  shows "holds (\<lambda>(_, _, w'). P w') (gobj_walk_gobj_children cb h kw w)"
  unfolding gobj_walk_gobj_children_def
  by (auto simp: holds_simps assms(2,3) holds_def [of _ "gobj_is_destroying _ _"]
      holds_def [of _ "first_child _ _"] split: option.splits
      intro!: walk_by_list_rule [of P, OF assms(1,2)])

lemma walk_children_tree_rule:
  assumes "\<And>c kw w. P w \<Longrightarrow> holds (\<lambda>(_, _, w'). P w') (cb c kw w)" "P w"
    and "\<And>m w. P w \<Longrightarrow> P (log_msg m w)"
  shows "holds (\<lambda>(_, _, w'). P w') (gobj_walk_gobj_children_tree cb h kw w)"
  unfolding gobj_walk_gobj_children_tree_def
  by (auto simp: holds_simps assms(2,3) holds_def [of _ "first_child _ _"] split: option.splits
      intro!: walk_by_tree_rule [of P, OF assms(1,2)])

end
