(* ===== verification/GObj_Subs.thy ===== *)
theory GObj_Subs
  imports GObj
begin

text \<open>
  Subscriptions: the functions of \<^verbatim>\<open>kernel/c/gobj-c/src/gobj.c\<close> from \<open>_create_subscription\<close> to
  \<open>gobj_find_subscribings\<close>. A subscription is stored twice, in the list of its publisher and in the
  list of its subscriber. The code of the gclasses is called through \<open>u\<close>, a parameter that is given
  what is called, the json it gets and the world, and returns the result, the json as it is left and
  the world.
\<close>

section \<open>Calls into the code of the gclasses\<close>

datatype ucall =
    U_action action_fn hgobj gobj_event "hgobj option"
  | U_inject_event hgobj "gobj_event option" "hgobj option"
  | U_state_changed hgobj
  | U_publish_event hgobj gobj_event
  | U_publication_pre_filter hgobj subscription gobj_event
  | U_publication_filter hgobj gobj_event hgobj
  | U_subscription_added hgobj subscription
  | U_subscription_deleted hgobj subscription
  | U_method gmethod hgobj
  | U_child_removed hgobj hgobj
  | U_set_bottom_gobj hgobj "hgobj option" "hgobj option"

type_synonym user = "ucall \<Rightarrow> jn \<Rightarrow> world \<Rightarrow> (int \<times> jn \<times> world) option"

section \<open>Creating and matching\<close>

definition kw_dict :: "jn \<Rightarrow> string \<Rightarrow> jn" where
  "kw_dict kw key = fst (kw_get_dict kw key None 0)"

definition kw_any :: "jn \<Rightarrow> string \<Rightarrow> jn" where
  "kw_any kw key = fst (kw_get_dict_value kw key None 0)"

text \<open>\<open>json_deep_copy\<close> when there is something to copy.\<close>

definition copy_if_any :: "jn \<Rightarrow> jn" where
  "copy_if_any v = (if json_size v > 0 then v else None)"

text \<open>Taking a boolean option out of the stored \<open>__config__\<close>.\<close>

definition take_option :: "json \<Rightarrow> string \<Rightarrow> 32 word \<Rightarrow> 32 word \<Rightarrow> json \<times> 32 word" where
  "take_option clone key opt flag =
     (if kw_has_key (Some clone) key
      then (json_object_del clone key,
            if fst (kw_get_bool (Some clone) key False 0) then flag OR opt else flag)
      else (clone, flag))"

definition create_subscription ::
  "gclass list \<Rightarrow> hgobj \<Rightarrow> gobj_event option \<Rightarrow> jn \<Rightarrow> hgobj \<Rightarrow> subscription" where
  "create_subscription reg publisher ev kw subscriber =
     (let subs = \<lparr>subs_publisher = publisher, subs_subscriber = subscriber, subs_event = ev,
            subs_renamed = None, subs_flag = 0, subs_config = None, subs_global = None,
            subs_local = None, subs_filter = None, subs_service = []\<rparr>
      in if kw = None then subs
      else
        let config = kw_dict kw ''__config__'';
            service = (case fst (kw_get_str kw ''__service__'' (Some []) 0) of
                         None \<Rightarrow> [] | Some s \<Rightarrow> s);
            subs = subs\<lparr>subs_global := copy_if_any (kw_dict kw ''__global__'')\<rparr>;
            subs = (case copy_if_any config of None \<Rightarrow> subs
              | Some clone \<Rightarrow>
                  (let renamed = fst (kw_get_str (Some clone) ''__rename_event_name__'' None 0);
                       et = (case renamed of None \<Rightarrow> None
                         | Some nm \<Rightarrow> if nm = [] then None else gobj_find_event_type reg nm 0);
                       (clone, subs, flag) = (case et of
                           None \<Rightarrow> (clone, subs, 0)
                         | Some e \<Rightarrow>
                             (json_object_del clone ''__rename_event_name__'',
                              subs\<lparr>subs_renamed := Some (event_name e),
                                   subs_global := snd (kw_set_dict_value
                                     (case subs_global subs of None \<Rightarrow> Some (JObject [])
                                        | Some g \<Rightarrow> if json_is_object (Some g) then Some g
                                            else Some (JObject []))
                                     ''__original_event_name__'' (map_option JString ev))\<rparr>,
                              subs_rename_event_name));
                       (clone, flag) =
                         take_option clone ''__hard_subscription__'' subs_hard_subscription flag;
                       (clone, flag) = take_option clone ''__own_event__'' subs_own_event flag
                   in subs\<lparr>subs_config := Some clone, subs_flag := flag\<rparr>))
        in subs\<lparr>subs_local := copy_if_any (kw_dict kw ''__local__''),
                subs_filter := copy_if_any (kw_any kw ''__filter__''),
                subs_service := service\<rparr>)"

text \<open>One of the four json fields: an empty one in the request asks for nothing.\<close>

definition match_field :: "jn \<Rightarrow> jn \<Rightarrow> bool" where
  "match_field stored wanted \<longleftrightarrow>
     (if json_size wanted > 0
      then (if json_size stored > 0
            then (case (stored, wanted) of (Some a, Some b) \<Rightarrow> json_equal a b | _ \<Rightarrow> False)
            else False)
      else True)"

definition match_subscription ::
  "subscription \<Rightarrow> hgobj option \<Rightarrow> gobj_event option \<Rightarrow> jn \<Rightarrow> hgobj option \<Rightarrow> bool" where
  "match_subscription subs publisher ev kw subscriber \<longleftrightarrow>
     (case publisher of None \<Rightarrow> True | Some p \<Rightarrow> p = subs_publisher subs) \<and>
     (case subscriber of None \<Rightarrow> True | Some s \<Rightarrow> s = subs_subscriber subs) \<and>
     (case ev of None \<Rightarrow> True | Some e \<Rightarrow> subs_event subs = Some e) \<and>
     match_field (subs_config subs) (kw_dict kw ''__config__'') \<and>
     match_field (subs_global subs) (kw_dict kw ''__global__'') \<and>
     match_field (subs_local subs) (kw_dict kw ''__local__'') \<and>
     match_field (subs_filter subs) (kw_any kw ''__filter__'')"

definition find_subscriptions ::
  "subscription list \<Rightarrow> hgobj option \<Rightarrow> gobj_event option \<Rightarrow> jn \<Rightarrow> hgobj option \<Rightarrow> subscription list"
  where
  "find_subscriptions dl publisher ev kw subscriber =
     filter (\<lambda>s. match_subscription s publisher ev kw subscriber) dl"

fun find_index :: "('a \<Rightarrow> bool) \<Rightarrow> 'a list \<Rightarrow> nat option" where
  "find_index P [] = None"
| "find_index P (x # xs) = (if P x then Some 0 else map_option Suc (find_index P xs))"

definition get_subs_idx ::
  "subscription list \<Rightarrow> hgobj option \<Rightarrow> gobj_event option \<Rightarrow> jn \<Rightarrow> hgobj option \<Rightarrow> nat option" where
  "get_subs_idx dl publisher ev kw subscriber =
     find_index (\<lambda>s. match_subscription s publisher ev kw subscriber) dl"

text \<open>The subscription record seen as the \<open>kw\<close> of a match: its json fields that are set.\<close>

definition subs_kw :: "subscription \<Rightarrow> jn" where
  "subs_kw s = Some (JObject
     ((case subs_config s of None \<Rightarrow> [] | Some v \<Rightarrow> [(''__config__'', v)]) @
      (case subs_global s of None \<Rightarrow> [] | Some v \<Rightarrow> [(''__global__'', v)]) @
      (case subs_local s of None \<Rightarrow> [] | Some v \<Rightarrow> [(''__local__'', v)]) @
      (case subs_filter s of None \<Rightarrow> [] | Some v \<Rightarrow> [(''__filter__'', v)])))"

definition remove_at :: "nat \<Rightarrow> 'a list \<Rightarrow> 'a list" where
  "remove_at i xs = take i xs @ drop (i + 1) xs"

section \<open>Deleting\<close>

text \<open>The two removals of \<open>_delete_subscription\<close>, in the publisher and in the subscriber.\<close>

definition remove_from_publisher :: "subscription \<Rightarrow> world \<Rightarrow> world option" where
  "remove_from_publisher subs w = do {
     p \<leftarrow> gobjs w (subs_publisher subs);
     (case get_subs_idx (dl_subscriptions p) (Some (subs_publisher subs)) (subs_event subs)
             (subs_kw subs) (Some (subs_subscriber subs)) of
        Some i \<Rightarrow> upd_gobj (subs_publisher subs)
          (\<lambda>g. g\<lparr>dl_subscriptions := remove_at i (dl_subscriptions g)\<rparr>) w
      | None \<Rightarrow> Some (log_msg ''subscription in publisher not found'' w))
   }"

definition remove_from_subscriber :: "subscription \<Rightarrow> world \<Rightarrow> world option" where
  "remove_from_subscriber subs w = do {
     s \<leftarrow> gobjs w (subs_subscriber subs);
     (case get_subs_idx (dl_subscribings s) (Some (subs_publisher subs)) (subs_event subs)
             (subs_kw subs) (Some (subs_subscriber subs)) of
        Some i \<Rightarrow> upd_gobj (subs_subscriber subs)
          (\<lambda>g. g\<lparr>dl_subscribings := remove_at i (dl_subscribings g)\<rparr>) w
      | None \<Rightarrow> Some (log_msg ''subscription in subscriber not found'' w))
   }"

definition delete_subscription ::
  "user \<Rightarrow> subscription \<Rightarrow> bool \<Rightarrow> bool \<Rightarrow> world \<Rightarrow> (int \<times> world) option" where
  "delete_subscription u subs force not_inform w =
     (if has_flag (subs_flag subs) subs_hard_subscription \<and> \<not> force then Some (-1, w)
      else do {
        _ \<leftarrow> gobjs w (subs_subscriber subs);
        p \<leftarrow> gobjs w (subs_publisher subs);
        gc \<leftarrow> gclass_of w p;
        w \<leftarrow> (if \<not> is_destroyed p \<and> \<not> not_inform \<and> mt_subscription_deleted \<in> set (gmt gc)
              then map_option (\<lambda>(_, _, w). w)
                (u (U_subscription_deleted (subs_publisher subs) subs) None w)
              else Some w);
        w \<leftarrow> remove_from_publisher subs w;
        w \<leftarrow> remove_from_subscriber subs w;
        Some (0, w)
      })"

text \<open>\<open>gobj_unsubscribe_list\<close>: a loop over a copy of the list; the results are not used.\<close>

fun unsubscribe_list :: "user \<Rightarrow> subscription list \<Rightarrow> bool \<Rightarrow> world \<Rightarrow> world option" where
  "unsubscribe_list u [] force w = Some w"
| "unsubscribe_list u (s # ss) force w = do {
     (_, w) \<leftarrow> delete_subscription u s force False w;
     unsubscribe_list u ss force w
   }"

section \<open>Subscribing and unsubscribing\<close>

definition subscription_keys :: "string set" where
  "subscription_keys =
     {''__config__'', ''__global__'', ''__local__'', ''__filter__'', ''__service__''}"

definition warn_keys :: "jn \<Rightarrow> world \<Rightarrow> world" where
  "warn_keys kw w = (case kw of
     Some (JObject ps) \<Rightarrow>
       fold (\<lambda>(k, v) w. if k \<in> subscription_keys then w
          else log_msg ''key ignored in subscription'' w) ps w
   | _ \<Rightarrow> w)"

text \<open>The check of the event: NULL and "" stand for all events, an output event is required else.\<close>

definition check_output_event ::
  "world \<Rightarrow> hgobj \<Rightarrow> gobj_event option \<Rightarrow> (bool \<times> gobj_event option) option" where
  "check_output_event w publisher ev =
     (if ev = None \<or> ev = Some [] then Some (True, None)
      else do {
        has \<leftarrow> gobj_has_output_event w publisher ev EVF_OUTPUT_EVENT;
        g \<leftarrow> gobjs w publisher;
        gc \<leftarrow> gclass_of w g;
        Some (has \<or> has_flag (gc_flag gc) gcflag_no_check_output_events, ev)
      })"

definition gobj_subscribe_event ::
  "user \<Rightarrow> hgobj option \<Rightarrow> gobj_event option \<Rightarrow> jn \<Rightarrow> hgobj option \<Rightarrow> world \<Rightarrow>
   (subscription option \<times> world) option" where
  "gobj_subscribe_event u publisher ev kw subscriber w =
     (let kw = (case kw of None \<Rightarrow> Some (JObject []) | Some _ \<Rightarrow> kw) in
      case (publisher, subscriber) of
        (None, _) \<Rightarrow> Some (None, log_msg ''publisher NULL'' w)
      | (Some _, None) \<Rightarrow> Some (None, log_msg ''subscriber NULL'' w)
      | (Some p, Some s) \<Rightarrow> do {
          let w = warn_keys kw w;
          (ok, ev) \<leftarrow> check_output_event w p ev;
          if \<not> ok then Some (None, log_msg ''event NOT in output event list'' w)
          else do {
            pg \<leftarrow> gobjs w p;
            let repeated = find_subscriptions (dl_subscriptions pg) (Some p) ev kw (Some s);
            w \<leftarrow> (if repeated \<noteq> []
                  then unsubscribe_list u repeated False
                    (log_msg ''subscription(s) REPEATED, will be deleted and override'' w)
                  else Some w);
            let subs = create_subscription (dl_gclass w) p ev kw s;
            w \<leftarrow> upd_gobj p (\<lambda>g. g\<lparr>dl_subscriptions := dl_subscriptions g @ [subs]\<rparr>) w;
            w \<leftarrow> upd_gobj s (\<lambda>g. g\<lparr>dl_subscribings := dl_subscribings g @ [subs]\<rparr>) w;
            pg \<leftarrow> gobjs w p;
            gc \<leftarrow> gclass_of w pg;
            if mt_subscription_added \<in> set (gmt gc) then do {
              (result, _, w) \<leftarrow> u (U_subscription_added p subs) None w;
              if result < 0 then do {
                (_, w) \<leftarrow> delete_subscription u subs True True w;
                Some (None, w)
              } else Some (Some subs, w)
            } else Some (Some subs, w)
          }
        })"

definition gobj_unsubscribe_event ::
  "user \<Rightarrow> hgobj option \<Rightarrow> gobj_event option \<Rightarrow> jn \<Rightarrow> hgobj option \<Rightarrow> world \<Rightarrow>
   (int \<times> world) option" where
  "gobj_unsubscribe_event u publisher ev kw subscriber w =
     (let kw = (case kw of None \<Rightarrow> Some (JObject []) | Some _ \<Rightarrow> kw) in
      case (publisher, subscriber) of
        (None, _) \<Rightarrow> Some (-1, log_msg ''publisher NULL'' w)
      | (Some _, None) \<Rightarrow> Some (-1, log_msg ''subscriber NULL'' w)
      | (Some p, Some s) \<Rightarrow> do {
          let w = warn_keys kw w;
          (ok, ev) \<leftarrow> check_output_event w p ev;
          if \<not> ok then Some (0, log_msg ''event NOT in output event list'' w)
          else do {
            pg \<leftarrow> gobjs w p;
            let found = find_subscriptions (dl_subscriptions pg) (Some p) ev kw (Some s);
            w \<leftarrow> unsubscribe_list u found False w;
            Some (0, if found = [] then log_msg ''No subscription found'' w else w)
          }
        })"

definition gobj_find_subscriptions ::
  "world \<Rightarrow> hgobj \<Rightarrow> gobj_event option \<Rightarrow> jn \<Rightarrow> hgobj option \<Rightarrow> subscription list option" where
  "gobj_find_subscriptions w publisher ev kw subscriber =
     map_option (\<lambda>g. find_subscriptions (dl_subscriptions g) (Some publisher) ev
       (case kw of None \<Rightarrow> Some (JObject []) | Some _ \<Rightarrow> kw) subscriber) (gobjs w publisher)"

definition gobj_find_subscribings ::
  "world \<Rightarrow> hgobj \<Rightarrow> gobj_event option \<Rightarrow> jn \<Rightarrow> hgobj option \<Rightarrow> subscription list option" where
  "gobj_find_subscribings w gobj ev kw publisher =
     map_option (\<lambda>g. find_subscriptions (dl_subscribings g) publisher ev
       (case kw of None \<Rightarrow> Some (JObject []) | Some _ \<Rightarrow> kw) (Some gobj)) (gobjs w gobj)"

end
