(* ===== verification/GObj_Events.thy ===== *)
theory GObj_Events
  imports GObj_Subs
begin

text \<open>
  Events: sending, posting, delivering and publishing, and the change of state, as in
  \<^verbatim>\<open>kernel/c/gobj-c/src/gobj.c\<close> from \<open>gobj_send_event\<close> to \<open>gobj_change_state\<close> and
  \<open>gobj_publish_event\<close>. Each function gets the ones it calls as arguments; \<open>GObj_Kernel\<close> ties the
  knot. A call returns the result, the json message as the callee leaves it (messages are shared by
  reference) and the world.
\<close>

type_synonym send_fn =
  "hgobj option \<Rightarrow> gobj_event option \<Rightarrow> jn \<Rightarrow> hgobj option \<Rightarrow> world \<Rightarrow> (int \<times> jn \<times> world) option"
type_synonym publish_fn =
  "hgobj option \<Rightarrow> gobj_event option \<Rightarrow> jn \<Rightarrow> world \<Rightarrow> (int \<times> jn \<times> world) option"
type_synonym change_state_fn =
  "hgobj option \<Rightarrow> gobj_state \<Rightarrow> world \<Rightarrow> (bool \<times> world) option"

definition EV_STATE_CHANGED :: gobj_event where
  "EV_STATE_CHANGED = ''EV_STATE_CHANGED''"

section \<open>Sending\<close>

definition gobj_send_event_with :: "user \<Rightarrow> change_state_fn \<Rightarrow> send_fn" where
  "gobj_send_event_with u change_state dst ev kw src w = (case dst of
     None \<Rightarrow> Some (-1, kw, log_msg ''hgobj dst NULL'' w)
   | Some d \<Rightarrow> do {
       g \<leftarrow> gobjs w d;
       if is_destroying g then Some (-1, kw, log_msg
         (if is_destroyed g then ''gobj DESTROYED'' else ''gobj DESTROYING'') w)
       else (case current_state g of
         None \<Rightarrow> Some (-1, kw, log_msg ''current_state NULL'' w)
       | Some st \<Rightarrow> do {
           gc \<leftarrow> gclass_of w g;
           state \<leftarrow> find_state gc st;
           (case Option.bind ev (find_event_action state) of
              None \<Rightarrow>
                (if mt_inject_event \<in> set (gmt gc) then u (U_inject_event d ev src) kw w
                 else do {
                   _ \<leftarrow> deref_opt w src;
                   Some (-1, kw, log_msg ''Event NOT DEFINED in state'' w)
                 })
            | Some ea \<Rightarrow> do {
                w \<leftarrow> (case ea_next_state ea of
                       None \<Rightarrow> Some w
                     | Some nxt \<Rightarrow> map_option snd (change_state (Some d) nxt w));
                (case ea_action ea of
                   Some act \<Rightarrow> u (U_action act d (ea_event ea) src) kw w
                 | None \<Rightarrow> Some (-1, kw, w))
              })
         })
     })"

text \<open>The callback of \<open>gobj_send_event_to_children\<close> and of its tree variant.\<close>

definition cb_send_event_if_in :: "send_fn \<Rightarrow> gobj_event \<Rightarrow> hgobj option \<Rightarrow> walk_cb" where
  "cb_send_event_if_in send ev src child kw w = do {
     has \<leftarrow> gobj_has_event w child (Some ev) 0;
     if has then do { (_, kw, w) \<leftarrow> send (Some child) (Some ev) kw src w; Some (0, kw, w) }
     else Some (0, kw, w)
   }"

definition gobj_send_event_to_children ::
  "send_fn \<Rightarrow> hgobj option \<Rightarrow> gobj_event \<Rightarrow> jn \<Rightarrow> hgobj option \<Rightarrow> world \<Rightarrow>
   (int \<times> jn \<times> world) option" where
  "gobj_send_event_to_children send h ev kw src w = (case h of
     None \<Rightarrow> Some (-1, kw, log_msg ''gobj NULL'' w)
   | Some x \<Rightarrow> do {
       (_, kw, w) \<leftarrow> gobj_walk_gobj_children (cb_send_event_if_in send ev src) (Some x) kw w;
       Some (0, kw, w)
     })"

definition gobj_send_event_to_children_tree ::
  "send_fn \<Rightarrow> hgobj option \<Rightarrow> gobj_event \<Rightarrow> jn \<Rightarrow> hgobj option \<Rightarrow> world \<Rightarrow>
   (int \<times> jn \<times> world) option" where
  "gobj_send_event_to_children_tree send h ev kw src w = (case h of
     None \<Rightarrow> Some (-1, kw, log_msg ''gobj NULL'' w)
   | Some x \<Rightarrow> do {
       (_, kw, w) \<leftarrow> gobj_walk_gobj_children_tree (cb_send_event_if_in send ev src) (Some x) kw w;
       Some (0, kw, w)
     })"

section \<open>Posting\<close>

definition MAX_POSTED_EVENTS :: nat where "MAX_POSTED_EVENTS = 10000"

text \<open>
  The queue is the \<open>dl_list\<close> of the theory \<open>Dl_List\<close>: \<open>dl_add\<close> appends an item with the next id.
\<close>

definition queue_add :: "hgobj \<Rightarrow> hgobj option \<Rightarrow> gobj_event \<Rightarrow> jn \<Rightarrow> world \<Rightarrow> world" where
  "queue_add dst src ev kw w = w\<lparr>
     posted_total := posted_total w + 1,
     posted_last_id := sz_add (posted_last_id w) 1,
     dl_posted_events := dl_posted_events w @
       [\<lparr>pe_id = sz_add (posted_last_id w) 1, pe_dst = dst, pe_src = src, pe_event = ev, pe_kw = kw\<rparr>]\<rparr>"

definition gobj_post_event ::
  "hgobj option \<Rightarrow> gobj_event option \<Rightarrow> jn \<Rightarrow> hgobj option \<Rightarrow> world \<Rightarrow> (int \<times> world) option" where
  "gobj_post_event dst ev kw src w = (case dst of
     None \<Rightarrow> Some (-1, log_msg ''hgobj dst NULL'' w)
   | Some d \<Rightarrow> do {
       g \<leftarrow> gobjs w d;
       if is_destroying g then Some (-1, log_msg
         (if is_destroyed g then ''gobj DESTROYED'' else ''gobj DESTROYING'') w)
       else (case ev of None \<Rightarrow> Some (-1, log_msg ''event EMPTY'' w)
         | Some e \<Rightarrow>
             if e = [] then Some (-1, log_msg ''event EMPTY'' w)
             else do {
               has \<leftarrow> gobj_has_event w d (Some e) 0;
               if \<not> has then Some (-1, log_msg ''Event NOT DEFINED in gclass'' w)
               else if length (dl_posted_events w) \<ge> MAX_POSTED_EVENTS
                 then Some (-1, log_msg ''Too many posted events, this is NOT a work queue'' w)
               else Some (0, queue_add d src e kw w)
             })
     })"

definition gobj_posted_events_size :: "world \<Rightarrow> size_t" where
  "gobj_posted_events_size w = length (dl_posted_events w)"

partial_function (option) deliver_loop ::
  "send_fn \<Rightarrow> size_t \<Rightarrow> int \<Rightarrow> world \<Rightarrow> (int \<times> world) option" where
  "deliver_loop send last_id delivered w = (case dl_posted_events w of
     [] \<Rightarrow> Some (delivered, w)
   | msg # rest \<Rightarrow>
       if pe_id msg > last_id then Some (delivered, w)
       else Option.bind
         (send (Some (pe_dst msg)) (Some (pe_event msg)) (pe_kw msg) (pe_src msg)
            (w\<lparr>dl_posted_events := rest\<rparr>))
         (\<lambda>(_, _, w). deliver_loop send last_id (delivered + 1) w))"

definition gobj_deliver_posted_events :: "send_fn \<Rightarrow> world \<Rightarrow> (int \<times> world) option" where
  "gobj_deliver_posted_events send w =
     (if dl_posted_events w = [] then Some (0, w)
      else deliver_loop send (pe_id (last (dl_posted_events w))) 0 w)"

text \<open>\<open>purge_posted_events\<close>: entries for the gobj go, entries from it lose their source.\<close>

fun purge_loop :: "hgobj \<Rightarrow> posted_event list \<Rightarrow> posted_event list" where
  "purge_loop h [] = []"
| "purge_loop h (msg # rest) =
     (let msg = (if pe_src msg = Some h then msg\<lparr>pe_src := None\<rparr> else msg) in
      if pe_dst msg \<noteq> h then msg # purge_loop h rest else purge_loop h rest)"

definition purge_posted_events :: "hgobj \<Rightarrow> world \<Rightarrow> world" where
  "purge_posted_events h w = w\<lparr>dl_posted_events := purge_loop h (dl_posted_events w)\<rparr>"

section \<open>Changing the state\<close>

definition state_changed_kw :: "gobj_state \<Rightarrow> gobj_state \<Rightarrow> json" where
  "state_changed_kw previous current =
     JObject [(''previous_state'', JString previous), (''current_state'', JString current)]"

definition gobj_change_state_with :: "user \<Rightarrow> publish_fn \<Rightarrow> change_state_fn" where
  "gobj_change_state_with u publish h nm w = (case h of
     None \<Rightarrow> Some (False, log_msg ''hgobj NULL'' w)
   | Some x \<Rightarrow> do {
       g \<leftarrow> gobjs w x;
       if is_destroyed g then Some (False, log_msg ''gobj DESTROYED'' w)
       else do {
         current \<leftarrow> current_state g;
         if current = nm then Some (False, w)
         else do {
           gc \<leftarrow> gclass_of w g;
           (case find_state gc nm of
              None \<Rightarrow> Some (False, log_msg ''state unknown'' w)
            | Some new_state \<Rightarrow> do {
                w \<leftarrow> upd_gobj x (\<lambda>g. g\<lparr>last_state := Some current, current_state := Some nm\<rparr>) w;
                let kw_st = Some (state_changed_kw current nm);
                (_, _, w) \<leftarrow> (if mt_state_changed \<in> set (gmt gc) then u (U_state_changed x) kw_st w
                             else publish (Some x) (Some EV_STATE_CHANGED) kw_st w);
                Some (True, w)
              })
         }
       }
     })"

section \<open>Publishing\<close>

text \<open>The message a subscriber gets: local keys removed, global keys added.\<close>

definition apply_local_global :: "subscription \<Rightarrow> jn \<Rightarrow> jn" where
  "apply_local_global subs kw =
     (let kw = (if json_size (subs_local subs) > 0
                then (case (kw, subs_local subs) of (Some j, Some l) \<Rightarrow> Some (kw_pop j l) | _ \<Rightarrow> kw)
                else kw)
      in if json_size (subs_global subs) > 0
         then (case (kw, subs_global subs) of (Some j, Some g) \<Rightarrow> Some (json_object_update j g) | _ \<Rightarrow> kw)
         else kw)"

text \<open>
  The loop over the copy of the subscriptions. The message \<open>kw\<close> is the same object in every round.
  The result holds the message, the sum of the returns, the number of events sent and the world.
\<close>

fun publish_loop :: "libc_real \<Rightarrow> user \<Rightarrow> send_fn \<Rightarrow> hgobj \<Rightarrow> gobj_event \<Rightarrow> subscription list \<Rightarrow>
  jn \<Rightarrow> int \<Rightarrow> nat \<Rightarrow> world \<Rightarrow> (jn \<times> int \<times> nat \<times> world) option" where
  "publish_loop lc u send publisher ev [] kw ret sent w = Some (kw, ret, sent, w)"
| "publish_loop lc u send publisher ev (subs # rest) kw ret sent w = do {
     p \<leftarrow> gobjs w publisher;
     gc \<leftarrow> gclass_of w p;
     (topublish, kw, w) \<leftarrow> (if mt_publication_pre_filter \<in> set (gmt gc)
        then u (U_publication_pre_filter publisher subs ev) kw w else Some (1, kw, w));
     if topublish < 0 then Some (kw, ret, sent, w)
     else if topublish = 0 then publish_loop lc u send publisher ev rest kw ret sent w
     else do {
       s \<leftarrow> gobjs w (subs_subscriber subs);
       if is_destroying s then publish_loop lc u send publisher ev rest kw ret sent w
       else if \<not> (subs_event subs = None \<or> subs_event subs = Some ev)
         then publish_loop lc u send publisher ev rest kw ret sent w
       else do {
         let event_name = (case subs_renamed subs of None \<Rightarrow> ev | Some e \<Rightarrow> e);
         p \<leftarrow> gobjs w publisher;
         gc \<leftarrow> gclass_of w p;
         (topublish, kw, w) \<leftarrow> (if mt_publication_filter \<in> set (gmt gc)
            then u (U_publication_filter publisher ev (subs_subscriber subs)) kw w
            else if json_size (subs_filter subs) > 0
              then Some (if kw_match_simple lc kw (subs_filter subs) then 1 else 0, kw, w)
            else Some (1, kw, w));
         if topublish < 0 then Some (kw, ret, sent, w)
         else if topublish = 0 then publish_loop lc u send publisher ev rest kw ret sent w
         else do {
           et \<leftarrow> gobj_event_type w (subs_subscriber subs) (Some ev) True;
           has \<leftarrow> gobj_has_event w (subs_subscriber subs) (Some ev) 0;
           if (case et of None \<Rightarrow> False | Some e \<Rightarrow> has_flag (event_flag e) EVF_SYSTEM_EVENT) \<and> \<not> has
           then publish_loop lc u send publisher ev rest kw ret sent w
           else do {
             (ret1, kw, w) \<leftarrow> send (Some (subs_subscriber subs)) (Some event_name)
                (apply_local_global subs kw) (Some publisher) w;
             if ret1 < 0 \<and> has_flag (subs_flag subs) subs_own_event
             then Some (kw, ret, sent + 1, w)
             else do {
               p \<leftarrow> gobjs w publisher;
               if is_destroying p then Some (kw, ret + ret1, sent + 1, w)
               else publish_loop lc u send publisher ev rest kw (ret + ret1) (sent + 1) w
             }
           }
         }
       }
     }
   }"

definition gobj_publish_event_with :: "libc_real \<Rightarrow> user \<Rightarrow> send_fn \<Rightarrow> publish_fn" where
  "gobj_publish_event_with lc u send publisher ev kw w =
     (let kw = (case kw of None \<Rightarrow> Some (JObject []) | Some _ \<Rightarrow> kw) in
      case publisher of
        None \<Rightarrow> Some (-1, kw, log_msg ''gobj NULL'' w)
      | Some p \<Rightarrow> do {
          g \<leftarrow> gobjs w p;
          if is_destroyed g then Some (-1, kw, log_msg ''gobj DESTROYED'' w)
          else (case ev of None \<Rightarrow> Some (-1, kw, log_msg ''event EMPTY'' w)
          | Some e \<Rightarrow> if e = [] then Some (-1, kw, log_msg ''event EMPTY'' w)
            else do {
              gc \<leftarrow> gclass_of w g;
              let et = event_type_in w gc e True;
              if \<not> (case et of None \<Rightarrow> False
                     | Some t \<Rightarrow> has_flag (event_flag t) (EVF_SYSTEM_EVENT OR EVF_OUTPUT_EVENT)) \<and>
                 \<not> has_flag (gc_flag gc) gcflag_no_check_output_events
              then Some (-1, kw, log_msg ''event NOT in output event list'' w)
              else do {
                (topublish, kw, w) \<leftarrow> (if mt_publish_event \<in> set (gmt gc)
                   then u (U_publish_event p e) kw w else Some (1, kw, w));
                if topublish \<le> 0 then Some (topublish, kw, w)
                else do {
                  g \<leftarrow> gobjs w p;
                  (kw, ret, sent, w) \<leftarrow>
                    publish_loop lc u send p e (dl_subscriptions g) kw 0 0 w;
                  Some (ret, kw,
                    if sent = 0 \<and> (case et of None \<Rightarrow> True
                       | Some t \<Rightarrow> \<not> has_flag (event_flag t) EVF_NO_WARN_SUBS)
                    then log_msg ''Publish event WITHOUT subscribers'' w else w)
                }
              }
            })
        })"


section \<open>The delivery loop\<close>

lemma deliver_loop_rule:
  assumes empty: "\<And>n w. P n w \<Longrightarrow> dl_posted_events w = [] \<Longrightarrow> Q (n, w)"
    and later: "\<And>n w msg rest. P n w \<Longrightarrow> dl_posted_events w = msg # rest \<Longrightarrow> last_id < pe_id msg \<Longrightarrow>
      Q (n, w)"
    and step: "\<And>n w msg rest. P n w \<Longrightarrow> dl_posted_events w = msg # rest \<Longrightarrow> pe_id msg \<le> last_id \<Longrightarrow>
      holds (\<lambda>(_, _, w'). P (n + 1) w') (send (Some (pe_dst msg)) (Some (pe_event msg)) (pe_kw msg)
        (pe_src msg) (w\<lparr>dl_posted_events := rest\<rparr>))"
    and P: "P n w"
  shows "holds Q (deliver_loop send last_id n w)"
proof (rule holdsI)
  have "s = send \<longrightarrow> l = last_id \<longrightarrow> P n w \<longrightarrow> Q r" if "deliver_loop s l n w = Some r" for s l n w r
  proof (rule deliver_loop.raw_induct [OF _ that], intro impI, goal_cases)
    case (1 loop s l n w r)
    have IH: "holds Q (loop send last_id n' w')" if "P n' w'" for n' w'
      using 1(1) that unfolding holds_def by blast
    have "holds Q (Some r)"
      unfolding 1(2) [symmetric] \<open>s = send\<close> \<open>l = last_id\<close>
      by (auto simp: holds_simps not_less empty [OF 1(5)] later [OF 1(5)] split: list.splits
          intro!: holds_mono [OF step [OF 1(5)]] IH)
    then show ?case by (simp add: holds_simps)
  qed
  then show "deliver_loop send last_id n w = Some r \<Longrightarrow> Q r" for r
    using P by blast
qed

end
