(* ===== verification/GObj_Lifecycle.thy ===== *)
theory GObj_Lifecycle
  imports GObj_Events
begin

text \<open>
  The life of a gobj: start, stop, play, pause, enable, disable and destroy, of one gobj, of its
  children and of its tree, as in \<^verbatim>\<open>kernel/c/gobj-c/src/gobj.c\<close>. Every method of a gclass is a
  \<open>U_method\<close> call. \<open>dl_delete\<close> on the list of children removes the link of the gobj (see
  \<open>Dl_List\<close>); a gobj whose memory is freed leaves \<open>gobjs\<close>.
\<close>

type_synonym life_fn = "hgobj option \<Rightarrow> world \<Rightarrow> (int \<times> world) option"
type_synonym destroy_fn = "hgobj option \<Rightarrow> world \<Rightarrow> world option"
type_synonym set_bottom_fn =
  "hgobj option \<Rightarrow> hgobj option \<Rightarrow> world \<Rightarrow> (hgobj option \<times> world) option"

text \<open>Calling a method without message, when the gclass has it.\<close>

definition call_method :: "user \<Rightarrow> gmethod \<Rightarrow> hgobj \<Rightarrow> world \<Rightarrow> (int \<times> world) option" where
  "call_method u m x w = map_option (\<lambda>(ret, _, w). (ret, w)) (u (U_method m x) None w)"

definition has_method :: "world \<Rightarrow> gmethod \<Rightarrow> hgobj \<Rightarrow> bool option" where
  "has_method w m x = do { g \<leftarrow> gobjs w x; gc \<leftarrow> gclass_of w g; Some (m \<in> set (gmt gc)) }"

section \<open>Start\<close>

definition empty_json :: "jn \<Rightarrow> bool" where
  "empty_json v \<longleftrightarrow> json_is_array v \<and> json_array_size v = 0 \<or>
     json_is_object v \<and> json_object_size v = 0 \<or> json_is_null v"

definition missing_attr :: "json \<Rightarrow> sdata_desc \<Rightarrow> bool" where
  "missing_attr hs it \<longleftrightarrow> has_flag (sd_flag it) SDF_REQUIRED \<and>
     (let v = json_object_get (Some hs) (sd_name it) in
      case sd_type it of
        DTP_STRING \<Rightarrow> json_string_value v = None \<or> json_string_value v = Some []
      | DTP_LIST \<Rightarrow> empty_json v
      | DTP_DICT \<Rightarrow> empty_json v
      | DTP_JSON \<Rightarrow> empty_json v
      | DTP_POINTER \<Rightarrow> json_integer_value v = 0
      | _ \<Rightarrow> False)"

definition gobj_check_required_attrs :: "gclass \<Rightarrow> gobj \<Rightarrow> string list" where
  "gobj_check_required_attrs gc g = map sd_name (filter (missing_attr (jn_attrs g)) (attrs_table gc))"

definition gobj_start_with :: "user \<Rightarrow> life_fn" where
  "gobj_start_with u h w = (case h of
     None \<Rightarrow> Some (-1, log_msg ''gobj NULL'' w)
   | Some x \<Rightarrow> do {
       g \<leftarrow> gobjs w x;
       if running g then Some (-1, log_msg ''GObj ALREADY RUNNING'' w)
       else if disabled g then Some (-1, log_msg ''GObj DISABLED'' w)
       else do {
         gc \<leftarrow> gclass_of w g;
         if gobj_check_required_attrs gc g \<noteq> []
         then Some (-1, log_msg ''Cannot start without all required attributes'' w)
         else do {
           w \<leftarrow> upd_gobj x (\<lambda>g. g\<lparr>running := True\<rparr>) w;
           if mt_start \<in> set (gmt gc) then call_method u mt_start x w else Some (0, w)
         }
       }
     })"

definition cb_start_child :: "life_fn \<Rightarrow> walk_cb" where
  "cb_start_child start child kw w = do {
     g \<leftarrow> gobjs w child;
     gc \<leftarrow> gclass_of w g;
     if has_flag (gc_flag gc) gcflag_manual_start then Some (0, kw, w)
     else if has_flag (ob_flag g) gobj_flag_manual_start then Some (0, kw, w)
     else do {
       dst \<leftarrow> gobj_is_destroying w (Some child);
       run \<leftarrow> gobj_is_running w (Some child);
       dis \<leftarrow> gobj_is_disabled w (Some child);
       if \<not> dst \<and> \<not> run \<and> \<not> dis
       then do { (_, w) \<leftarrow> start (Some child) w; Some (0, kw, w) }
       else Some (0, kw, w)
     }
   }"

definition gobj_start_children_with :: "life_fn \<Rightarrow> life_fn" where
  "gobj_start_children_with start h w = (case h of
     None \<Rightarrow> Some (-1, log_msg ''gobj NULL'' w)
   | Some x \<Rightarrow> map_option (\<lambda>(ret, _, w). (ret, w))
       (gobj_walk_gobj_children (cb_start_child start) (Some x) None w))"

definition cb_start_child_tree :: "life_fn \<Rightarrow> walk_cb" where
  "cb_start_child_tree start child kw w = do {
     g \<leftarrow> gobjs w child;
     gc \<leftarrow> gclass_of w g;
     if has_flag (gc_flag gc) gcflag_manual_start then Some (1, kw, w)
     else if has_flag (ob_flag g) gobj_flag_manual_start then Some (1, kw, w)
     else do {
       dis \<leftarrow> gobj_is_disabled w (Some child);
       if dis then Some (1, kw, w)
       else do {
         run \<leftarrow> gobj_is_running w (Some child);
         if \<not> run then do { (_, w) \<leftarrow> start (Some child) w; Some (0, kw, w) }
         else Some (0, kw, w)
       }
     }
   }"

definition gobj_start_tree_with :: "life_fn \<Rightarrow> life_fn" where
  "gobj_start_tree_with start h w = (case h of
     None \<Rightarrow> Some (-1, log_msg ''gobj NULL'' w)
   | Some x \<Rightarrow> do {
       g \<leftarrow> gobjs w x;
       gc \<leftarrow> gclass_of w g;
       if has_flag (gc_flag gc) gcflag_manual_start then Some (0, w)
       else if has_flag (ob_flag g) gobj_flag_manual_start then Some (0, w)
       else if disabled g then Some (0, w)
       else do {
         w \<leftarrow> (if \<not> running g then map_option snd (start (Some x) w) else Some w);
         map_option (\<lambda>(ret, _, w). (ret, w))
           (gobj_walk_gobj_children_tree (cb_start_child_tree start) (Some x) None w)
       }
     })"

section \<open>Play and pause\<close>

definition gobj_pause_with :: "user \<Rightarrow> life_fn" where
  "gobj_pause_with u h w = (case h of
     None \<Rightarrow> Some (-1, log_msg ''gobj NULL'' w)
   | Some x \<Rightarrow> do {
       g \<leftarrow> gobjs w x;
       if has_flag (ob_obflag g) obflag_destroying then Some (-1, log_msg ''hgobj destroying'' w)
       else if \<not> playing g then Some (-1, log_msg ''GObj NOT PLAYING'' w)
       else do {
         w \<leftarrow> upd_gobj x (\<lambda>g. g\<lparr>playing := False\<rparr>) w;
         gc \<leftarrow> gclass_of w g;
         if mt_pause \<in> set (gmt gc) then call_method u mt_pause x w else Some (0, w)
       }
     })"

definition gobj_play_with :: "user \<Rightarrow> life_fn \<Rightarrow> life_fn" where
  "gobj_play_with u start h w = (case h of
     None \<Rightarrow> Some (-1, log_msg ''gobj NULL'' w)
   | Some x \<Rightarrow> do {
       g \<leftarrow> gobjs w x;
       if has_flag (ob_obflag g) obflag_destroying then Some (-1, log_msg ''hgobj destroying'' w)
       else if playing g then Some (-1, log_msg ''GObj ALREADY PLAYING'' w)
       else if disabled g then Some (-1, log_msg ''GObj DISABLED'' w)
       else do {
         run \<leftarrow> gobj_is_running w (Some x);
         gc \<leftarrow> gclass_of w g;
         if \<not> run \<and> has_flag (gc_flag gc) gcflag_required_start_to_play
         then Some (-1, log_msg ''Cannot play, start not done'' w)
         else do {
           w \<leftarrow> (if \<not> run then map_option snd
                   (start (Some x) (log_msg ''GObj playing without previous start'' w))
                 else Some w);
           w \<leftarrow> upd_gobj x (\<lambda>g. g\<lparr>playing := True\<rparr>) w;
           if mt_play \<in> set (gmt gc) then do {
             (ret, w) \<leftarrow> call_method u mt_play x w;
             w \<leftarrow> (if ret < 0 then upd_gobj x (\<lambda>g. g\<lparr>playing := False\<rparr>) w else Some w);
             Some (ret, w)
           } else Some (0, w)
         }
       }
     })"

section \<open>Stop\<close>

definition gobj_stop_with :: "user \<Rightarrow> life_fn \<Rightarrow> life_fn" where
  "gobj_stop_with u pause h w = (case h of
     None \<Rightarrow> Some (-1, log_msg ''gobj NULL'' w)
   | Some x \<Rightarrow> do {
       g \<leftarrow> gobjs w x;
       if has_flag (ob_obflag g) obflag_destroying then Some (-1, log_msg ''hgobj destroying'' w)
       else if \<not> running g
       then Some (-1, if shutdowning w then w else log_msg ''GObj NOT RUNNING'' w)
       else do {
         w \<leftarrow> (if playing g then map_option snd
                 (pause (Some x) (log_msg ''GObj stopping without previous pause'' w))
               else Some w);
         w \<leftarrow> upd_gobj x (\<lambda>g. g\<lparr>running := False\<rparr>) w;
         stops \<leftarrow> has_method w mt_stop x;
         if stops then call_method u mt_stop x w else Some (0, w)
       }
     })"

definition cb_stop_child :: "life_fn \<Rightarrow> walk_cb" where
  "cb_stop_child stop child kw w = do {
     run \<leftarrow> gobj_is_running w (Some child);
     if run then do { (_, w) \<leftarrow> stop (Some child) w; Some (0, kw, w) } else Some (0, kw, w)
   }"

definition gobj_stop_children_with :: "life_fn \<Rightarrow> life_fn" where
  "gobj_stop_children_with stop h w = (case h of
     None \<Rightarrow> Some (-1, log_msg ''gobj NULL'' w)
   | Some x \<Rightarrow> do {
       g \<leftarrow> gobjs w x;
       if has_flag (ob_obflag g) obflag_destroying then Some (-1, log_msg ''hgobj destroying'' w)
       else map_option (\<lambda>(ret, _, w). (ret, w))
         (gobj_walk_gobj_children (cb_stop_child stop) (Some x) None w)
     })"

definition gobj_stop_tree_with :: "life_fn \<Rightarrow> life_fn" where
  "gobj_stop_tree_with stop h w = (case h of
     None \<Rightarrow> Some (-1, log_msg ''gobj NULL'' w)
   | Some x \<Rightarrow> do {
       g \<leftarrow> gobjs w x;
       if has_flag (ob_obflag g) obflag_destroying then Some (-1, log_msg ''hgobj destroying'' w)
       else do {
         run \<leftarrow> gobj_is_running w (Some x);
         w \<leftarrow> (if run then map_option snd (stop (Some x) w) else Some w);
         map_option (\<lambda>(ret, _, w). (ret, w))
           (gobj_walk_gobj_children_tree (cb_stop_child stop) (Some x) None w)
       }
     })"

section \<open>Enable and disable\<close>

definition gobj_disable_with :: "user \<Rightarrow> life_fn \<Rightarrow> life_fn" where
  "gobj_disable_with u stop_tree h w = (case h of
     None \<Rightarrow> Some (-1, log_msg ''gobj NULL'' w)
   | Some x \<Rightarrow> do {
       g \<leftarrow> gobjs w x;
       if disabled g then Some (-1, log_msg ''GObj ALREADY disabled'' w)
       else do {
         gc \<leftarrow> gclass_of w g;
         w \<leftarrow> upd_gobj x (\<lambda>g. g\<lparr>disabled := True\<rparr>) w;
         if mt_disable \<in> set (gmt gc) then call_method u mt_disable x w else stop_tree (Some x) w
       }
     })"

definition gobj_enable_with :: "user \<Rightarrow> life_fn \<Rightarrow> life_fn" where
  "gobj_enable_with u start_tree h w = (case h of
     None \<Rightarrow> Some (-1, log_msg ''gobj NULL'' w)
   | Some x \<Rightarrow> do {
       g \<leftarrow> gobjs w x;
       if \<not> disabled g then Some (-1, log_msg ''GObj NOT disabled'' w)
       else do {
         gc \<leftarrow> gclass_of w g;
         w \<leftarrow> upd_gobj x (\<lambda>g. g\<lparr>disabled := False\<rparr>) w;
         if mt_enable \<in> set (gmt gc) then call_method u mt_enable x w else start_tree (Some x) w
       }
     })"

section \<open>The bottom gobj\<close>

text \<open>The names of the old and the new bottom gobj are read for the warning.\<close>

definition gobj_set_bottom_gobj_with :: "user \<Rightarrow> set_bottom_fn" where
  "gobj_set_bottom_gobj_with u h bottom w = (case h of
     None \<Rightarrow> Some (None, log_msg ''gobj NULL'' w)
   | Some x \<Rightarrow> do {
       g \<leftarrow> gobjs w x;
       w \<leftarrow> (if bottom_gobj g \<noteq> None \<and> bottom \<noteq> None then do {
               _ \<leftarrow> deref_opt w (bottom_gobj g);
               _ \<leftarrow> deref_opt w bottom;
               Some (log_msg ''bottom_gobj already set'' w)
             } else Some w);
       let previous = bottom_gobj g;
       gc \<leftarrow> gclass_of w g;
       w \<leftarrow> upd_gobj x (\<lambda>g. g\<lparr>bottom_gobj := bottom\<rparr>) w;
       w \<leftarrow> (if mt_set_bottom_gobj \<in> set (gmt gc)
             then map_option (\<lambda>(_, _, w). w) (u (U_set_bottom_gobj x bottom previous) None w)
             else Some w);
       Some (previous, w)
     })"

section \<open>Destroy\<close>

fun dec_instances :: "gclass list \<Rightarrow> string \<Rightarrow> gclass list" where
  "dec_instances [] nm = []"
| "dec_instances (gc # reg) nm =
     (if nm = gclass_name gc then gc\<lparr>instances := instances gc - 1\<rparr> # reg
      else gc # dec_instances reg nm)"

text \<open>The steps of \<open>gobj_destroy\<close>, each a group of statements of the function in its order.\<close>

definition destroy_quiesce :: "life_fn \<Rightarrow> life_fn \<Rightarrow> hgobj \<Rightarrow> world \<Rightarrow> world option" where
  "destroy_quiesce pause stop x w = do {
     g \<leftarrow> gobjs w x;
     w \<leftarrow> (if playing g
           then map_option snd (pause (Some x) (log_msg ''Destroying a PLAYING gobj'' w)) else Some w);
     g \<leftarrow> gobjs w x;
     if running g
     then map_option snd (stop (Some x) (log_msg ''Destroying a RUNNING gobj'' w)) else Some w
   }"

definition destroy_inform_parent :: "user \<Rightarrow> hgobj option \<Rightarrow> hgobj \<Rightarrow> world \<Rightarrow> world option" where
  "destroy_inform_parent u parent x w = (case parent of
     None \<Rightarrow> Some w
   | Some p \<Rightarrow> do {
       has \<leftarrow> has_method w mt_child_removed p;
       if has then map_option (\<lambda>(_, _, w). w) (u (U_child_removed p x) None w) else Some w
     })"

definition destroy_service :: "hgobj \<Rightarrow> world \<Rightarrow> world option" where
  "destroy_service x w = do {
     g \<leftarrow> gobjs w x;
     if has_flag (ob_flag g) (gobj_flag_service OR gobj_flag_top_service)
     then map_option snd (deregister_service x w) else Some w
   }"

definition destroy_subscriptions :: "user \<Rightarrow> hgobj \<Rightarrow> world \<Rightarrow> world option" where
  "destroy_subscriptions u x w = do {
     g \<leftarrow> gobjs w x;
     w \<leftarrow> unsubscribe_list u (dl_subscriptions g) True w;
     g \<leftarrow> gobjs w x;
     unsubscribe_list u (dl_subscribings g) True w
   }"

definition destroy_from_parent ::
  "set_bottom_fn \<Rightarrow> hgobj option \<Rightarrow> hgobj \<Rightarrow> world \<Rightarrow> world option" where
  "destroy_from_parent set_bottom parent x w = (case parent of
     None \<Rightarrow> Some w
   | Some _ \<Rightarrow> do {
       g \<leftarrow> gobjs w x;
       p \<leftarrow> ob_parent g;
       w \<leftarrow> upd_gobj p (\<lambda>pg. pg\<lparr>dl_children := remove1 x (dl_children pg)\<rparr>) w;
       vol \<leftarrow> gobj_is_volatil w x;
       if vol then do {
         pg \<leftarrow> gobjs w p;
         if bottom_gobj pg = Some x \<and> \<not> is_destroying pg
         then map_option snd (set_bottom (Some p) None w) else Some w
       } else Some w
     })"

definition destroy_method :: "user \<Rightarrow> hgobj \<Rightarrow> world \<Rightarrow> world option" where
  "destroy_method u x w = do {
     g \<leftarrow> gobjs w x;
     if has_flag (ob_obflag g) obflag_created then do {
       has \<leftarrow> has_method w mt_destroy x;
       if has then map_option snd (call_method u mt_destroy x w) else Some w
     } else Some w
   }"

definition destroy_free :: "hgobj \<Rightarrow> world \<Rightarrow> world option" where
  "destroy_free x w = do {
     g \<leftarrow> gobjs w x;
     let w = (if has_flag (ob_obflag g) obflag_created
              then w\<lparr>dl_gclass := dec_instances (dl_gclass w) (ob_gclass g)\<rparr> else w);
     Some (w\<lparr>gobjs := (gobjs w)(x := None)\<rparr>)
   }"

definition gobj_destroy_with ::
  "user \<Rightarrow> life_fn \<Rightarrow> life_fn \<Rightarrow> set_bottom_fn \<Rightarrow> destroy_fn \<Rightarrow> destroy_fn" where
  "gobj_destroy_with u pause stop set_bottom destroy_children h w = (case h of
     None \<Rightarrow> Some (log_msg ''hgobj NULL'' w)
   | Some x \<Rightarrow> do {
       g \<leftarrow> gobjs w x;
       let w = (if ob_refs g > 0 then log_msg ''gobj DESTROYING with references'' w else w);
       if has_flag (ob_obflag g) obflag_destroying
       then Some (log_msg ''gobj ALREADY DESTROYING'' w)
       else do {
         w \<leftarrow> destroy_quiesce pause stop x w;
         w \<leftarrow> upd_gobj x (\<lambda>g. g\<lparr>ob_obflag := ob_obflag g OR obflag_destroying\<rparr>) w;
         let w = purge_posted_events x w;
         g \<leftarrow> gobjs w x;
         let parent = ob_parent g;
         w \<leftarrow> destroy_inform_parent u parent x w;
         w \<leftarrow> destroy_service x w;
         w \<leftarrow> destroy_subscriptions u x w;
         w \<leftarrow> destroy_from_parent set_bottom parent x w;
         w \<leftarrow> destroy_children (Some x) w;
         w \<leftarrow> destroy_method u x w;
         destroy_free x w
       }
     })"

text \<open>The loop of \<open>gobj_destroy_children\<close>: the next child is read before the child is destroyed.\<close>

partial_function (option) destroy_children_loop ::
  "destroy_fn \<Rightarrow> hgobj option \<Rightarrow> world \<Rightarrow> world option" where
  "destroy_children_loop destroy child w = (case child of
     None \<Rightarrow> Some w
   | Some c \<Rightarrow> Option.bind (gobjs w c) (\<lambda>g. Option.bind (next_child w c) (\<lambda>nxt.
       Option.bind (if \<not> is_destroying g then destroy (Some c) w
                    else Some (log_msg ''Destroying a destroyed child'' w))
         (destroy_children_loop destroy nxt))))"

definition gobj_destroy_children_with :: "destroy_fn \<Rightarrow> destroy_fn" where
  "gobj_destroy_children_with destroy h w = (case h of
     None \<Rightarrow> Some (log_msg ''gobj NULL'' w)
   | Some x \<Rightarrow> do { fc \<leftarrow> first_child w x; destroy_children_loop destroy fc w })"

definition cb_destroy_named_children ::
  "life_fn \<Rightarrow> life_fn \<Rightarrow> destroy_fn \<Rightarrow> string \<Rightarrow> walk_cb" where
  "cb_destroy_named_children pause stop destroy nm child kw w = do {
     g \<leftarrow> gobjs w child;
     if gobj_name g = nm then do {
       play \<leftarrow> gobj_is_playing w (Some child);
       w \<leftarrow> (if play then map_option snd (pause (Some child) w) else Some w);
       run \<leftarrow> gobj_is_running w (Some child);
       w \<leftarrow> (if run then map_option snd (stop (Some child) w) else Some w);
       w \<leftarrow> destroy (Some child) w;
       Some (0, kw, w)
     } else Some (0, kw, w)
   }"

definition gobj_destroy_named_children_with ::
  "life_fn \<Rightarrow> life_fn \<Rightarrow> destroy_fn \<Rightarrow> hgobj option \<Rightarrow> string \<Rightarrow> world \<Rightarrow> (int \<times> world) option" where
  "gobj_destroy_named_children_with pause stop destroy h nm w = (case h of
     None \<Rightarrow> Some (-1, log_msg ''gobj NULL'' w)
   | Some x \<Rightarrow> do {
       (_, _, w) \<leftarrow> gobj_walk_gobj_children (cb_destroy_named_children pause stop destroy nm)
          (Some x) None w;
       Some (0, w)
     })"


section \<open>The loop over the children\<close>

lemma destroy_children_loop_rule:
  assumes step: "\<And>c w. P w \<Longrightarrow> holds P (destroy (Some c) w)" and P: "P w"
    and log: "\<And>m w. P w \<Longrightarrow> P (log_msg m w)"
  shows "holds P (destroy_children_loop destroy c w)"
proof (rule holdsI)
  have "d = destroy \<longrightarrow> P w \<longrightarrow> P r" if "destroy_children_loop d c w = Some r" for d c w r
  proof (rule destroy_children_loop.raw_induct [OF _ that], intro impI, goal_cases)
    case (1 loop d c w r)
    have IH: "holds P (loop destroy n w')" if "P w'" for n w'
      using 1(1) that unfolding holds_def by blast
    have "holds P (Some r)"
      unfolding 1(2) [symmetric] \<open>d = destroy\<close>
      by (auto simp: holds_simps 1(4) holds_def [of _ "next_child _ _"] holds_def [of _ "gobjs _ _"]
          split: option.splits intro!: holds_mono [OF step] IH log)
    then show ?case by (simp add: holds_simps)
  qed
  then show "destroy_children_loop destroy c w = Some r \<Longrightarrow> P r" for r
    using P by blast
qed

end
