(* ===== verification/GObj_Kernel.thy ===== *)
theory GObj_Kernel
  imports GObj_Lifecycle
begin

text \<open>
  The functions of \<^verbatim>\<open>kernel/c/gobj-c/src/gobj.c\<close> tied together. The code of the gclasses (actions,
  methods) is a parameter: a function of the kernel's operations. The kernel and this code call each
  other, and a C stack is finite, so \<open>kernel lc code n\<close> holds the operations with at most \<open>n\<close>
  nested entries; deeper calls have no result. Every statement about the kernel is for all \<open>n\<close>.
\<close>

section \<open>The operations the code of a gclass can call\<close>

record kapi =
  k_send :: send_fn
  k_send_children :: "hgobj option \<Rightarrow> gobj_event \<Rightarrow> jn \<Rightarrow> hgobj option \<Rightarrow> world \<Rightarrow>
    (int \<times> jn \<times> world) option"
  k_send_tree :: "hgobj option \<Rightarrow> gobj_event \<Rightarrow> jn \<Rightarrow> hgobj option \<Rightarrow> world \<Rightarrow>
    (int \<times> jn \<times> world) option"
  k_post :: "hgobj option \<Rightarrow> gobj_event option \<Rightarrow> jn \<Rightarrow> hgobj option \<Rightarrow> world \<Rightarrow> (int \<times> world) option"
  k_deliver :: "world \<Rightarrow> (int \<times> world) option"
  k_publish :: publish_fn
  k_change_state :: change_state_fn
  k_subscribe :: "hgobj option \<Rightarrow> gobj_event option \<Rightarrow> jn \<Rightarrow> hgobj option \<Rightarrow> world \<Rightarrow>
    (subscription option \<times> world) option"
  k_unsubscribe :: "hgobj option \<Rightarrow> gobj_event option \<Rightarrow> jn \<Rightarrow> hgobj option \<Rightarrow> world \<Rightarrow>
    (int \<times> world) option"
  k_start :: life_fn
  k_start_children :: life_fn
  k_start_tree :: life_fn
  k_stop :: life_fn
  k_stop_children :: life_fn
  k_stop_tree :: life_fn
  k_play :: life_fn
  k_pause :: life_fn
  k_enable :: life_fn
  k_disable :: life_fn
  k_set_bottom :: set_bottom_fn
  k_destroy :: destroy_fn
  k_destroy_children :: destroy_fn
  k_destroy_named :: "hgobj option \<Rightarrow> string \<Rightarrow> world \<Rightarrow> (int \<times> world) option"

type_synonym user_code = "kapi \<Rightarrow> user"

definition no_kernel :: kapi where
  "no_kernel = \<lparr>
     k_send = \<lambda>_ _ _ _ _. None, k_send_children = \<lambda>_ _ _ _ _. None,
     k_send_tree = \<lambda>_ _ _ _ _. None, k_post = \<lambda>_ _ _ _ _. None, k_deliver = \<lambda>_. None,
     k_publish = \<lambda>_ _ _ _. None, k_change_state = \<lambda>_ _ _. None, k_subscribe = \<lambda>_ _ _ _ _. None,
     k_unsubscribe = \<lambda>_ _ _ _ _. None, k_start = \<lambda>_ _. None, k_start_children = \<lambda>_ _. None,
     k_start_tree = \<lambda>_ _. None, k_stop = \<lambda>_ _. None, k_stop_children = \<lambda>_ _. None,
     k_stop_tree = \<lambda>_ _. None, k_play = \<lambda>_ _. None, k_pause = \<lambda>_ _. None, k_enable = \<lambda>_ _. None,
     k_disable = \<lambda>_ _. None, k_set_bottom = \<lambda>_ _ _. None, k_destroy = \<lambda>_ _. None,
     k_destroy_children = \<lambda>_ _. None, k_destroy_named = \<lambda>_ _ _. None\<rparr>"

text \<open>One entry into the kernel: the functions it calls are those of \<open>k\<close>.\<close>

definition kernel_step :: "libc_real \<Rightarrow> user_code \<Rightarrow> kapi \<Rightarrow> kapi" where
  "kernel_step lc code k = (let u = code k in \<lparr>
     k_send = gobj_send_event_with u (k_change_state k),
     k_send_children = gobj_send_event_to_children (k_send k),
     k_send_tree = gobj_send_event_to_children_tree (k_send k),
     k_post = gobj_post_event,
     k_deliver = gobj_deliver_posted_events (k_send k),
     k_publish = gobj_publish_event_with lc u (k_send k),
     k_change_state = gobj_change_state_with u (k_publish k),
     k_subscribe = gobj_subscribe_event u,
     k_unsubscribe = gobj_unsubscribe_event u,
     k_start = gobj_start_with u,
     k_start_children = gobj_start_children_with (k_start k),
     k_start_tree = gobj_start_tree_with (k_start k),
     k_stop = gobj_stop_with u (k_pause k),
     k_stop_children = gobj_stop_children_with (k_stop k),
     k_stop_tree = gobj_stop_tree_with (k_stop k),
     k_play = gobj_play_with u (k_start k),
     k_pause = gobj_pause_with u,
     k_enable = gobj_enable_with u (k_start_tree k),
     k_disable = gobj_disable_with u (k_stop_tree k),
     k_set_bottom = gobj_set_bottom_gobj_with u,
     k_destroy = gobj_destroy_with u (k_pause k) (k_stop k) (k_set_bottom k) (k_destroy_children k),
     k_destroy_children = gobj_destroy_children_with (k_destroy k),
     k_destroy_named = gobj_destroy_named_children_with (k_pause k) (k_stop k) (k_destroy k)\<rparr>)"

primrec kernel :: "libc_real \<Rightarrow> user_code \<Rightarrow> nat \<Rightarrow> kapi" where
  "kernel lc code 0 = no_kernel"
| "kernel lc code (Suc n) = kernel_step lc code (kernel lc code n)"

section \<open>Scripts: a concrete code of gclasses\<close>

text \<open>
  A straight-line program of calls into the kernel, with the gobj itself and the sender of the event
  as operands. A script stops at the first call whose result is negative, or at its \<open>I_return\<close>.
\<close>

datatype operand = Self | Src | Handle hgobj

datatype instr =
    I_send operand gobj_event json
  | I_post operand gobj_event json
  | I_publish gobj_event json
  | I_change_state gobj_state
  | I_subscribe operand "gobj_event option" json operand
  | I_unsubscribe operand "gobj_event option" json operand
  | I_start operand
  | I_stop operand
  | I_play operand
  | I_pause operand
  | I_destroy operand
  | I_set_key string json
  | I_return int

fun operand_of :: "hgobj \<Rightarrow> hgobj option \<Rightarrow> operand \<Rightarrow> hgobj option" where
  "operand_of self src Self = Some self"
| "operand_of self src Src = src"
| "operand_of self src (Handle h) = Some h"

definition with_kw :: "jn \<Rightarrow> (int \<times> world) option \<Rightarrow> (int \<times> jn \<times> world) option" where
  "with_kw kw m = map_option (\<lambda>(ret, w). (ret, kw, w)) m"

fun run_instr :: "kapi \<Rightarrow> hgobj \<Rightarrow> hgobj option \<Rightarrow> instr \<Rightarrow> jn \<Rightarrow> world \<Rightarrow> (int \<times> jn \<times> world) option"
  where
  "run_instr k self src (I_send d ev v) kw w = map_option (\<lambda>(ret, _, w). (ret, kw, w))
     (k_send k (operand_of self src d) (Some ev) (Some v) (Some self) w)"
| "run_instr k self src (I_post d ev v) kw w =
     with_kw kw (k_post k (operand_of self src d) (Some ev) (Some v) (Some self) w)"
| "run_instr k self src (I_publish ev v) kw w = map_option (\<lambda>(ret, _, w). (ret, kw, w))
     (k_publish k (Some self) (Some ev) (Some v) w)"
| "run_instr k self src (I_change_state st) kw w =
     with_kw kw (map_option (\<lambda>(_, w). (0, w)) (k_change_state k (Some self) st w))"
| "run_instr k self src (I_subscribe p ev v s) kw w =
     with_kw kw (map_option (\<lambda>(_, w). (0, w))
       (k_subscribe k (operand_of self src p) ev (Some v) (operand_of self src s) w))"
| "run_instr k self src (I_unsubscribe p ev v s) kw w = with_kw kw
     (k_unsubscribe k (operand_of self src p) ev (Some v) (operand_of self src s) w)"
| "run_instr k self src (I_start d) kw w = with_kw kw (k_start k (operand_of self src d) w)"
| "run_instr k self src (I_stop d) kw w = with_kw kw (k_stop k (operand_of self src d) w)"
| "run_instr k self src (I_play d) kw w = with_kw kw (k_play k (operand_of self src d) w)"
| "run_instr k self src (I_pause d) kw w = with_kw kw (k_pause k (operand_of self src d) w)"
| "run_instr k self src (I_destroy d) kw w =
     with_kw kw (map_option (\<lambda>w. (0, w)) (k_destroy k (operand_of self src d) w))"
| "run_instr k self src (I_set_key key v) kw w =
     Some (0, map_option (\<lambda>j. json_object_set j key v) kw, w)"
| "run_instr k self src (I_return ret) kw w = Some (ret, kw, w)"

fun run_script :: "kapi \<Rightarrow> hgobj \<Rightarrow> hgobj option \<Rightarrow> instr list \<Rightarrow> jn \<Rightarrow> world \<Rightarrow>
  (int \<times> jn \<times> world) option" where
  "run_script k self src [] kw w = Some (0, kw, w)"
| "run_script k self src (i # is) kw w = Option.bind (run_instr k self src i kw w) (\<lambda>(ret, kw, w).
     if ret < 0 \<or> is = [] then Some (ret, kw, w) else run_script k self src is kw w)"

fun ucall_self :: "ucall \<Rightarrow> hgobj" where
  "ucall_self (U_action act d ev src) = d"
| "ucall_self (U_inject_event d ev src) = d"
| "ucall_self (U_state_changed h) = h"
| "ucall_self (U_publish_event h ev) = h"
| "ucall_self (U_publication_pre_filter h s ev) = h"
| "ucall_self (U_publication_filter h ev d) = h"
| "ucall_self (U_subscription_added h s) = h"
| "ucall_self (U_subscription_deleted h s) = h"
| "ucall_self (U_method m h) = h"
| "ucall_self (U_child_removed h c) = h"
| "ucall_self (U_set_bottom_gobj h b p) = h"

fun ucall_src :: "ucall \<Rightarrow> hgobj option" where
  "ucall_src (U_action act d ev src) = src"
| "ucall_src (U_inject_event d ev src) = src"
| "ucall_src (U_child_removed h c) = Some c"
| "ucall_src _ = None"

definition script_code :: "(ucall \<Rightarrow> instr list) \<Rightarrow> user_code" where
  "script_code prog k c kw w = run_script k (ucall_self c) (ucall_src c) (prog c) kw w"

end
