(* ===== verification/GObj_Laws.thy ===== *)
theory GObj_Laws
  imports GObj_Kernel
begin

text \<open>
  Invariants of the kernel. The locale \<open>kernel_laws\<close> lists the changes the kernel makes to the world,
  each with the condition under which the code makes it; an invariant \<open>I\<close> and a relation \<open>R\<close>
  between an earlier and a later world that every one of these changes keeps are kept by every
  operation of the kernel at every depth, whatever the code of the gclasses does through the
  operations. The theory \<open>GObj_Invariants\<close> interprets the locale for each invariant of the program.
\<close>

section \<open>What is kept\<close>

definition good :: "(world \<Rightarrow> bool) \<Rightarrow> (world \<Rightarrow> world \<Rightarrow> bool) \<Rightarrow> world \<Rightarrow> world \<Rightarrow> bool" where
  "good I R w0 w \<longleftrightarrow> I w \<and> R w0 w"

abbreviation keeps2 :: "(world \<Rightarrow> bool) \<Rightarrow> (world \<Rightarrow> world \<Rightarrow> bool) \<Rightarrow> world \<Rightarrow> ('a \<times> world) option \<Rightarrow> bool"
  where "keeps2 I R w0 m \<equiv> holds (\<lambda>(_, w). good I R w0 w) m"

abbreviation keeps3 ::
  "(world \<Rightarrow> bool) \<Rightarrow> (world \<Rightarrow> world \<Rightarrow> bool) \<Rightarrow> world \<Rightarrow> ('a \<times> 'b \<times> world) option \<Rightarrow> bool"
  where "keeps3 I R w0 m \<equiv> holds (\<lambda>(_, _, w). good I R w0 w) m"

definition user_keeps :: "(world \<Rightarrow> bool) \<Rightarrow> (world \<Rightarrow> world \<Rightarrow> bool) \<Rightarrow> user \<Rightarrow> bool" where
  "user_keeps I R u \<longleftrightarrow> (\<forall>c kw w. I w \<longrightarrow> keeps3 I R w (u c kw w))"

definition send_keeps :: "(world \<Rightarrow> bool) \<Rightarrow> (world \<Rightarrow> world \<Rightarrow> bool) \<Rightarrow> send_fn \<Rightarrow> bool" where
  "send_keeps I R send \<longleftrightarrow> (\<forall>dst ev kw src w. I w \<longrightarrow> keeps3 I R w (send dst ev kw src w))"

definition life_keeps :: "(world \<Rightarrow> bool) \<Rightarrow> (world \<Rightarrow> world \<Rightarrow> bool) \<Rightarrow> life_fn \<Rightarrow> bool" where
  "life_keeps I R f \<longleftrightarrow> (\<forall>h w. I w \<longrightarrow> keeps2 I R w (f h w))"

definition destroy_keeps :: "(world \<Rightarrow> bool) \<Rightarrow> (world \<Rightarrow> world \<Rightarrow> bool) \<Rightarrow> destroy_fn \<Rightarrow> bool" where
  "destroy_keeps I R f \<longleftrightarrow> (\<forall>h w. I w \<longrightarrow> holds (good I R w) (f h w))"

definition walk_keeps :: "(world \<Rightarrow> bool) \<Rightarrow> (world \<Rightarrow> world \<Rightarrow> bool) \<Rightarrow> walk_cb \<Rightarrow> bool" where
  "walk_keeps I R cb \<longleftrightarrow> (\<forall>c kw w. I w \<longrightarrow> keeps3 I R w (cb c kw w))"

definition publish_keeps :: "(world \<Rightarrow> bool) \<Rightarrow> (world \<Rightarrow> world \<Rightarrow> bool) \<Rightarrow> publish_fn \<Rightarrow> bool" where
  "publish_keeps I R f \<longleftrightarrow> (\<forall>h ev kw w. I w \<longrightarrow> keeps3 I R w (f h ev kw w))"

definition change_keeps :: "(world \<Rightarrow> bool) \<Rightarrow> (world \<Rightarrow> world \<Rightarrow> bool) \<Rightarrow> change_state_fn \<Rightarrow> bool" where
  "change_keeps I R f \<longleftrightarrow> (\<forall>h st w. I w \<longrightarrow> keeps2 I R w (f h st w))"

definition bottom_keeps :: "(world \<Rightarrow> bool) \<Rightarrow> (world \<Rightarrow> world \<Rightarrow> bool) \<Rightarrow> set_bottom_fn \<Rightarrow> bool" where
  "bottom_keeps I R f \<longleftrightarrow> (\<forall>h b w. I w \<longrightarrow> keeps2 I R w (f h b w))"

definition api_keeps :: "(world \<Rightarrow> bool) \<Rightarrow> (world \<Rightarrow> world \<Rightarrow> bool) \<Rightarrow> kapi \<Rightarrow> bool" where
  "api_keeps I R k \<longleftrightarrow>
     send_keeps I R (k_send k) \<and> publish_keeps I R (k_publish k) \<and>
     change_keeps I R (k_change_state k) \<and> bottom_keeps I R (k_set_bottom k) \<and>
     (\<forall>f \<in> {k_start k, k_start_children k, k_start_tree k, k_stop k, k_stop_children k, k_stop_tree k,
            k_play k, k_pause k, k_enable k, k_disable k}. life_keeps I R f) \<and>
     destroy_keeps I R (k_destroy k) \<and> destroy_keeps I R (k_destroy_children k) \<and>
     (\<forall>w. I w \<longrightarrow>
        (\<forall>h ev kw src. keeps3 I R w (k_send_children k h ev kw src w)) \<and>
        (\<forall>h ev kw src. keeps3 I R w (k_send_tree k h ev kw src w)) \<and>
        (\<forall>dst ev kw src. keeps2 I R w (k_post k dst ev kw src w)) \<and>
        keeps2 I R w (k_deliver k w) \<and>
        (\<forall>p ev kw s. keeps2 I R w (k_subscribe k p ev kw s w)) \<and>
        (\<forall>p ev kw s. keeps2 I R w (k_unsubscribe k p ev kw s w)) \<and>
        (\<forall>h nm. keeps2 I R w (k_destroy_named k h nm w)))"

text \<open>The code of the gclasses changes the world through the operations it is given only.\<close>

definition code_keeps :: "(world \<Rightarrow> bool) \<Rightarrow> (world \<Rightarrow> world \<Rightarrow> bool) \<Rightarrow> user_code \<Rightarrow> bool" where
  "code_keeps I R code \<longleftrightarrow> (\<forall>k. api_keeps I R k \<longrightarrow> user_keeps I R (code k))"

section \<open>Writing through a handle\<close>

definition set_gobj :: "hgobj \<Rightarrow> gobj \<Rightarrow> world \<Rightarrow> world" where
  "set_gobj x g w = w\<lparr>gobjs := (gobjs w)(x \<mapsto> g)\<rparr>"

lemma upd_gobj_eq: "upd_gobj x f w = map_option (\<lambda>g. set_gobj x (f g) w) (gobjs w x)"
  by (simp add: upd_gobj_def set_gobj_def split: option.splits)

lemma holds_gobjs [holds_simps]: "holds Q (gobjs w x) \<longleftrightarrow> (\<forall>g. gobjs w x = Some g \<longrightarrow> Q g)"
  by (simp add: holds_def)

lemma holds_gclass [holds_simps]: "holds Q (gclass_of w g) \<longleftrightarrow> (\<forall>gc. gclass_of w g = Some gc \<longrightarrow> Q gc)"
  by (simp add: holds_def)

lemma holds_find_state [holds_simps]:
  "holds Q (find_state gc st) \<longleftrightarrow> (\<forall>s. find_state gc st = Some s \<longrightarrow> Q s)"
  by (simp add: holds_def)

lemma holds_upd [holds_simps]:
  "holds Q (upd_gobj x f w) \<longleftrightarrow> (\<forall>g. gobjs w x = Some g \<longrightarrow> Q (set_gobj x (f g) w))"
  by (auto simp: holds_def upd_gobj_eq)

section \<open>The laws\<close>

locale kernel_laws =
  fixes I :: "world \<Rightarrow> bool"
    and R :: "world \<Rightarrow> world \<Rightarrow> bool"
    and marked :: "hgobj \<Rightarrow> world \<Rightarrow> bool"
    and unserviced :: "hgobj \<Rightarrow> world \<Rightarrow> bool"
    and unlinked :: "hgobj \<Rightarrow> world \<Rightarrow> bool"
  assumes refl_law: "R w w"
    and trans_law: "R w1 w2 \<Longrightarrow> R w2 w3 \<Longrightarrow> R w1 w3"
    and log_law: "I w \<Longrightarrow> good I R w (log_msg m w)"
    and state_law: "I w \<Longrightarrow> gobjs w x = Some g \<Longrightarrow> gclass_of w g = Some gc \<Longrightarrow>
      find_state gc nm = Some st \<Longrightarrow> current_state g = Some previous \<Longrightarrow>
      good I R w (set_gobj x (g\<lparr>last_state := Some previous, current_state := Some nm\<rparr>) w)"
    and post_law: "I w \<Longrightarrow> gobjs w d = Some g \<Longrightarrow> \<not> is_destroying g \<Longrightarrow>
      length (dl_posted_events w) < MAX_POSTED_EVENTS \<Longrightarrow> good I R w (queue_add d src e kw w)"
    and pop_law: "I w \<Longrightarrow> dl_posted_events w = msg # rest \<Longrightarrow>
      good I R w (w\<lparr>dl_posted_events := rest\<rparr>)"
    and subscribe_law: "I w \<Longrightarrow> subs_publisher subs = p \<Longrightarrow> subs_subscriber subs = s \<Longrightarrow>
      upd_gobj p (\<lambda>g. g\<lparr>dl_subscriptions := dl_subscriptions g @ [subs]\<rparr>) w = Some w1 \<Longrightarrow>
      upd_gobj s (\<lambda>g. g\<lparr>dl_subscribings := dl_subscribings g @ [subs]\<rparr>) w1 = Some w2 \<Longrightarrow>
      good I R w w2"
    and unsubscribe_law: "I w \<Longrightarrow> remove_from_publisher subs w = Some w1 \<Longrightarrow>
      remove_from_subscriber subs w1 = Some w2 \<Longrightarrow> good I R w w2"
    and life_law: "I w \<Longrightarrow> gobjs w x = Some g \<Longrightarrow>
      good I R w (set_gobj x (g\<lparr>running := a, playing := b, disabled := c, bottom_gobj := nb\<rparr>) w)"
    and mark_law: "I w \<Longrightarrow> gobjs w x = Some g \<Longrightarrow>
      w' = purge_posted_events x
        (set_gobj x (g\<lparr>ob_obflag := ob_obflag g OR obflag_destroying\<rparr>) w) \<Longrightarrow>
      good I R w w' \<and> marked x w'"
    and service_law: "I w \<Longrightarrow> marked x w \<Longrightarrow> destroy_service x w = Some w' \<Longrightarrow>
      good I R w w' \<and> unserviced x w'"
    and parent_law: "I w \<Longrightarrow> marked x w \<Longrightarrow> gobjs w x = Some g \<Longrightarrow> ob_parent g = Some p \<Longrightarrow>
      upd_gobj p (\<lambda>pg. pg\<lparr>dl_children := remove1 x (dl_children pg)\<rparr>) w = Some w' \<Longrightarrow>
      good I R w w' \<and> unlinked x w'"
    and orphan_law: "I w \<Longrightarrow> gobjs w x = Some g \<Longrightarrow> ob_parent g = None \<Longrightarrow> unlinked x w"
    and free_law: "I w \<Longrightarrow> marked x w \<Longrightarrow> unserviced x w \<Longrightarrow> unlinked x w \<Longrightarrow>
      destroy_free x w = Some w' \<Longrightarrow> good I R w w'"
    and marked_stable: "marked x w \<Longrightarrow> R w w' \<Longrightarrow> marked x w'"
    and unserviced_stable: "unserviced x w \<Longrightarrow> R w w' \<Longrightarrow> unserviced x w'"
    and unlinked_stable: "unlinked x w \<Longrightarrow> R w w' \<Longrightarrow> unlinked x w'"
begin

lemma good_refl: "I w \<Longrightarrow> good I R w w"
  by (simp add: good_def refl_law)

lemma good_trans: "good I R w0 w \<Longrightarrow> good I R w w' \<Longrightarrow> good I R w0 w'"
  by (auto simp: good_def intro: trans_law)

lemma good_I: "good I R w0 w \<Longrightarrow> I w"
  by (simp add: good_def)

lemma good_log: "good I R w0 w \<Longrightarrow> good I R w0 (log_msg m w)"
  by (blast intro: good_trans good_I log_law)

lemma good_log_opt: "good I R w0 w \<Longrightarrow> good I R w0 (if b then log_msg m w else w)"
  by (simp add: good_log)

lemma lift3:
  "keeps3 I R w m \<Longrightarrow> good I R w0 w \<Longrightarrow> (\<And>ret kw' w'. good I R w0 w' \<Longrightarrow> Q (ret, kw', w')) \<Longrightarrow>
   holds Q m"
  by (erule holds_mono) (auto intro: good_trans)

lemma lift2:
  "keeps2 I R w m \<Longrightarrow> good I R w0 w \<Longrightarrow> (\<And>ret w'. good I R w0 w' \<Longrightarrow> Q (ret, w')) \<Longrightarrow> holds Q m"
  by (erule holds_mono) (auto intro: good_trans)

lemma lift1:
  "holds (good I R w) m \<Longrightarrow> good I R w0 w \<Longrightarrow> (\<And>w'. good I R w0 w' \<Longrightarrow> Q w') \<Longrightarrow> holds Q m"
  by (erule holds_mono) (auto intro: good_trans)

text \<open>Continuations of the calls: from a good world to every world the call may leave.\<close>

lemma user_rule:
  "user_keeps I R u \<Longrightarrow> good I R w0 w \<Longrightarrow> (\<And>ret kw' w'. good I R w0 w' \<Longrightarrow> Q (ret, kw', w')) \<Longrightarrow>
   holds Q (u c kw w)"
  by (rule lift3) (auto simp: user_keeps_def dest: good_I)

lemma send_rule:
  "send_keeps I R send \<Longrightarrow> good I R w0 w \<Longrightarrow> (\<And>ret kw' w'. good I R w0 w' \<Longrightarrow> Q (ret, kw', w')) \<Longrightarrow>
   holds Q (send dst ev kw src w)"
  by (rule lift3) (auto simp: send_keeps_def dest: good_I)

lemma life_rule:
  "life_keeps I R f \<Longrightarrow> good I R w0 w \<Longrightarrow> (\<And>ret w'. good I R w0 w' \<Longrightarrow> Q (ret, w')) \<Longrightarrow>
   holds Q (f h w)"
  by (rule lift2) (auto simp: life_keeps_def dest: good_I)

lemma destroy_rule:
  "destroy_keeps I R f \<Longrightarrow> good I R w0 w \<Longrightarrow> (\<And>w'. good I R w0 w' \<Longrightarrow> Q w') \<Longrightarrow> holds Q (f h w)"
  by (rule lift1) (auto simp: destroy_keeps_def dest: good_I)

lemma walk_rule:
  "walk_keeps I R cb \<Longrightarrow> good I R w0 w \<Longrightarrow> (\<And>ret kw' w'. good I R w0 w' \<Longrightarrow> Q (ret, kw', w')) \<Longrightarrow>
   holds Q (cb c kw w)"
  by (rule lift3) (auto simp: walk_keeps_def dest: good_I)

lemma publish_rule:
  "publish_keeps I R f \<Longrightarrow> good I R w0 w \<Longrightarrow> (\<And>ret kw' w'. good I R w0 w' \<Longrightarrow> Q (ret, kw', w')) \<Longrightarrow>
   holds Q (f h ev kw w)"
  by (rule lift3) (auto simp: publish_keeps_def dest: good_I)

lemma change_rule:
  "change_keeps I R f \<Longrightarrow> good I R w0 w \<Longrightarrow> (\<And>ret w'. good I R w0 w' \<Longrightarrow> Q (ret, w')) \<Longrightarrow>
   holds Q (f h st w)"
  by (rule lift2) (auto simp: change_keeps_def dest: good_I)

lemma bottom_rule:
  "bottom_keeps I R f \<Longrightarrow> good I R w0 w \<Longrightarrow> (\<And>ret w'. good I R w0 w' \<Longrightarrow> Q (ret, w')) \<Longrightarrow>
   holds Q (f h b w)"
  by (rule lift2) (auto simp: bottom_keeps_def dest: good_I)

end


section \<open>Events\<close>

context kernel_laws begin

lemma send_event_keeps:
  assumes u: "user_keeps I R u" and c: "change_keeps I R change"
  shows "send_keeps I R (gobj_send_event_with u change)"
  unfolding send_keeps_def gobj_send_event_with_def deref_opt_def
  by (auto simp: holds_simps good_refl good_log split: option.splits
      intro!: user_rule [OF u] change_rule [OF c])

lemma send_if_in_keeps:
  assumes s: "send_keeps I R send"
  shows "walk_keeps I R (cb_send_event_if_in send ev src)"
  unfolding walk_keeps_def cb_send_event_if_in_def
  by (auto simp: holds_simps good_refl holds_def [of _ "gobj_has_event _ _ _ _"]
      intro!: send_rule [OF s])

lemma walk_children_keeps:
  assumes "walk_keeps I R cb" "I w"
  shows "keeps3 I R w (gobj_walk_gobj_children cb h kw w)"
  by (rule walk_children_rule) (auto intro: good_refl good_log assms(2) walk_rule [OF assms(1)])

lemma walk_children_tree_keeps:
  assumes "walk_keeps I R cb" "I w"
  shows "keeps3 I R w (gobj_walk_gobj_children_tree cb h kw w)"
  by (rule walk_children_tree_rule) (auto intro: good_refl good_log assms(2) walk_rule [OF assms(1)])

lemma send_children_keeps:
  assumes s: "send_keeps I R send" and Iw: "I w"
  shows "keeps3 I R w (gobj_send_event_to_children send h ev kw src w)"
    and "keeps3 I R w (gobj_send_event_to_children_tree send h ev kw src w)"
  by (auto simp: gobj_send_event_to_children_def gobj_send_event_to_children_tree_def holds_simps
      good_refl good_log Iw split: option.splits
      intro!: holds_mono [OF walk_children_keeps [OF send_if_in_keeps [OF s] Iw]]
        holds_mono [OF walk_children_tree_keeps [OF send_if_in_keeps [OF s] Iw]])

lemma change_state_keeps:
  assumes u: "user_keeps I R u" and p: "publish_keeps I R pub"
  shows "change_keeps I R (gobj_change_state_with u pub)"
  unfolding change_keeps_def gobj_change_state_with_def Let_def
  by (auto simp: holds_simps good_refl good_log holds_def [of _ "current_state _"]
      split: option.splits
      intro!: user_rule [OF u state_law] publish_rule [OF p state_law])

lemma post_event_keeps: "I w \<Longrightarrow> keeps2 I R w (gobj_post_event dst ev kw src w)"
  unfolding gobj_post_event_def
  by (auto simp: holds_simps good_refl good_log holds_def [of _ "gobj_has_event _ _ _ _"]
      not_le post_law split: option.splits)

lemma deliver_keeps:
  assumes s: "send_keeps I R send" and Iw: "I w"
  shows "keeps2 I R w (gobj_deliver_posted_events send w)"
proof -
  have pop: "good I R w (w'\<lparr>dl_posted_events := rest\<rparr>)"
    if "good I R w w'" "dl_posted_events w' = msg # rest" for w' msg rest
    using that by (blast intro: good_trans good_I pop_law)
  have "keeps2 I R w (deliver_loop send l 0 w)" for l
    by (rule deliver_loop_rule [where P = "\<lambda>_. good I R w"])
      (auto intro: good_refl Iw send_rule [OF s pop])
  then show ?thesis
    by (simp add: gobj_deliver_posted_events_def holds_simps good_refl Iw)
qed

lemma publish_loop_rule:
  assumes u: "user_keeps I R u" and s: "send_keeps I R send" and I: "good I R w0 w"
    and Q: "\<And>kw' ret' sent' w'. good I R w0 w' \<Longrightarrow> Q (kw', ret', sent', w')"
  shows "holds Q (publish_loop lc u send p ev subs kw ret sent w)"
  using I
proof (induction subs arbitrary: kw ret sent w)
  case Nil
  then show ?case by (simp add: holds_simps Q)
next
  case (Cons s0 rest)
  note evs = holds_def [of _ "gobj_has_event _ _ _ _"] holds_def [of _ "gobj_event_type _ _ _ _"]
  show ?case
    unfolding publish_loop.simps Let_def
    by (simp only: holds_simps evs prod.case split_def)
      (intro conjI impI allI user_rule [OF u] send_rule [OF s] Cons.IH Q Cons.prems;
        (simp only: fst_conv snd_conv)?;
        (intro conjI impI allI user_rule [OF u] send_rule [OF s] Cons.IH Q Cons.prems)?; assumption?)+
qed

lemma publish_keeps:
  assumes u: "user_keeps I R u" and s: "send_keeps I R send"
  shows "publish_keeps I R (gobj_publish_event_with lc u send)"
  unfolding publish_keeps_def gobj_publish_event_with_def Let_def
  by (auto simp: holds_simps good_refl good_log split: option.splits
      intro!: user_rule [OF u good_refl] publish_loop_rule [OF u s])
    (auto intro: good_refl good_log)

end


section \<open>Subscriptions\<close>

context kernel_laws begin

lemma unsubscribe_good:
  assumes "good I R w0 w"
  shows "holds (\<lambda>w1. holds (good I R w0) (remove_from_subscriber subs w1)) (remove_from_publisher subs w)"
  using assms by (auto simp: holds_def intro: good_trans unsubscribe_law dest: good_I)

lemma delete_subscription_rule:
  assumes u: "user_keeps I R u" and G: "good I R w0 w"
    and Q: "\<And>ret w'. good I R w0 w' \<Longrightarrow> Q (ret, w')"
  shows "holds Q (delete_subscription u subs force not_inform w)"
proof -
  have remove: "holds (\<lambda>w1. holds (\<lambda>w2. Q (0, w2)) (remove_from_subscriber subs w1))
      (remove_from_publisher subs w')" if "good I R w0 w'" for w'
    using unsubscribe_good [OF that, of subs] by (auto simp: holds_def Q)
  show ?thesis
    unfolding delete_subscription_def
    by (auto simp: holds_simps split_def G Q intro!: user_rule [OF u] remove)
qed

lemma unsubscribe_list_rule:
  assumes u: "user_keeps I R u" and G: "good I R w0 w" and Q: "\<And>w'. good I R w0 w' \<Longrightarrow> Q w'"
  shows "holds Q (unsubscribe_list u subs force w)"
  using G
proof (induction subs arbitrary: w)
  case Nil
  then show ?case by (simp add: holds_simps Q)
next
  case (Cons s ss)
  then show ?case
    by (auto simp: holds_simps intro!: delete_subscription_rule [OF u])
qed

lemma warn_keys_good: "good I R w0 w \<Longrightarrow> good I R w0 (warn_keys kw w)"
proof -
  have "good I R w0 w \<Longrightarrow> good I R w0 (fold (\<lambda>(k, v) w. if k \<in> subscription_keys then w
      else log_msg ''key ignored in subscription'' w) ps w)" for ps w
    by (induction ps arbitrary: w) (auto simp: good_log)
  then show "good I R w0 w \<Longrightarrow> good I R w0 (warn_keys kw w)"
    by (auto simp: warn_keys_def split: option.splits json.splits)
qed

lemma subscribe_good:
  assumes "good I R w0 w" "subs_publisher subs = p" "subs_subscriber subs = s"
    and "\<And>w'. good I R w0 w' \<Longrightarrow> Q w'"
  shows "holds (\<lambda>w1. holds Q
      (upd_gobj s (\<lambda>g. g\<lparr>dl_subscribings := dl_subscribings g @ [subs]\<rparr>) w1))
    (upd_gobj p (\<lambda>g. g\<lparr>dl_subscriptions := dl_subscriptions g @ [subs]\<rparr>) w)"
proof -
  have "good I R w0 w2"
    if "upd_gobj p (\<lambda>g. g\<lparr>dl_subscriptions := dl_subscriptions g @ [subs]\<rparr>) w = Some w1"
      "upd_gobj s (\<lambda>g. g\<lparr>dl_subscribings := dl_subscribings g @ [subs]\<rparr>) w1 = Some w2" for w1 w2
    using good_trans [OF assms(1) subscribe_law [OF good_I [OF assms(1)] assms(2,3) that]] .
  then show ?thesis using assms(4) unfolding holds_def by blast
qed

lemma create_subscription_ends:
  "subs_publisher (create_subscription reg p ev kw s) = p"
  "subs_subscriber (create_subscription reg p ev kw s) = s"
  by (simp_all add: create_subscription_def Let_def split_def split: option.splits)

lemma subscribe_keeps:
  assumes u: "user_keeps I R u" and Iw: "I w"
  shows "keeps2 I R w (gobj_subscribe_event u p ev kw s w)"
proof -
  have warn: "good I R w (warn_keys kw w)" for kw by (simp add: warn_keys_good good_refl Iw)
  note sub = subscribe_good [OF _ create_subscription_ends]
  show ?thesis
    unfolding gobj_subscribe_event_def Let_def
    by (auto simp: holds_bind holds_Some holds_gobjs holds_gclass split_def
        good_log good_refl Iw warn
        holds_def [of _ "check_output_event _ _ _"]
        split: option.splits
        intro!: sub [OF warn] unsubscribe_list_rule [OF u good_log [OF warn]]
          user_rule [OF u] delete_subscription_rule [OF u])
      (auto simp: good_refl intro!: sub user_rule [OF u] delete_subscription_rule [OF u])
qed

lemma unsubscribe_keeps:
  assumes u: "user_keeps I R u" and Iw: "I w"
  shows "keeps2 I R w (gobj_unsubscribe_event u p ev kw s w)"
proof -
  have warn: "good I R w (warn_keys kw w)" for kw by (simp add: warn_keys_good good_refl Iw)
  show ?thesis
    unfolding gobj_unsubscribe_event_def Let_def
    by (auto simp: holds_bind holds_Some holds_gobjs holds_gclass split_def
        good_log good_refl Iw warn holds_def [of _ "check_output_event _ _ _"]
        split: option.splits intro!: unsubscribe_list_rule [OF u warn] good_log)
qed

end


section \<open>Life\<close>

context kernel_laws begin

lemma life_good:
  assumes G: "good I R w0 w" and g: "gobjs w x = Some g"
  shows "good I R w0 (set_gobj x (g\<lparr>running := b\<rparr>) w)"
    and "good I R w0 (set_gobj x (g\<lparr>playing := b\<rparr>) w)"
    and "good I R w0 (set_gobj x (g\<lparr>disabled := b\<rparr>) w)"
    and "good I R w0 (set_gobj x (g\<lparr>bottom_gobj := nb\<rparr>) w)"
proof -
  have law: "good I R w0
      (set_gobj x (g\<lparr>running := r, playing := p, disabled := d, bottom_gobj := n\<rparr>) w)" for r p d n
    by (rule good_trans [OF G life_law [OF good_I [OF G] g]])
  show "good I R w0 (set_gobj x (g\<lparr>running := b\<rparr>) w)"
    using law [of "bottom_gobj g" "disabled g" "playing g" b] by simp
  show "good I R w0 (set_gobj x (g\<lparr>playing := b\<rparr>) w)"
    using law [of "bottom_gobj g" "disabled g" b "running g"] by simp
  show "good I R w0 (set_gobj x (g\<lparr>disabled := b\<rparr>) w)"
    using law [of "bottom_gobj g" b "playing g" "running g"] by simp
  show "good I R w0 (set_gobj x (g\<lparr>bottom_gobj := nb\<rparr>) w)"
    using law [of nb "disabled g" "playing g" "running g"] by simp
qed

lemma method_rule:
  "user_keeps I R u \<Longrightarrow> good I R w0 w \<Longrightarrow> (\<And>ret w'. good I R w0 w' \<Longrightarrow> Q (ret, w')) \<Longrightarrow>
   holds Q (call_method u m x w)"
  unfolding call_method_def by (auto simp: holds_simps split_def intro!: user_rule)

lemma start_keeps: "user_keeps I R u \<Longrightarrow> life_keeps I R (gobj_start_with u)"
  unfolding life_keeps_def gobj_start_with_def
  by (auto simp: holds_simps good_refl good_log life_good split: option.splits intro!: method_rule)

lemma pause_keeps: "user_keeps I R u \<Longrightarrow> life_keeps I R (gobj_pause_with u)"
  unfolding life_keeps_def gobj_pause_with_def
  by (auto simp: holds_simps good_refl good_log life_good split: option.splits intro!: method_rule)

lemma play_keeps:
  assumes u: "user_keeps I R u" and s: "life_keeps I R start"
  shows "life_keeps I R (gobj_play_with u start)"
  unfolding life_keeps_def gobj_play_with_def
  by (auto simp: holds_simps split_def good_refl good_log life_good
      holds_def [of _ "gobj_is_running _ _"] split: option.splits
      intro!: method_rule [OF u] life_rule [OF s good_log [OF good_refl]])

lemma stop_keeps:
  assumes u: "user_keeps I R u" and p: "life_keeps I R pause"
  shows "life_keeps I R (gobj_stop_with u pause)"
  unfolding life_keeps_def gobj_stop_with_def
  by (auto simp: holds_simps split_def good_refl good_log life_good
      holds_def [of _ "has_method _ _ _"] split: option.splits
      intro!: method_rule [OF u] life_rule [OF p good_log [OF good_refl]])

lemma start_children_keeps:
  assumes s: "life_keeps I R start"
  shows "life_keeps I R (gobj_start_children_with start)"
proof -
  have "walk_keeps I R (cb_start_child start)"
    unfolding walk_keeps_def cb_start_child_def
    by (auto simp: holds_simps good_refl holds_def [of _ "gobj_is_running _ _"]
        holds_def [of _ "gobj_is_disabled _ _"] holds_def [of _ "gobj_is_destroying _ _"]
        intro!: life_rule [OF s])
  then show ?thesis
    unfolding life_keeps_def gobj_start_children_with_def
    by (auto simp: holds_simps good_refl good_log split_def split: option.splits
        intro!: holds_mono [OF walk_children_keeps])
qed

lemma start_tree_keeps:
  assumes s: "life_keeps I R start"
  shows "life_keeps I R (gobj_start_tree_with start)"
proof -
  have cb: "walk_keeps I R (cb_start_child_tree start)"
    unfolding walk_keeps_def cb_start_child_tree_def
    by (auto simp: holds_simps good_refl holds_def [of _ "gobj_is_running _ _"]
        holds_def [of _ "gobj_is_disabled _ _"] intro!: life_rule [OF s])
  have walk: "holds (\<lambda>r. good I R w0 (snd (snd r)))
      (gobj_walk_gobj_children_tree (cb_start_child_tree start) h kw w)" if "good I R w0 w" for w0 w h kw
    using lift3 [OF walk_children_tree_keeps [OF cb good_I [OF that]] that] by simp
  show ?thesis
    unfolding life_keeps_def gobj_start_tree_with_def
    by (auto simp: holds_simps good_refl good_log split_def split: option.splits
        intro!: life_rule [OF s] walk)
qed

lemma stop_child_keeps:
  assumes s: "life_keeps I R stop"
  shows "walk_keeps I R (cb_stop_child stop)"
  unfolding walk_keeps_def cb_stop_child_def
  by (auto simp: holds_simps good_refl holds_def [of _ "gobj_is_running _ _"]
      intro!: life_rule [OF s])

lemma stop_children_keeps:
  assumes s: "life_keeps I R stop"
  shows "life_keeps I R (gobj_stop_children_with stop)"
  unfolding life_keeps_def gobj_stop_children_with_def
  by (auto simp: holds_simps good_refl good_log split_def split: option.splits
      intro!: holds_mono [OF walk_children_keeps [OF stop_child_keeps [OF s]]])

lemma stop_tree_keeps:
  assumes s: "life_keeps I R stop"
  shows "life_keeps I R (gobj_stop_tree_with stop)"
proof -
  have walk: "holds (\<lambda>r. good I R w0 (snd (snd r)))
      (gobj_walk_gobj_children_tree (cb_stop_child stop) h kw w)" if "good I R w0 w" for w0 w h kw
    using lift3 [OF walk_children_tree_keeps [OF stop_child_keeps [OF s] good_I [OF that]] that]
    by simp
  show ?thesis
    unfolding life_keeps_def gobj_stop_tree_with_def
    by (auto simp: holds_simps good_refl good_log split_def holds_def [of _ "gobj_is_running _ _"]
        split: option.splits intro!: life_rule [OF s] walk)
qed

lemma disable_keeps:
  assumes u: "user_keeps I R u" and s: "life_keeps I R stop_tree"
  shows "life_keeps I R (gobj_disable_with u stop_tree)"
  unfolding life_keeps_def gobj_disable_with_def
  by (auto simp: holds_simps good_refl good_log life_good split: option.splits
      intro!: method_rule [OF u] life_rule [OF s life_good(3) [OF good_refl]])

lemma enable_keeps:
  assumes u: "user_keeps I R u" and s: "life_keeps I R start_tree"
  shows "life_keeps I R (gobj_enable_with u start_tree)"
  unfolding life_keeps_def gobj_enable_with_def
  by (auto simp: holds_simps good_refl good_log life_good split: option.splits
      intro!: method_rule [OF u] life_rule [OF s life_good(3) [OF good_refl]])

lemma set_bottom_keeps:
  assumes u: "user_keeps I R u"
  shows "bottom_keeps I R (gobj_set_bottom_gobj_with u)"
  unfolding bottom_keeps_def gobj_set_bottom_gobj_with_def Let_def
  by (auto simp: holds_simps good_refl good_log life_good split_def holds_def [of _ "deref_opt _ _"]
      split: option.splits intro!: user_rule [OF u])

end


section \<open>Destroy\<close>

context kernel_laws begin

lemma good_R: "good I R w0 w \<Longrightarrow> R w0 w"
  by (simp add: good_def)

lemma quiesce_good:
  assumes p: "life_keeps I R pause" and s: "life_keeps I R stop" and Iw: "I w"
  shows "holds (good I R w) (destroy_quiesce pause stop x w)"
  unfolding destroy_quiesce_def
  by (auto simp: holds_simps split_def good_refl good_log Iw
      intro!: life_rule [OF p good_log [OF good_refl [OF Iw]]]
        life_rule [OF s good_log] life_rule [OF s good_log [OF good_refl [OF Iw]]])

lemma inform_parent_good:
  assumes u: "user_keeps I R u" and Iw: "I w"
  shows "holds (good I R w) (destroy_inform_parent u parent x w)"
  unfolding destroy_inform_parent_def
  by (auto simp: holds_simps split_def good_refl Iw holds_def [of _ "has_method _ _ _"]
      split: option.splits intro!: user_rule [OF u])

lemma destroy_subscriptions_good:
  assumes u: "user_keeps I R u" and Iw: "I w"
  shows "holds (good I R w) (destroy_subscriptions u x w)"
  unfolding destroy_subscriptions_def
  by (auto simp: holds_simps good_refl Iw intro!: unsubscribe_list_rule [OF u])

lemma destroy_method_good:
  assumes u: "user_keeps I R u" and Iw: "I w"
  shows "holds (good I R w) (destroy_method u x w)"
  unfolding destroy_method_def
  by (auto simp: holds_simps split_def good_refl Iw holds_def [of _ "has_method _ _ _"]
      intro!: method_rule [OF u])

text \<open>The parent stops naming the gobj, or there was none when the gobj was asked for it.\<close>

lemma from_parent_good:
  assumes b: "bottom_keeps I R set_bottom" and Iw: "I w" and m: "marked x w"
    and orphan: "parent = None \<Longrightarrow> unlinked x w"
  shows "holds (\<lambda>w'. good I R w w' \<and> unlinked x w') (destroy_from_parent set_bottom parent x w)"
proof (cases parent)
  case None
  then show ?thesis by (simp add: destroy_from_parent_def holds_simps good_refl Iw orphan)
next
  case (Some p0)
  have rest: "holds (\<lambda>w'. good I R w w' \<and> unlinked x w')
      (do { vol \<leftarrow> gobj_is_volatil w1 x;
         if vol then do {
           pg \<leftarrow> gobjs w1 p;
           if bottom_gobj pg = Some x \<and> \<not> is_destroying pg
           then map_option snd (set_bottom (Some p) None w1) else Some w1
         } else Some w1 })"
    if "gobjs w x = Some g" "ob_parent g = Some p"
      "upd_gobj p (\<lambda>pg. pg\<lparr>dl_children := remove1 x (dl_children pg)\<rparr>) w = Some w1" for g p w1
  proof -
    have G: "good I R w w1" "unlinked x w1" using parent_law [OF Iw m that] by auto
    have "keeps2 I R w1 (set_bottom h nb w1)" for h nb
      using b good_I [OF G(1)] by (simp add: bottom_keeps_def)
    then have bottom: "holds (\<lambda>r. good I R w (snd r) \<and> unlinked x (snd r)) (set_bottom h nb w1)" for h nb
      by (rule holds_mono)
        (auto intro: good_trans [OF G(1)] unlinked_stable [OF G(2) good_R])
    show ?thesis
      by (auto simp: holds_simps split_def G bottom holds_def [of _ "gobj_is_volatil _ _"])
  qed
  show ?thesis
    unfolding destroy_from_parent_def Some option.case
    by (simp only: holds_bind, rule holdsI, rule holdsI, rule holdsI, rule rest [unfolded holds_bind])
qed

lemma staged:
  assumes "holds (good I R w1) m" "good I R w0 w1" "P w1"
    and "\<And>w'. P w1 \<Longrightarrow> R w1 w' \<Longrightarrow> P w'"
    and "\<And>w'. good I R w0 w' \<Longrightarrow> P w' \<Longrightarrow> Q w'"
  shows "holds Q m"
  by (rule holds_mono [OF assms(1)]) (auto intro: assms good_trans dest: good_R)

lemma destroy_tail_good:
  assumes u: "user_keeps I R u" and b: "bottom_keeps I R set_bottom"
    and c: "destroy_keeps I R children"
    and G: "good I R w0 w" and m: "marked x w" and orphan: "parent = None \<Longrightarrow> unlinked x w"
  shows "holds (good I R w0) (do {
         w \<leftarrow> destroy_inform_parent u parent x w;
         w \<leftarrow> destroy_service x w;
         w \<leftarrow> destroy_subscriptions u x w;
         w \<leftarrow> destroy_from_parent set_bottom parent x w;
         w \<leftarrow> children (Some x) w;
         w \<leftarrow> destroy_method u x w;
         destroy_free x w })"
proof -
  let ?P1 = "\<lambda>w. marked x w \<and> (parent = None \<longrightarrow> unlinked x w)"
  let ?P2 = "\<lambda>w. ?P1 w \<and> unserviced x w"
  let ?P3 = "\<lambda>w. marked x w \<and> unserviced x w \<and> unlinked x w"
  note stable = marked_stable unserviced_stable unlinked_stable
  have free: "holds (good I R w0) (destroy_free x w)" if "good I R w0 w" "?P3 w" for w
    using that by (auto intro!: holdsI intro: good_trans free_law dest: good_I)
  have by_method: "holds (\<lambda>w. holds (good I R w0) (destroy_free x w)) (destroy_method u x w)"
    if "good I R w0 w" "?P3 w" for w
    by (rule staged [where P = ?P3, OF destroy_method_good [OF u good_I [OF that(1)]] that])
      (auto intro: stable free)
  have children: "holds (\<lambda>w. holds (\<lambda>w. holds (good I R w0) (destroy_free x w)) (destroy_method u x w))
      (children (Some x) w)" if "good I R w0 w" "?P3 w" for w
    by (rule staged [where P = ?P3, OF _ that]) (use c good_I [OF that(1)] in \<open>auto simp: destroy_keeps_def intro: stable by_method\<close>)
  have parent: "holds (\<lambda>w. holds (\<lambda>w. holds (\<lambda>w. holds (good I R w0) (destroy_free x w))
      (destroy_method u x w)) (children (Some x) w)) (destroy_from_parent set_bottom parent x w)"
    if "good I R w0 w" "?P2 w" for w
  proof (rule holds_mono [OF from_parent_good [OF b good_I [OF that(1)]]])
    show "marked x w" using that by simp
    show "parent = None \<Longrightarrow> unlinked x w" using that by simp
    show "holds (\<lambda>w. holds (\<lambda>w. holds (good I R w0) (destroy_free x w)) (destroy_method u x w))
        (children (Some x) w')" if w': "good I R w w' \<and> unlinked x w'" for w'
    proof (rule children)
      show "good I R w0 w'" using \<open>good I R w0 w\<close> w' by (auto intro: good_trans)
      show "?P3 w'" using \<open>?P2 w\<close> w' by (auto intro: stable dest: good_R)
    qed
  qed
  have subs: "holds (\<lambda>w. holds (\<lambda>w. holds (\<lambda>w. holds (\<lambda>w. holds (good I R w0) (destroy_free x w))
      (destroy_method u x w)) (children (Some x) w)) (destroy_from_parent set_bottom parent x w))
      (destroy_subscriptions u x w)" if "good I R w0 w" "?P2 w" for w
    by (rule staged [where P = ?P2, OF destroy_subscriptions_good [OF u good_I [OF that(1)]] that],
        blast intro: stable, rule parent)
  have service: "holds (\<lambda>w. holds (\<lambda>w. holds (\<lambda>w. holds (\<lambda>w. holds (\<lambda>w. holds (good I R w0)
      (destroy_free x w)) (destroy_method u x w)) (children (Some x) w))
      (destroy_from_parent set_bottom parent x w)) (destroy_subscriptions u x w))
      (destroy_service x w)" if "good I R w0 w" "?P1 w" for w
  proof (rule holdsI, rule subs)
    fix w' assume d: "destroy_service x w = Some w'"
    have w': "good I R w w'" "unserviced x w'"
      using service_law [OF good_I [OF that(1)] _ d] that(2) by auto
    show "good I R w0 w'" using that(1) w'(1) by (rule good_trans)
    show "?P2 w'" using that(2) w' by (auto intro: stable dest: good_R)
  qed
  show ?thesis
    unfolding holds_bind
    by (rule staged [OF inform_parent_good [OF u good_I [OF G]] G, where P = ?P1])
      (use m orphan in simp, blast intro: stable, rule service)
qed

lemma destroy_rule_keeps:
  assumes u: "user_keeps I R u" and p: "life_keeps I R pause" and s: "life_keeps I R stop"
    and b: "bottom_keeps I R set_bottom" and c: "destroy_keeps I R children"
  shows "destroy_keeps I R (gobj_destroy_with u pause stop set_bottom children)"
proof -
  have marked: "holds (good I R w0) (do {
         w \<leftarrow> upd_gobj x (\<lambda>g. g\<lparr>ob_obflag := ob_obflag g OR obflag_destroying\<rparr>) w;
         let w = purge_posted_events x w;
         g \<leftarrow> gobjs w x;
         let parent = ob_parent g;
         w \<leftarrow> destroy_inform_parent u parent x w;
         w \<leftarrow> destroy_service x w;
         w \<leftarrow> destroy_subscriptions u x w;
         w \<leftarrow> destroy_from_parent set_bottom parent x w;
         w \<leftarrow> children (Some x) w;
         w \<leftarrow> destroy_method u x w;
         destroy_free x w })" if G: "good I R w0 w" for w0 w x
    unfolding Let_def holds_bind [of _ "upd_gobj _ _ _"] holds_upd
  proof (intro allI impI)
    fix g assume g: "gobjs w x = Some g"
    let ?w = "purge_posted_events x (set_gobj x (g\<lparr>ob_obflag := ob_obflag g OR obflag_destroying\<rparr>) w)"
    have law: "good I R w ?w" "marked x ?w" using mark_law [OF good_I [OF G] g refl] by auto
    show "holds (good I R w0) (do {
         g \<leftarrow> gobjs ?w x;
         w \<leftarrow> destroy_inform_parent u (ob_parent g) x ?w;
         w \<leftarrow> destroy_service x w;
         w \<leftarrow> destroy_subscriptions u x w;
         w \<leftarrow> destroy_from_parent set_bottom (ob_parent g) x w;
         w \<leftarrow> children (Some x) w;
         w \<leftarrow> destroy_method u x w;
         destroy_free x w })"
      unfolding holds_bind [of _ "gobjs _ _"] holds_gobjs
      by (intro allI impI destroy_tail_good [OF u b c good_trans [OF G law(1)] law(2)])
        (rule orphan_law [OF good_I [OF law(1)]])
  qed
  have quiesced: "holds (\<lambda>w. holds (good I R w0) (F w)) (destroy_quiesce pause stop x w)"
    if "good I R w0 w" "\<And>w. good I R w0 w \<Longrightarrow> holds (good I R w0) (F w)" for F w0 w x
    by (rule lift1 [OF quiesce_good [OF p s good_I [OF that(1)]] that(1)]) (rule that(2))
  show ?thesis
    unfolding destroy_keeps_def gobj_destroy_with_def
  proof (intro allI impI, goal_cases)
    case (1 h w)
    show ?case
    proof (cases h)
      case None
      then show ?thesis using 1 by (simp add: holds_simps good_log good_refl)
    next
      case (Some x)
      have l: "good I R w (if ob_refs g > 0 then log_msg ''gobj DESTROYING with references'' w else w)"
        for g using 1 by (simp add: good_log good_refl)
      show ?thesis
        unfolding Some option.case holds_bind [of _ "gobjs _ _"] holds_gobjs Let_def
      proof (intro allI impI, goal_cases)
        case (1 g)
        then show ?case
          by (cases "has_flag (ob_obflag g) obflag_destroying")
            (simp_all only: if_True if_False holds_Some holds_bind [of _ "destroy_quiesce _ _ _ _"]
              good_log [OF l] quiesced [OF l marked [unfolded Let_def]])
      qed
    qed
  qed
qed

end


section \<open>The whole kernel\<close>

context kernel_laws begin

lemma destroy_children_keeps:
  assumes d: "destroy_keeps I R destroy"
  shows "destroy_keeps I R (gobj_destroy_children_with destroy)"
proof -
  have "holds (good I R w) (destroy_children_loop destroy c w)" if "I w" for c w
    by (rule destroy_children_loop_rule) (auto intro: destroy_rule [OF d] good_log good_refl that)
  then show ?thesis
    unfolding destroy_keeps_def gobj_destroy_children_with_def
    by (auto simp: holds_simps good_log good_refl holds_def [of _ "first_child _ _"] split: option.splits)
qed

lemma destroy_named_keeps:
  assumes p: "life_keeps I R pause" and s: "life_keeps I R stop" and d: "destroy_keeps I R destroy"
    and Iw: "I w"
  shows "keeps2 I R w (gobj_destroy_named_children_with pause stop destroy h nm w)"
proof -
  have "walk_keeps I R (cb_destroy_named_children pause stop destroy nm)"
    unfolding walk_keeps_def cb_destroy_named_children_def
    by (auto simp: holds_simps split_def good_refl holds_def [of _ "gobj_is_running _ _"]
        holds_def [of _ "gobj_is_playing _ _"]
        intro!: life_rule [OF p] life_rule [OF s] destroy_rule [OF d])
  from walk_children_keeps [OF this Iw] show ?thesis
    unfolding gobj_destroy_named_children_with_def
    by (auto simp: holds_simps good_log good_refl Iw split_def split: option.splits)
qed

lemma kernel_step_keeps:
  assumes k: "api_keeps I R k" and u: "user_keeps I R (code k)"
  shows "api_keeps I R (kernel_step lc code k)"
proof -
  note parts = k [unfolded api_keeps_def]
  show ?thesis
    unfolding api_keeps_def kernel_step_def Let_def kapi.simps
    by (intro conjI allI impI ballI)
      (use parts in \<open>auto intro: send_event_keeps u publish_keeps change_state_keeps set_bottom_keeps
        start_keeps start_children_keeps start_tree_keeps stop_keeps stop_children_keeps
        stop_tree_keeps play_keeps pause_keeps enable_keeps disable_keeps destroy_rule_keeps
        destroy_children_keeps send_children_keeps post_event_keeps deliver_keeps subscribe_keeps
        unsubscribe_keeps destroy_named_keeps\<close>)
qed

lemma no_kernel_keeps: "api_keeps I R no_kernel"
  by (simp add: api_keeps_def no_kernel_def send_keeps_def publish_keeps_def change_keeps_def
      bottom_keeps_def life_keeps_def destroy_keeps_def holds_None)

lemma kernel_keeps:
  assumes "code_keeps I R code"
  shows "api_keeps I R (kernel lc code n)"
proof (induction n)
  case 0
  then show ?case by (simp add: no_kernel_keeps)
next
  case (Suc n)
  then show ?case using assms by (simp add: kernel_step_keeps code_keeps_def)
qed

text \<open>A script does nothing but call the kernel.\<close>

lemma run_instr_keeps:
  assumes k: "api_keeps I R k" and Iw: "I w"
  shows "keeps3 I R w (run_instr k self src i kw w)"
proof -
  note parts = k [unfolded api_keeps_def]
  have life: "life_keeps I R (k_start k)" "life_keeps I R (k_stop k)" "life_keeps I R (k_play k)"
    "life_keeps I R (k_pause k)" using parts by auto
  have rest: "send_keeps I R (k_send k)" "publish_keeps I R (k_publish k)"
    "change_keeps I R (k_change_state k)" "destroy_keeps I R (k_destroy k)" using parts by auto
  show ?thesis
    using Iw life rest parts
    by (cases i) (auto simp: with_kw_def holds_simps split_def good_refl life_keeps_def send_keeps_def
        publish_keeps_def change_keeps_def destroy_keeps_def)
qed

lemma run_script_keeps:
  assumes k: "api_keeps I R k" and G: "good I R w0 w"
  shows "keeps3 I R w0 (run_script k self src is kw w)"
  using G
proof (induction "is" arbitrary: kw w)
  case Nil
  then show ?case by (simp add: holds_simps)
next
  case (Cons i rest)
  show ?case
    unfolding run_script.simps holds_bind
    by (rule lift3 [OF run_instr_keeps [OF k good_I [OF Cons.prems]] Cons.prems])
      (simp add: holds_simps Cons.IH)
qed

lemma script_code_keeps: "code_keeps I R (script_code prog)"
  unfolding code_keeps_def user_keeps_def script_code_def
  by (auto intro: run_script_keeps good_refl)

end

end
