(* ===== verification/GObj_Invariants.thy ===== *)
theory GObj_Invariants
  imports GObj_Laws "HOL-Library.Sublist"
begin

text \<open>
  The invariants of a running system, each an interpretation of \<open>kernel_laws\<close>: states belong to the
  state machine of the gclass, gobjs only age (nothing is revived, no flag is taken back, lists of
  children only shrink), the tree and the register name live gobjs only, the queue holds no message
  for a dead or dying gobj, ids of messages ascend, and the two copies of a subscription agree.
\<close>

section \<open>What a change of the world leaves alone\<close>

lemma log_msg_fields [simp]:
  "dl_gclass (log_msg m w) = dl_gclass w" "gobjs (log_msg m w) = gobjs w"
  "jn_services (log_msg m w) = jn_services w" "dl_posted_events (log_msg m w) = dl_posted_events w"
  "posted_last_id (log_msg m w) = posted_last_id w" "posted_total (log_msg m w) = posted_total w"
  "gclass_of (log_msg m w) g = gclass_of w g"
  by (simp_all add: log_msg_def gclass_of_def)

lemma set_gobj_fields [simp]:
  "dl_gclass (set_gobj x g w) = dl_gclass w" "gobjs (set_gobj x g w) = (gobjs w)(x \<mapsto> g)"
  "jn_services (set_gobj x g w) = jn_services w"
  "dl_posted_events (set_gobj x g w) = dl_posted_events w"
  "posted_last_id (set_gobj x g w) = posted_last_id w"
  "posted_total (set_gobj x g w) = posted_total w"
  "gclass_of (set_gobj x g w) h = gclass_of w h"
  by (simp_all add: set_gobj_def gclass_of_def)

lemma purge_fields [simp]:
  "dl_gclass (purge_posted_events x w) = dl_gclass w"
  "gobjs (purge_posted_events x w) = gobjs w"
  "jn_services (purge_posted_events x w) = jn_services w"
  "posted_last_id (purge_posted_events x w) = posted_last_id w"
  "posted_total (purge_posted_events x w) = posted_total w"
  "gclass_of (purge_posted_events x w) g = gclass_of w g"
  by (simp_all add: purge_posted_events_def gclass_of_def)

lemma queue_add_fields [simp]:
  "dl_gclass (queue_add d src e kw w) = dl_gclass w" "gobjs (queue_add d src e kw w) = gobjs w"
  "jn_services (queue_add d src e kw w) = jn_services w"
  "gclass_of (queue_add d src e kw w) g = gclass_of w g"
  by (simp_all add: queue_add_def gclass_of_def)

lemma gclass_of_posted [simp]: "gclass_of (w\<lparr>dl_posted_events := q\<rparr>) g = gclass_of w g"
  "gclass_of (w\<lparr>jn_services := s\<rparr>) g = gclass_of w g"
  by (simp_all add: gclass_of_def)

text \<open>The change of one field of one gobj, seen from the other fields.\<close>

lemma upd_gobj_SomeD:
  "upd_gobj x f w = Some w' \<Longrightarrow> \<exists>g. gobjs w x = Some g \<and> w' = set_gobj x (f g) w"
  by (auto simp: upd_gobj_eq)

lemma remove_from_publisher_cases:
  assumes "remove_from_publisher subs w = Some w'"
  obtains (gone) p i where "gobjs w (subs_publisher subs) = Some p"
      "w' = set_gobj (subs_publisher subs) (p\<lparr>dl_subscriptions := remove_at i (dl_subscriptions p)\<rparr>) w"
      "get_subs_idx (dl_subscriptions p) (Some (subs_publisher subs)) (subs_event subs)
         (subs_kw subs) (Some (subs_subscriber subs)) = Some i"
  | (missing) p m where "gobjs w (subs_publisher subs) = Some p" "w' = log_msg m w"
      "get_subs_idx (dl_subscriptions p) (Some (subs_publisher subs)) (subs_event subs)
         (subs_kw subs) (Some (subs_subscriber subs)) = None"
proof -
  obtain p where p: "gobjs w (subs_publisher subs) = Some p"
    using assms by (auto simp: remove_from_publisher_def bind_eq_Some_conv)
  show thesis
    by (cases "get_subs_idx (dl_subscriptions p) (Some (subs_publisher subs)) (subs_event subs)
          (subs_kw subs) (Some (subs_subscriber subs))")
      (use assms p in \<open>auto simp: remove_from_publisher_def upd_gobj_eq
        intro: gone [OF p] missing [OF p]\<close>)
qed

lemma remove_from_subscriber_cases:
  assumes "remove_from_subscriber subs w = Some w'"
  obtains (gone) s i where "gobjs w (subs_subscriber subs) = Some s"
      "w' = set_gobj (subs_subscriber subs) (s\<lparr>dl_subscribings := remove_at i (dl_subscribings s)\<rparr>) w"
      "get_subs_idx (dl_subscribings s) (Some (subs_publisher subs)) (subs_event subs)
         (subs_kw subs) (Some (subs_subscriber subs)) = Some i"
  | (missing) s m where "gobjs w (subs_subscriber subs) = Some s" "w' = log_msg m w"
      "get_subs_idx (dl_subscribings s) (Some (subs_publisher subs)) (subs_event subs)
         (subs_kw subs) (Some (subs_subscriber subs)) = None"
proof -
  obtain s where s: "gobjs w (subs_subscriber subs) = Some s"
    using assms by (auto simp: remove_from_subscriber_def bind_eq_Some_conv)
  show thesis
    by (cases "get_subs_idx (dl_subscribings s) (Some (subs_publisher subs)) (subs_event subs)
          (subs_kw subs) (Some (subs_subscriber subs))")
      (use assms s in \<open>auto simp: remove_from_subscriber_def upd_gobj_eq
        intro: gone [OF s] missing [OF s]\<close>)
qed

lemma destroy_service_cases:
  assumes "destroy_service x w = Some w'"
  obtains (gone) g where "gobjs w x = Some g"
    "has_flag (ob_flag g) (gobj_flag_service OR gobj_flag_top_service)"
    "w' = w\<lparr>jn_services := filter (\<lambda>p. fst p \<noteq> service_key (gobj_name g)) (jn_services w)\<rparr>"
  | (missing) g m where "gobjs w x = Some g"
    "has_flag (ob_flag g) (gobj_flag_service OR gobj_flag_top_service)"
    "map_of (jn_services w) (service_key (gobj_name g)) = None" "w' = log_msg m w"
  | (other) g where "gobjs w x = Some g"
    "\<not> has_flag (ob_flag g) (gobj_flag_service OR gobj_flag_top_service)" "w' = w"
proof -
  obtain g where g: "gobjs w x = Some g"
    using assms by (auto simp: destroy_service_def bind_eq_Some_conv)
  note defs = destroy_service_def deregister_service_def Let_def
  show thesis
  proof (cases "has_flag (ob_flag g) (gobj_flag_service OR gobj_flag_top_service)")
    case True
    then show thesis
      using assms g gone [OF g True] missing [OF g True]
      by (auto simp: defs split: if_splits)
  next
    case False
    then show thesis using assms g other [OF g False] by (simp add: defs)
  qed
qed

lemma destroy_free_cases:
  assumes "destroy_free x w = Some w'"
  obtains g reg where "gobjs w x = Some g"
    "reg = dl_gclass w \<or> reg = dec_instances (dl_gclass w) (ob_gclass g)"
    "w' = w\<lparr>dl_gclass := reg, gobjs := (gobjs w)(x := None)\<rparr>"
proof -
  obtain g where g: "gobjs w x = Some g" using assms by (auto simp: destroy_free_def bind_eq_Some_conv)
  show thesis
  proof (cases "has_flag (ob_obflag g) obflag_created")
    case True
    then show thesis
      using assms g that [OF g, of "dec_instances (dl_gclass w) (ob_gclass g)"]
      by (simp add: destroy_free_def)
  next
    case False
    then show thesis
      using assms g that [OF g, of "dl_gclass w"] by (simp add: destroy_free_def)
  qed
qed

section \<open>States\<close>

definition state_ok :: "gclass list \<Rightarrow> gobj \<Rightarrow> bool" where
  "state_ok reg g \<longleftrightarrow> (\<exists>gc. gclass_find_by_name reg (ob_gclass g) = Some gc \<and>
     (\<forall>st. current_state g = Some st \<longrightarrow> find_state gc st \<noteq> None))"

definition fsm_inv :: "world \<Rightarrow> bool" where
  "fsm_inv w \<longleftrightarrow> registry_ok (dl_gclass w) \<and> (\<forall>x g. gobjs w x = Some g \<longrightarrow> state_ok (dl_gclass w) g)"

lemma gclass_ok_instances [simp]: "gclass_ok (gc\<lparr>instances := n\<rparr>) = gclass_ok gc"
  by (simp add: gclass_ok_def fsm_ok_def tables_ok_def action_ok_def input_handled_def find_state_def
      gclass_event_type_def)

lemma dec_instances_names [simp]: "map gclass_name (dec_instances reg nm) = map gclass_name reg"
  by (induction reg) auto

lemma dec_instances_mem: "gc \<in> set (dec_instances reg nm) \<Longrightarrow>
  \<exists>gc0 \<in> set reg. gc = gc0 \<or> gc = gc0\<lparr>instances := instances gc0 - 1\<rparr>"
  by (induction reg) (auto split: if_splits)

lemma registry_ok_dec: "registry_ok reg \<Longrightarrow> registry_ok (dec_instances reg nm)"
  unfolding registry_ok_def by (auto dest!: dec_instances_mem)

lemma state_ok_dec: "state_ok reg g \<Longrightarrow> state_ok (dec_instances reg nm) g"
proof -
  have "gclass_find_by_name reg c = Some gc \<Longrightarrow>
    \<exists>gc'. gclass_find_by_name (dec_instances reg nm) c = Some gc' \<and> dl_states gc' = dl_states gc" for c gc
    by (induction reg) (auto simp: gclass_find_by_name_def split: if_splits)
  then show "state_ok reg g \<Longrightarrow> state_ok (dec_instances reg nm) g"
    unfolding state_ok_def find_state_def by metis
qed

lemma fsm_inv_set_gobj:
  assumes "fsm_inv w" "gobjs w x = Some g" "ob_gclass g' = ob_gclass g" "current_state g' = current_state g"
  shows "fsm_inv (set_gobj x g' w)"
  using assms by (auto simp: fsm_inv_def state_ok_def)

lemma fsm_inv_fields [simp]:
  "fsm_inv (log_msg m w) = fsm_inv w" "fsm_inv (queue_add d src e kw w) = fsm_inv w"
  "fsm_inv (purge_posted_events x w) = fsm_inv w" "fsm_inv (w\<lparr>dl_posted_events := q\<rparr>) = fsm_inv w"
  by (simp_all add: fsm_inv_def)

interpretation fsm: kernel_laws fsm_inv "\<lambda>_ _. True" "\<lambda>_ _. True" "\<lambda>_ _. True" "\<lambda>_ _. True"
proof (unfold_locales, unfold good_def, goal_cases)
  case (4 w x g gc nm st previous)
  then show ?case by (auto simp: fsm_inv_def state_ok_def gclass_of_def)
next
  case (7 w subs p s w1 w2)
  then show ?case by (auto dest!: upd_gobj_SomeD intro!: fsm_inv_set_gobj)
next
  case (8 w subs w1 w2)
  then show ?case
    by (auto elim!: remove_from_publisher_cases remove_from_subscriber_cases
        intro!: fsm_inv_set_gobj)
next
  case (11 w x w')
  then show ?case by (auto elim!: destroy_service_cases simp: fsm_inv_def)
next
  case (14 w x w')
  then show ?case
    by (auto elim!: destroy_free_cases simp: fsm_inv_def intro!: registry_ok_dec state_ok_dec split: if_splits)
qed (auto dest!: upd_gobj_SomeD intro: fsm_inv_set_gobj)


section \<open>Gobjs only age\<close>

definition older :: "gobj \<Rightarrow> gobj \<Rightarrow> bool" where
  "older g g' \<longleftrightarrow> ob_gclass g' = ob_gclass g \<and> ob_parent g' = ob_parent g \<and>
     gobj_name g' = gobj_name g \<and> ob_flag g' = ob_flag g \<and> jn_attrs g' = jn_attrs g \<and>
     (is_destroying g \<longrightarrow> is_destroying g') \<and>
     (has_flag (ob_obflag g) obflag_destroying \<longrightarrow> has_flag (ob_obflag g') obflag_destroying) \<and>
     subseq (dl_children g') (dl_children g)"

definition evolves :: "world \<Rightarrow> world \<Rightarrow> bool" where
  "evolves w w' \<longleftrightarrow>
     (\<forall>x g'. gobjs w' x = Some g' \<longrightarrow> (\<exists>g. gobjs w x = Some g \<and> older g g')) \<and>
     set (jn_services w') \<subseteq> set (jn_services w)"

lemma evolvesD: "evolves w w' \<Longrightarrow> gobjs w' x = Some g' \<Longrightarrow> \<exists>g. gobjs w x = Some g \<and> older g g'"
  by (simp add: evolves_def)

lemma older_refl: "older g g"
  by (simp add: older_def)

lemma older_trans: "older g1 g2 \<Longrightarrow> older g2 g3 \<Longrightarrow> older g1 g3"
  unfolding older_def by (metis subseq_order.order_trans)

lemma evolves_refl: "evolves w w"
  by (auto simp: evolves_def intro: older_refl)

lemma evolves_trans: "evolves w1 w2 \<Longrightarrow> evolves w2 w3 \<Longrightarrow> evolves w1 w3"
  unfolding evolves_def by (meson older_trans order_trans)

lemma evolves_same:
  "gobjs w' = gobjs w \<Longrightarrow> set (jn_services w') \<subseteq> set (jn_services w) \<Longrightarrow> evolves w w'"
  by (auto simp: evolves_def intro: older_refl)

lemma evolves_set_gobj:
  "gobjs w x = Some g \<Longrightarrow> older g g' \<Longrightarrow> evolves w (set_gobj x g' w)"
  by (auto simp: evolves_def intro: older_refl)

lemma has_flag_or: "has_flag v f \<Longrightarrow> has_flag (v OR v') f"
  by (auto simp: has_flag_def bit_eq_iff bit_simps)

lemma older_mark: "older g (g\<lparr>ob_obflag := ob_obflag g OR f\<rparr>)"
  by (simp add: older_def is_destroying_def has_flag_or)

lemma subseq_remove1: "subseq (remove1 x xs) xs"
  by (induction xs) auto

lemma evolves_remove_child:
  assumes "upd_gobj p (\<lambda>pg. pg\<lparr>dl_children := remove1 x (dl_children pg)\<rparr>) w = Some w'"
  shows "evolves w w'"
  using assms
  by (auto dest!: upd_gobj_SomeD intro!: evolves_set_gobj
      simp: older_def is_destroying_def subseq_remove1)

lemma evolves_free: "destroy_free x w = Some w' \<Longrightarrow> evolves w w'"
  by (auto elim!: destroy_free_cases simp: evolves_def older_refl split: if_splits)

lemma evolves_service: "destroy_service x w = Some w' \<Longrightarrow> evolves w w'"
  by (auto elim!: destroy_service_cases intro: evolves_same)

lemma evolves_unsubscribe:
  assumes "remove_from_publisher subs w = Some w1" "remove_from_subscriber subs w1 = Some w2"
  shows "evolves w w2"
proof -
  have old: "older g (g\<lparr>dl_subscriptions := l\<rparr>)" "older g (g\<lparr>dl_subscribings := l\<rparr>)" for g l
    by (simp_all add: older_def is_destroying_def)
  have "evolves w w1"
    using assms(1) by (rule remove_from_publisher_cases) (auto intro: evolves_set_gobj old evolves_same)
  moreover have "evolves w1 w2"
    using assms(2) by (rule remove_from_subscriber_cases) (auto intro: evolves_set_gobj old evolves_same)
  ultimately show ?thesis by (rule evolves_trans)
qed

lemma evolves_subscribe:
  assumes "upd_gobj p (\<lambda>g. g\<lparr>dl_subscriptions := l g\<rparr>) w = Some w1"
    and "upd_gobj s (\<lambda>g. g\<lparr>dl_subscribings := l' g\<rparr>) w1 = Some w2"
  shows "evolves w w2"
proof -
  have "evolves w w1" "evolves w1 w2"
    using assms by (auto dest!: upd_gobj_SomeD intro!: evolves_set_gobj
        simp: older_def is_destroying_def split: if_splits)
  then show ?thesis by (rule evolves_trans)
qed

lemma evolves_fields:
  "evolves w (log_msg m w)" "evolves w (queue_add d src e kw w)"
  "evolves w (w\<lparr>dl_posted_events := q\<rparr>)" "evolves w (purge_posted_events x w)"
  by (auto intro: evolves_same)

lemma evolves_fsm: "gobjs w x = Some g \<Longrightarrow>
  evolves w (set_gobj x (g\<lparr>last_state := l, current_state := c\<rparr>) w)"
  by (auto intro!: evolves_set_gobj simp: older_def is_destroying_def)

lemma evolves_life: "gobjs w x = Some g \<Longrightarrow>
  evolves w (set_gobj x (g\<lparr>running := a, playing := b, disabled := c, bottom_gobj := d\<rparr>) w)"
  by (auto intro!: evolves_set_gobj simp: older_def is_destroying_def)

lemma evolves_mark: "gobjs w x = Some g \<Longrightarrow>
  evolves w (purge_posted_events x (set_gobj x (g\<lparr>ob_obflag := ob_obflag g OR f\<rparr>) w))"
  by (rule evolves_trans [OF evolves_set_gobj [OF _ older_mark] evolves_fields(4)])

lemmas evolves_intros = evolves_refl evolves_fields evolves_fsm evolves_life evolves_mark
  evolves_remove_child evolves_free evolves_service evolves_unsubscribe evolves_subscribe

interpretation ageing: kernel_laws "\<lambda>_. True" evolves "\<lambda>_ _. True" "\<lambda>_ _. True" "\<lambda>_ _. True"
  by (unfold_locales) (auto simp: good_def intro: evolves_intros elim: evolves_trans)

section \<open>The tree and the register of services\<close>

definition tree_inv :: "world \<Rightarrow> bool" where
  "tree_inv w \<longleftrightarrow> (\<forall>p pg. gobjs w p = Some pg \<longrightarrow> distinct (dl_children pg) \<and>
     (\<forall>c \<in> set (dl_children pg). \<exists>g. gobjs w c = Some g \<and> ob_parent g = Some p))"

definition services_inv :: "world \<Rightarrow> bool" where
  "services_inv w \<longleftrightarrow> distinct (map fst (jn_services w)) \<and>
     (\<forall>(k, h) \<in> set (jn_services w). \<exists>g. gobjs w h = Some g \<and> k = service_key (gobj_name g) \<and>
        has_flag (ob_flag g) (gobj_flag_service OR gobj_flag_top_service))"

definition links_inv :: "world \<Rightarrow> bool" where
  "links_inv w \<longleftrightarrow> tree_inv w \<and> services_inv w"

definition unserviced :: "hgobj \<Rightarrow> world \<Rightarrow> bool" where
  "unserviced x w \<longleftrightarrow> x \<notin> snd ` set (jn_services w)"

definition unlinked :: "hgobj \<Rightarrow> world \<Rightarrow> bool" where
  "unlinked x w \<longleftrightarrow> (\<forall>p pg. gobjs w p = Some pg \<longrightarrow> x \<notin> set (dl_children pg))"

lemma subseq_set: "subseq xs ys \<Longrightarrow> x \<in> set xs \<Longrightarrow> x \<in> set ys"
  by (auto dest: list_emb_set)

lemma distinct_subseq: "subseq xs ys \<Longrightarrow> distinct ys \<Longrightarrow> distinct xs"
  by (induction rule: list_emb.induct) (auto dest: subseq_set)

lemma tree_child: "links_inv w \<Longrightarrow> gobjs w p = Some pg \<Longrightarrow> c \<in> set (dl_children pg) \<Longrightarrow>
    \<exists>g. gobjs w c = Some g \<and> ob_parent g = Some p"
  by (simp add: links_inv_def tree_inv_def)

lemma service_live: "links_inv w \<Longrightarrow> (k, h) \<in> set (jn_services w) \<Longrightarrow>
    \<exists>g. gobjs w h = Some g \<and> k = service_key (gobj_name g) \<and>
      has_flag (ob_flag g) (gobj_flag_service OR gobj_flag_top_service)"
  by (auto simp: links_inv_def services_inv_def)

lemma tree_distinct: "links_inv w \<Longrightarrow> gobjs w p = Some pg \<Longrightarrow> distinct (dl_children pg)"
  by (simp add: links_inv_def tree_inv_def)

text \<open>A change of the world keeps the links when no gobj dies that is still named.\<close>

lemma links_evolve:
  assumes ev: "evolves w w'" and inv: "links_inv w" and keys: "distinct (map fst (jn_services w'))"
    and dead: "\<And>x. gobjs w' x = None \<Longrightarrow> gobjs w x = None \<or> unserviced x w' \<and> unlinked x w'"
  shows "links_inv w'"
proof -
  have tree: "distinct (dl_children pg') \<and>
      (\<forall>c \<in> set (dl_children pg'). \<exists>g. gobjs w' c = Some g \<and> ob_parent g = Some p)"
    if p: "gobjs w' p = Some pg'" for p pg'
  proof -
    obtain pg where pg: "gobjs w p = Some pg" "subseq (dl_children pg') (dl_children pg)"
      using evolvesD [OF ev p] by (auto simp: older_def)
    have "distinct (dl_children pg')"
      using pg inv by (auto simp: links_inv_def tree_inv_def dest: distinct_subseq)
    moreover have "\<exists>g. gobjs w' c = Some g \<and> ob_parent g = Some p" if c: "c \<in> set (dl_children pg')" for c
    proof -
      have "c \<in> set (dl_children pg)" using c pg(2) by (auto dest: subseq_set)
      then obtain g where g: "gobjs w c = Some g" "ob_parent g = Some p"
        using tree_child [OF inv pg(1)] by blast
      have "gobjs w' c \<noteq> None" using dead [of c] g(1) c p by (auto simp: unlinked_def)
      then obtain g' where g': "gobjs w' c = Some g'" by auto
      then have "ob_parent g' = ob_parent g" using evolvesD [OF ev] g(1) by (force simp: older_def)
      then show ?thesis using g g' by simp
    qed
    ultimately show ?thesis by blast
  qed
  have services: "\<exists>g. gobjs w' h = Some g \<and> k = service_key (gobj_name g) \<and>
        has_flag (ob_flag g) (gobj_flag_service OR gobj_flag_top_service)"
    if kh: "(k, h) \<in> set (jn_services w')" for k h
  proof -
    have "(k, h) \<in> set (jn_services w)" using kh ev by (auto simp: evolves_def)
    then obtain g where g: "gobjs w h = Some g" "k = service_key (gobj_name g)"
        "has_flag (ob_flag g) (gobj_flag_service OR gobj_flag_top_service)"
      using service_live [OF inv] by blast
    have "gobjs w' h \<noteq> None" using dead [of h] g(1) kh by (force simp: unserviced_def)
    then obtain g' where g': "gobjs w' h = Some g'" by auto
    then have "gobj_name g' = gobj_name g" "ob_flag g' = ob_flag g"
      using evolvesD [OF ev] g(1) by (force simp: older_def)+
    then show ?thesis using g g' by simp
  qed
  show ?thesis
    unfolding links_inv_def tree_inv_def services_inv_def using tree keys services by blast
qed

lemma links_evolve_live:
  "evolves w w' \<Longrightarrow> jn_services w' = jn_services w \<Longrightarrow> dom (gobjs w') = dom (gobjs w) \<Longrightarrow>
   links_inv w \<Longrightarrow> links_inv w'"
  by (rule links_evolve) (auto simp: links_inv_def services_inv_def)

lemma same_domain:
  "remove_from_publisher subs w = Some w1 \<Longrightarrow> jn_services w1 = jn_services w \<and> dom (gobjs w1) = dom (gobjs w)"
  "remove_from_subscriber subs w = Some w1 \<Longrightarrow> jn_services w1 = jn_services w \<and> dom (gobjs w1) = dom (gobjs w)"
  "upd_gobj x f w = Some w1 \<Longrightarrow> jn_services w1 = jn_services w \<and> dom (gobjs w1) = dom (gobjs w)"
  by (auto elim!: remove_from_publisher_cases remove_from_subscriber_cases dest!: upd_gobj_SomeD
      split: if_splits)

lemma unserviced_stable: "unserviced x w \<Longrightarrow> evolves w w' \<Longrightarrow> unserviced x w'"
  by (auto simp: unserviced_def evolves_def)

lemma unlinked_stable: "unlinked x w \<Longrightarrow> evolves w w' \<Longrightarrow> unlinked x w'"
  unfolding unlinked_def
proof (intro allI impI notI)
  fix p pg'
  assume un: "\<forall>p pg. gobjs w p = Some pg \<longrightarrow> x \<notin> set (dl_children pg)" and ev: "evolves w w'"
    and p: "gobjs w' p = Some pg'" "x \<in> set (dl_children pg')"
  obtain pg where "gobjs w p = Some pg" "older pg pg'" using evolvesD [OF ev p(1)] by blast
  then show False using un p(2) by (auto simp: older_def dest: subseq_set)
qed

interpretation links: kernel_laws links_inv evolves "\<lambda>_ _. True" unserviced unlinked
proof (unfold_locales, unfold good_def, goal_cases)
  case (2 w1 w2 w3)
  then show ?case by (blast intro: evolves_trans)
next
  case (7 w subs p s w1 w2)
  then show ?case
    using same_domain(3) [OF 7(4)] same_domain(3) [OF 7(5)] evolves_subscribe [OF 7(4,5)]
    by (auto intro: links_evolve_live [of w w2])
next
  case (8 w subs w1 w2)
  then show ?case
    using same_domain(1) [OF 8(2)] same_domain(2) [OF 8(3)] evolves_unsubscribe [OF 8(2,3)]
    by (auto intro: links_evolve_live [of w w2])
next
  case (11 w x w')
  have "unserviced x w'"
    using 11 by (elim destroy_service_cases)
      (force simp: unserviced_def links_inv_def services_inv_def dest: map_of_SomeD
        simp: map_of_eq_None_iff)+
  moreover have "distinct (map fst (jn_services w'))" "dom (gobjs w') = dom (gobjs w)"
    using 11 by (auto elim!: destroy_service_cases simp: links_inv_def services_inv_def
        distinct_map_filter)
  ultimately show ?case
    using 11 evolves_service [OF 11(3)] by (auto intro!: links_evolve [of w w'])
next
  case (12 w x g p w')
  have one: "q = p" if "gobjs w q = Some qg" "x \<in> set (dl_children qg)" for q qg
    using tree_child [OF 12(1) that] 12(3,4) by auto
  have twice: "x \<notin> set (remove1 x (dl_children qg))" if "gobjs w q = Some qg" for q qg
    using tree_distinct [OF 12(1) that] by simp
  obtain pg where pg: "gobjs w p = Some pg"
      "w' = set_gobj p (pg\<lparr>dl_children := remove1 x (dl_children pg)\<rparr>) w"
    using upd_gobj_SomeD [OF 12(5)] by blast
  have "x \<notin> set (dl_children qg)" if "gobjs w' q = Some qg" for q qg
  proof (cases "q = p")
    case True
    then show ?thesis using that pg(2) twice [OF pg(1)] by (auto simp del: set_remove1_eq)
  next
    case False
    then show ?thesis using that pg(2) one [of q qg] by auto
  qed
  then have "unlinked x w'" by (simp add: unlinked_def)
  then show ?case
    using 12 evolves_remove_child [OF 12(5)] by (auto intro: links_evolve_live [of w w'] dest: same_domain)
next
  case (13 w x g)
  then show ?case by (force simp: unlinked_def dest: tree_child [OF 13(1)])
next
  case (14 w x w')
  have "evolves w w'" using 14(5) by (rule evolves_free)
  moreover have "links_inv w'"
  proof (rule links_evolve [OF \<open>evolves w w'\<close> 14(1)])
    show "distinct (map fst (jn_services w'))"
      using 14 by (auto elim!: destroy_free_cases simp: links_inv_def services_inv_def)
    show "gobjs w' y = None \<Longrightarrow> gobjs w y = None \<or> unserviced y w' \<and> unlinked y w'" for y
      using 14 unserviced_stable [OF 14(3) \<open>evolves w w'\<close>] unlinked_stable [OF 14(4) \<open>evolves w w'\<close>]
      by (auto elim!: destroy_free_cases split: if_splits)
  qed
  ultimately show ?case by blast
next
  case (16 x w w')
  then show ?case by (blast intro: unserviced_stable)
next
  case (17 x w w')
  then show ?case by (blast intro: unlinked_stable)
qed (auto intro: evolves_refl evolves_fields evolves_fsm evolves_life evolves_mark
    intro!: links_evolve_live [OF evolves_fields(1)] links_evolve_live [OF evolves_fields(2)]
      links_evolve_live [OF evolves_fields(3)] links_evolve_live [OF evolves_fsm]
      links_evolve_live [OF evolves_life] links_evolve_live [OF evolves_mark] split: if_splits)


section \<open>The queue\<close>

definition forget_src :: "hgobj \<Rightarrow> posted_event \<Rightarrow> posted_event" where
  "forget_src x m = (if pe_src m = Some x then m\<lparr>pe_src := None\<rparr> else m)"

lemma forget_src_fields [simp]:
  "pe_id (forget_src x m) = pe_id m" "pe_dst (forget_src x m) = pe_dst m"
  "pe_event (forget_src x m) = pe_event m" "pe_kw (forget_src x m) = pe_kw m"
  "pe_src (forget_src x m) \<noteq> Some x"
  by (auto simp: forget_src_def)

lemma purge_loop_eq: "purge_loop x q = map (forget_src x) (filter (\<lambda>m. pe_dst m \<noteq> x) q)"
  by (induction q) (auto simp: forget_src_def Let_def)

lemma purged_queue:
  "dl_posted_events (purge_posted_events x w) =
     map (forget_src x) (filter (\<lambda>m. pe_dst m \<noteq> x) (dl_posted_events w))"
  by (simp add: purge_posted_events_def purge_loop_eq)

definition queue_inv :: "world \<Rightarrow> bool" where
  "queue_inv w \<longleftrightarrow> length (dl_posted_events w) \<le> MAX_POSTED_EVENTS \<and>
     (\<forall>m \<in> set (dl_posted_events w). \<exists>g. gobjs w (pe_dst m) = Some g \<and> \<not> is_destroying g)"

definition dying :: "hgobj \<Rightarrow> world \<Rightarrow> bool" where
  "dying x w \<longleftrightarrow> (\<forall>g. gobjs w x = Some g \<longrightarrow> is_destroying g)"

lemma dying_stable: "dying x w \<Longrightarrow> evolves w w' \<Longrightarrow> dying x w'"
  unfolding dying_def by (auto dest!: evolvesD simp: older_def)

lemma queue_inv_live:
  assumes "queue_inv w" "dl_posted_events w' = dl_posted_events w"
    and "\<And>x g. gobjs w x = Some g \<Longrightarrow> \<not> is_destroying g \<Longrightarrow>
      \<exists>g'. gobjs w' x = Some g' \<and> \<not> is_destroying g'"
  shows "queue_inv w'"
  using assms unfolding queue_inv_def by metis

lemma queue_inv_set_gobj:
  "queue_inv w \<Longrightarrow> gobjs w x = Some g \<Longrightarrow> ob_obflag g' = ob_obflag g \<Longrightarrow> queue_inv (set_gobj x g' w)"
  by (rule queue_inv_live) (auto simp: is_destroying_def)

lemma queue_inv_log: "queue_inv (log_msg m w) = queue_inv w"
  by (simp add: queue_inv_def)

lemma bit_nonzero: "bit (v :: 32 word) n \<Longrightarrow> v \<noteq> 0"
  by auto

lemma is_destroying_marked [simp]:
  "is_destroying (g\<lparr>ob_obflag := ob_obflag g OR obflag_destroying\<rparr>)"
  unfolding is_destroying_def has_flag_def
  by (rule bit_nonzero [where n = 0]) (simp add: bit_simps obflag_destroying_def obflag_destroyed_def)

interpretation queue: kernel_laws queue_inv evolves dying "\<lambda>_ _. True" "\<lambda>_ _. True"
proof (unfold_locales, unfold good_def, goal_cases)
  case (2 w1 w2 w3)
  then show ?case by (blast intro: evolves_trans)
next
  case (3 w m)
  then show ?case by (auto intro: evolves_intros simp: queue_inv_def)
next
  case (4 w x g gc nm st previous)
  then show ?case by (auto intro: evolves_fsm queue_inv_set_gobj)
next
  case (5 w d g src e kw)
  then show ?case using evolves_fields(2) by (auto simp: queue_inv_def queue_add_def intro: evolves_same)
next
  case (6 w msg rest)
  then show ?case by (auto intro: evolves_fields simp: queue_inv_def)
next
  case (7 w subs p s w1 w2)
  then show ?case
    using evolves_subscribe [OF 7(4,5)]
    by (auto dest!: upd_gobj_SomeD intro!: queue_inv_set_gobj split: if_splits)
next
  case (8 w subs w1 w2)
  have "queue_inv w1"
    by (rule remove_from_publisher_cases [OF 8(2)])
      (use 8(1) in \<open>auto intro: queue_inv_set_gobj simp: queue_inv_log\<close>)
  have "queue_inv w2"
    by (rule remove_from_subscriber_cases [OF 8(3)])
      (use \<open>queue_inv w1\<close> in \<open>auto intro: queue_inv_set_gobj simp: queue_inv_log\<close>)
  then show ?case using evolves_unsubscribe [OF 8(2,3)] by blast
next
  case (9 w x g a b c nb)
  then show ?case by (auto intro: evolves_life queue_inv_set_gobj)
next
  case (10 w x g w')
  have "queue_inv w'"
    using 10(1,2) unfolding 10(3) queue_inv_def
    by (auto simp: purged_queue) (meson dual_order.trans length_filter_le)
  then show ?case
    using 10(2,3) by (auto simp: dying_def intro: evolves_mark)
next
  case (11 w x w')
  then have "gobjs w' = gobjs w \<and> dl_posted_events w' = dl_posted_events w"
    by (auto elim!: destroy_service_cases)
  then show ?case using 11 evolves_service [OF 11(3)] by (simp add: queue_inv_def)
next
  case (12 w x g p w')
  then show ?case
    using evolves_remove_child [OF 12(5)] by (auto dest!: upd_gobj_SomeD intro: queue_inv_set_gobj)
next
  case (14 w x w')
  then show ?case
    using evolves_free [OF 14(5)]
    by (auto elim!: destroy_free_cases simp: queue_inv_def dying_def split: if_splits) fastforce+
next
  case (15 x w w')
  then show ?case by (blast intro: dying_stable)
qed (auto intro: evolves_refl)


section \<open>The ids of messages\<close>

definition ids_inv :: "world \<Rightarrow> bool" where
  "ids_inv w \<longleftrightarrow> (posted_total w < size_t_mod \<longrightarrow> posted_last_id w = posted_total w \<and>
     sorted_wrt (<) (map pe_id (dl_posted_events w)) \<and>
     (\<forall>m \<in> set (dl_posted_events w). pe_id m \<le> posted_last_id w))"

text \<open>The ids of the waiting messages up to \<open>l\<close>.\<close>

definition pending :: "size_t \<Rightarrow> world \<Rightarrow> size_t list" where
  "pending l w = filter (\<lambda>i. i \<le> l) (map pe_id (dl_posted_events w))"

definition only_newer :: "world \<Rightarrow> world \<Rightarrow> bool" where
  "only_newer w w' \<longleftrightarrow> posted_total w \<le> posted_total w' \<and>
     (posted_total w' < size_t_mod \<longrightarrow>
        (\<forall>l \<le> posted_total w. subseq (pending l w') (pending l w)))"

lemma only_newer_trans: "only_newer w1 w2 \<Longrightarrow> only_newer w2 w3 \<Longrightarrow> only_newer w1 w3"
  unfolding only_newer_def by (meson le_trans le_less_trans subseq_order.order_trans)

lemma only_newer_sub:
  assumes "posted_total w' = posted_total w"
    and "subseq (map pe_id (dl_posted_events w')) (map pe_id (dl_posted_events w))"
  shows "only_newer w w'"
  using assms by (auto simp: only_newer_def pending_def)

lemma ids_inv_sub:
  assumes "ids_inv w" "posted_total w' = posted_total w" "posted_last_id w' = posted_last_id w"
    and sub: "subseq (map pe_id (dl_posted_events w')) (map pe_id (dl_posted_events w))"
  shows "ids_inv w'"
proof -
  have "sorted_wrt (<) (map pe_id (dl_posted_events w')) \<and>
      (\<forall>i \<in> set (map pe_id (dl_posted_events w')). i \<le> posted_last_id w)"
    if "sorted_wrt (<) (map pe_id (dl_posted_events w))"
      "\<forall>i \<in> set (map pe_id (dl_posted_events w)). i \<le> posted_last_id w"
    using sub that by (induction rule: list_emb.induct) (auto dest: subseq_set)
  then show ?thesis using assms by (auto simp: ids_inv_def)
qed

lemma ids_post:
  assumes "ids_inv w"
  shows "ids_inv (queue_add d src e kw w) \<and> only_newer w (queue_add d src e kw w)"
proof -
  let ?w = "queue_add d src e kw w"
  have total: "posted_total ?w = posted_total w + 1" by (simp add: queue_add_def)
  have new: "posted_last_id ?w = posted_total w + 1" "map pe_id (dl_posted_events ?w) =
      map pe_id (dl_posted_events w) @ [posted_total w + 1]" if "posted_total ?w < size_t_mod"
    using assms that by (auto simp: ids_inv_def queue_add_def sz_add_no_wrap)
  have "ids_inv ?w"
    unfolding ids_inv_def
  proof (intro impI conjI)
    assume nw: "posted_total ?w < size_t_mod"
    have old: "posted_last_id w = posted_total w" "sorted_wrt (<) (map pe_id (dl_posted_events w))"
      "\<forall>m \<in> set (dl_posted_events w). pe_id m \<le> posted_total w"
      using assms nw total by (auto simp: ids_inv_def)
    show "posted_last_id ?w = posted_total ?w" using new(1) [OF nw] total by simp
    show "sorted_wrt (<) (map pe_id (dl_posted_events ?w))"
      unfolding new(2) [OF nw] using old(2,3) by (auto simp: sorted_wrt_append le_imp_less_Suc)
    show "\<forall>m \<in> set (dl_posted_events ?w). pe_id m \<le> posted_last_id ?w"
      unfolding new(1) [OF nw] using old(1,3) nw total
      by (auto simp: queue_add_def sz_add_no_wrap)
  qed
  moreover have "only_newer w ?w"
    unfolding only_newer_def using total new by (auto simp: pending_def)
  ultimately show ?thesis by blast
qed

lemma same_queue_ids:
  assumes "dl_posted_events w' = dl_posted_events w" "posted_total w' = posted_total w"
    "posted_last_id w' = posted_last_id w" "ids_inv w"
  shows "ids_inv w' \<and> only_newer w w'"
  using assms by (auto intro: ids_inv_sub [of w] only_newer_sub)

lemma same_queue:
  "remove_from_publisher subs w = Some w1 \<Longrightarrow> dl_posted_events w1 = dl_posted_events w \<and>
     posted_total w1 = posted_total w \<and> posted_last_id w1 = posted_last_id w"
  "remove_from_subscriber subs w = Some w1 \<Longrightarrow> dl_posted_events w1 = dl_posted_events w \<and>
     posted_total w1 = posted_total w \<and> posted_last_id w1 = posted_last_id w"
  "upd_gobj x f w = Some w1 \<Longrightarrow> dl_posted_events w1 = dl_posted_events w \<and>
     posted_total w1 = posted_total w \<and> posted_last_id w1 = posted_last_id w"
  "destroy_service x w = Some w1 \<Longrightarrow> dl_posted_events w1 = dl_posted_events w \<and>
     posted_total w1 = posted_total w \<and> posted_last_id w1 = posted_last_id w"
  "destroy_free x w = Some w1 \<Longrightarrow> dl_posted_events w1 = dl_posted_events w \<and>
     posted_total w1 = posted_total w \<and> posted_last_id w1 = posted_last_id w"
  by (auto elim!: remove_from_publisher_cases remove_from_subscriber_cases destroy_service_cases
      destroy_free_cases dest!: upd_gobj_SomeD)

lemma subseq_map_filter: "subseq (map f (filter P xs)) (map f xs)"
  by (induction xs) auto

interpretation ids: kernel_laws ids_inv only_newer "\<lambda>_ _. True" "\<lambda>_ _. True" "\<lambda>_ _. True"
proof (unfold_locales, unfold good_def, goal_cases)
  case (1 w)
  then show ?case by (auto intro: only_newer_sub)
next
  case (2 w1 w2 w3)
  then show ?case by (blast intro: only_newer_trans)
next
  case (5 w d g src e kw)
  show ?case by (rule ids_post [OF 5(1)])
next
  case (6 w msg rest)
  then show ?case by (auto intro!: ids_inv_sub [of w] only_newer_sub simp: list_emb_Cons)
next
  case (7 w subs p s w1 w2)
  then show ?case by (intro same_queue_ids) (auto dest!: same_queue)
next
  case (8 w subs w1 w2)
  then show ?case by (intro same_queue_ids) (auto dest!: same_queue)
next
  case (10 w x g w')
  then show ?case
    by (auto intro!: ids_inv_sub [of w] only_newer_sub simp: purged_queue o_def subseq_map_filter)
next
  case (11 w x w')
  then show ?case using same_queue_ids same_queue(4) by blast
next
  case (12 w x g p w')
  then show ?case using same_queue_ids same_queue(3) by blast
next
  case (14 w x w')
  then show ?case using same_queue_ids same_queue(5) by blast
qed (((rule same_queue_ids; simp) | simp)+)


section \<open>The two copies of a subscription\<close>

fun remove_first :: "('a \<Rightarrow> bool) \<Rightarrow> 'a list \<Rightarrow> 'a list" where
  "remove_first P [] = []"
| "remove_first P (x # xs) = (if P x then xs else x # remove_first P xs)"

lemma remove_first_index:
  "(case find_index P xs of Some i \<Rightarrow> remove_at i xs | None \<Rightarrow> xs) = remove_first P xs"
  by (induction xs) (auto simp: remove_at_def split: option.splits)

lemma remove_first_filter_in:
  "(\<And>x. P x \<Longrightarrow> Q x) \<Longrightarrow> filter Q (remove_first P xs) = remove_first P (filter Q xs)"
  by (induction xs) auto

lemma remove_first_filter_out:
  "(\<And>x. P x \<Longrightarrow> \<not> Q x) \<Longrightarrow> filter Q (remove_first P xs) = filter Q xs"
  by (induction xs) auto

lemma set_remove_first: "set (remove_first P xs) \<subseteq> set xs"
  by (induction xs) auto

text \<open>What the two removals take out.\<close>

definition same_subs :: "subscription \<Rightarrow> subscription \<Rightarrow> bool" where
  "same_subs subs s \<longleftrightarrow> match_subscription s (Some (subs_publisher subs)) (subs_event subs)
     (subs_kw subs) (Some (subs_subscriber subs))"

lemma same_subs_eq: "(\<lambda>s. match_subscription s (Some (subs_publisher subs)) (subs_event subs)
     (subs_kw subs) (Some (subs_subscriber subs))) = same_subs subs"
  by (rule ext) (simp add: same_subs_def)

lemma same_subs_ends:
  "same_subs subs s \<Longrightarrow> subs_publisher s = subs_publisher subs \<and> subs_subscriber s = subs_subscriber subs"
  by (simp add: same_subs_def match_subscription_def)

lemma remove_from_publisher_gobjs:
  assumes "remove_from_publisher subs w = Some w'"
  shows "\<exists>p. gobjs w (subs_publisher subs) = Some p \<and> gobjs w' = (gobjs w)(subs_publisher subs \<mapsto>
     p\<lparr>dl_subscriptions := remove_first (same_subs subs) (dl_subscriptions p)\<rparr>)"
  by (rule remove_from_publisher_cases [OF assms])
    (auto simp: get_subs_idx_def same_subs_eq remove_first_index [symmetric] map_upd_triv)

lemma remove_from_subscriber_gobjs:
  assumes "remove_from_subscriber subs w = Some w'"
  shows "\<exists>s. gobjs w (subs_subscriber subs) = Some s \<and> gobjs w' = (gobjs w)(subs_subscriber subs \<mapsto>
     s\<lparr>dl_subscribings := remove_first (same_subs subs) (dl_subscribings s)\<rparr>)"
  by (rule remove_from_subscriber_cases [OF assms])
    (auto simp: get_subs_idx_def same_subs_eq remove_first_index [symmetric] map_upd_triv)

definition to :: "hgobj \<Rightarrow> subscription list \<Rightarrow> subscription list" where
  "to s l = filter (\<lambda>x. subs_subscriber x = s) l"

definition of_pub :: "hgobj \<Rightarrow> subscription list \<Rightarrow> subscription list" where
  "of_pub p l = filter (\<lambda>x. subs_publisher x = p) l"

definition subs_inv :: "world \<Rightarrow> bool" where
  "subs_inv w \<longleftrightarrow>
     (\<forall>p g. gobjs w p = Some g \<longrightarrow> (\<forall>x \<in> set (dl_subscriptions g). subs_publisher x = p) \<and>
        (\<forall>x \<in> set (dl_subscribings g). subs_subscriber x = p)) \<and>
     (\<forall>p pg s sg. gobjs w p = Some pg \<longrightarrow> gobjs w s = Some sg \<longrightarrow>
        to s (dl_subscriptions pg) = of_pub p (dl_subscribings sg))"

lemma subs_inv_gobjs:
  assumes "subs_inv w"
    and "\<And>x g'. gobjs w' x = Some g' \<Longrightarrow> \<exists>g. gobjs w x = Some g \<and>
      dl_subscriptions g' = dl_subscriptions g \<and> dl_subscribings g' = dl_subscribings g"
  shows "subs_inv w'"
  unfolding subs_inv_def
proof (intro conjI allI impI ballI)
  fix p g x assume p: "gobjs w' p = Some g"
  then obtain h where h: "gobjs w p = Some h" "dl_subscriptions g = dl_subscriptions h"
    "dl_subscribings g = dl_subscribings h" using assms(2) by blast
  show "x \<in> set (dl_subscriptions g) \<Longrightarrow> subs_publisher x = p"
    "x \<in> set (dl_subscribings g) \<Longrightarrow> subs_subscriber x = p"
    using h assms(1) unfolding subs_inv_def by auto
next
  fix p pg s sg assume p: "gobjs w' p = Some pg" and s: "gobjs w' s = Some sg"
  obtain ph where ph: "gobjs w p = Some ph" "dl_subscriptions pg = dl_subscriptions ph"
    using assms(2) [OF p] by blast
  obtain sh where sh: "gobjs w s = Some sh" "dl_subscribings sg = dl_subscribings sh"
    using assms(2) [OF s] by blast
  have "to s (dl_subscriptions ph) = of_pub p (dl_subscribings sh)"
    using assms(1) ph(1) sh(1) unfolding subs_inv_def by blast
  then show "to s (dl_subscriptions pg) = of_pub p (dl_subscribings sg)" using ph sh by simp
qed

text \<open>
  A change at both ends: the list of the publisher and the list of the subscriber change by functions
  that agree on what the two gobjs share and leave alone what they do not.
\<close>

lemma subs_inv_both:
  assumes inv: "subs_inv w" and p: "gobjs w p = Some pg" and g1: "g1 = (gobjs w)(p \<mapsto> pg\<lparr>dl_subscriptions := f (dl_subscriptions pg)\<rparr>)"
    and s: "g1 s = Some sg" and g2: "gobjs w' = g1(s \<mapsto> sg\<lparr>dl_subscribings := f (dl_subscribings sg)\<rparr>)"
    and ends: "\<And>l x. x \<in> set (f l) \<Longrightarrow> x \<in> set l \<or> subs_publisher x = p \<and> subs_subscriber x = s"
    and to: "\<And>l l'. to s l = of_pub p l' \<Longrightarrow> to s (f l) = of_pub p (f l')"
    and other: "\<And>l q. q \<noteq> s \<Longrightarrow> to q (f l) = to q l" "\<And>l q. q \<noteq> p \<Longrightarrow> of_pub q (f l) = of_pub q l"
  shows "subs_inv w'"
proof -
  have subscriptions: "\<exists>h. gobjs w x = Some h \<and> dl_subscriptions g = (if x = p then f (dl_subscriptions h) else dl_subscriptions h)
      \<and> dl_subscribings g = (if x = s then f (dl_subscribings h) else dl_subscribings h)"
    if "gobjs w' x = Some g" for x g
    using that p s unfolding g1 g2 by (auto split: if_splits)
  show ?thesis
    unfolding subs_inv_def
  proof (intro conjI allI impI ballI)
    fix x g y assume "gobjs w' x = Some g" "y \<in> set (dl_subscriptions g)"
    then show "subs_publisher y = x"
      using subscriptions [of x g] ends inv unfolding subs_inv_def by (auto split: if_splits) blast+
  next
    fix x g y assume "gobjs w' x = Some g" "y \<in> set (dl_subscribings g)"
    then show "subs_subscriber y = x"
      using subscriptions [of x g] ends inv unfolding subs_inv_def by (auto split: if_splits) blast+
  next
    fix a ag b bg assume a: "gobjs w' a = Some ag" and b: "gobjs w' b = Some bg"
    obtain ah where ah: "gobjs w a = Some ah"
      "dl_subscriptions ag = (if a = p then f (dl_subscriptions ah) else dl_subscriptions ah)"
      using subscriptions [OF a] by blast
    obtain bh where bh: "gobjs w b = Some bh"
      "dl_subscribings bg = (if b = s then f (dl_subscribings bh) else dl_subscribings bh)"
      using subscriptions [OF b] by blast
    have "to b (dl_subscriptions ah) = of_pub a (dl_subscribings bh)"
      using inv ah bh unfolding subs_inv_def by blast
    then show "to b (dl_subscriptions ag) = of_pub a (dl_subscribings bg)"
      using ah(2) bh(2) to other by auto
  qed
qed


lemma subs_inv_set_gobj:
  "subs_inv w \<Longrightarrow> gobjs w x = Some g \<Longrightarrow> dl_subscriptions g' = dl_subscriptions g \<Longrightarrow>
   dl_subscribings g' = dl_subscribings g \<Longrightarrow> subs_inv (set_gobj x g' w)"
  by (rule subs_inv_gobjs) (auto split: if_splits)

lemma subs_inv_cong: "gobjs w' = gobjs w \<Longrightarrow> subs_inv w \<Longrightarrow> subs_inv w'"
  by (rule subs_inv_gobjs) auto

lemma remove_same_ends:
  "to (subs_subscriber subs) (remove_first (same_subs subs) l) =
     remove_first (same_subs subs) (to (subs_subscriber subs) l)"
  "of_pub (subs_publisher subs) (remove_first (same_subs subs) l) =
     remove_first (same_subs subs) (of_pub (subs_publisher subs) l)"
  "q \<noteq> subs_subscriber subs \<Longrightarrow> to q (remove_first (same_subs subs) l) = to q l"
  "q \<noteq> subs_publisher subs \<Longrightarrow> of_pub q (remove_first (same_subs subs) l) = of_pub q l"
  unfolding to_def of_pub_def
  by (auto intro!: remove_first_filter_in remove_first_filter_out dest: same_subs_ends)

lemma subs_inv_unsubscribe:
  assumes inv: "subs_inv w" and "remove_from_publisher subs w = Some w1"
    and "remove_from_subscriber subs w1 = Some w2"
  shows "subs_inv w2"
proof -
  obtain pg sg where "gobjs w (subs_publisher subs) = Some pg"
    "gobjs w1 = (gobjs w)(subs_publisher subs \<mapsto>
       pg\<lparr>dl_subscriptions := remove_first (same_subs subs) (dl_subscriptions pg)\<rparr>)"
    "gobjs w1 (subs_subscriber subs) = Some sg"
    "gobjs w2 = (gobjs w1)(subs_subscriber subs \<mapsto>
       sg\<lparr>dl_subscribings := remove_first (same_subs subs) (dl_subscribings sg)\<rparr>)"
    using remove_from_publisher_gobjs [OF assms(2)] remove_from_subscriber_gobjs [OF assms(3)] by blast
  then show ?thesis
    by (rule subs_inv_both [OF inv])
      (auto simp: remove_same_ends dest: set_remove_first [THEN subsetD])
qed

lemma subs_inv_subscribe:
  assumes inv: "subs_inv w" and ends: "subs_publisher subs = p" "subs_subscriber subs = s"
    and "upd_gobj p (\<lambda>g. g\<lparr>dl_subscriptions := dl_subscriptions g @ [subs]\<rparr>) w = Some w1"
    and "upd_gobj s (\<lambda>g. g\<lparr>dl_subscribings := dl_subscribings g @ [subs]\<rparr>) w1 = Some w2"
  shows "subs_inv w2"
proof -
  obtain pg sg where "gobjs w p = Some pg"
    "gobjs w1 = (gobjs w)(p \<mapsto> pg\<lparr>dl_subscriptions := dl_subscriptions pg @ [subs]\<rparr>)"
    "gobjs w1 s = Some sg"
    "gobjs w2 = (gobjs w1)(s \<mapsto> sg\<lparr>dl_subscribings := dl_subscribings sg @ [subs]\<rparr>)"
    using upd_gobj_SomeD [OF assms(4)] upd_gobj_SomeD [OF assms(5)] by fastforce
  then show ?thesis
    by (rule subs_inv_both [OF inv, where f = "\<lambda>l. l @ [subs]"]) (auto simp: to_def of_pub_def ends)
qed

interpretation subs: kernel_laws subs_inv "\<lambda>_ _. True" "\<lambda>_ _. True" "\<lambda>_ _. True" "\<lambda>_ _. True"
proof (unfold_locales, unfold good_def, goal_cases)
  case (10 w x g w')
  have "subs_inv w'" unfolding 10(3) by (rule subs_inv_gobjs [OF 10(1)]) (use 10(2) in \<open>auto split: if_splits\<close>)
  then show ?case by simp
next
  case (7 w subs p s w1 w2)
  then show ?case by (blast intro: subs_inv_subscribe)
next
  case (8 w subs w1 w2)
  then show ?case by (blast intro: subs_inv_unsubscribe)
next
  case (11 w x w')
  then show ?case by (auto elim!: destroy_service_cases intro: subs_inv_cong)
next
  case (12 w x g p w')
  then show ?case by (auto dest!: upd_gobj_SomeD intro: subs_inv_set_gobj)
next
  case (14 w x w')
  have "subs_inv w'"
    by (rule subs_inv_gobjs [OF 14(1)]) (use 14(5) in \<open>auto elim!: destroy_free_cases split: if_splits\<close>)
  then show ?case by simp
qed (auto intro: subs_inv_set_gobj subs_inv_cong [of "log_msg _ _"] subs_inv_cong [of "queue_add _ _ _ _ _"]
    subs_inv_cong [of "purge_posted_events _ _"] subs_inv_cong [of "_\<lparr>dl_posted_events := _\<rparr>"])

end
