(* ===== verification/GObj_System.thy ===== *)
theory GObj_System
  imports GObj_Invariants
begin

text \<open>
  A running system: the event loop of a yuno, and the code outside any action, call the operations of
  the kernel one after another. \<open>system k w w'\<close> is one such call that returns; a call that the
  model gives no result has no step. What holds of every world reachable from a good start follows
  from the interpretations of \<open>GObj_Invariants\<close>.
\<close>

section \<open>Steps and reachable worlds\<close>

inductive system :: "kapi \<Rightarrow> world \<Rightarrow> world \<Rightarrow> bool" for k where
  send: "k_send k dst ev kw src w = Some (ret, kw', w') \<Longrightarrow> system k w w'"
| send_children: "k_send_children k h e kw src w = Some (ret, kw', w') \<Longrightarrow> system k w w'"
| send_tree: "k_send_tree k h e kw src w = Some (ret, kw', w') \<Longrightarrow> system k w w'"
| post: "k_post k dst ev kw src w = Some (ret, w') \<Longrightarrow> system k w w'"
| deliver: "k_deliver k w = Some (ret, w') \<Longrightarrow> system k w w'"
| publish: "k_publish k h ev kw w = Some (ret, kw', w') \<Longrightarrow> system k w w'"
| change_state: "k_change_state k h st w = Some (b, w') \<Longrightarrow> system k w w'"
| subscribe: "k_subscribe k h ev kw s w = Some (r, w') \<Longrightarrow> system k w w'"
| unsubscribe: "k_unsubscribe k h ev kw s w = Some (ret, w') \<Longrightarrow> system k w w'"
| life: "f \<in> {k_start k, k_start_children k, k_start_tree k, k_stop k, k_stop_children k,
    k_stop_tree k, k_play k, k_pause k, k_enable k, k_disable k} \<Longrightarrow> f h w = Some (ret, w') \<Longrightarrow>
    system k w w'"
| set_bottom: "k_set_bottom k h b w = Some (r, w') \<Longrightarrow> system k w w'"
| destroy: "k_destroy k h w = Some w' \<Longrightarrow> system k w w'"
| destroy_children: "k_destroy_children k h w = Some w' \<Longrightarrow> system k w w'"
| destroy_named: "k_destroy_named k h nm w = Some (ret, w') \<Longrightarrow> system k w w'"

inductive reachable :: "kapi \<Rightarrow> world \<Rightarrow> world \<Rightarrow> bool" for k w0 where
  start: "reachable k w0 w0"
| step: "reachable k w0 w \<Longrightarrow> system k w w' \<Longrightarrow> reachable k w0 w'"

inductive_cases system_cases: "system k w w'"

lemma system_good:
  assumes k: "api_keeps I R k" and Iw: "I w" and s: "system k w w'"
  shows "good I R w w'"
proof -
  note parts = k [unfolded api_keeps_def send_keeps_def publish_keeps_def change_keeps_def
      bottom_keeps_def destroy_keeps_def]
  show ?thesis
    using s
  proof cases
    case (life f h ret)
    have "\<forall>f \<in> {k_start k, k_start_children k, k_start_tree k, k_stop k, k_stop_children k,
        k_stop_tree k, k_play k, k_pause k, k_enable k, k_disable k}. life_keeps I R f"
      using k unfolding api_keeps_def by (elim conjE)
    then have "life_keeps I R f" using life(1) by (rule bspec)
    then show ?thesis using life(2) Iw unfolding life_keeps_def holds_def by blast
  qed (use parts Iw in \<open>fastforce simp: holds_def\<close>)+
qed

context kernel_laws begin

lemma reachable_good:
  assumes code: "code_keeps I R code" and I0: "I w0" and reach: "reachable (kernel lc code n) w0 w"
  shows "good I R w0 w"
  using reach
proof induction
  case start
  show ?case using I0 by (rule good_refl)
next
  case (step w w')
  then show ?case
    using system_good [OF kernel_keeps [OF code] good_I] good_trans by blast
qed

end

end
