(* ===== verification/GObj_Behaviour.thy ===== *)
theory GObj_Behaviour
  imports GObj_System
begin

text \<open>
  What single operations of the kernel do: the end of a destroyed gobj, how many messages one delivery
  sends and that it ends, posting, changing state, starting and stopping, subscribing and
  unsubscribing, publishing to plain subscribers.
\<close>

section \<open>Destroying\<close>

lemma destroy_gone:
  assumes "gobj_destroy_with u pause stop set_bottom children (Some x) w = Some w'"
    and "gobjs w x = Some g" "\<not> has_flag (ob_obflag g) obflag_destroying"
  shows "gobjs w' x = None"
proof -
  obtain v where "destroy_free x v = Some w'"
    using assms by (auto simp: gobj_destroy_with_def bind_eq_Some_conv Let_def split: if_splits)
  then show ?thesis by (auto elim!: destroy_free_cases)
qed

lemma gone_unlinked:
  assumes "links_inv w" "queue_inv w" "gobjs w x = None"
  shows "x \<notin> snd ` set (jn_services w)" "gobjs w p = Some pg \<Longrightarrow> x \<notin> set (dl_children pg)"
    and "m \<in> set (dl_posted_events w) \<Longrightarrow> pe_dst m \<noteq> x"
proof -
  show "x \<notin> snd ` set (jn_services w)" using service_live [OF assms(1)] assms(3) by force
  show "gobjs w p = Some pg \<Longrightarrow> x \<notin> set (dl_children pg)" using tree_child [OF assms(1)] assms(3) by force
  show "m \<in> set (dl_posted_events w) \<Longrightarrow> pe_dst m \<noteq> x" using assms(2,3) unfolding queue_inv_def by force
qed

section \<open>Delivering\<close>

lemma pending_length: "length (pending l w) \<le> length (dl_posted_events w)"
  unfolding pending_def by (metis length_filter_le length_map)

lemma pending_cons:
  "dl_posted_events w = m # rest \<Longrightarrow> pe_id m \<le> l \<Longrightarrow>
   length (pending l w) = Suc (length (pending l (w\<lparr>dl_posted_events := rest\<rparr>)))"
  by (simp add: pending_def)

lemma pending_none:
  assumes "sorted_wrt (<) (map pe_id (dl_posted_events w))" "dl_posted_events w = m # rest" "l < pe_id m"
  shows "pending l w = []"
proof -
  have "l < pe_id m'" if "m' \<in> set (m # rest)" for m'
    using assms that by (auto dest: less_trans)
  then show ?thesis by (auto simp: pending_def assms(2) filter_empty_conv not_le)
qed

lemma last_id_total:
  assumes "ids_inv w" "posted_total w < size_t_mod" "dl_posted_events w \<noteq> []"
  shows "pe_id (last (dl_posted_events w)) \<le> posted_total w"
  using assms by (auto simp: ids_inv_def)

lemma deliver_bounded:
  assumes s: "send_keeps ids_inv only_newer send" and inv: "ids_inv w0"
    and l: "posted_total w0 < size_t_mod \<longrightarrow> l \<le> posted_total w0"
  shows "holds (\<lambda>(d, w'). good ids_inv only_newer w0 w' \<and> (posted_total w' < size_t_mod \<longrightarrow>
      0 \<le> d \<and> d \<le> int (length (pending l w0)) \<and> pending l w' = [])) (deliver_loop send l 0 w0)"
proof (rule deliver_loop_rule [where P = "\<lambda>d w. good ids_inv only_newer w0 w \<and>
    (posted_total w < size_t_mod \<longrightarrow> 0 \<le> d \<and> d + int (length (pending l w)) \<le> int (length (pending l w0)))"], goal_cases)
  case (1 n w)
  then show ?case by (auto simp: pending_def)
next
  case (2 n w msg rest)
  then show ?case using pending_none [of w msg rest l] by (auto simp: good_def ids_inv_def)
next
  case (3 n w msg rest)
  let ?v = "w\<lparr>dl_posted_events := rest\<rparr>"
  have pop: "good ids_inv only_newer w0 ?v"
    using 3(1,2) ids.pop_law ids.good_trans ids.good_I by blast
  show ?case
  proof (rule holds_mono [where P = "\<lambda>(_, _, w'). good ids_inv only_newer ?v w'"])
    show "keeps3 ids_inv only_newer ?v
        (send (Some (pe_dst msg)) (Some (pe_event msg)) (pe_kw msg) (pe_src msg) ?v)"
      using s ids.good_I [OF pop] unfolding send_keeps_def by blast
    fix r assume r: "case r of (_, _, w') \<Rightarrow> good ids_inv only_newer ?v w'"
    obtain a b w' where rw: "r = (a, b, w')" by (cases r)
    have good: "good ids_inv only_newer ?v w'" using r rw by simp
    have bound: "0 \<le> n + 1 \<and> n + 1 + int (length (pending l w')) \<le> int (length (pending l w0))"
      if nw: "posted_total w' < size_t_mod"
    proof -
      have tot: "posted_total w0 \<le> posted_total w" "posted_total w \<le> posted_total w'"
        using 3(1) good by (auto simp: good_def only_newer_def)
      then have "subseq (pending l w') (pending l ?v)"
        using good nw l by (auto simp: good_def only_newer_def)
      then have "length (pending l w') \<le> length (pending l ?v)" by (rule list_emb_length)
      then show ?thesis using 3(1) tot nw pending_cons [OF 3(2,3)] by auto
    qed
    show "case r of (_, _, w'') \<Rightarrow> good ids_inv only_newer w0 w'' \<and> (posted_total w'' < size_t_mod \<longrightarrow>
        0 \<le> n + 1 \<and> n + 1 + int (length (pending l w'')) \<le> int (length (pending l w0)))"
      using rw bound ids.good_trans [OF pop good] by simp
  qed
next
  case 4
  then show ?case by (simp add: ids.good_refl inv)
qed

text \<open>A delivery whose every send returns and posts at most \<open>p\<close> messages returns.\<close>

lemma deliver_total:
  assumes s: "\<And>dst ev kw src w. ids_inv w \<Longrightarrow> \<exists>r kw' w'. send dst ev kw src w = Some (r, kw', w') \<and>
      good ids_inv only_newer w w' \<and> posted_total w' \<le> posted_total w + p"
  shows "ids_inv w \<Longrightarrow> l \<le> posted_total w \<Longrightarrow> posted_total w + p * length (pending l w) < size_t_mod \<Longrightarrow>
    \<exists>r. deliver_loop send l d w = Some r"
proof (induction "length (pending l w)" arbitrary: w d rule: less_induct)
  case less
  show ?case
  proof (cases "dl_posted_events w")
    case Nil
    then show ?thesis by (subst deliver_loop.simps) simp
  next
    case (Cons msg rest)
    show ?thesis
    proof (cases "l < pe_id msg")
      case True
      then show ?thesis using Cons by (subst deliver_loop.simps) simp
    next
      case False
      let ?v = "w\<lparr>dl_posted_events := rest\<rparr>"
      have v: "good ids_inv only_newer w ?v" using ids.pop_law [OF less.prems(1) Cons] .
      obtain r kw w' where send: "send (Some (pe_dst msg)) (Some (pe_event msg)) (pe_kw msg) (pe_src msg) ?v
          = Some (r, kw, w')" and w': "good ids_inv only_newer ?v w'" "posted_total w' \<le> posted_total ?v + p"
        using s [OF ids.good_I [OF v]] by blast
      have len: "length (pending l w) = Suc (length (pending l ?v))"
        using Cons False by (intro pending_cons) auto
      have tot: "posted_total w \<le> posted_total w'" "posted_total w' \<le> posted_total w + p"
        using w' by (auto simp: good_def only_newer_def)
      have "posted_total w + p \<le> posted_total w + p * length (pending l w)" using len by simp
      then have nw: "posted_total w' < size_t_mod" using less.prems(3) tot by linarith
      have "subseq (pending l w') (pending l ?v)"
        using w'(1) nw less.prems(2) by (simp add: good_def only_newer_def)
      then have le: "length (pending l w') \<le> length (pending l ?v)" by (rule list_emb_length)
      have "\<exists>r. deliver_loop send l (d + 1) w' = Some r"
      proof (rule less.hyps)
        show "length (pending l w') < length (pending l w)" using le len by simp
        show "ids_inv w'" using w'(1) by (rule ids.good_I)
        show "l \<le> posted_total w'" using less.prems(2) tot by simp
        have "p * length (pending l w') \<le> p * length (pending l ?v)" using le by (rule mult_le_mono2)
        then have "posted_total w' + p * length (pending l w') \<le> posted_total w + p * length (pending l w)"
          unfolding len mult_Suc_right using tot by linarith
        then show "posted_total w' + p * length (pending l w') < size_t_mod" using less.prems(3) by simp
      qed
      then show ?thesis using Cons False send by (subst deliver_loop.simps) auto
    qed
  qed
qed


section \<open>Posting\<close>

text \<open>When a message is accepted.\<close>

definition postable :: "world \<Rightarrow> hgobj option \<Rightarrow> gobj_event option \<Rightarrow> bool" where
  "postable w dst ev \<longleftrightarrow> (\<exists>d g gc e. dst = Some d \<and> gobjs w d = Some g \<and> \<not> is_destroying g \<and>
     gclass_of w g = Some gc \<and> ev = Some e \<and> e \<noteq> [] \<and> gclass_event_type gc e \<noteq> None \<and>
     length (dl_posted_events w) < MAX_POSTED_EVENTS)"

lemma has_event_iff:
  "gobjs w d = Some g \<Longrightarrow> gclass_of w g = Some gc \<Longrightarrow>
   gobj_has_event w d (Some e) 0 = Some (gclass_event_type gc e \<noteq> None)"
  by (simp add: gobj_has_event_def gobj_event_type_def event_type_in_def split: option.splits)

lemma post_event_spec:
  assumes "gobj_post_event dst ev kw src w = Some (ret, w')"
  shows "(ret = 0 \<and> postable w dst ev \<and> w' = queue_add (the dst) src (the ev) kw w) \<or>
     (ret = -1 \<and> \<not> postable w dst ev \<and> (\<exists>m. w' = log_msg m w))"
proof (cases dst)
  case None
  then show ?thesis using assms by (auto simp: gobj_post_event_def postable_def)
next
  case (Some d)
  obtain g where g: "gobjs w d = Some g"
    using assms Some by (auto simp: gobj_post_event_def bind_eq_Some_conv)
  show ?thesis
  proof (cases "is_destroying g \<or> ev = None \<or> ev = Some []")
    case True
    then show ?thesis using assms Some g by (auto simp: gobj_post_event_def postable_def split: if_splits)
  next
    case False
    then obtain e where e: "ev = Some e" "e \<noteq> []" "\<not> is_destroying g" by auto
    then obtain gc where gc: "gclass_of w g = Some gc"
      using assms Some g by (auto simp: gobj_post_event_def gobj_has_event_def gobj_event_type_def
          bind_eq_Some_conv)
    show ?thesis
      using assms Some g e gc has_event_iff [OF g gc, of e]
      by (auto simp: gobj_post_event_def postable_def not_le split: if_splits)
  qed
qed

section \<open>Changing state\<close>

lemma change_state_spec:
  assumes "gobj_change_state_with u publish (Some x) nm w = Some (b, w')" and g: "gobjs w x = Some g"
  shows "(\<not> b \<and> (w' = w \<or> (\<exists>m. w' = log_msg m w))) \<or>
     (b \<and> (\<exists>gc st previous w1 r kw. gclass_of w g = Some gc \<and> find_state gc nm = Some st \<and>
        current_state g = Some previous \<and> previous \<noteq> nm \<and> \<not> is_destroyed g \<and>
        w1 = set_gobj x (g\<lparr>last_state := Some previous, current_state := Some nm\<rparr>) w \<and>
        (if mt_state_changed \<in> set (gmt gc)
         then u (U_state_changed x) (Some (state_changed_kw previous nm)) w1
         else publish (Some x) (Some EV_STATE_CHANGED) (Some (state_changed_kw previous nm)) w1)
          = Some (r, kw, w')))"
proof (cases "is_destroyed g")
  case True
  then show ?thesis using assms by (auto simp: gobj_change_state_with_def)
next
  case False
  obtain previous where previous: "current_state g = Some previous"
    using assms False by (auto simp: gobj_change_state_with_def bind_eq_Some_conv)
  show ?thesis
  proof (cases "previous = nm")
    case True
    then show ?thesis using assms False previous by (auto simp: gobj_change_state_with_def)
  next
    case diff: False
    obtain gc where gc: "gclass_of w g = Some gc"
      using assms False previous diff by (auto simp: gobj_change_state_with_def bind_eq_Some_conv)
    show ?thesis
    proof (cases "find_state gc nm")
      case None
      then show ?thesis using assms False previous diff gc by (auto simp: gobj_change_state_with_def)
    next
      case (Some st)
      then show ?thesis
        using assms False previous diff gc
        by (cases "mt_state_changed \<in> set (gmt gc)")
          (auto simp: gobj_change_state_with_def Let_def upd_gobj_eq bind_eq_Some_conv)
    qed
  qed
qed

section \<open>Starting, stopping, playing\<close>

lemma set_gobj_same: "gobjs w x = Some g \<Longrightarrow> set_gobj x g w = w"
  by (simp add: set_gobj_def map_upd_triv)

lemma set_gobj_twice [simp]: "set_gobj x g (set_gobj x h w) = set_gobj x g w"
  by (simp add: set_gobj_def)

text \<open>Without methods of the gclass, stopping a started gobj leads back to the world before.\<close>

lemma start_stop_restores:
  assumes g: "gobjs w x = Some g" and gc: "gclass_of w g = Some gc"
    and plain: "mt_start \<notin> set (gmt gc)" "mt_stop \<notin> set (gmt gc)"
    and idle: "\<not> playing g" "\<not> is_destroying g"
    and start: "gobj_start_with u (Some x) w = Some (0, w1)"
  shows "gobjs w1 x = Some (g\<lparr>running := True\<rparr>) \<and> gobj_stop_with u pause (Some x) w1 = Some (0, w)"
proof -
  have dest: "\<not> has_flag (ob_obflag g) obflag_destroying"
    using idle(2) unfolding is_destroying_def has_flag_def
    by (auto simp: bit_eq_iff bit_simps)
  have w1: "w1 = set_gobj x (g\<lparr>running := True\<rparr>) w" "\<not> running g"
    using start g gc plain by (auto simp: gobj_start_with_def upd_gobj_eq split: if_splits)
  have same: "gclass_of v (g\<lparr>running := b\<rparr>) = gclass_of v g" for v b by (simp add: gclass_of_def)
  have undo: "g\<lparr>running := False\<rparr> = g" using w1(2) by simp
  show ?thesis
    using w1 gc plain idle dest
    by (auto simp: gobj_stop_with_def has_method_def upd_gobj_eq same undo set_gobj_same [OF g] g)
qed


section \<open>Subscribing and unsubscribing\<close>

text \<open>A request without the three options that are taken out of \<open>__config__\<close> when it is stored.\<close>

definition option_keys :: "string set" where
  "option_keys = {''__rename_event_name__'', ''__hard_subscription__'', ''__own_event__''}"

definition no_options :: "jn \<Rightarrow> bool" where
  "no_options kw \<longleftrightarrow> (\<forall>cps. kw_dict kw ''__config__'' = Some (JObject cps) \<longrightarrow>
     (\<forall>k \<in> option_keys. map_of cps k = None))"

lemma plain_keys [simp]:
  "plain ''__config__''" "plain ''__global__''" "plain ''__local__''" "plain ''__filter__''"
  "plain ''__rename_event_name__''" "plain ''__hard_subscription__''" "plain ''__own_event__''"
  by (simp_all add: plain_def delimiter_def segment_size_def)

lemma kw_dict_object: "kw_dict kw k = Some v \<Longrightarrow> json_is_object (Some v)"
  by (auto simp: kw_dict_def kw_get_dict_def has_flag_def split: option.splits if_splits)

lemma json_size_object: "json_size (Some v) > 0 \<Longrightarrow> json_is_object (Some v) \<Longrightarrow> \<exists>ps. v = JObject ps"
  by (cases v) auto

lemma create_no_options:
  assumes "no_options (Some kw)"
  shows "create_subscription reg p ev (Some kw) s = \<lparr>subs_publisher = p, subs_subscriber = s,
     subs_event = ev, subs_renamed = None, subs_flag = 0,
     subs_config = copy_if_any (kw_dict (Some kw) ''__config__''),
     subs_global = copy_if_any (kw_dict (Some kw) ''__global__''),
     subs_local = copy_if_any (kw_dict (Some kw) ''__local__''),
     subs_filter = copy_if_any (kw_any (Some kw) ''__filter__''),
     subs_service = (case fst (kw_get_str (Some kw) ''__service__'' (Some []) 0) of
                         None \<Rightarrow> [] | Some s \<Rightarrow> s)\<rparr>"
proof (cases "copy_if_any (kw_dict (Some kw) ''__config__'')")
  case None
  then show ?thesis by (simp add: create_subscription_def Let_def)
next
  case (Some clone)
  then have config: "kw_dict (Some kw) ''__config__'' = Some clone" "json_size (Some clone) > 0"
    by (auto simp: copy_if_any_def split: if_splits)
  then obtain cps where cps: "clone = JObject cps"
    using json_size_object kw_dict_object by blast
  have none: "map_of cps k = None" if "k \<in> option_keys" for k
    using assms config(1) cps that by (auto simp: no_options_def)
  have get: "kw_get_str (Some clone) ''__rename_event_name__'' None 0 = (None, Some clone)"
    "\<not> kw_has_key (Some clone) ''__hard_subscription__''" "\<not> kw_has_key (Some clone) ''__own_event__''"
    using none by (auto simp: cps kw_get_str_def kw_has_key_def option_keys_def has_flag_def)
  show ?thesis
    using Some by (simp add: create_subscription_def Let_def take_option_def get)
qed

lemma match_field_copy [simp]: "match_field stored (copy_if_any v) = match_field stored v"
  by (simp add: match_field_def copy_if_any_def)

lemma match_field_self:
  assumes "\<And>j. v = Some j \<Longrightarrow> json_ok j"
  shows "match_field (copy_if_any v) v"
  using assms by (cases v) (auto simp: match_field_def copy_if_any_def json_equal_refl)

lemma subs_kw_gets:
  assumes "\<And>j. subs_config s = Some j \<Longrightarrow> json_is_object (Some j)"
    "\<And>j. subs_global s = Some j \<Longrightarrow> json_is_object (Some j)"
    "\<And>j. subs_local s = Some j \<Longrightarrow> json_is_object (Some j)"
  shows "kw_dict (subs_kw s) ''__config__'' = subs_config s"
    "kw_dict (subs_kw s) ''__global__'' = subs_global s"
    "kw_dict (subs_kw s) ''__local__'' = subs_local s"
    "kw_any (subs_kw s) ''__filter__'' = subs_filter s"
  using assms
  by (auto simp: kw_dict_def kw_any_def kw_get_dict_def kw_get_dict_value_def subs_kw_def
      map_of_append has_flag_def map_add_def split: option.splits)


lemma warn_keys_fields [simp]:
  "gobjs (warn_keys kw w) = gobjs w" "dl_gclass (warn_keys kw w) = dl_gclass w"
  "dl_global_event_types (warn_keys kw w) = dl_global_event_types w"
proof -
  let ?f = "\<lambda>(k, v :: json) w. if k \<in> subscription_keys then w
      else log_msg ''key ignored in subscription'' w"
  have "gobjs (fold ?f ps w) = gobjs w \<and> dl_gclass (fold ?f ps w) = dl_gclass w \<and>
      dl_global_event_types (fold ?f ps w) = dl_global_event_types w" for ps
    by (induction ps arbitrary: w) (auto simp: log_msg_def)
  then show "gobjs (warn_keys kw w) = gobjs w" "dl_gclass (warn_keys kw w) = dl_gclass w"
    "dl_global_event_types (warn_keys kw w) = dl_global_event_types w"
    by (auto simp: warn_keys_def split: option.splits json.splits)
qed

lemma check_output_event_cong:
  assumes "gobjs w' p = Some g'" "gobjs w p = Some g" "ob_gclass g' = ob_gclass g"
    "dl_gclass w' = dl_gclass w" "dl_global_event_types w' = dl_global_event_types w"
  shows "check_output_event w' p ev = check_output_event w p ev"
  using assms
  by (simp add: check_output_event_def gobj_has_output_event_def gobj_event_type_def event_type_in_def
      gclass_of_def split: option.splits)

lemma kw_dict_ok: "json_ok (JObject ps) \<Longrightarrow> plain k \<Longrightarrow> kw_dict (Some (JObject ps)) k = Some j \<Longrightarrow> json_ok j"
  "json_ok (JObject ps) \<Longrightarrow> plain k \<Longrightarrow> kw_any (Some (JObject ps)) k = Some j \<Longrightarrow> json_ok j"
  by (auto simp: kw_dict_def kw_any_def kw_get_dict_def kw_get_dict_value_def has_flag_def
      dest: map_of_SomeD split: option.splits if_splits)

lemma created_matches:
  fixes ps reg p ev s
  defines "kw \<equiv> Some (JObject ps)"
  assumes ok: "json_ok (JObject ps)" and no: "no_options kw"
  defines "subs \<equiv> create_subscription reg p ev kw s"
  shows "match_subscription subs (Some p) ev kw (Some s)"
    and "match_subscription s' (Some p) ev (subs_kw subs) (Some s) = match_subscription s' (Some p) ev kw (Some s)"
    and "subs_flag subs = 0" "subs_event subs = ev" "subs_publisher subs = p" "subs_subscriber subs = s"
proof -
  have subs: "subs_publisher subs = p" "subs_subscriber subs = s" "subs_event subs = ev" "subs_flag subs = 0"
    "subs_config subs = copy_if_any (kw_dict kw ''__config__'')"
    "subs_global subs = copy_if_any (kw_dict kw ''__global__'')"
    "subs_local subs = copy_if_any (kw_dict kw ''__local__'')"
    "subs_filter subs = copy_if_any (kw_any kw ''__filter__'')"
    using create_no_options [of "JObject ps" reg p ev s] no by (simp_all add: subs_def kw_def)
  show "subs_flag subs = 0" "subs_event subs = ev" "subs_publisher subs = p" "subs_subscriber subs = s"
    using subs by simp_all
  have objects: "\<And>j. subs_config subs = Some j \<Longrightarrow> json_is_object (Some j)"
    "\<And>j. subs_global subs = Some j \<Longrightarrow> json_is_object (Some j)"
    "\<And>j. subs_local subs = Some j \<Longrightarrow> json_is_object (Some j)"
    using subs(5-7) by (auto simp: copy_if_any_def dest: kw_dict_object split: if_splits)
  show "match_subscription s' (Some p) ev (subs_kw subs) (Some s) = match_subscription s' (Some p) ev kw (Some s)"
    using subs_kw_gets [of subs] objects subs(5-8) by (simp add: match_subscription_def)
  have "match_field (copy_if_any (kw_dict kw k)) (kw_dict kw k)" if "plain k" for k
    using kw_dict_ok(1) [OF ok that] by (intro match_field_self) (auto simp: kw_def)
  moreover have "match_field (copy_if_any (kw_any kw ''__filter__'')) (kw_any kw ''__filter__'')"
    using kw_dict_ok(2) [OF ok plain_keys(4)] by (intro match_field_self) (auto simp: kw_def)
  ultimately show "match_subscription subs (Some p) ev kw (Some s)"
    using subs by (cases ev) (auto simp: match_subscription_def)
qed

lemma remove_first_last:
  "filter P xs = [] \<Longrightarrow> P x \<Longrightarrow> remove_first P (xs @ [x]) = xs"
  by (induction xs) (auto split: if_splits)

lemma remove_totals:
  "gobjs w (subs_publisher subs) \<noteq> None \<Longrightarrow> \<exists>w'. remove_from_publisher subs w = Some w'"
  "gobjs w (subs_subscriber subs) \<noteq> None \<Longrightarrow> \<exists>w'. remove_from_subscriber subs w = Some w'"
  by (auto simp: remove_from_publisher_def remove_from_subscriber_def upd_gobj_eq split: option.splits)

lemma remove_publisher_registry:
  "remove_from_publisher subs w = Some w' \<Longrightarrow> dl_gclass w' = dl_gclass w"
  by (auto elim!: remove_from_publisher_cases)

text \<open>Both copies of the subscription that was added last are taken out again.\<close>

lemma remove_added:
  assumes p: "gobjs w p = Some pg" and s: "gobjs w s = Some sg"
    and added: "gobjs w1 = (let g1 = (gobjs w)(p \<mapsto> pg\<lparr>dl_subscriptions := dl_subscriptions pg @ [subs]\<rparr>) in
      g1(s \<mapsto> (the (g1 s))\<lparr>dl_subscribings := dl_subscribings sg @ [subs]\<rparr>))"
    and ends: "subs_publisher subs = p" "subs_subscriber subs = s"
    and self: "same_subs subs subs"
    and new: "filter (same_subs subs) (dl_subscriptions pg) = []" "filter (same_subs subs) (dl_subscribings sg) = []"
  shows "\<exists>w2 w3. remove_from_publisher subs w1 = Some w2 \<and> remove_from_subscriber subs w2 = Some w3 \<and>
    gobjs w3 = gobjs w"
proof -
  have live: "gobjs w1 p \<noteq> None" using added by (simp add: Let_def)
  obtain w2 where w2: "remove_from_publisher subs w1 = Some w2"
    using remove_totals(1) [of w1 subs] live ends by auto
  obtain p1 where p1: "gobjs w1 p = Some p1" "gobjs w2 = (gobjs w1)(p \<mapsto>
      p1\<lparr>dl_subscriptions := remove_first (same_subs subs) (dl_subscriptions p1)\<rparr>)"
    using remove_from_publisher_gobjs [OF w2] ends by auto
  have "gobjs w2 s \<noteq> None" using p1(2) added by (simp add: Let_def)
  then obtain w3 where w3: "remove_from_subscriber subs w2 = Some w3"
    using remove_totals(2) [of w2 subs] ends by auto
  obtain s2 where s2: "gobjs w2 s = Some s2" "gobjs w3 = (gobjs w2)(s \<mapsto>
      s2\<lparr>dl_subscribings := remove_first (same_subs subs) (dl_subscribings s2)\<rparr>)"
    using remove_from_subscriber_gobjs [OF w3] ends by auto
  note last = remove_first_last [OF new(1) self] remove_first_last [OF new(2) self]
  have "gobjs w3 = gobjs w"
  proof (cases "p = s")
    case True
    then show ?thesis
      using p s p1 s2 added last by (auto simp: Let_def map_upd_triv)
  next
    case False
    then show ?thesis
      using p s p1 s2 added last by (auto simp: Let_def fun_eq_iff)
  qed
  then show ?thesis using w2 w3 by blast
qed

lemma filter_one: "filter P xs = [] \<Longrightarrow> P x \<Longrightarrow> filter P (xs @ [x]) = [x]"
  by simp

lemma subscribe_unsubscribe:
  fixes ps
  defines "kw \<equiv> Some (JObject ps)"
  assumes ok: "json_ok (JObject ps)" and no: "no_options kw"
    and p: "gobjs w p = Some pg" and s: "gobjs w s = Some sg" and inv: "subs_inv w"
    and gc: "gclass_of w pg = Some gc"
    and plain: "mt_subscription_added \<notin> set (gmt gc)" "mt_subscription_deleted \<notin> set (gmt gc)"
    and ev: "check_output_event w p ev = Some (True, ev)"
    and new: "find_subscriptions (dl_subscriptions pg) (Some p) ev kw (Some s) = []"
  shows "\<exists>subs w1 w2. gobj_subscribe_event u (Some p) ev kw (Some s) w = Some (Some subs, w1) \<and>
    gobj_find_subscriptions w1 p ev kw (Some s) = Some [subs] \<and>
    gobj_unsubscribe_event u (Some p) ev kw (Some s) w1 = Some (0, w2) \<and> gobjs w2 = gobjs w"
proof -
  define subs where "subs = create_subscription (dl_gclass w) p ev kw s"
  note created = created_matches [OF ok no [unfolded kw_def], where reg = "dl_gclass w" and p = p and ev = ev and s = s, folded kw_def, folded subs_def]
  let ?M = "\<lambda>x. match_subscription x (Some p) ev kw (Some s)"
  have M: "same_subs subs = ?M" by (rule ext) (simp add: same_subs_def created)
  have sg_new: "filter ?M (dl_subscribings sg) = []"
  proof -
    have "filter ?M (dl_subscribings sg) = filter ?M (of_pub p (dl_subscribings sg))"
      by (auto simp: of_pub_def match_subscription_def intro!: filter_cong)
    also have "\<dots> = filter ?M (to s (dl_subscriptions pg))" using inv p s unfolding subs_inv_def by metis
    also have "\<dots> = filter ?M (dl_subscriptions pg)"
      by (auto simp: to_def match_subscription_def intro!: filter_cong)
    finally show ?thesis using new by (simp add: find_subscriptions_def)
  qed
  define g1 where "g1 = (gobjs w)(p \<mapsto> pg\<lparr>dl_subscriptions := dl_subscriptions pg @ [subs]\<rparr>)"
  define g2 where "g2 = g1(s \<mapsto> (the (g1 s))\<lparr>dl_subscribings := dl_subscribings sg @ [subs]\<rparr>)"
  define w1 where "w1 = (warn_keys kw w)\<lparr>gobjs := g2\<rparr>"
  obtain pg2 where pg2: "g2 p = Some pg2" "dl_subscriptions pg2 = dl_subscriptions pg @ [subs]"
    "ob_gclass pg2 = ob_gclass pg"
    by (cases "p = s") (auto simp: g2_def g1_def)
  have gc2: "gclass_of w1 pg2 = Some gc" using gc pg2(3) by (simp add: gclass_of_def w1_def)
  have warned: "check_output_event (warn_keys kw v) p ev = Some (True, ev)"
    if "gobjs v p = Some g" "ob_gclass g = ob_gclass pg" "dl_gclass v = dl_gclass w"
      "dl_global_event_types v = dl_global_event_types w" for v g
    using check_output_event_cong [of "warn_keys kw v" p g w pg ev] that p ev by simp
  have sub: "gobj_subscribe_event u (Some p) ev kw (Some s) w = Some (Some subs, w1)"
  proof -
    have "g1 s \<noteq> None" using s by (simp add: g1_def)
    then obtain sg1 where sg1: "g1 s = Some sg1" "dl_subscribings sg1 = dl_subscribings sg"
      using s p by (cases "p = s") (auto simp: g1_def)
    have upd: "set_gobj s (sg1\<lparr>dl_subscribings := dl_subscribings sg @ [subs]\<rparr>)
        (set_gobj p (pg\<lparr>dl_subscriptions := dl_subscriptions pg @ [subs]\<rparr>) (warn_keys kw w)) = w1"
      by (simp add: set_gobj_def w1_def g2_def sg1(1)) (simp add: g1_def)
    have s1: "gobjs (set_gobj p (pg\<lparr>dl_subscriptions := dl_subscriptions pg @ [subs]\<rparr>) (warn_keys kw w)) s
        = Some sg1" using sg1(1) by (simp add: g1_def)
    have w1p: "gobjs w1 p = Some pg2" using pg2(1) by (simp add: w1_def)
    show ?thesis
      unfolding gobj_subscribe_event_def Let_def kw_def option.case prod.case
      unfolding kw_def [symmetric] warned [OF p refl refl refl]
      using p new plain(1) s1 sg1(2) gc2 w1p upd
      by (simp add: upd_gobj_eq subs_def [symmetric] del: set_gobj_fields(2))
  qed
  have found: "gobj_find_subscriptions w1 p ev kw (Some s) = Some [subs]"
    using pg2 new created(1) by (simp add: gobj_find_subscriptions_def w1_def find_subscriptions_def kw_def)
  have "\<exists>w2. gobj_unsubscribe_event u (Some p) ev kw (Some s) w1 = Some (0, w2) \<and> gobjs w2 = gobjs w"
  proof -
    let ?v = "warn_keys kw w1"
    have "\<exists>w2 w3. remove_from_publisher subs ?v = Some w2 \<and> remove_from_subscriber subs w2 = Some w3 \<and>
        gobjs w3 = gobjs w"
      by (rule remove_added [OF p s])
        (use created new sg_new M in \<open>auto simp: w1_def g2_def g1_def Let_def find_subscriptions_def\<close>)
    then obtain w2 w3 where out: "remove_from_publisher subs ?v = Some w2"
      "remove_from_subscriber subs w2 = Some w3" "gobjs w3 = gobjs w" by blast
    have vp: "gobjs ?v p = Some pg2" using pg2(1) by (simp add: w1_def)
    have vs: "\<exists>g. gobjs ?v s = Some g" by (simp add: w1_def g2_def)
    have gcv: "gclass_of ?v pg2 = Some gc" using gc2 by (simp add: gclass_of_def)
    have del: "delete_subscription u subs False False ?v = Some (0, w3)"
      using vp vs gcv out plain(2) created
      by (auto simp: delete_subscription_def has_flag_def)
    have fs: "find_subscriptions (dl_subscriptions pg2) (Some p) ev kw (Some s) = [subs]"
      using pg2 new created(1) by (simp add: find_subscriptions_def)
    have chk: "check_output_event ?v p ev = Some (True, ev)"
      by (rule warned [where g = pg2]) (use pg2 in \<open>simp_all add: w1_def\<close>)
    show ?thesis
      unfolding gobj_unsubscribe_event_def Let_def kw_def option.case prod.case
      unfolding kw_def [symmetric] chk
      using vp fs del out(3) by simp
  qed
  then show ?thesis using sub found by blast
qed


section \<open>Publishing\<close>

text \<open>
  Whom a published event reaches when the publisher has no filter methods: live subscribers whose
  subscription names the event (or all events) and whose filter the message matches; a system event
  only those that handle it.
\<close>

definition reaches :: "libc_real \<Rightarrow> world \<Rightarrow> gobj_event \<Rightarrow> jn \<Rightarrow> subscription \<Rightarrow> bool" where
  "reaches lc w ev kw s \<longleftrightarrow> (\<exists>g gc. gobjs w (subs_subscriber s) = Some g \<and> \<not> is_destroying g \<and>
     gclass_of w g = Some gc \<and> (subs_event s = None \<or> subs_event s = Some ev) \<and>
     (json_size (subs_filter s) > 0 \<longrightarrow> kw_match_simple lc kw (subs_filter s)) \<and>
     ((case event_type_in w gc ev True of None \<Rightarrow> False
        | Some e \<Rightarrow> has_flag (event_flag e) EVF_SYSTEM_EVENT) \<longrightarrow> gclass_event_type gc ev \<noteq> None))"

definition event_for :: "gobj_event \<Rightarrow> subscription \<Rightarrow> gobj_event" where
  "event_for ev s = (case subs_renamed s of None \<Rightarrow> ev | Some e \<Rightarrow> e)"

lemma publish_loop_reaches:
  assumes send: "\<And>s e kw w. send (Some s) (Some e) kw (Some p) w = Some (0, kw, record_send s e w)"
    and kept: "\<And>s e w. gobjs (record_send s e w) = gobjs w \<and> dl_gclass (record_send s e w) = dl_gclass w \<and>
      dl_global_event_types (record_send s e w) = dl_global_event_types w"
    and p: "gobjs w p = Some pg" "\<not> is_destroying pg" "gclass_of w pg = Some pc"
    and no_filter: "mt_publication_pre_filter \<notin> set (gmt pc)" "mt_publication_filter \<notin> set (gmt pc)"
    and live: "\<And>s. s \<in> set subs \<Longrightarrow> \<exists>g gc. gobjs w (subs_subscriber s) = Some g \<and> gclass_of w g = Some gc"
    and same_kw: "\<And>s. s \<in> set subs \<Longrightarrow> json_size (subs_local s) = 0 \<and> json_size (subs_global s) = 0"
  shows "publish_loop lc u send p ev subs kw ret n w = Some (kw, ret, n + length (filter (reaches lc w ev kw) subs),
     fold (\<lambda>s. record_send (subs_subscriber s) (event_for ev s)) (filter (reaches lc w ev kw) subs) w)"
  using p live same_kw
proof (induction subs arbitrary: n w)
  case Nil
  then show ?case by simp
next
  case (Cons s rest)
  obtain g gc where g: "gobjs w (subs_subscriber s) = Some g" "gclass_of w g = Some gc"
    using Cons.prems(4) [of s] by auto
  have ends: "gobj_event_type w (subs_subscriber s) (Some ev) True = Some (event_type_in w gc ev True)"
    "gobj_has_event w (subs_subscriber s) (Some ev) 0 = Some (gclass_event_type gc ev \<noteq> None)"
    using g has_event_iff by (auto simp: gobj_event_type_def)
  have kw: "apply_local_global s kw = kw" using Cons.prems(5) [of s] by (simp add: apply_local_global_def)
  have r: "reaches lc w ev kw s \<longleftrightarrow> \<not> is_destroying g \<and> (subs_event s = None \<or> subs_event s = Some ev) \<and>
     (json_size (subs_filter s) > 0 \<longrightarrow> kw_match_simple lc kw (subs_filter s)) \<and>
     ((case event_type_in w gc ev True of None \<Rightarrow> False
        | Some e \<Rightarrow> has_flag (event_flag e) EVF_SYSTEM_EVENT) \<longrightarrow> gclass_event_type gc ev \<noteq> None)"
    using g by (simp add: reaches_def)
  show ?case
  proof (cases "reaches lc w ev kw s")
    case False
    then have "publish_loop lc u send p ev (s # rest) kw ret n w = publish_loop lc u send p ev rest kw ret n w"
      using Cons.prems(1,3) no_filter g ends r by (auto simp: Let_def)
    then show ?thesis using False Cons.IH [of w n] Cons.prems by simp
  next
    case True
    let ?w = "record_send (subs_subscriber s) (event_for ev s) w"
    have gcls: "gclass_of ?w h = gclass_of w h" "gobjs ?w = gobjs w" for h
      using kept by (auto simp: gclass_of_def)
    have "event_type_in ?w gc e b = event_type_in w gc e b" for gc e b
      using kept by (simp add: event_type_in_def split: option.split)
    then have same: "reaches lc ?w ev kw = reaches lc w ev kw"
      by (intro ext) (simp add: reaches_def gcls)
    have "publish_loop lc u send p ev (s # rest) kw ret n w = publish_loop lc u send p ev rest kw ret (Suc n) ?w"
      using Cons.prems(1-3) no_filter g ends r True kw send gcls
      by (auto simp: Let_def event_for_def)
    then show ?thesis
      using True Cons.IH [of ?w "Suc n"] Cons.prems gcls same by simp
  qed
qed

end
