(* ===== verification/Demo_System.thy ===== *)
theory Demo_System
  imports GObj_Behaviour
begin

text \<open>
  A small system on which the theorems are applied: a gclass with two states, a parent gobj with one
  child that is a service, and a script for its actions. The child is subscribed to every event of
  its parent, and one message waits in the queue.
\<close>

definition EV_GO :: gobj_event where "EV_GO = ''EV_GO''"
definition EV_DONE :: gobj_event where "EV_DONE = ''EV_DONE''"
definition ST_IDLE :: gobj_state where "ST_IDLE = ''ST_IDLE''"
definition ST_BUSY :: gobj_state where "ST_BUSY = ''ST_BUSY''"

definition demo_gclass :: gclass where
  "demo_gclass = \<lparr>gclass_name = ''C_DEMO'',
     dl_states = [\<lparr>state_name = ST_IDLE, dl_actions =
         [\<lparr>ea_event = EV_GO, ea_action = Some 0, ea_next_state = Some ST_BUSY\<rparr>]\<rparr>,
       \<lparr>state_name = ST_BUSY, dl_actions =
         [\<lparr>ea_event = EV_GO, ea_action = Some 1, ea_next_state = None\<rparr>]\<rparr>],
     dl_events = [\<lparr>event_name = EV_GO, event_flag = 0\<rparr>,
       \<lparr>event_name = EV_DONE, event_flag = EVF_OUTPUT_EVENT\<rparr>],
     gmt = [], attrs_table = [], gc_flag = 0, instances = 2, fsm_checked = True\<rparr>"

definition demo_subs :: subscription where
  "demo_subs = \<lparr>subs_publisher = 1, subs_subscriber = 2, subs_event = None, subs_renamed = None,
     subs_flag = 0, subs_config = None, subs_global = None, subs_local = None, subs_filter = None,
     subs_service = []\<rparr>"

definition demo_parent :: gobj where
  "demo_parent = \<lparr>ob_gclass = ''C_DEMO'', ob_parent = None, dl_children = [2],
     current_state = Some ST_IDLE, last_state = None, ob_flag = gobj_flag_yuno,
     ob_obflag = obflag_created, dl_subscriptions = [demo_subs], dl_subscribings = [],
     gobj_name = ''one'', jn_attrs = JObject [], running = False, playing = False,
     disabled = False, bottom_gobj = Some 2, ob_refs = 0\<rparr>"

definition demo_child :: gobj where
  "demo_child = \<lparr>ob_gclass = ''C_DEMO'', ob_parent = Some 1, dl_children = [],
     current_state = Some ST_IDLE, last_state = None, ob_flag = gobj_flag_service,
     ob_obflag = obflag_created, dl_subscriptions = [], dl_subscribings = [demo_subs],
     gobj_name = ''two'', jn_attrs = JObject [], running = True, playing = False,
     disabled = False, bottom_gobj = None, ob_refs = 0\<rparr>"

definition demo_message :: posted_event where
  "demo_message = \<lparr>pe_id = 1, pe_dst = 2, pe_src = Some 1, pe_event = EV_GO, pe_kw = None\<rparr>"

definition demo_world :: world where
  "demo_world = \<lparr>dl_gclass = [demo_gclass], dl_global_event_types = [],
     gobjs = [1 \<mapsto> demo_parent, 2 \<mapsto> demo_child], yuno_gobj = Some 1,
     default_service_gobj = None, jn_services = [(''two'', 2)],
     dl_posted_events = [demo_message], posted_last_id = 1, shutdowning = False, w_log = [],
     posted_total = 1\<rparr>"

text \<open>Action 0 posts the event to the child again and reports; action 1 says it is done.\<close>

definition demo_prog :: "ucall \<Rightarrow> instr list" where
  "demo_prog c = (case c of
     U_action act d ev src \<Rightarrow>
       (if act = 0 then [I_post (Handle 2) EV_GO (JObject []), I_return 0] else [I_return 0])
   | _ \<Rightarrow> [I_return 0])"

definition demo_libc :: libc_real where
  "demo_libc = \<lparr>lc_atof = (\<lambda>_. 0), lc_real_of_int = of_int, lc_int_of_real = (\<lambda>r. floor r),
     lc_print_real = (\<lambda>_. [])\<rparr>"

definition demo_code :: user_code where
  "demo_code = script_code demo_prog"

lemmas demo_defs = demo_world_def demo_parent_def demo_child_def demo_gclass_def demo_subs_def
  demo_message_def EV_GO_def EV_DONE_def ST_IDLE_def ST_BUSY_def

lemma demo_lookup [simp]:
  "gobjs demo_world x = (if x = 2 then Some demo_child else if x = 1 then Some demo_parent else None)"
  "dl_gclass demo_world = [demo_gclass]" "dl_posted_events demo_world = [demo_message]"
  "jn_services demo_world = [(''two'', 2)]" "posted_total demo_world = 1"
  "posted_last_id demo_world = 1"
  by (auto simp: demo_world_def)

lemma demo_flags [simp]:
  "\<not> is_destroying demo_parent" "\<not> is_destroying demo_child"
  "\<not> has_flag (ob_obflag demo_child) obflag_destroying"
  "\<not> has_flag (ob_obflag demo_parent) obflag_destroying"
  by (simp_all add: is_destroying_def has_flag_def demo_parent_def demo_child_def
      obflag_created_def obflag_destroyed_def obflag_destroying_def)

lemma demo_gclass_of [simp]:
  "gclass_of w demo_parent = gclass_find_by_name (dl_gclass w) ''C_DEMO''"
  "gclass_of w demo_child = gclass_find_by_name (dl_gclass w) ''C_DEMO''"
  "gclass_find_by_name [demo_gclass] ''C_DEMO'' = Some demo_gclass"
  by (simp_all add: gclass_of_def gclass_find_by_name_def demo_parent_def demo_child_def demo_gclass_def)

lemma demo_gclass_ok: "gclass_ok demo_gclass"
  unfolding gclass_ok_def fsm_ok_def tables_ok_def
  by (simp add: action_ok_def input_handled_def find_state_def
      find_event_action_def gclass_event_type_def demo_gclass_def EV_GO_def EV_DONE_def ST_IDLE_def
      ST_BUSY_def has_flag_def EVF_OUTPUT_EVENT_def)

lemma demo_fsm: "fsm_inv demo_world"
proof -
  have "state_ok [demo_gclass] demo_parent" "state_ok [demo_gclass] demo_child"
    by (auto simp: state_ok_def demo_defs gclass_find_by_name_def find_state_def)
  then show ?thesis by (simp add: fsm_inv_def registry_ok_def demo_gclass_ok)
qed

lemma demo_queue: "queue_inv demo_world"
  by (auto simp: queue_inv_def MAX_POSTED_EVENTS_def demo_message_def)

lemma demo_ids: "ids_inv demo_world"
  by (auto simp: ids_inv_def demo_message_def)

lemma demo_links: "links_inv demo_world"
  by (auto simp: links_inv_def tree_inv_def services_inv_def demo_parent_def demo_child_def
      service_key_def snprintf_def GOBJ_NAME_MAX_def to_lower_def lower_char_def has_flag_def
      gobj_flag_service_def gobj_flag_top_service_def)

lemma demo_subs_inv: "subs_inv demo_world"
  by (auto simp: subs_inv_def to_def of_pub_def demo_parent_def demo_child_def demo_subs_def)

lemma demo_code_keeps:
  "code_keeps fsm_inv (\<lambda>_ _. True) demo_code" "code_keeps queue_inv evolves demo_code"
  "code_keeps ids_inv only_newer demo_code" "code_keeps links_inv evolves demo_code"
  "code_keeps subs_inv (\<lambda>_ _. True) demo_code" "code_keeps (\<lambda>_. True) evolves demo_code"
  unfolding demo_code_def
  by (rule fsm.script_code_keeps queue.script_code_keeps ids.script_code_keeps
      links.script_code_keeps subs.script_code_keeps ageing.script_code_keeps)+

text \<open>The two loops of the kernel are executed by their equations.\<close>

declare destroy_children_loop.simps [code] deliver_loop.simps [code]

section \<open>A first step\<close>

definition demo_posted :: world where
  "demo_posted = queue_add 2 None EV_GO None demo_world"

lemma demo_event: "gclass_event_type demo_gclass EV_GO \<noteq> None" "EV_GO \<noteq> []"
  by (simp_all add: gclass_event_type_def demo_gclass_def EV_GO_def)

lemma demo_post: "gobj_post_event (Some 2) (Some EV_GO) None None demo_world = Some (0, demo_posted)"
proof -
  have "gobj_has_event demo_world 2 (Some EV_GO) 0 = Some True"
    using has_event_iff [of demo_world 2 demo_child demo_gclass EV_GO] demo_event by simp
  then show ?thesis
    using demo_event(2) by (simp add: gobj_post_event_def MAX_POSTED_EVENTS_def demo_posted_def)
qed

lemma demo_reaches: "reachable (kernel lc code (Suc n)) demo_world demo_posted"
proof (rule reachable.step [OF reachable.start])
  show "system (kernel lc code (Suc n)) demo_world demo_posted"
    by (rule system.post [of _ "Some 2" "Some EV_GO" None None _ 0])
      (simp add: kernel_step_def Let_def demo_post)
qed

lemma demo_posted_fields [simp]:
  "gobjs demo_posted = gobjs demo_world" "dl_gclass demo_posted = [demo_gclass]"
  "jn_services demo_posted = [(''two'', 2)]" "length (dl_posted_events demo_posted) = 2"
  "demo_posted \<noteq> demo_world"
  by (auto simp: demo_posted_def queue_add_def demo_world_def)

end
