(* ===== verification/Base64.thy ===== *)
theory Base64
  imports Yuneta_Prelude
begin

text \<open>
  The base64 codec of \<^verbatim>\<open>kernel/c/gobj-c/src/gbuffer.c\<close> (\<open>b64_encode\<close>, \<open>b64_decode\<close> and the
  two output-size functions). Binary data are lists of bytes, text is a \<open>string\<close> without its
  terminating NUL; the value \<open>(size_t)-1\<close> is \<open>None\<close>. The main result is that decoding what
  was encoded gives back the bytes.
\<close>

unbundle bit_operations_syntax

section \<open>The alphabet\<close>

definition Base64_table :: string where
  "Base64_table = ''ABCDEFGHIJKLMNOPQRSTUVWXYZabcdefghijklmnopqrstuvwxyz0123456789+/''"

definition Pad64 :: char where
  "Pad64 = CHR ''=''"

text \<open>\<open>strchr\<close> as an index: the position of the first occurrence.\<close>

fun index_of :: "'a list \<Rightarrow> 'a \<Rightarrow> nat option" where
  "index_of [] c = None"
| "index_of (x # xs) c = (if x = c then Some 0 else map_option Suc (index_of xs c))"

definition b64_char :: "byte \<Rightarrow> char" where
  "b64_char w = Base64_table ! unat w"

section \<open>Encoding\<close>

definition out0 :: "byte \<Rightarrow> byte" where
  "out0 a = drop_bit 2 a"

definition out1 :: "byte \<Rightarrow> byte \<Rightarrow> byte" where
  "out1 a b = push_bit 4 (a AND 3) + drop_bit 4 b"

definition out2 :: "byte \<Rightarrow> byte \<Rightarrow> byte" where
  "out2 b c = push_bit 2 (b AND 15) + drop_bit 6 c"

definition out3 :: "byte \<Rightarrow> byte" where
  "out3 c = c AND 63"

text \<open>
  \<open>b64_encode\<close>: the loop over groups of three bytes and the padding of the rest. \<open>target\<close> is
  what has been written so far (its length is \<open>datalength\<close>).
\<close>

fun b64_encode_loop :: "byte list \<Rightarrow> string \<Rightarrow> size_t \<Rightarrow> string option" where
  "b64_encode_loop (a # b # c # src) target targsize =
     (if \<not> (out0 a < 64) \<or> \<not> (out1 a b < 64) \<or> \<not> (out2 b c < 64) \<or> \<not> (out3 c < 64) then None
      else if length target + 4 > targsize then None
      else b64_encode_loop src
        (target @ [b64_char (out0 a), b64_char (out1 a b), b64_char (out2 b c), b64_char (out3 c)])
        targsize)"
| "b64_encode_loop [] target targsize = Some target"
| "b64_encode_loop [a] target targsize =
     (if \<not> (out0 a < 64) \<or> \<not> (out1 a 0 < 64) \<or> \<not> (out2 0 0 < 64) then None
      else if length target + 4 > targsize then None
      else Some (target @ [b64_char (out0 a), b64_char (out1 a 0), Pad64, Pad64]))"
| "b64_encode_loop [a, b] target targsize =
     (if \<not> (out0 a < 64) \<or> \<not> (out1 a b < 64) \<or> \<not> (out2 b 0 < 64) then None
      else if length target + 4 > targsize then None
      else Some (target @ [b64_char (out0 a), b64_char (out1 a b), b64_char (out2 b 0), Pad64]))"

definition b64_encode :: "byte list \<Rightarrow> size_t \<Rightarrow> string option" where
  "b64_encode src targsize = (case b64_encode_loop src [] targsize of
     None \<Rightarrow> None
   | Some target \<Rightarrow> if length target \<ge> targsize then None else Some target)"

definition b64_output_encode_len :: "size_t \<Rightarrow> size_t" where
  "b64_output_encode_len input_length =
     sz_add ((4 * (sz_add input_length 4 div 3)) mod size_t_mod) 1"

definition b64_output_decode_len :: "size_t \<Rightarrow> size_t" where
  "b64_output_decode_len input_length =
     sz_add (((input_length div 4 + 1) * 3) mod size_t_mod) 1"

section \<open>Decoding\<close>

text \<open>
  One alphabet character of value \<open>v\<close> in state \<open>state\<close>: the \<open>switch\<close> of \<open>b64_decode\<close>. The
  target may be NULL, then only the length is computed. \<open>None\<close> is the return of \<open>-1\<close>.
\<close>

definition b64_store ::
  "nat \<Rightarrow> nat \<Rightarrow> nat \<Rightarrow> byte list option \<Rightarrow> size_t \<Rightarrow> (nat \<times> nat \<times> byte list option) option" where
  "b64_store state v tarindex target targsize =
     (let w = word_of_nat v :: byte in
      if state = 0 then (case target of
          None \<Rightarrow> Some (1, tarindex, None)
        | Some t \<Rightarrow> if tarindex \<ge> targsize then None
            else Some (1, tarindex, Some (t[tarindex := push_bit 2 w])))
      else if state = 1 then (case target of
          None \<Rightarrow> Some (2, tarindex + 1, None)
        | Some t \<Rightarrow> if tarindex + 1 \<ge> targsize then None
            else Some (2, tarindex + 1, Some (t[tarindex := t ! tarindex OR drop_bit 4 w,
                   tarindex + 1 := push_bit 4 (w AND 15)])))
      else if state = 2 then (case target of
          None \<Rightarrow> Some (3, tarindex + 1, None)
        | Some t \<Rightarrow> if tarindex + 1 \<ge> targsize then None
            else Some (3, tarindex + 1, Some (t[tarindex := t ! tarindex OR drop_bit 2 w,
                   tarindex + 1 := push_bit 6 (w AND 3)])))
      else if state = 3 then (case target of
          None \<Rightarrow> Some (0, tarindex + 1, None)
        | Some t \<Rightarrow> if tarindex \<ge> targsize then None
            else Some (0, tarindex + 1, Some (t[tarindex := t ! tarindex OR w])))
      else None)"

text \<open>
  The loop reads up to the terminating NUL (fourth component \<open>None\<close>) or up to the first pad
  character (the text behind it is then the fourth component).
\<close>

fun b64_decode_loop ::
  "string \<Rightarrow> nat \<Rightarrow> nat \<Rightarrow> byte list option \<Rightarrow> size_t \<Rightarrow>
   (nat \<times> nat \<times> byte list option \<times> string option) option" where
  "b64_decode_loop [] state tarindex target targsize = Some (state, tarindex, target, None)"
| "b64_decode_loop (ch # src) state tarindex target targsize =
     (if isspace ch then b64_decode_loop src state tarindex target targsize
      else if ch = Pad64 then Some (state, tarindex, target, Some src)
      else (case index_of Base64_table ch of
        None \<Rightarrow> None
      | Some v \<Rightarrow> (case b64_store state v tarindex target targsize of
          None \<Rightarrow> None
        | Some (state', tarindex', target') \<Rightarrow>
            b64_decode_loop src state' tarindex' target' targsize)))"

text \<open>Behind one pad in state 3, or behind two in state 2, only blanks may follow.\<close>

definition b64_trailer_ok :: "string \<Rightarrow> nat \<Rightarrow> byte list option \<Rightarrow> bool" where
  "b64_trailer_ok src tarindex target \<longleftrightarrow>
     list_all isspace src \<and> (case target of None \<Rightarrow> True | Some t \<Rightarrow> t ! tarindex = 0)"

definition b64_decode ::
  "string \<Rightarrow> byte list option \<Rightarrow> size_t \<Rightarrow> (nat \<times> byte list option) option" where
  "b64_decode src target targsize = (case b64_decode_loop src 0 0 target targsize of
     None \<Rightarrow> None
   | Some (state, tarindex, t, None) \<Rightarrow> if state \<noteq> 0 then None else Some (tarindex, t)
   | Some (state, tarindex, t, Some rest) \<Rightarrow>
       if state = 0 \<or> state = 1 then None
       else if state = 2 then (case dropWhile isspace rest of
           [] \<Rightarrow> None
         | ch # rest' \<Rightarrow>
             if ch \<noteq> Pad64 then None
             else if b64_trailer_ok rest' tarindex t then Some (tarindex, t) else None)
       else if b64_trailer_ok rest tarindex t then Some (tarindex, t) else None)"

section \<open>The alphabet is unambiguous\<close>

lemma index_of_nth: "distinct xs \<Longrightarrow> i < length xs \<Longrightarrow> index_of xs (xs ! i) = Some i"
proof (induction xs arbitrary: i)
  case Nil
  then show ?case by simp
next
  case (Cons x xs)
  then show ?case by (cases i) auto
qed

lemma length_table [simp]: "length Base64_table = 64"
  by (simp add: Base64_table_def)

lemma distinct_table: "distinct Base64_table"
  by (simp add: Base64_table_def)

lemma table_chars: "list_all (\<lambda>c. \<not> isspace c \<and> c \<noteq> Pad64) Base64_table"
  by (simp add: Base64_table_def isspace_def Pad64_def Let_def)

lemma b64_char_decodes:
  assumes "w < 64"
  shows "index_of Base64_table (b64_char w) = Some (unat w)"
    and "\<not> isspace (b64_char w)" and "b64_char w \<noteq> Pad64"
proof -
  from assms have lt: "unat w < length Base64_table"
    by (simp add: word_less_nat_alt)
  then show "index_of Base64_table (b64_char w) = Some (unat w)"
    unfolding b64_char_def by (intro index_of_nth distinct_table)
  from lt have "b64_char w \<in> set Base64_table" by (simp add: b64_char_def)
  then show "\<not> isspace (b64_char w)" and "b64_char w \<noteq> Pad64"
    using table_chars by (auto simp: list_all_iff)
qed

section \<open>The bits\<close>

text \<open>Two bytes are equal when their eight bits are; the bits are then decided one by one.\<close>

lemma byte_eqI:
  assumes "\<And>n. n \<in> {0, 1, 2, 3, 4, 5, 6, 7} \<Longrightarrow> bit (a :: byte) n = bit b n"
  shows "a = b"
proof (rule bit_word_eqI)
  fix n assume "n < LENGTH(8)"
  then have "n \<in> {0, 1, 2, 3, 4, 5, 6, 7}" by auto
  then show "bit a n = bit b n" by (rule assms)
qed

lemma byte_high_bit: "8 \<le> n \<Longrightarrow> bit (w :: byte) n = False"
  using bit_imp_le_length [of w n] by auto

lemmas byte_bits = bit_simps byte_high_bit numeral_2_eq_2 [symmetric] numeral_3_eq_3 [symmetric]

lemma below_64:
  assumes "w AND 63 = (w :: byte)"
  shows "w < 64"
proof -
  have "uint (w AND 63) \<le> uint (63 :: byte)"
    by (simp add: unsigned_and_eq)
  with assms have "uint w < 64" by simp
  then show ?thesis by (simp add: word_less_def)
qed

lemma out1_or: "out1 a b = push_bit 4 (a AND 3) OR drop_bit 4 b"
  unfolding out1_def
proof (rule disjunctive_add)
  fix n
  show "\<not> bit (push_bit 4 (a AND 3)) n \<or> \<not> bit (drop_bit 4 b) n"
    by (cases "n \<in> {0, 1, 2, 3, 4, 5, 6, 7}") (auto simp: byte_bits)
qed

lemma out2_or: "out2 b c = push_bit 2 (b AND 15) OR drop_bit 6 c"
  unfolding out2_def
proof (rule disjunctive_add)
  fix n
  show "\<not> bit (push_bit 2 (b AND 15)) n \<or> \<not> bit (drop_bit 6 c) n"
    by (cases "n \<in> {0, 1, 2, 3, 4, 5, 6, 7}") (auto simp: byte_bits)
qed

lemmas out_bits = out0_def out1_or out2_or out3_def

lemma out_bounds [simp]: "out0 a < 64" "out1 a b < 64" "out2 b c < 64" "out3 c < 64"
  by (rule below_64, rule byte_eqI, auto simp: out_bits byte_bits)+

lemma recombine [simp]:
  "push_bit 2 (out0 a) OR drop_bit 4 (out1 a b) = a"
  "push_bit 4 (out1 a b) AND 240 OR drop_bit 2 (out2 b c) = b"
  "push_bit 6 (out2 b c) AND 192 OR out3 c = c"
  by (rule byte_eqI, (auto simp: out_bits byte_bits) [1])+

lemma leftover [simp]: "push_bit 4 (out1 a 0) AND 240 = 0" "push_bit 6 (out2 b 0) AND 192 = 0"
  by (rule byte_eqI, (auto simp: out_bits byte_bits) [1])+

section \<open>Round trip\<close>

lemma decode_char [simp]:
  assumes "w < 64"
  shows "b64_decode_loop (b64_char w # src) state tarindex target targsize =
    (case b64_store state (unat w) tarindex target targsize of
       None \<Rightarrow> None
     | Some (state', tarindex', target') \<Rightarrow> b64_decode_loop src state' tarindex' target' targsize)"
  using assms by (simp add: b64_char_decodes)

lemma decode_pad [simp]:
  "b64_decode_loop (Pad64 # src) state ti t n = Some (state, ti, t, Some src)"
  by (simp add: isspace_def Pad64_def)

declare b64_decode_loop.simps(2) [simp del]

text \<open>Four characters of a full group put three bytes at the write position.\<close>

lemma decode_group:
  assumes "ti + 2 < n" "n \<le> length t"
  shows "b64_decode_loop
      (b64_char (out0 a) # b64_char (out1 a b) # b64_char (out2 b c) # b64_char (out3 c) # src)
      0 ti (Some t) n =
    b64_decode_loop src 0 (ti + 3) (Some (t[ti := a, ti + 1 := b, ti + 2 := c])) n"
  using assms by (simp add: b64_store_def Let_def list_update_swap numeral_3_eq_3)

lemma decode_tail1:
  assumes "ti + 2 < n" "n \<le> length t"
  shows "b64_decode_loop [b64_char (out0 a), b64_char (out1 a 0), Pad64, Pad64] 0 ti (Some t) n =
    Some (2, ti + 1, Some (t[ti := a, ti + 1 := 0]), Some [Pad64])"
  using assms by (simp add: b64_store_def Let_def list_update_swap)

lemma decode_tail2:
  assumes "ti + 2 < n" "n \<le> length t"
  shows "b64_decode_loop [b64_char (out0 a), b64_char (out1 a b), b64_char (out2 b 0), Pad64]
      0 ti (Some t) n =
    Some (3, ti + 2, Some (t[ti := a, ti + 1 := b, ti + 2 := 0]), Some [])"
  using assms by (simp add: b64_store_def Let_def list_update_swap)


text \<open>
  The encoder, whose sanity checks never fire, writes exactly four characters per started group.
\<close>

definition b64_len :: "nat \<Rightarrow> nat" where
  "b64_len n = 4 * ((n + 2) div 3)"

lemma b64_len_simps [simp]:
  "b64_len 0 = 0" "b64_len (Suc 0) = 4" "b64_len (Suc (Suc 0)) = 4"
  "b64_len (Suc (Suc (Suc n))) = 4 + b64_len n"
proof -
  have "Suc (Suc (Suc n)) + 2 = 3 + (n + 2)" by simp
  then show "b64_len (Suc (Suc (Suc n))) = 4 + b64_len n"
    unfolding b64_len_def by (simp only: div_add_self1) simp
qed (simp_all add: b64_len_def)

lemma b64_encode_loop_total:
  "length target + b64_len (length bs) \<le> m \<Longrightarrow>
   \<exists>cs. b64_encode_loop bs target m = Some (target @ cs) \<and> length cs = b64_len (length bs)"
proof (induction bs target m rule: b64_encode_loop.induct)
  case (1 a b c src target m)
  from 1(2) show ?case
    using 1(1) by (auto simp: add.assoc)
qed simp_all

text \<open>Decoding an encoded text writes the bytes at the write position and stops in a good state.\<close>

definition decode_end :: "(nat \<times> nat \<times> byte list option \<times> string option) option \<Rightarrow>
    (nat \<times> byte list option) option" where
  "decode_end r = (case r of
     None \<Rightarrow> None
   | Some (state, tarindex, t, None) \<Rightarrow> if state \<noteq> 0 then None else Some (tarindex, t)
   | Some (state, tarindex, t, Some rest) \<Rightarrow>
       if state = 0 \<or> state = 1 then None
       else if state = 2 then (case dropWhile isspace rest of
           [] \<Rightarrow> None
         | ch # rest' \<Rightarrow>
             if ch \<noteq> Pad64 then None
             else if b64_trailer_ok rest' tarindex t then Some (tarindex, t) else None)
       else if b64_trailer_ok rest tarindex t then Some (tarindex, t) else None)"

lemma b64_decode_end: "b64_decode src t n = decode_end (b64_decode_loop src 0 0 t n)"
  by (simp add: b64_decode_def decode_end_def)

lemma pad_not_space [simp]: "\<not> isspace Pad64"
  by (simp add: isspace_def Pad64_def)

lemma b64_encode_loop_prefix:
  "b64_encode_loop bs target m = Some r \<Longrightarrow> \<exists>cs. r = target @ cs"
  by (induction bs target m arbitrary: r rule: b64_encode_loop.induct)
    (auto split: if_splits)

lemma take_update3:
  "ti + 2 < length t \<Longrightarrow>
   take (ti + 3) (t[ti := a, ti + 1 := b, ti + 2 := c]) = take ti t @ [a, b, c]"
  by (simp add: take_Suc_conv_app_nth numeral_3_eq_3)

lemma decode_encoded:
  "b64_encode_loop bs target m = Some (target @ cs) \<Longrightarrow>
   ti + length bs + 2 < n \<Longrightarrow> n \<le> length t \<Longrightarrow>
   \<exists>t'. decode_end (b64_decode_loop cs 0 ti (Some t) n) = Some (ti + length bs, Some t') \<and>
     length t' = length t \<and> take (ti + length bs) t' = take ti t @ bs"
proof (induction bs target m arbitrary: cs ti t rule: b64_encode_loop.induct)
  case (1 a b c src target m)
  let ?q = "[b64_char (out0 a), b64_char (out1 a b), b64_char (out2 b c), b64_char (out3 c)]"
  from 1(2) have fit: "length target + 4 \<le> m"
    by (simp split: if_splits)
  with 1(2) have run: "b64_encode_loop src (target @ ?q) m = Some (target @ cs)"
    by simp
  with b64_encode_loop_prefix obtain ds where ds: "target @ cs = (target @ ?q) @ ds"
    by blast
  then have cs: "cs = ?q @ ds" by simp
  let ?t = "t[ti := a, ti + 1 := b, ti + 2 := c]"
  have "take (ti + 3) ?t = take ti t @ [a, b, c]"
    using 1(3,4) take_update3 [of ti t a b c] by simp
  moreover have "\<exists>t'. decode_end (b64_decode_loop ds 0 (ti + 3) (Some ?t) n) =
      Some (ti + 3 + length src, Some t') \<and> length t' = length t \<and>
      take (ti + 3 + length src) t' = take (ti + 3) ?t @ src"
    using 1(1)[of ds "ti + 3" ?t] run ds fit 1(3,4) by simp
  moreover have "b64_decode_loop cs 0 ti (Some t) n =
      b64_decode_loop ds 0 (ti + 3) (Some ?t) n"
    using decode_group[of ti n t a b c ds] 1(3,4) by (simp add: cs)
  ultimately show ?case by (simp add: eval_nat_numeral)
next
  case (2 target m)
  then show ?case by (simp add: decode_end_def)
next
  case (3 a target m)
  then have cs: "cs = [b64_char (out0 a), b64_char (out1 a 0), Pad64, Pad64]"
    by (simp split: if_splits)
  show ?case
    using 3 decode_tail1[of ti n t a]
    by (simp add: cs decode_end_def b64_trailer_ok_def take_Suc_conv_app_nth)
next
  case (4 a b target m)
  then have cs: "cs = [b64_char (out0 a), b64_char (out1 a b), b64_char (out2 b 0), Pad64]"
    by (simp split: if_splits)
  show ?case
    using 4 decode_tail2[of ti n t a b]
    by (simp add: cs decode_end_def b64_trailer_ok_def take_Suc_conv_app_nth)
qed

text \<open>
  The size that \<open>gbuffer_binary_to_base64\<close> computes is enough for the text and its NUL, so the
  encoder never fails; the bound on the input only keeps the \<open>size_t\<close> product from wrapping.
\<close>

lemma encode_len_enough:
  assumes "n \<le> 2 ^ 62"
  shows "b64_len n < b64_output_encode_len n"
proof -
  have "(n + 2) div 3 \<le> (n + 4) div 3" by (simp add: div_le_mono)
  moreover have "(n + 4) div 3 * 3 \<le> n + 4" by simp
  ultimately show ?thesis
    using assms by (simp add: b64_output_encode_len_def b64_len_def sz_add_def size_t_mod_def)
qed

lemma b64_encode_total:
  assumes "length bs \<le> 2 ^ 62"
  obtains cs where "b64_encode bs (b64_output_encode_len (length bs)) = Some cs"
    "length cs = b64_len (length bs)"
    "b64_encode_loop bs [] (b64_output_encode_len (length bs)) = Some cs"
proof -
  from b64_encode_loop_total [of "[]" bs "b64_output_encode_len (length bs)"]
    encode_len_enough [OF assms]
  obtain cs where cs: "b64_encode_loop bs [] (b64_output_encode_len (length bs)) = Some cs"
    "length cs = b64_len (length bs)" by auto
  with encode_len_enough [OF assms] have
    "b64_encode bs (b64_output_encode_len (length bs)) = Some cs"
    by (simp add: b64_encode_def)
  with cs show ?thesis by (intro that)
qed

lemma decode_len_enough:
  assumes "n \<le> 2 ^ 61"
  shows "n + 2 < b64_output_decode_len (b64_len n)"
proof -
  have "b64_len n div 4 = (n + 2) div 3" by (simp add: b64_len_def)
  moreover have "n \<le> (n + 2) div 3 * 3" by linarith
  ultimately show ?thesis
    using assms by (simp add: b64_output_decode_len_def sz_add_def size_t_mod_def)
qed

lemma b64_round_trip_loop:
  assumes "b64_encode_loop bs [] m = Some cs" "length bs + 2 < n" "n \<le> length t"
  shows "\<exists>t'. b64_decode cs (Some t) n = Some (length bs, Some t') \<and> length t' = length t \<and>
    take (length bs) t' = bs"
  using decode_encoded [of bs "[]" m cs 0 n t] assms by (simp add: b64_decode_end)

section \<open>Memory safety of the decoder\<close>

text \<open>
  Every write of the decoder is below \<open>targsize\<close>: in state 0 nothing is pending, in every other
  state the partly filled byte is inside the block. The trailer check then reads that byte.
\<close>

definition decode_inv :: "nat \<Rightarrow> nat \<Rightarrow> byte list option \<Rightarrow> size_t \<Rightarrow> bool" where
  "decode_inv state tarindex target n \<longleftrightarrow> state < 4 \<and> (case target of None \<Rightarrow> True
     | Some t \<Rightarrow> n \<le> length t \<and> tarindex \<le> n \<and> (state \<noteq> 0 \<longrightarrow> tarindex < n))"

lemma b64_store_inv:
  assumes "decode_inv state ti t n" "b64_store state v ti t n = Some (s', ti', t')"
  shows "decode_inv s' ti' t' n"
  using assms by (auto simp: decode_inv_def b64_store_def Let_def split: if_splits option.splits)

lemma b64_decode_loop_inv:
  "decode_inv state ti t n \<Longrightarrow> b64_decode_loop src state ti t n = Some (s', ti', t', r) \<Longrightarrow>
   decode_inv s' ti' t' n"
proof (induction src state ti t n rule: b64_decode_loop.induct)
  case (1 state ti t n)
  then show ?case by simp
next
  case (2 ch src state ti t n)
  then show ?case
    by (auto simp: b64_decode_loop.simps split: if_splits option.splits
      dest: b64_store_inv)
qed

end
