(* ===== verification/GBuffer.thy ===== *)
theory GBuffer
  imports Base64 Json
begin

text \<open>
  The growable byte buffer of \<^verbatim>\<open>kernel/c/gobj-c/src/gbuffer.c\<close> and \<^verbatim>\<open>gbuffer.h\<close>, with the block
  allocator of \<^verbatim>\<open>gbmem.c\<close> it relies on. The state of a buffer is the record \<open>gbuffer\<close>; its memory is
  the list of the bytes of the allocated block, one more than \<open>data_size\<close>. An access outside that
  block is undefined behaviour and is the value \<open>None\<close> of an operation; the lemmas show that no
  operation of a well-formed buffer reaches it.
\<close>

section \<open>The block allocator\<close>

text \<open>
  \<open>max_block\<close> is the size limit. A request the operating system refuses aborts the process
  (\<open>LOG_OPT_ABORT\<close>), so an execution that goes on has got its block; \<open>calloc\<close> zeroes it. The bytes
  that \<open>realloc\<close> adds are not initialised: \<open>junk\<close> gives them.
\<close>

record gbmem =
  max_block :: size_t
  junk :: "nat \<Rightarrow> byte"

definition gbmem_malloc :: "gbmem \<Rightarrow> size_t \<Rightarrow> byte list option" where
  "gbmem_malloc mem sz = (if sz > max_block mem then None else Some (replicate sz 0))"

definition gbmem_realloc :: "gbmem \<Rightarrow> byte list \<Rightarrow> size_t \<Rightarrow> byte list option" where
  "gbmem_realloc mem p new_size =
     (if new_size > max_block mem then None
      else Some (take new_size p @ map (junk mem) [length p..<new_size]))"

section \<open>State\<close>

record gbuffer =
  gb_refcount :: size_t
  gb_label :: "string option"
  gb_mark :: size_t
  gb_data_size :: size_t
  gb_max_memory_size :: size_t
  gb_tail :: size_t
  gb_curp :: size_t
  gb_data :: "byte list"

text \<open>The size of the C structure on a 64-bit target.\<close>

definition sizeof_gbuffer :: size_t where
  "sizeof_gbuffer = 112"

definition gbuffer_create :: "gbmem \<Rightarrow> size_t \<Rightarrow> size_t \<Rightarrow> gbuffer option" where
  "gbuffer_create mem data_size max_memory_size =
     (if sz_add data_size 1 = 0 then None
      else case gbmem_malloc mem sizeof_gbuffer of None \<Rightarrow> None
      | Some _ \<Rightarrow> (case gbmem_malloc mem (sz_add data_size 1) of None \<Rightarrow> None
        | Some block \<Rightarrow> Some \<lparr>gb_refcount = 1, gb_label = None, gb_mark = 0,
            gb_data_size = data_size, gb_max_memory_size = max_memory_size,
            gb_tail = 0, gb_curp = 0, gb_data = block\<rparr>))"

definition gbuffer_realloc :: "gbmem \<Rightarrow> gbuffer \<Rightarrow> size_t \<Rightarrow> bool \<times> gbuffer" where
  "gbuffer_realloc mem gbuf need_size =
     (let more = sz_add (gb_data_size gbuf) (max (gb_data_size gbuf) need_size) in
      if sz_add more 1 > gb_max_memory_size gbuf then (False, gbuf)
      else case gbmem_realloc mem (gb_data gbuf) (sz_add more 1) of
        None \<Rightarrow> (False, gbuf)
      | Some new_buf \<Rightarrow> (True, gbuf\<lparr>gb_data := new_buf, gb_data_size := more\<rparr>))"

text \<open>Reference counting: the buffer is \<open>NULL\<close>, still alive, or removed.\<close>

datatype decref_result = Bad_decref | Alive gbuffer | Removed

definition gbuffer_incref :: "gbuffer option \<Rightarrow> gbuffer option" where
  "gbuffer_incref gbuf = (case gbuf of None \<Rightarrow> None
     | Some b \<Rightarrow> if gb_refcount b = 0 then None
         else Some (b\<lparr>gb_refcount := sz_add (gb_refcount b) 1\<rparr>))"

definition gbuffer_decref :: "gbuffer option \<Rightarrow> decref_result" where
  "gbuffer_decref gbuf = (case gbuf of None \<Rightarrow> Bad_decref
     | Some b \<Rightarrow> if gb_refcount b = 0 then Bad_decref
         else (let b' = b\<lparr>gb_refcount := sz_sub (gb_refcount b) 1\<rparr>
               in if gb_refcount b' = 0 then Removed else Alive b'))"

section \<open>Reading\<close>

definition poke :: "gbuffer \<Rightarrow> nat \<Rightarrow> byte \<Rightarrow> gbuffer option" where
  "poke gbuf i c = (if i < length (gb_data gbuf)
     then Some (gbuf\<lparr>gb_data := (gb_data gbuf)[i := c]\<rparr>) else None)"

definition peek :: "gbuffer \<Rightarrow> nat \<Rightarrow> byte option" where
  "peek gbuf i = (if i < length (gb_data gbuf) then Some (gb_data gbuf ! i) else None)"

definition gbuffer_leftbytes :: "gbuffer \<Rightarrow> size_t" where
  "gbuffer_leftbytes gbuf = sz_sub (gb_tail gbuf) (gb_curp gbuf)"

definition gbuffer_totalbytes :: "gbuffer \<Rightarrow> size_t" where
  "gbuffer_totalbytes gbuf = gb_tail gbuf"

definition gbuffer_freebytes :: "gbuffer \<Rightarrow> size_t" where
  "gbuffer_freebytes gbuf = sz_sub (gb_data_size gbuf) (gb_tail gbuf)"

definition gbuffer_chunk :: "gbuffer \<Rightarrow> size_t" where
  "gbuffer_chunk gbuf = min (gb_data_size gbuf) (sz_sub (gb_tail gbuf) (gb_curp gbuf))"

definition gbuffer_reset_rd :: "gbuffer \<Rightarrow> gbuffer" where
  "gbuffer_reset_rd gbuf = gbuf\<lparr>gb_curp := 0\<rparr>"

definition gbuffer_set_rd_offset :: "gbuffer \<Rightarrow> size_t \<Rightarrow> int \<times> gbuffer" where
  "gbuffer_set_rd_offset gbuf position =
     (if position \<ge> gb_data_size gbuf then (-1, gbuf)
      else if position > gb_tail gbuf then (-1, gbuf)
      else (0, gbuf\<lparr>gb_curp := position\<rparr>))"

definition gbuffer_ungetc :: "gbuffer \<Rightarrow> byte \<Rightarrow> gbuffer option" where
  "gbuffer_ungetc gbuf c =
     (if gb_curp gbuf > 0
      then (let gbuf = gbuf\<lparr>gb_curp := gb_curp gbuf - 1\<rparr> in poke gbuf (gb_curp gbuf) c)
      else Some gbuf)"

text \<open>\<open>gbuffer_get\<close> returns a pointer into the block, here its offset.\<close>

definition gbuffer_get :: "gbuffer \<Rightarrow> size_t \<Rightarrow> nat option \<times> gbuffer" where
  "gbuffer_get gbuf len =
     (if len = 0 then (None, gbuf)
      else let rest = sz_sub (gb_tail gbuf) (gb_curp gbuf) in
        if len > rest then (None, gbuf)
        else (Some (gb_curp gbuf), gbuf\<lparr>gb_curp := sz_add (gb_curp gbuf) len\<rparr>))"

definition gbuffer_getchar :: "gbuffer \<Rightarrow> (byte \<times> gbuffer) option" where
  "gbuffer_getchar gbuf = (case gbuffer_get gbuf 1 of
     (None, gbuf) \<Rightarrow> Some (0, gbuf)
   | (Some p, gbuf) \<Rightarrow> (case peek gbuf p of None \<Rightarrow> None | Some c \<Rightarrow> Some (c, gbuf)))"

text \<open>The loop of \<open>gbuffer_getline\<close> ends when \<open>gbuffer_get\<close> has no byte left.\<close>

partial_function (option) getline_loop :: "gbuffer \<Rightarrow> byte \<Rightarrow> gbuffer option" where
  "getline_loop gbuf separator = (case gbuffer_get gbuf 1 of
     (None, _) \<Rightarrow> Some gbuf
   | (Some p, gbuf') \<Rightarrow> (case peek gbuf' p of
       None \<Rightarrow> None
     | Some c \<Rightarrow> if c = separator then poke gbuf' p 0 else getline_loop gbuf' separator))"

definition gbuffer_getline :: "gbuffer \<Rightarrow> byte \<Rightarrow> (nat option \<times> gbuffer) option" where
  "gbuffer_getline gbuf separator =
     (if gbuffer_leftbytes gbuf = 0 then Some (None, gbuf)
      else (let begin = gb_curp gbuf in case getline_loop gbuf separator of
        None \<Rightarrow> None | Some gbuf' \<Rightarrow> Some (Some begin, gbuf')))"

section \<open>Writing\<close>

definition gbuffer_reset_wr :: "gbuffer \<Rightarrow> gbuffer option" where
  "gbuffer_reset_wr gbuf = (let gbuf = gbuf\<lparr>gb_tail := 0, gb_curp := 0\<rparr> in poke gbuf (gb_tail gbuf) 0)"

definition gbuffer_clear :: "gbuffer \<Rightarrow> gbuffer option" where
  "gbuffer_clear gbuf = map_option gbuffer_reset_rd (gbuffer_reset_wr gbuf)"

definition gbuffer_set_wr :: "gbuffer \<Rightarrow> size_t \<Rightarrow> (int \<times> gbuffer) option" where
  "gbuffer_set_wr gbuf offset =
     (if offset > gb_data_size gbuf then Some (-1, gbuf)
      else map_option (\<lambda>b. (0, b)) (poke (gbuf\<lparr>gb_tail := offset\<rparr>) offset 0))"

text \<open>\<open>memmove\<close> into the block.\<close>

definition copy_in :: "gbuffer \<Rightarrow> nat \<Rightarrow> byte list \<Rightarrow> gbuffer option" where
  "copy_in gbuf i bs = (if i + length bs \<le> length (gb_data gbuf)
     then Some (gbuf\<lparr>gb_data := list_blit i bs (gb_data gbuf)\<rparr>) else None)"

text \<open>The source bytes of \<open>gbuffer_append\<close>; \<open>len\<close> is their number.\<close>

definition gbuffer_append :: "gbmem \<Rightarrow> gbuffer \<Rightarrow> byte list \<Rightarrow> (size_t \<times> gbuffer) option" where
  "gbuffer_append mem gbuf bf =
     (let len = length bf in
      if len = 0 then Some (0, gbuf)
      else
        let gbuf = (if gbuffer_freebytes gbuf < len then snd (gbuffer_realloc mem gbuf len) else gbuf);
            short = (gbuffer_freebytes gbuf < len);
            len = (if short then gbuffer_freebytes gbuf else len)
        in if short \<and> len = 0 then Some (0, gbuf)
        else do {
          gbuf \<leftarrow> copy_in gbuf (gb_tail gbuf) (take len bf);
          let gbuf = gbuf\<lparr>gb_tail := sz_add (gb_tail gbuf) len\<rparr>;
          gbuf \<leftarrow> poke gbuf (gb_tail gbuf) 0;
          Some (len, gbuf)
        })"

definition gbuffer_append_char :: "gbmem \<Rightarrow> gbuffer \<Rightarrow> byte \<Rightarrow> (size_t \<times> gbuffer) option" where
  "gbuffer_append_char mem gbuf c = gbuffer_append mem gbuf [c]"

text \<open>
  \<open>gbuffer_append_gbuf\<close>, two different buffers. The pointer into \<open>src\<close> must have \<open>chunk_size\<close>
  readable bytes behind it.
\<close>

definition bytes_at :: "gbuffer \<Rightarrow> nat \<Rightarrow> nat \<Rightarrow> byte list option" where
  "bytes_at gbuf p n = (if p + n \<le> length (gb_data gbuf)
     then Some (take n (drop p (gb_data gbuf))) else None)"

partial_function (option) append_gbuf_loop ::
  "gbmem \<Rightarrow> gbuffer \<Rightarrow> gbuffer \<Rightarrow> size_t \<Rightarrow> size_t \<Rightarrow> (int \<times> gbuffer \<times> gbuffer) option" where
  "append_gbuf_loop mem dst src left chunk_size =
     (if left = 0 then Some (0, dst, src)
      else (case gbuffer_get src chunk_size of
          (None, src) \<Rightarrow> Some (-1, dst, src)
        | (Some p, src) \<Rightarrow>
            Option.bind (bytes_at src p chunk_size) (\<lambda>bs.
            Option.bind (gbuffer_append mem dst bs) (\<lambda>(n, dst).
              if n \<noteq> chunk_size then Some (-1, dst, src)
              else (let left = gbuffer_leftbytes src;
                        chunk_size = min (gb_data_size src) left
                    in append_gbuf_loop mem dst src left chunk_size)))))"

definition gbuffer_append_gbuf ::
  "gbmem \<Rightarrow> gbuffer \<Rightarrow> gbuffer \<Rightarrow> (int \<times> gbuffer \<times> gbuffer) option" where
  "gbuffer_append_gbuf mem dst src =
     (let left = gbuffer_leftbytes src; chunk_size = min (gb_data_size src) left
      in append_gbuf_loop mem dst src left chunk_size)"

text \<open>
  \<open>vsnprintf\<close> as a parameter: the complete text it would write (without NUL), or a failure. It
  writes at most \<open>len - 1\<close> bytes of it and a NUL, nothing when \<open>len\<close> is zero, and returns the
  length of the complete text. The result and \<open>(int)len\<close> are C integers of 32 bits.
\<close>

definition c_int :: "nat \<Rightarrow> int" where
  "c_int n = sint (word_of_nat n :: 32 word)"

definition vsnprintf :: "gbuffer \<Rightarrow> nat \<Rightarrow> size_t \<Rightarrow> byte list option \<Rightarrow> (int \<times> gbuffer) option" where
  "vsnprintf gbuf pos len out = (case out of
     None \<Rightarrow> Some (-1, gbuf)
   | Some t \<Rightarrow> if len = 0 then Some (c_int (length t), gbuf)
       else map_option (\<lambda>b. (c_int (length t), b)) (copy_in gbuf pos (take (len - 1) t @ [0])))"

definition gbuffer_vprintf :: "gbmem \<Rightarrow> gbuffer \<Rightarrow> byte list option \<Rightarrow> (int \<times> gbuffer) option" where
  "gbuffer_vprintf mem gbuf out = do {
     let bf = gb_tail gbuf;
     let len = gbuffer_freebytes gbuf;
     (written, gbuf) \<leftarrow> vsnprintf gbuf bf len out;
     if written < 0 then Some (0, gbuf)
     else if written \<ge> c_int len then
       (case gbuffer_realloc mem gbuf (nat written) of
          (False, gbuf) \<Rightarrow> Some (0, gbuf)
        | (True, gbuf) \<Rightarrow> do {
            let bf = gb_tail gbuf;
            let len = gbuffer_freebytes gbuf;
            (written, gbuf) \<leftarrow> vsnprintf gbuf bf len out;
            if written < 0 then Some (0, gbuf)
            else if written \<ge> c_int len
              then Some (written, gbuf\<lparr>gb_tail := sz_add (gb_tail gbuf) len\<rparr>)
            else Some (written, gbuf\<lparr>gb_tail := sz_add (gb_tail gbuf) (nat written)\<rparr>)
          })
     else Some (written, gbuf\<lparr>gb_tail := sz_add (gb_tail gbuf) (nat written)\<rparr>)
   }"

section \<open>Labels and marks\<close>

definition gbmem_strdup :: "gbmem \<Rightarrow> string option \<Rightarrow> string option" where
  "gbmem_strdup mem str = (case str of None \<Rightarrow> None
     | Some s \<Rightarrow> if gbmem_malloc mem (sz_add (length s) 1) = None then None else Some s)"

definition gbuffer_setlabel :: "gbmem \<Rightarrow> gbuffer \<Rightarrow> string option \<Rightarrow> gbuffer" where
  "gbuffer_setlabel mem gbuf label = gbuf\<lparr>gb_label := gbmem_strdup mem label\<rparr>"

definition gbuffer_setmark :: "gbuffer \<Rightarrow> size_t \<Rightarrow> gbuffer" where
  "gbuffer_setmark gbuf mark = gbuf\<lparr>gb_mark := mark\<rparr>"

section \<open>Characters as bytes\<close>

definition byte_of_char :: "char \<Rightarrow> byte" where
  "byte_of_char c = word_of_nat (of_char c)"

definition char_of_byte :: "byte \<Rightarrow> char" where
  "char_of_byte b = char_of (unat b)"

lemma unat_byte_of_char [simp]: "unat (byte_of_char c) = of_char c"
  by (simp add: byte_of_char_def unsigned_of_nat take_bit_eq_mod)

lemma char_of_byte_of_char [simp]: "char_of_byte (byte_of_char c) = c"
  by (simp add: char_of_byte_def)

lemma byte_of_char_zero_iff [simp]: "byte_of_char c = 0 \<longleftrightarrow> c = CHR 0x00"
proof
  assume "byte_of_char c = 0"
  then have "char_of_byte (byte_of_char c) = char_of_byte 0" by (rule arg_cong)
  then show "c = CHR 0x00" unfolding char_of_byte_of_char by (simp add: char_of_byte_def char_of_def)
qed (simp add: byte_of_char_def)

section \<open>Base64 of a buffer\<close>

definition gbuffer_binary_to_base64 :: "gbmem \<Rightarrow> byte list \<Rightarrow> gbuffer option option" where
  "gbuffer_binary_to_base64 mem src =
     (let output_len = b64_output_encode_len (length src) in
      case gbuffer_create mem output_len output_len of
        None \<Rightarrow> Some None
      | Some gbuf_output \<Rightarrow> (case b64_encode src output_len of
          None \<Rightarrow> Some None
        | Some text \<Rightarrow> do {
            gbuf_output \<leftarrow> copy_in gbuf_output (gb_tail gbuf_output) (map byte_of_char text @ [0]);
            (_, gbuf_output) \<leftarrow> gbuffer_set_wr gbuf_output (length text);
            Some (Some gbuf_output)
          }))"

definition gbuffer_base64_to_binary ::
  "gbmem \<Rightarrow> string option \<Rightarrow> size_t \<Rightarrow> gbuffer option option" where
  "gbuffer_base64_to_binary mem base64 base64_len = (case base64 of
     None \<Rightarrow> Some None
   | Some txt \<Rightarrow>
      (let output_len = b64_output_decode_len base64_len in
       case gbuffer_create mem output_len output_len of
         None \<Rightarrow> Some None
       | Some gbuf_output \<Rightarrow> (case b64_decode txt (Some (gb_data gbuf_output)) output_len of
           None \<Rightarrow> Some None
         | Some (decoded, None) \<Rightarrow> None
         | Some (decoded, Some block) \<Rightarrow> do {
             let gbuf_output = gbuf_output\<lparr>gb_data := block\<rparr>;
             (_, gbuf_output) \<leftarrow> gbuffer_set_wr gbuf_output decoded;
             Some (Some gbuf_output)
           })))"

text \<open>\<open>gbuffer_encode_base64\<close> also drops its reference to the input.\<close>

definition gbuffer_encode_base64 ::
  "gbmem \<Rightarrow> gbuffer option \<Rightarrow> (gbuffer option \<times> decref_result) option" where
  "gbuffer_encode_base64 mem gbuf_input = (case gbuf_input of
     None \<Rightarrow> Some (None, Bad_decref)
   | Some gbuf \<Rightarrow> do {
       src \<leftarrow> bytes_at gbuf (gb_curp gbuf) (gbuffer_leftbytes gbuf);
       gbuf_output \<leftarrow> gbuffer_binary_to_base64 mem src;
       Some (gbuf_output, gbuffer_decref (Some gbuf))
     })"

section \<open>Serialization\<close>

text \<open>The C string that starts at offset \<open>p\<close> of the block.\<close>

definition c_string_at :: "gbuffer \<Rightarrow> nat \<Rightarrow> string option" where
  "c_string_at gbuf p = (let bs = takeWhile (\<lambda>b. b \<noteq> 0) (drop p (gb_data gbuf)) in
     if p + length bs < length (gb_data gbuf) then Some (map char_of_byte bs) else None)"

definition to_json_int :: "size_t \<Rightarrow> int" where
  "to_json_int n = sint (word_of_nat n :: 64 word)"

definition of_json_int :: "int \<Rightarrow> size_t" where
  "of_json_int i = unat (word_of_int i :: 64 word)"

definition gbuffer_serialize :: "gbmem \<Rightarrow> gbuffer \<Rightarrow> json option" where
  "gbuffer_serialize mem gbuf = do {
     src \<leftarrow> bytes_at gbuf (gb_curp gbuf) (gbuffer_leftbytes gbuf);
     gbuf_base64 \<leftarrow> gbuffer_binary_to_base64 mem src;
     txt \<leftarrow> (case gbuf_base64 of
        None \<Rightarrow> Some []
      | Some b \<Rightarrow> c_string_at b (gb_curp b));
     Some (JObject [
       (''label'', JString (case gb_label gbuf of None \<Rightarrow> [] | Some l \<Rightarrow> l)),
       (''mark'', JInt (to_json_int (gb_mark gbuf))),
       (''data'', JString txt)])
   }"

definition gbuffer_deserialize :: "gbmem \<Rightarrow> jn \<Rightarrow> gbuffer option option" where
  "gbuffer_deserialize mem jn =
     (let label = json_string_value (json_object_get jn ''label'');
          mark = of_json_int (json_integer_value (json_object_get jn ''mark''));
          base64 = json_string_value (json_object_get jn ''data'')
      in case base64 of
        None \<Rightarrow> Some None
      | Some txt \<Rightarrow> do {
          gbuf \<leftarrow> gbuffer_base64_to_binary mem (Some txt) (length txt);
          Some (case gbuf of
             None \<Rightarrow> None
           | Some b \<Rightarrow> Some (gbuffer_setmark (gbuffer_setlabel mem b label) mark))
        })"

section \<open>Well-formed buffers and what they hold\<close>

definition gbmem_ok :: "gbmem \<Rightarrow> bool" where
  "gbmem_ok mem \<longleftrightarrow> sizeof_gbuffer \<le> max_block mem \<and> max_block mem < 2 ^ 61"

definition gb_ok :: "gbmem \<Rightarrow> gbuffer \<Rightarrow> bool" where
  "gb_ok mem b \<longleftrightarrow> length (gb_data b) = gb_data_size b + 1 \<and> gb_data_size b < max_block mem \<and>
     gb_tail b \<le> gb_data_size b \<and> gb_curp b \<le> gb_tail b"

text \<open>The bytes written so far, those not read yet, and whether a NUL follows them.\<close>

definition content :: "gbuffer \<Rightarrow> byte list" where
  "content b = take (gb_tail b) (gb_data b)"

definition unread :: "gbuffer \<Rightarrow> byte list" where
  "unread b = drop (gb_curp b) (content b)"

definition nul_ended :: "gbuffer \<Rightarrow> bool" where
  "nul_ended b \<longleftrightarrow> gb_data b ! gb_tail b = 0"

named_theorems gb_simps \<open>sizes and bounds of well-formed buffers\<close>

lemma gb_okD [gb_simps]:
  assumes "gb_ok mem b"
  shows "length (gb_data b) = Suc (gb_data_size b)" "gb_tail b \<le> gb_data_size b"
    "gb_curp b \<le> gb_tail b" "gb_data_size b < max_block mem"
    "gbuffer_leftbytes b = gb_tail b - gb_curp b"
    "gbuffer_freebytes b = gb_data_size b - gb_tail b"
  using assms
  by (auto simp: gb_ok_def gbuffer_leftbytes_def gbuffer_freebytes_def size_t_simps)

lemma gb_size_bound:
  assumes "gbmem_ok mem" "gb_ok mem b"
  shows "gb_data_size b < 2 ^ 62" "gb_tail b < 2 ^ 62" "gb_curp b < 2 ^ 62"
  using assms by (auto simp: gb_ok_def gbmem_ok_def)

lemma length_content [simp]: "gb_ok mem b \<Longrightarrow> length (content b) = gb_tail b"
  by (auto simp: content_def gb_ok_def)

lemma length_unread: "gb_ok mem b \<Longrightarrow> length (unread b) = gb_tail b - gb_curp b"
  by (simp add: unread_def)

lemma leftbytes_unread: "gb_ok mem b \<Longrightarrow> gbuffer_leftbytes b = length (unread b)"
  by (simp add: length_unread gb_simps)

lemma sz_add_small [size_t_simps]: "a < 2 ^ 63 \<Longrightarrow> b < 2 ^ 63 \<Longrightarrow> sz_add a b = a + b"
  by (simp add: sz_add_def size_t_mod_def)

section \<open>Creation and growth\<close>

lemma gbuffer_create_ok:
  assumes "gbmem_ok mem" "gbuffer_create mem data_size max_size = Some b" "data_size < size_t_mod"
  shows "gb_ok mem b" "content b = []" "unread b = []" "nul_ended b" "gb_refcount b = 1"
    "gb_data_size b = data_size" "gb_label b = None" "gb_tail b = 0" "gb_curp b = 0"
    "gb_data b = replicate (Suc data_size) 0"
proof -
  have "sz_add data_size 1 \<noteq> 0" and le: "sz_add data_size 1 \<le> max_block mem"
    using assms(2) by (auto simp: gbuffer_create_def gbmem_malloc_def split: if_splits)
  moreover have "sz_add data_size 1 = (if data_size + 1 = size_t_mod then 0 else data_size + 1)"
    using assms(3) by (auto simp: sz_add_def)
  ultimately have "sz_add data_size 1 = data_size + 1" by (simp split: if_splits)
  with assms(2) le show "gb_ok mem b" "content b = []" "unread b = []" "nul_ended b"
    "gb_refcount b = 1" "gb_data_size b = data_size" "gb_label b = None" "gb_tail b = 0"
    "gb_curp b = 0" "gb_data b = replicate (Suc data_size) 0"
    by (auto simp: gbuffer_create_def gbmem_malloc_def gb_ok_def content_def unread_def
        nul_ended_def simp del: replicate_Suc split: if_splits)
qed

lemma gbuffer_create_some:
  assumes "gbmem_ok mem" "data_size < max_block mem"
  shows "\<exists>b. gbuffer_create mem data_size max_size = Some b"
proof -
  have "data_size + 1 < size_t_mod"
    using assms by (simp add: gbmem_ok_def size_t_mod_def)
  with assms show ?thesis
    by (simp add: gbuffer_create_def gbmem_malloc_def gbmem_ok_def size_t_simps Suc_le_eq not_less)
qed

text \<open>The size a buffer grows to, and whether both limits allow it.\<close>

definition grown_size :: "gbuffer \<Rightarrow> nat \<Rightarrow> nat" where
  "grown_size b need = gb_data_size b + max (gb_data_size b) need"

definition can_grow :: "gbmem \<Rightarrow> gbuffer \<Rightarrow> nat \<Rightarrow> bool" where
  "can_grow mem b need \<longleftrightarrow>
     grown_size b need + 1 \<le> gb_max_memory_size b \<and> grown_size b need + 1 \<le> max_block mem"

lemma gbuffer_realloc_cases:
  assumes "gbmem_ok mem" "gb_ok mem b" "need < 2 ^ 62"
  shows "gbuffer_realloc mem b need =
    (if can_grow mem b need
     then (True, b\<lparr>gb_data := gb_data b @ map (junk mem) [gb_data_size b + 1..<grown_size b need + 1],
       gb_data_size := grown_size b need\<rparr>)
     else (False, b))"
proof -
  have b: "gb_data_size b < 2 ^ 62" using gb_size_bound assms by blast
  then have s: "sz_add (gb_data_size b) (max (gb_data_size b) need) = grown_size b need"
    using assms(3) by (simp add: grown_size_def size_t_simps)
  have "grown_size b need + 1 < size_t_mod"
    using b assms(3) by (simp add: grown_size_def size_t_mod_def)
  then have s': "sz_add (grown_size b need) 1 = grown_size b need + 1"
    by (simp add: size_t_simps)
  have "gb_data_size b + 1 \<le> grown_size b need + 1" by (simp add: grown_size_def)
  then show ?thesis
    unfolding gbuffer_realloc_def s Let_def s'
    using assms(2) by (auto simp: can_grow_def gbmem_realloc_def gb_simps)
qed

lemma gbuffer_realloc_ok:
  assumes "gbmem_ok mem" "gb_ok mem b" "need < 2 ^ 62" "gbuffer_realloc mem b need = (r, b')"
  shows "gb_ok mem b'" "content b' = content b" "unread b' = unread b"
    "gb_tail b' = gb_tail b" "gb_curp b' = gb_curp b" "nul_ended b' = nul_ended b"
    "r \<longleftrightarrow> can_grow mem b need"
    "r \<Longrightarrow> gb_data_size b' = grown_size b need" "\<not> r \<Longrightarrow> b' = b"
    "gb_label b' = gb_label b" "gb_mark b' = gb_mark b" "gb_refcount b' = gb_refcount b"
    "gb_max_memory_size b' = gb_max_memory_size b"
  using assms(4) assms(2) unfolding gbuffer_realloc_cases [OF assms(1-3)]
  by (auto simp: gb_ok_def content_def unread_def nul_ended_def can_grow_def grown_size_def nth_append
      split: if_splits)
section \<open>Appending\<close>

text \<open>Copying at the write position, moving it and writing the final NUL.\<close>

lemma append_step:
  assumes "gbmem_ok mem" "gb_ok mem b" "length bs \<le> gb_data_size b - gb_tail b"
  shows "\<exists>b'. do {
      b \<leftarrow> copy_in b (gb_tail b) bs;
      let b = b\<lparr>gb_tail := sz_add (gb_tail b) (length bs)\<rparr>;
      b \<leftarrow> poke b (gb_tail b) 0;
      Some (length bs, b)
    } = Some (length bs, b') \<and> gb_ok mem b' \<and> content b' = content b @ bs \<and> nul_ended b' \<and>
    gb_curp b' = gb_curp b \<and> gb_tail b' = gb_tail b + length bs \<and>
    gb_data_size b' = gb_data_size b \<and> gb_label b' = gb_label b \<and> gb_mark b' = gb_mark b"
proof -
  let ?t = "gb_tail b + length bs"
  from assms have lt: "?t < length (gb_data b)" "?t \<le> gb_data_size b"
    by (auto simp: gb_ok_def)
  have sum: "sz_add (gb_tail b) (length bs) = ?t"
    using gb_size_bound [OF assms(1,2)] lt by (simp add: size_t_simps)
  let ?b = "b\<lparr>gb_tail := ?t, gb_data := (list_blit (gb_tail b) bs (gb_data b))[?t := 0]\<rparr>"
  have "content ?b = content b @ bs"
    using lt assms(2)
    by (simp add: content_def take_list_blit_after gb_simps)
  moreover have "gb_ok mem ?b" "nul_ended ?b"
    using lt assms(2) by (auto simp: gb_ok_def nul_ended_def)
  ultimately show ?thesis
    using lt by (simp add: copy_in_def poke_def sum)
qed

text \<open>How many of \<open>n\<close> bytes an append stores: all when there is room or the buffer can grow.\<close>

definition append_room :: "gbmem \<Rightarrow> gbuffer \<Rightarrow> nat \<Rightarrow> nat" where
  "append_room mem b n =
     (if n \<le> gb_data_size b - gb_tail b \<or> can_grow mem b n then n else gb_data_size b - gb_tail b)"

lemma gbuffer_append_spec:
  assumes "gbmem_ok mem" "gb_ok mem b" "length bs < 2 ^ 62"
  shows "\<exists>b'. gbuffer_append mem b bs = Some (append_room mem b (length bs), b') \<and> gb_ok mem b' \<and>
    content b' = content b @ take (append_room mem b (length bs)) bs \<and>
    gb_curp b' = gb_curp b \<and> (append_room mem b (length bs) > 0 \<or> nul_ended b \<longrightarrow> nul_ended b') \<and>
    gb_label b' = gb_label b \<and> gb_mark b' = gb_mark b"
proof (cases "length bs = 0")
  case True
  then show ?thesis using assms by (simp add: gbuffer_append_def append_room_def)
next
  case False
  let ?n = "length bs"
  obtain r b2 where rl: "gbuffer_realloc mem b ?n = (r, b2)" by force
  note grown = gbuffer_realloc_ok [OF assms rl]
  define b1 where "b1 = (if gbuffer_freebytes b < ?n then b2 else b)"
  have b1: "gb_ok mem b1" "content b1 = content b" "gb_tail b1 = gb_tail b"
    "gb_curp b1 = gb_curp b" "nul_ended b1 = nul_ended b" "gb_label b1 = gb_label b"
    "gb_mark b1 = gb_mark b"
    using grown(1-6,10,11) assms(2) by (simp_all add: b1_def)
  have room: "append_room mem b ?n = min ?n (gbuffer_freebytes b1)"
  proof (cases "gbuffer_freebytes b < ?n")
    case True
    show ?thesis
    proof (cases r)
      case r: True
      then have "gb_data_size b2 = grown_size b ?n" "can_grow mem b ?n"
        using grown(7,8) by auto
      moreover have "?n \<le> grown_size b ?n - gb_tail b"
        using assms(2) by (auto simp: grown_size_def gb_ok_def)
      ultimately show ?thesis
        using grown(1,4) True by (simp add: b1_def append_room_def gb_simps)
    next
      case r: False
      then show ?thesis
        using grown(7,9) True assms(2) by (simp add: b1_def append_room_def gb_simps)
    qed
  next
    case False
    then show ?thesis using assms(2) by (simp add: b1_def append_room_def gb_simps)
  qed
  have app: "gbuffer_append mem b bs =
    (let short = (gbuffer_freebytes b1 < ?n);
         n = (if short then gbuffer_freebytes b1 else ?n)
     in if short \<and> n = 0 then Some (0, b1)
     else do {
       b \<leftarrow> copy_in b1 (gb_tail b1) (take n bs);
       let b = b\<lparr>gb_tail := sz_add (gb_tail b) n\<rparr>;
       b \<leftarrow> poke b (gb_tail b) 0;
       Some (n, b)
     })"
    using False by (simp add: gbuffer_append_def b1_def rl Let_def)
  define k where "k = min ?n (gbuffer_freebytes b1)"
  have k: "k \<le> ?n" "k = append_room mem b ?n" by (simp_all add: room k_def)
  show ?thesis
  proof (cases "k = 0")
    case True
    then have "gbuffer_freebytes b1 = 0" using False by (auto simp: k_def min_def split: if_splits)
    then have "gbuffer_append mem b bs = Some (0, b1)"
      using False by (simp add: app)
    then show ?thesis using b1 k True by simp
  next
    case nz: False
    have "length (take k bs) \<le> gb_data_size b1 - gb_tail b1"
      using b1(1) by (simp add: k_def gb_simps)
    from append_step [OF assms(1) b1(1) this] nz False
    have "\<exists>b'. gbuffer_append mem b bs = Some (k, b') \<and> gb_ok mem b' \<and>
      content b' = content b1 @ take k bs \<and> nul_ended b' \<and> gb_curp b' = gb_curp b1 \<and>
      gb_label b' = gb_label b1 \<and> gb_mark b' = gb_mark b1"
      unfolding app k_def Let_def
      by (cases "gbuffer_freebytes b1 < ?n") (auto simp: min_def)
    then show ?thesis using b1 k by metis
  qed
qed

lemma unread_append:
  assumes "gb_ok mem b" "content b' = content b @ bs" "gb_curp b' = gb_curp b"
  shows "unread b' = unread b @ bs"
  using assms by (simp add: unread_def gb_simps)

text \<open>What fits is appended whole, without growth.\<close>

lemma gbuffer_append_fits:
  assumes "gbmem_ok mem" "gb_ok mem b" "length bs \<le> gb_data_size b - gb_tail b"
  shows "\<exists>b'. gbuffer_append mem b bs = Some (length bs, b') \<and> gb_ok mem b' \<and>
    unread b' = unread b @ bs \<and> content b' = content b @ bs \<and> gb_curp b' = gb_curp b \<and>
    gb_tail b' = gb_tail b + length bs \<and> gb_data_size b' = gb_data_size b"
proof (cases "bs = []")
  case True
  then show ?thesis using assms by (simp add: gbuffer_append_def)
next
  case False
  have "gbuffer_append mem b bs = do {
      b \<leftarrow> copy_in b (gb_tail b) bs;
      let b = b\<lparr>gb_tail := sz_add (gb_tail b) (length bs)\<rparr>;
      b \<leftarrow> poke b (gb_tail b) 0;
      Some (length bs, b)}"
    using False assms(2,3) by (simp add: gbuffer_append_def gb_simps Let_def)
  then show ?thesis
    using append_step [OF assms] unread_append [OF assms(2)] by (metis (no_types, lifting))
qed

section \<open>Reading back\<close>

lemma gbuffer_get_spec:
  assumes "gbmem_ok mem" "gb_ok mem b"
  shows "gbuffer_get b n =
    (if 0 < n \<and> n \<le> length (unread b) then (Some (gb_curp b), b\<lparr>gb_curp := gb_curp b + n\<rparr>)
     else (None, b))"
proof -
  have "sz_add (gb_curp b) n = gb_curp b + n" if "n \<le> gb_tail b - gb_curp b"
    using gb_size_bound [OF assms] that by (simp add: size_t_simps)
  then show ?thesis
    using assms(2) by (auto simp: gbuffer_get_def length_unread gb_ok_def size_t_simps Let_def)
qed

lemma advance_ok:
  assumes "gb_ok mem b" "n \<le> length (unread b)"
  shows "gb_ok mem (b\<lparr>gb_curp := gb_curp b + n\<rparr>)"
    "content (b\<lparr>gb_curp := gb_curp b + n\<rparr>) = content b"
    "unread (b\<lparr>gb_curp := gb_curp b + n\<rparr>) = drop n (unread b)"
  using assms by (auto simp: gb_ok_def unread_def content_def length_unread add.commute)

lemma bytes_at_curp:
  assumes "gb_ok mem b" "n \<le> length (unread b)"
  shows "bytes_at b (gb_curp b) n = Some (take n (unread b))"
proof -
  have "take n (drop (gb_curp b) (gb_data b)) = take n (unread b)"
    using assms by (auto simp: unread_def content_def drop_take gb_ok_def min_absorb1)
  moreover have "gb_curp b + n \<le> length (gb_data b)"
    using assms by (auto simp: gb_ok_def length_unread)
  ultimately show ?thesis by (simp add: bytes_at_def)
qed

lemma peek_unread:
  assumes "gb_ok mem b" "i < length (unread b)"
  shows "peek b (gb_curp b + i) = Some (unread b ! i)"
  using assms by (auto simp: peek_def unread_def content_def gb_ok_def)

lemma gbuffer_getchar_spec:
  assumes "gbmem_ok mem" "gb_ok mem b"
  shows "\<exists>b'. gbuffer_getchar b = Some (case unread b of [] \<Rightarrow> 0 | c # _ \<Rightarrow> c, b') \<and>
    gb_ok mem b' \<and> unread b' = tl (unread b) \<and> content b' = content b"
proof (cases "unread b")
  case Nil
  then show ?thesis using assms by (simp add: gbuffer_getchar_def gbuffer_get_spec [OF assms])
next
  case (Cons c cs)
  let ?b = "b\<lparr>gb_curp := gb_curp b + 1\<rparr>"
  have "peek ?b (gb_curp b) = peek b (gb_curp b + 0)" by (simp add: peek_def)
  also have "\<dots> = Some c" using peek_unread [OF assms(2), of 0] Cons by simp
  finally have pk: "peek ?b (gb_curp b) = Some c" .
  have "gb_ok mem ?b" "content ?b = content b" "unread ?b = cs"
    using advance_ok [OF assms(2), of 1] Cons by simp_all
  with pk Cons show ?thesis
    using gbuffer_get_spec [OF assms, of 1] by (simp add: gbuffer_getchar_def)
qed

lemma gbuffer_ungetc_ok:
  assumes "gb_ok mem b"
  shows "\<exists>b'. gbuffer_ungetc b c = Some b' \<and> gb_ok mem b' \<and>
    unread b' = (if gb_curp b = 0 then unread b else c # unread b)"
proof (cases "gb_curp b = 0")
  case True
  then show ?thesis using assms by (simp add: gbuffer_ungetc_def)
next
  case False
  then obtain i where i: "gb_curp b = Suc i" using not0_implies_Suc by blast
  let ?b = "b\<lparr>gb_curp := i, gb_data := (gb_data b)[i := c]\<rparr>"
  have lt: "i < gb_tail b" "i < length (gb_data b)" using assms i by (auto simp: gb_ok_def)
  then have "drop i (take (gb_tail b) ((gb_data b)[i := c])) =
      c # drop (Suc i) (take (gb_tail b) (gb_data b))"
    by (subst Cons_nth_drop_Suc [symmetric]) (auto simp: take_update_swap)
  then have "unread ?b = c # unread b" by (simp add: unread_def content_def i)
  moreover have "gb_ok mem ?b" using assms i by (auto simp: gb_ok_def)
  ultimately show ?thesis using i lt by (simp add: gbuffer_ungetc_def poke_def)
qed

text \<open>
  \<open>gbuffer_getline\<close> consumes up to and including the first separator, which it overwrites with the
  NUL that ends the line.
\<close>

lemma getline_loop_spec:
  assumes "gbmem_ok mem" "gb_ok mem b"
  shows "\<exists>b'. getline_loop b sep = Some b' \<and> gb_ok mem b' \<and>
    (if sep \<in> set (unread b)
     then (let n = length (takeWhile (\<lambda>c. c \<noteq> sep) (unread b)) in
       gb_curp b' = gb_curp b + n + 1 \<and> gb_data b' = (gb_data b)[gb_curp b + n := 0] \<and>
       unread b' = drop (n + 1) (unread b))
     else gb_curp b' = gb_tail b \<and> gb_data b' = gb_data b \<and> unread b' = [])"
  using assms(2)
proof (induction "length (unread b)" arbitrary: b)
  case 0
  then have u: "unread b = []" and e: "gb_curp b = gb_tail b"
    using length_unread [OF 0(2)] by (auto simp: gb_ok_def)
  have "gbuffer_get b 1 = (None, b)"
    using gbuffer_get_spec [OF assms(1) 0(2)] u by simp
  then have "getline_loop b sep = Some b"
    by (subst getline_loop.simps) simp
  then show ?case using 0(2) u e by simp
next
  case (Suc l)
  then obtain c cs where u: "unread b = c # cs" by (cases "unread b") auto
  let ?b = "b\<lparr>gb_curp := gb_curp b + 1\<rparr>"
  have adv: "gb_ok mem ?b" "unread ?b = cs"
    using advance_ok [OF Suc.prems, of 1] u by simp_all
  have get: "gbuffer_get b 1 = (Some (gb_curp b), ?b)"
    using gbuffer_get_spec [OF assms(1) Suc.prems, of 1] u by simp
  have pk: "peek ?b (gb_curp b) = Some c"
    using peek_unread [OF Suc.prems, of 0] u by (auto simp: peek_def split: if_splits)
  show ?case
  proof (cases "c = sep")
    case True
    let ?b' = "b\<lparr>gb_curp := gb_curp b + 1, gb_data := (gb_data b)[gb_curp b := 0]\<rparr>"
    have lt: "gb_curp b < length (gb_data b)" using pk by (auto simp: peek_def split: if_splits)
    have "getline_loop b sep = Some ?b'"
      using get pk True lt by (subst getline_loop.simps) (simp add: poke_def)
    moreover have "gb_ok mem ?b'" using adv(1) by (simp add: gb_ok_def)
    moreover have "unread ?b' = cs"
      using adv(2) by (simp add: unread_def content_def take_update_swap)
    ultimately show ?thesis using u True by simp
  next
    case False
    have "getline_loop b sep = getline_loop ?b sep"
      using get pk False by (subst getline_loop.simps) simp
    moreover have "l = length (unread ?b)" using Suc.hyps(2) u adv(2) by simp
    ultimately show ?thesis
      using Suc.hyps(1) [of ?b] adv u False by (auto simp: Let_def add.assoc)
  qed
qed

section \<open>Moving bytes between buffers\<close>

lemma append_gbuf_once:
  assumes "gbmem_ok mem" "gb_ok mem dst" "gb_ok mem src" "unread src \<noteq> []"
    "append_room mem dst (length (unread src)) = length (unread src)"
  shows "\<exists>dst' src'. gbuffer_append_gbuf mem dst src = Some (0, dst', src') \<and>
    gb_ok mem dst' \<and> gb_ok mem src' \<and>
    unread dst' = unread dst @ unread src \<and> unread src' = [] \<and> content src' = content src"
proof -
  let ?n = "length (unread src)"
  let ?src = "src\<lparr>gb_curp := gb_curp src + ?n\<rparr>"
  have n: "?n \<noteq> 0" "?n \<le> gb_data_size src" "?n < 2 ^ 62"
  proof -
    show "?n \<noteq> 0" using assms(4) by simp
    show "?n \<le> gb_data_size src" "?n < 2 ^ 62"
      using length_unread [OF assms(3)] gb_size_bound(2) [OF assms(1,3)] assms(3)
      by (auto simp: gb_ok_def)
  qed
  have adv: "gb_ok mem ?src" "unread ?src = []" "content ?src = content src"
    using advance_ok [OF assms(3), of ?n] by simp_all
  obtain dst' where d: "gbuffer_append mem dst (unread src) = Some (?n, dst')" "gb_ok mem dst'"
    "content dst' = content dst @ unread src" "gb_curp dst' = gb_curp dst"
    using gbuffer_append_spec [OF assms(1,2) n(3)] assms(5) by auto
  have "bytes_at ?src (gb_curp src) ?n = bytes_at src (gb_curp src) ?n"
    by (simp add: bytes_at_def)
  then have bs: "bytes_at ?src (gb_curp src) ?n = Some (unread src)"
    using bytes_at_curp [OF assms(3), of ?n] by simp
  have stop: "append_gbuf_loop mem dst' ?src 0 m = Some (0, dst', ?src)" for m
    by (subst append_gbuf_loop.simps) simp
  have "gbuffer_leftbytes src = ?n" "gbuffer_leftbytes ?src = 0"
    using leftbytes_unread [OF assms(3)] leftbytes_unread [OF adv(1)] adv(2) by simp_all
  then have "gbuffer_append_gbuf mem dst src = Some (0, dst', ?src)"
    using n gbuffer_get_spec [OF assms(1,3), of ?n] bs d(1) stop
    by (simp add: gbuffer_append_gbuf_def Let_def)
      (subst append_gbuf_loop.simps, simp add: Let_def min_def)
  then show ?thesis
    using d adv assms(3) unread_append [OF assms(2) d(3,4)] by blast
qed


section \<open>Formatted writing\<close>

lemma c_int_small [simp]: "n < 2 ^ 31 \<Longrightarrow> c_int n = int n"
  by (simp add: c_int_def signed_of_nat signed_take_bit_int_eq_self_iff
      signed_take_bit_eq_if_positive bit_nat_def signed_take_bit_int_eq_self)

lemma vsnprintf_fits:
  assumes "gbmem_ok mem" "gb_ok mem b" "length t < len" "len = gb_data_size b - gb_tail b"
    "length t < 2 ^ 31"
  shows "\<exists>b'. vsnprintf b (gb_tail b) len (Some t) = Some (int (length t), b') \<and>
    gb_tail b' = gb_tail b \<and>
    gb_ok mem (b'\<lparr>gb_tail := gb_tail b + length t\<rparr>) \<and>
    content (b'\<lparr>gb_tail := gb_tail b + length t\<rparr>) = content b @ t \<and>
    nul_ended (b'\<lparr>gb_tail := gb_tail b + length t\<rparr>) \<and> gb_curp b' = gb_curp b"
proof -
  have fit: "gb_tail b + length (t @ [0]) \<le> length (gb_data b)"
    using assms by (simp add: gb_ok_def)
  let ?b = "b\<lparr>gb_data := list_blit (gb_tail b) (t @ [0]) (gb_data b)\<rparr>"
  have "take (gb_tail b + length t) (list_blit (gb_tail b) (t @ [0]) (gb_data b)) = content b @ t"
    using fit by (simp add: list_blit_def content_def)
  moreover have "list_blit (gb_tail b) (t @ [0]) (gb_data b) ! (gb_tail b + length t) = 0"
    using fit by (subst nth_list_blit_here) (simp_all add: nth_append)
  moreover have "gb_ok mem (?b\<lparr>gb_tail := gb_tail b + length t\<rparr>)"
    using fit assms by (auto simp: gb_ok_def)
  moreover have "vsnprintf b (gb_tail b) len (Some t) = Some (int (length t), ?b)"
    using fit assms(3,5) by (simp add: vsnprintf_def copy_in_def)
  ultimately show ?thesis
    by (intro exI [of _ ?b]) (simp add: content_def nul_ended_def)
qed

lemma vsnprintf_truncates:
  assumes "gbmem_ok mem" "gb_ok mem b" "len \<le> length t" "len = gb_data_size b - gb_tail b"
    "length t < 2 ^ 31"
  shows "\<exists>b'. vsnprintf b (gb_tail b) len (Some t) = Some (int (length t), b') \<and> gb_ok mem b' \<and>
    content b' = content b \<and> gb_tail b' = gb_tail b \<and> gb_curp b' = gb_curp b \<and>
    gb_data_size b' = gb_data_size b \<and> gb_max_memory_size b' = gb_max_memory_size b \<and>
    (0 < len \<longrightarrow> take (gb_tail b + len) (gb_data b') = content b @ take (len - 1) t @ [0])"
proof (cases "len = 0")
  case True
  then show ?thesis using assms by (simp add: vsnprintf_def)
next
  case False
  let ?w = "take (len - 1) t @ [0]"
  have lw: "length ?w = len" using False assms(3) by simp
  then have fit: "gb_tail b + length ?w \<le> length (gb_data b)"
    using assms by (simp add: gb_ok_def)
  let ?b = "b\<lparr>gb_data := list_blit (gb_tail b) ?w (gb_data b)\<rparr>"
  have "take (gb_tail b + len) (list_blit (gb_tail b) ?w (gb_data b)) = content b @ ?w"
    using take_list_blit_after [of "gb_tail b" "gb_data b" ?w] lw fit by (simp add: content_def)
  moreover have "gb_ok mem ?b" "content ?b = content b"
    using fit assms(2) by (auto simp: gb_ok_def content_def)
  ultimately show ?thesis
    using fit False assms by (simp add: vsnprintf_def copy_in_def)
qed

text \<open>With room for the text and its NUL, the text is appended.\<close>

lemma gbuffer_vprintf_room:
  assumes "gbmem_ok mem" "gb_ok mem b" "length t < gb_data_size b - gb_tail b"
    "max_block mem < 2 ^ 31"
  shows "\<exists>b'. gbuffer_vprintf mem b (Some t) = Some (int (length t), b') \<and> gb_ok mem b' \<and>
    content b' = content b @ t \<and> nul_ended b' \<and> gb_curp b' = gb_curp b"
proof -
  have small: "gb_data_size b < 2 ^ 31" "length t < 2 ^ 31"
    using assms by (auto simp: gb_ok_def)
  from vsnprintf_fits [OF assms(1,2,3) refl small(2)] obtain b' where b':
    "vsnprintf b (gb_tail b) (gb_data_size b - gb_tail b) (Some t) = Some (int (length t), b')"
    "gb_tail b' = gb_tail b"
    "gb_ok mem (b'\<lparr>gb_tail := gb_tail b + length t\<rparr>)"
    "content (b'\<lparr>gb_tail := gb_tail b + length t\<rparr>) = content b @ t"
    "nul_ended (b'\<lparr>gb_tail := gb_tail b + length t\<rparr>)" "gb_curp b' = gb_curp b" by blast
  have "sz_add (gb_tail b) (length t) = gb_tail b + length t"
    using small gb_size_bound [OF assms(1,2)] by (simp add: size_t_simps)
  moreover obtain len where len: "gbuffer_freebytes b = len" "gb_data_size b - gb_tail b = len"
    using gb_okD(6) [OF assms(2)] by blast
  moreover have "c_int len = int len" "length t < len"
    using small assms(3) len by auto
  ultimately show ?thesis
    using b' by (simp add: gbuffer_vprintf_def)
qed

text \<open>Without room the buffer grows first; then the text fits, unless it fits without its NUL only.\<close>

lemma gbuffer_vprintf_grows:
  assumes "gbmem_ok mem" "gb_ok mem b" "gb_data_size b - gb_tail b \<le> length t"
    "can_grow mem b (length t)" "max_block mem < 2 ^ 31"
    "length t < grown_size b (length t) - gb_tail b"
  shows "\<exists>b'. gbuffer_vprintf mem b (Some t) = Some (int (length t), b') \<and> gb_ok mem b' \<and>
    content b' = content b @ t \<and> nul_ended b' \<and> gb_curp b' = gb_curp b"
proof -
  let ?len = "gb_data_size b - gb_tail b"
  have small: "gb_data_size b < 2 ^ 31" "length t < 2 ^ 31"
    "grown_size b (length t) < 2 ^ 31"
    using assms by (auto simp: gb_ok_def can_grow_def grown_size_def)
  from vsnprintf_truncates [OF assms(1,2,3) refl small(2)] obtain b1 where b1:
    "vsnprintf b (gb_tail b) ?len (Some t) = Some (int (length t), b1)" "gb_ok mem b1"
    "content b1 = content b" "gb_tail b1 = gb_tail b" "gb_curp b1 = gb_curp b"
    "gb_data_size b1 = gb_data_size b" "gb_max_memory_size b1 = gb_max_memory_size b" by blast
  obtain r b2 where rl: "gbuffer_realloc mem b1 (length t) = (r, b2)" by force
  have "length t < 2 ^ 62" using small by simp
  note grown = gbuffer_realloc_ok [OF assms(1) b1(2) this rl]
  have r: "r" using grown(7) assms(4) b1 by (simp add: can_grow_def grown_size_def)
  have g: "gb_data_size b2 = grown_size b (length t)"
    using grown(8) [OF r] b1 by (simp add: grown_size_def)
  have "length t < gb_data_size b2 - gb_tail b2"
    using assms(6) g grown(4) b1 by simp
  from vsnprintf_fits [OF assms(1) grown(1) this refl small(2)] obtain b' where b':
    "vsnprintf b2 (gb_tail b2) (gb_data_size b2 - gb_tail b2) (Some t) = Some (int (length t), b')"
    "gb_tail b' = gb_tail b2"
    "gb_ok mem (b'\<lparr>gb_tail := gb_tail b2 + length t\<rparr>)"
    "content (b'\<lparr>gb_tail := gb_tail b2 + length t\<rparr>) = content b2 @ t"
    "nul_ended (b'\<lparr>gb_tail := gb_tail b2 + length t\<rparr>)" "gb_curp b' = gb_curp b2" by blast
  have "sz_add (gb_tail b2) (length t) = gb_tail b2 + length t"
    using small gb_size_bound [OF assms(1) grown(1)] by (simp add: size_t_simps)
  moreover obtain len where len: "gbuffer_freebytes b = len" "?len = len"
    using gb_okD(6) [OF assms(2)] by blast
  moreover have "c_int len = int len" "\<not> length t < len"
    using small assms(3) len by auto
  moreover obtain len2 where len2: "gbuffer_freebytes b2 = len2" "gb_data_size b2 - gb_tail b2 = len2"
    using gb_okD(6) [OF grown(1)] by blast
  moreover have "c_int len2 = int len2" "length t < len2"
    using small g len2 \<open>length t < gb_data_size b2 - gb_tail b2\<close> by auto
  ultimately show ?thesis
    using b' b1(1,3,4,5) rl r grown(2,4,5)
    by (simp add: gbuffer_vprintf_def)
qed

text \<open>
  When the grown buffer has exactly as many free bytes as the text, \<open>vsnprintf\<close> still keeps one of
  them for its NUL: the last byte of the text is replaced by a NUL that counts as content.
\<close>

lemma gbuffer_vprintf_exact:
  assumes "gbmem_ok mem" "gb_ok mem b" "gb_data_size b - gb_tail b \<le> length t"
    "can_grow mem b (length t)" "max_block mem < 2 ^ 31" "t \<noteq> []"
    "length t = grown_size b (length t) - gb_tail b"
  shows "\<exists>b'. gbuffer_vprintf mem b (Some t) = Some (int (length t), b') \<and>
    content b' = content b @ butlast t @ [0]"
proof -
  let ?len = "gb_data_size b - gb_tail b"
  have small: "gb_data_size b < 2 ^ 31" "length t < 2 ^ 31"
    "grown_size b (length t) < 2 ^ 31"
    using assms by (auto simp: gb_ok_def can_grow_def grown_size_def)
  from vsnprintf_truncates [OF assms(1,2,3) refl small(2)] obtain b1 where b1:
    "vsnprintf b (gb_tail b) ?len (Some t) = Some (int (length t), b1)" "gb_ok mem b1"
    "content b1 = content b" "gb_tail b1 = gb_tail b" "gb_curp b1 = gb_curp b"
    "gb_data_size b1 = gb_data_size b" "gb_max_memory_size b1 = gb_max_memory_size b" by blast
  obtain r b2 where rl: "gbuffer_realloc mem b1 (length t) = (r, b2)" by force
  have "length t < 2 ^ 62" using small by simp
  note grown = gbuffer_realloc_ok [OF assms(1) b1(2) this rl]
  have r: "r" using grown(7) assms(4) b1 by (simp add: can_grow_def grown_size_def)
  have g: "gb_data_size b2 = grown_size b (length t)"
    using grown(8) [OF r] b1 by (simp add: grown_size_def)
  have len2: "gb_data_size b2 - gb_tail b2 = length t"
    using assms(7) g grown(4) b1 by simp
  then have "length t \<le> length t" "length t = gb_data_size b2 - gb_tail b2" by simp_all
  from vsnprintf_truncates [OF assms(1) grown(1) this small(2)] obtain b' where b':
    "vsnprintf b2 (gb_tail b2) (length t) (Some t) = Some (int (length t), b')"
    "gb_tail b' = gb_tail b2" "0 < length t \<longrightarrow>
     take (gb_tail b2 + length t) (gb_data b') = content b2 @ take (length t - 1) t @ [0]" by blast
  have "sz_add (gb_tail b2) (length t) = gb_tail b2 + length t"
    using small gb_size_bound [OF assms(1) grown(1)] by (simp add: size_t_simps)
  moreover obtain len where len: "gbuffer_freebytes b = len" "?len = len"
    using gb_okD(6) [OF assms(2)] by blast
  moreover have "c_int len = int len" "\<not> length t < len"
    using small assms(3) len by auto
  moreover have "gbuffer_freebytes b2 = length t" "c_int (length t) = int (length t)"
    using gb_okD(6) [OF grown(1)] len2 small by simp_all
  ultimately have "gbuffer_vprintf mem b (Some t) =
      Some (int (length t), b'\<lparr>gb_tail := gb_tail b2 + length t\<rparr>)"
    using b' b1(1,4) rl r grown(4) by (simp add: gbuffer_vprintf_def Let_def)
  then show ?thesis
    using b'(3) assms(6) b1(3) grown(2) by (auto simp: content_def butlast_conv_take)
qed

section \<open>Base64 and serialization round trips\<close>

lemma unat_numeral_64: "unat (64 :: byte) = 64"
  by simp

lemma b64_chars_not_nul:
  "b64_encode_loop bs target m = Some cs \<Longrightarrow> CHR 0x00 \<notin> set target \<Longrightarrow> CHR 0x00 \<notin> set cs"
proof -
  have tbl: "CHR 0x00 \<notin> set Base64_table" by (simp add: Base64_table_def)
  have out: "b64_char w \<noteq> CHR 0x00" if "w < 64" for w
    using that tbl nth_mem [of "unat w" Base64_table]
    by (metis b64_char_def length_table unat_numeral_64 word_less_nat_alt)
  have pad: "Pad64 \<noteq> CHR 0x00" by (simp add: Pad64_def)
  show "b64_encode_loop bs target m = Some cs \<Longrightarrow> CHR 0x00 \<notin> set target \<Longrightarrow> CHR 0x00 \<notin> set cs"
    by (induction bs target m arbitrary: cs rule: b64_encode_loop.induct)
      (auto simp: out [symmetric] pad [symmetric] not_sym [OF out] split: if_splits)
qed

lemma takeWhile_nul_bytes:
  assumes "CHR 0x00 \<notin> set cs"
  shows "takeWhile (\<lambda>b. b \<noteq> 0) (map byte_of_char cs @ 0 # rest) = map byte_of_char cs"
proof -
  have "\<forall>b \<in> set (map byte_of_char cs). b \<noteq> 0" using assms by auto
  then show ?thesis by (simp add: takeWhile_append2 takeWhile_tail)
qed

lemma list_blit_whole: "length ys \<le> length xs \<Longrightarrow> list_blit 0 ys xs = ys @ drop (length ys) xs"
  by (simp add: list_blit_def)

text \<open>Encoding yields a buffer whose C string is the base64 text.\<close>

lemma binary_to_base64_text:
  assumes "gbmem_ok mem" "length bs \<le> 2 ^ 61" "b64_output_encode_len (length bs) < max_block mem"
  shows "\<exists>b cs. gbuffer_binary_to_base64 mem bs = Some (Some b) \<and> gb_ok mem b \<and> gb_curp b = 0 \<and>
    b64_encode_loop bs [] (b64_output_encode_len (length bs)) = Some cs \<and>
    length cs = b64_len (length bs) \<and>
    content b = map byte_of_char cs \<and> nul_ended b \<and> c_string_at b 0 = Some cs"
proof -
  let ?n = "b64_output_encode_len (length bs)"
  obtain cs where cs: "b64_encode bs ?n = Some cs" "length cs = b64_len (length bs)"
    "b64_encode_loop bs [] ?n = Some cs"
    using b64_encode_total [of bs] assms(2) by auto
  have len: "length cs < ?n"
    using encode_len_enough [of "length bs"] assms(2) cs(2) by simp
  obtain b0 where b0: "gbuffer_create mem ?n ?n = Some b0"
    using gbuffer_create_some [OF assms(1,3)] by blast
  have "?n < size_t_mod" using assms(1,3) by (simp add: gbmem_ok_def size_t_mod_def)
  note c = gbuffer_create_ok [OF assms(1) b0 this]
  let ?w = "map byte_of_char cs @ [0]"
  define blk where "blk = list_blit 0 ?w (gb_data b0)"
  have blk: "blk = map byte_of_char cs @ 0 # drop (Suc (length cs)) (gb_data b0)"
    using len c(10) by (simp add: blk_def list_blit_whole)
  have lblk: "length blk = Suc ?n" using len c(10) by (simp add: blk)
  let ?b = "b0\<lparr>gb_data := blk, gb_tail := length cs\<rparr>"
  have nul: "blk[length cs := 0] = blk" by (simp add: blk list_update_append)
  have "gbuffer_set_wr (b0\<lparr>gb_data := blk\<rparr>) (length cs) = Some (0, ?b)"
    using len lblk c(6) nul by (simp add: gbuffer_set_wr_def poke_def)
  moreover have "copy_in b0 (gb_tail b0) ?w = Some (b0\<lparr>gb_data := blk\<rparr>)"
    using len c(8,10) by (simp add: copy_in_def blk_def)
  ultimately have run: "gbuffer_binary_to_base64 mem bs = Some (Some ?b)"
    using cs(1) b0 by (simp add: gbuffer_binary_to_base64_def Let_def)
  have "CHR 0x00 \<notin> set cs" using b64_chars_not_nul [OF cs(3)] by simp
  then have "takeWhile (\<lambda>b. b \<noteq> 0) blk = map byte_of_char cs"
    unfolding blk by (rule takeWhile_nul_bytes)
  moreover have "map char_of_byte (map byte_of_char cs) = cs" by (simp add: comp_def)
  ultimately have "c_string_at ?b 0 = Some cs"
    using lblk len by (simp add: c_string_at_def Let_def)
  moreover have "gb_ok mem ?b" using c(1,6,9) lblk len by (simp add: gb_ok_def)
  moreover have "content ?b = map byte_of_char cs" by (simp add: content_def blk)
  moreover have "nul_ended ?b" by (simp add: nul_ended_def blk nth_append)
  ultimately show ?thesis using run cs c(9) by auto
qed

text \<open>Decoding the text of an encoding yields a buffer that holds the bytes.\<close>

lemma base64_to_binary_encoded:
  assumes "gbmem_ok mem" "length bs \<le> 2 ^ 61"
    "b64_encode_loop bs [] m = Some cs" "length cs = b64_len (length bs)"
    "b64_output_decode_len (length cs) < max_block mem"
  shows "\<exists>b. gbuffer_base64_to_binary mem (Some cs) (length cs) = Some (Some b) \<and> gb_ok mem b \<and>
    content b = bs \<and> unread b = bs \<and> nul_ended b"
proof -
  let ?n = "b64_output_decode_len (length cs)"
  have room: "length bs + 2 < ?n" using decode_len_enough [OF assms(2)] assms(4) by simp
  obtain b0 where b0: "gbuffer_create mem ?n ?n = Some b0"
    using gbuffer_create_some [OF assms(1,5)] by blast
  have "?n < size_t_mod" using assms(1,5) by (simp add: gbmem_ok_def size_t_mod_def)
  note c = gbuffer_create_ok [OF assms(1) b0 this]
  have "?n \<le> length (gb_data b0)" by (simp add: c(10))
  from b64_round_trip_loop [OF assms(3) room this] obtain t' where t':
    "b64_decode cs (Some (gb_data b0)) ?n = Some (length bs, Some t')"
    "length t' = length (gb_data b0)" "take (length bs) t' = bs" by blast
  let ?b = "b0\<lparr>gb_data := t'[length bs := 0], gb_tail := length bs\<rparr>"
  have "gbuffer_set_wr (b0\<lparr>gb_data := t'\<rparr>) (length bs) = Some (0, ?b)"
    using room t'(2) c(6,10) by (simp add: gbuffer_set_wr_def poke_def)
  then have run: "gbuffer_base64_to_binary mem (Some cs) (length cs) = Some (Some ?b)"
    using b0 t'(1) by (simp add: gbuffer_base64_to_binary_def Let_def)
  have "gb_ok mem ?b" using c(1,6,9,10) t'(2) room by (simp add: gb_ok_def)
  moreover have ct: "content ?b = bs" using t'(3) by (simp add: content_def)
  moreover have "unread ?b = bs" using ct c(9) by (simp add: unread_def)
  moreover have "nul_ended ?b" using t'(2) room c(10) by (simp add: nul_ended_def)
  ultimately show ?thesis using run by blast
qed

lemma json_int_round_trip: "n < size_t_mod \<Longrightarrow> of_json_int (to_json_int n) = n"
  by (simp add: of_json_int_def to_json_int_def size_t_mod_def unsigned_of_nat take_bit_eq_mod)

text \<open>A serialized buffer: the unread bytes, the mark, and the label with NULL turned into "".\<close>

lemma gbuffer_serialize_round_trip:
  assumes "gbmem_ok mem" "gb_ok mem b" "gb_mark b < size_t_mod"
    "b64_output_encode_len (length (unread b)) < max_block mem"
    "b64_output_decode_len (b64_len (length (unread b))) < max_block mem"
  shows "\<exists>jn b'. gbuffer_serialize mem b = Some jn \<and>
    gbuffer_deserialize mem (Some jn) = Some (Some b') \<and> gb_ok mem b' \<and>
    unread b' = unread b \<and> gb_mark b' = gb_mark b \<and>
    gb_label b' = gbmem_strdup mem (Some (case gb_label b of None \<Rightarrow> [] | Some l \<Rightarrow> l))"
proof -
  have small: "length (unread b) \<le> 2 ^ 61"
    using assms(1,2) length_unread [OF assms(2)] by (auto simp: gb_ok_def gbmem_ok_def)
  obtain t cs where t: "gbuffer_binary_to_base64 mem (unread b) = Some (Some t)"
    "gb_curp t = 0" "b64_encode_loop (unread b) [] (b64_output_encode_len (length (unread b))) = Some cs"
    "length cs = b64_len (length (unread b))" "c_string_at t 0 = Some cs"
    using binary_to_base64_text [OF assms(1) small assms(4)] by blast
  let ?jn = "JObject [(''label'', JString (case gb_label b of None \<Rightarrow> [] | Some l \<Rightarrow> l)),
     (''mark'', JInt (to_json_int (gb_mark b))), (''data'', JString cs)]"
  have "bytes_at b (gb_curp b) (gbuffer_leftbytes b) = Some (unread b)"
    using bytes_at_curp [OF assms(2), of "length (unread b)"] leftbytes_unread [OF assms(2)] by simp
  then have ser: "gbuffer_serialize mem b = Some ?jn"
    using t by (simp add: gbuffer_serialize_def)
  have "b64_output_decode_len (length cs) < max_block mem" using assms(5) t(4) by simp
  from base64_to_binary_encoded [OF assms(1) small t(3,4) this] obtain b' where b':
    "gbuffer_base64_to_binary mem (Some cs) (length cs) = Some (Some b')" "gb_ok mem b'"
    "unread b' = unread b" by blast
  let ?l = "gbmem_strdup mem (Some (case gb_label b of None \<Rightarrow> [] | Some l \<Rightarrow> l))"
  let ?b = "b'\<lparr>gb_label := ?l, gb_mark := gb_mark b\<rparr>"
  have "gbuffer_deserialize mem (Some ?jn) = Some (Some ?b)"
    using b'(1) json_int_round_trip [OF assms(3)]
    by (simp add: gbuffer_deserialize_def gbuffer_setmark_def gbuffer_setlabel_def)
  moreover have "gb_ok mem ?b" "unread ?b = unread b"
    using b'(2,3) by (simp_all add: gb_ok_def unread_def content_def)
  ultimately show ?thesis
    using ser by (intro exI [of _ ?jn] exI [of _ ?b]) simp
qed

end
