(* ===== verification/Dl_List.thy ===== *)
theory Dl_List
  imports Yuneta_Prelude
begin

text \<open>
  The intrusive double linked lists of \<^verbatim>\<open>kernel/c/gobj-c/src/dl_list.c\<close> and \<^verbatim>\<open>dl_list.h\<close>, on
  an explicit store: every item and every list header lives at an address, and reading an
  address that holds nothing is \<open>None\<close> (the C program would read invalid memory). The second
  half gives the abstraction: \<open>dl_rep\<close> relates a header to the sequence of its items, and each
  operation is shown to perform the corresponding operation on sequences.
\<close>

section \<open>Data\<close>

record dl_item =
  it_prev :: "addr option"
  it_next :: "addr option"
  it_dl :: "addr option"
  it_id :: size_t

record dl_list =
  head :: "addr option"
  tail :: "addr option"
  itemsInContainer :: size_t
  last_id :: size_t

record dl_heap =
  items :: "addr \<rightharpoonup> dl_item"
  lists :: "addr \<rightharpoonup> dl_list"

definition set_item :: "addr \<Rightarrow> dl_item \<Rightarrow> dl_heap \<Rightarrow> dl_heap" where
  "set_item a i h = h\<lparr>items := (items h)(a \<mapsto> i)\<rparr>"

definition set_list :: "addr \<Rightarrow> dl_list \<Rightarrow> dl_heap \<Rightarrow> dl_heap" where
  "set_list l d h = h\<lparr>lists := (lists h)(l \<mapsto> d)\<rparr>"

text \<open>Store \<open>f\<close> of the item at \<open>a\<close> back at \<open>a\<close>: one assignment to a field of \<open>*a\<close>.\<close>

definition upd_item :: "addr \<Rightarrow> (dl_item \<Rightarrow> dl_item) \<Rightarrow> dl_heap \<Rightarrow> dl_heap option" where
  "upd_item a f h = (case items h a of None \<Rightarrow> None | Some i \<Rightarrow> Some (set_item a (f i) h))"

section \<open>Operations\<close>

text \<open>
  \<open>dl_init\<close>: a header that is not empty is a fatal error (\<open>print_error\<close> with \<open>PEF_ABORT\<close>),
  here the outcome \<open>None\<close>; otherwise the three fields are cleared and \<open>last_id\<close> is kept.
\<close>

definition dl_init :: "dl_heap \<Rightarrow> addr \<Rightarrow> (int \<times> dl_heap) option" where
  "dl_init h l = (case lists h l of
     None \<Rightarrow> None
   | Some d \<Rightarrow>
       if head d \<noteq> None \<or> tail d \<noteq> None \<or> itemsInContainer d \<noteq> 0 then None
       else Some (0, set_list l (d\<lparr>head := None, tail := None, itemsInContainer := 0\<rparr>) h))"

definition check_links :: "dl_item \<Rightarrow> bool" where
  "check_links i \<longleftrightarrow> it_prev i \<noteq> None \<or> it_next i \<noteq> None \<or> it_dl i \<noteq> None"

definition check_no_links :: "dl_item \<Rightarrow> bool" where
  "check_no_links i \<longleftrightarrow> it_dl i = None"

definition dl_first :: "dl_heap \<Rightarrow> addr \<Rightarrow> addr option option" where
  "dl_first h l = map_option head (lists h l)"

definition dl_last :: "dl_heap \<Rightarrow> addr \<Rightarrow> addr option option" where
  "dl_last h l = map_option tail (lists h l)"

definition dl_next :: "dl_heap \<Rightarrow> addr option \<Rightarrow> addr option option" where
  "dl_next h c = (case c of None \<Rightarrow> Some None | Some a \<Rightarrow> map_option it_next (items h a))"

definition dl_prev :: "dl_heap \<Rightarrow> addr option \<Rightarrow> addr option option" where
  "dl_prev h c = (case c of None \<Rightarrow> Some None | Some a \<Rightarrow> map_option it_prev (items h a))"

definition dl_size :: "dl_heap \<Rightarrow> addr option \<Rightarrow> size_t option" where
  "dl_size h l = (case l of None \<Rightarrow> Some 0 | Some a \<Rightarrow> map_option itemsInContainer (lists h a))"

text \<open>
  The last five assignments of \<open>dl_insert\<close> and \<open>dl_add\<close>: count, take the next id, label the
  item with the id and its owner.
\<close>

definition dl_register :: "dl_heap \<Rightarrow> addr \<Rightarrow> addr \<Rightarrow> dl_list \<Rightarrow> (int \<times> dl_heap) option" where
  "dl_register h l a d =
     (let d' = d\<lparr>itemsInContainer := sz_add (itemsInContainer d) 1,
                 last_id := sz_add (last_id d) 1\<rparr>
      in do {
        h' \<leftarrow> upd_item a (\<lambda>i. i\<lparr>it_id := last_id d', it_dl := Some l\<rparr>) (set_list l d' h);
        Some (0, h')
      })"

definition dl_insert :: "dl_heap \<Rightarrow> addr \<Rightarrow> addr \<Rightarrow> (int \<times> dl_heap) option" where
  "dl_insert h l a = do {
     i \<leftarrow> items h a;
     if check_links i then Some (-1, h)
     else do {
       d \<leftarrow> lists h l;
       (case head d of
          None \<Rightarrow> do {
            h1 \<leftarrow> upd_item a (\<lambda>i. i\<lparr>it_prev := None, it_next := None\<rparr>) h;
            dl_register h1 l a (d\<lparr>head := Some a, tail := Some a\<rparr>)
          }
        | Some x \<Rightarrow> do {
            h1 \<leftarrow> upd_item a (\<lambda>i. i\<lparr>it_prev := None, it_next := Some x\<rparr>) h;
            h2 \<leftarrow> upd_item x (\<lambda>i. i\<lparr>it_prev := Some a\<rparr>) h1;
            dl_register h2 l a (d\<lparr>head := Some a\<rparr>)
          })
     }
   }"

definition dl_add :: "dl_heap \<Rightarrow> addr \<Rightarrow> addr \<Rightarrow> (int \<times> dl_heap) option" where
  "dl_add h l a = do {
     i \<leftarrow> items h a;
     if check_links i then Some (-1, h)
     else do {
       d \<leftarrow> lists h l;
       (case tail d of
          None \<Rightarrow> do {
            h1 \<leftarrow> upd_item a (\<lambda>i. i\<lparr>it_prev := None, it_next := None\<rparr>) h;
            dl_register h1 l a (d\<lparr>head := Some a, tail := Some a\<rparr>)
          }
        | Some x \<Rightarrow> do {
            h1 \<leftarrow> upd_item a (\<lambda>i. i\<lparr>it_prev := Some x, it_next := None\<rparr>) h;
            h2 \<leftarrow> upd_item x (\<lambda>i. i\<lparr>it_next := Some a\<rparr>) h1;
            dl_register h2 l a (d\<lparr>tail := Some a\<rparr>)
          })
     }
   }"

text \<open>The two searches are loops over \<open>it_next\<close>; a cyclic chain would make them run for ever.\<close>

partial_function (option) dl_find_loop :: "dl_heap \<Rightarrow> addr option \<Rightarrow> addr \<Rightarrow> addr option option" where
  "dl_find_loop h cur item = (case cur of
     None \<Rightarrow> Some None
   | Some c \<Rightarrow>
       if c = item then Some (Some item)
       else (case items h c of None \<Rightarrow> None | Some i \<Rightarrow> dl_find_loop h (it_next i) item))"

definition dl_find :: "dl_heap \<Rightarrow> addr \<Rightarrow> addr \<Rightarrow> addr option option" where
  "dl_find h l item = (case lists h l of None \<Rightarrow> None | Some d \<Rightarrow> dl_find_loop h (head d) item)"

partial_function (option) dl_nfind_loop :: "dl_heap \<Rightarrow> addr option \<Rightarrow> nat \<Rightarrow> nat \<Rightarrow> addr option option" where
  "dl_nfind_loop h cur i nitem = (case cur of
     None \<Rightarrow> Some None
   | Some c \<Rightarrow>
       if i = nitem then Some (Some c)
       else (case items h c of None \<Rightarrow> None | Some it \<Rightarrow> dl_nfind_loop h (it_next it) (Suc i) nitem))"

definition dl_nfind :: "dl_heap \<Rightarrow> addr \<Rightarrow> nat \<Rightarrow> addr option option" where
  "dl_nfind h l nitem = (case lists h l of
     None \<Rightarrow> None
   | Some d \<Rightarrow>
       if nitem = 0 \<or> nitem > itemsInContainer d then Some None
       else dl_nfind_loop h (head d) 0 (nitem - 1))"

text \<open>
  The unlinking part of \<open>dl_delete\<close>: the first item is unlinked through the header, whatever
  the argument's address, as the code does.
\<close>

definition dl_unlink :: "dl_heap \<Rightarrow> addr \<Rightarrow> dl_item \<Rightarrow> dl_list \<Rightarrow> (dl_heap \<times> dl_list) option" where
  "dl_unlink h l i d = (case it_prev i of
     None \<Rightarrow> (case head d of
         None \<Rightarrow> None
       | Some x \<Rightarrow> do {
           first \<leftarrow> items h x;
           (case it_next first of
              Some y \<Rightarrow> do {
                h1 \<leftarrow> upd_item y (\<lambda>j. j\<lparr>it_prev := None\<rparr>) h;
                Some (h1, d\<lparr>head := Some y\<rparr>)
              }
            | None \<Rightarrow> Some (h, d\<lparr>head := None, tail := None\<rparr>))
         })
   | Some p \<Rightarrow> do {
       h1 \<leftarrow> upd_item p (\<lambda>j. j\<lparr>it_next := it_next i\<rparr>) h;
       (case it_next i of
          Some y \<Rightarrow> do {
            h2 \<leftarrow> upd_item y (\<lambda>j. j\<lparr>it_prev := Some p\<rparr>) h1;
            Some (h2, d)
          }
        | None \<Rightarrow> Some (h1, d\<lparr>tail := Some p\<rparr>))
     })"

definition dl_delete ::
  "dl_heap \<Rightarrow> addr \<Rightarrow> addr option \<Rightarrow> (addr \<Rightarrow> dl_heap \<Rightarrow> dl_heap) option \<Rightarrow> (int \<times> dl_heap) option" where
  "dl_delete h l cur fnfree = (case cur of
     None \<Rightarrow> Some (-1, h)
   | Some a \<Rightarrow> do {
       i \<leftarrow> items h a;
       if check_no_links i then Some (-1, h)
       else if it_dl i \<noteq> Some l then Some (-1, h)
       else do {
         d \<leftarrow> lists h l;
         if head d = None \<or> tail d = None \<or> itemsInContainer d = 0 then Some (-1, h)
         else do {
           (h1, d1) \<leftarrow> dl_unlink h l i d;
           h2 \<leftarrow> upd_item a (\<lambda>j. j\<lparr>it_prev := None, it_next := None, it_dl := None\<rparr>)
                  (set_list l (d1\<lparr>itemsInContainer := sz_sub (itemsInContainer d1) 1\<rparr>) h1);
           Some (0, case fnfree of None \<Rightarrow> h2 | Some f \<Rightarrow> f a h2)
         }
       }
     })"

definition dl_delete_item ::
  "dl_heap \<Rightarrow> addr option \<Rightarrow> (addr \<Rightarrow> dl_heap \<Rightarrow> dl_heap) option \<Rightarrow> (int \<times> dl_heap) option" where
  "dl_delete_item h cur fnfree = (case cur of
     None \<Rightarrow> Some (-1, h)
   | Some a \<Rightarrow> do {
       i \<leftarrow> items h a;
       (case it_dl i of
          None \<Rightarrow> Some (-1, h)
        | Some l \<Rightarrow> dl_delete h l (Some a) fnfree)
     })"

text \<open>\<open>dl_flush\<close> deletes the first item until there is none.\<close>

partial_function (option) dl_flush ::
  "dl_heap \<Rightarrow> addr \<Rightarrow> (addr \<Rightarrow> dl_heap \<Rightarrow> dl_heap) option \<Rightarrow> dl_heap option" where
  "dl_flush h l fnfree = (case lists h l of
     None \<Rightarrow> None
   | Some d \<Rightarrow> (case head d of
       None \<Rightarrow> Some h
     | Some x \<Rightarrow> (case dl_delete h l (Some x) fnfree of
         None \<Rightarrow> None
       | Some (r, h') \<Rightarrow> dl_flush h' l fnfree)))"


section \<open>Abstraction: the sequence of a list\<close>

text \<open>
  \<open>seg it l p xs n\<close>: the items \<open>xs\<close> are chained in this order, all owned by \<open>l\<close>, with \<open>p\<close>
  before the first one and \<open>n\<close> behind the last one.
\<close>

fun seg :: "(addr \<rightharpoonup> dl_item) \<Rightarrow> addr \<Rightarrow> addr option \<Rightarrow> addr list \<Rightarrow> addr option \<Rightarrow> bool" where
  "seg it l p [] n = True"
| "seg it l p (x # xs) n = (case it x of
     None \<Rightarrow> False
   | Some i \<Rightarrow> it_prev i = p \<and> it_next i = first_or xs n \<and> it_dl i = Some l \<and>
       seg it l (Some x) xs n)"

definition header_ok :: "dl_list \<Rightarrow> addr list \<Rightarrow> bool" where
  "header_ok d xs \<longleftrightarrow>
     head d = first_or xs None \<and> tail d = last_or None xs \<and> itemsInContainer d = length xs"

text \<open>
  The representation relation. Beyond the chain it says that the members of \<open>xs\<close> are the only
  items that name \<open>l\<close> as their owner, which is what the owner test of \<open>dl_delete\<close> relies on.
\<close>

definition dl_rep :: "dl_heap \<Rightarrow> addr \<Rightarrow> addr list \<Rightarrow> bool" where
  "dl_rep h l xs \<longleftrightarrow>
     (\<exists>d. lists h l = Some d \<and> header_ok d xs) \<and> distinct xs \<and> length xs < size_t_mod \<and>
     seg (items h) l None xs None \<and>
     (\<forall>a i. items h a = Some i \<longrightarrow> it_dl i = Some l \<longrightarrow> a \<in> set xs)"

definition free_item :: "dl_heap \<Rightarrow> addr \<Rightarrow> bool" where
  "free_item h a \<longleftrightarrow> (\<exists>i. items h a = Some i \<and> \<not> check_links i)"

lemma seg_append [simp]:
  "seg it l p (xs @ ys) n \<longleftrightarrow> seg it l p xs (first_or ys n) \<and> seg it l (last_or p xs) ys n"
  by (induction xs arbitrary: p) (auto split: option.splits)

lemma seg_frame [frame_simps]: "a \<notin> set xs \<Longrightarrow> seg (it(a := v)) l p xs n = seg it l p xs n"
  by (induction xs arbitrary: p) (auto split: option.splits)

lemma seg_owner: "seg it l p xs n \<Longrightarrow> x \<in> set xs \<Longrightarrow> \<exists>i. it x = Some i \<and> it_dl i = Some l"
  by (induction xs arbitrary: p) (auto split: option.splits)

lemma seg_cong:
  "(\<And>x. x \<in> set xs \<Longrightarrow> it' x = it x) \<Longrightarrow> seg it' l p xs n = seg it l p xs n"
  by (induction xs arbitrary: p) (auto split: option.splits)

lemma dl_rep_seg: "dl_rep h l xs \<Longrightarrow> seg (items h) l None xs None"
  and dl_rep_distinct: "dl_rep h l xs \<Longrightarrow> distinct xs"
  and dl_rep_owned:
    "dl_rep h l xs \<Longrightarrow> items h a = Some i \<Longrightarrow> it_dl i = Some l \<Longrightarrow> a \<in> set xs"
  by (auto simp: dl_rep_def)

lemma dl_rep_header:
  assumes "dl_rep h l xs"
  obtains d where "lists h l = Some d" "head d = first_or xs None" "tail d = last_or None xs"
    "itemsInContainer d = length xs" "length xs < size_t_mod"
  using assms by (auto simp: dl_rep_def header_ok_def)

lemma dl_repI:
  assumes "lists h l = Some d" "head d = first_or xs None" "tail d = last_or None xs"
    "itemsInContainer d = length xs" "distinct xs" "length xs < size_t_mod"
    "seg (items h) l None xs None"
    "\<And>a i. items h a = Some i \<Longrightarrow> it_dl i = Some l \<Longrightarrow> a \<in> set xs"
  shows "dl_rep h l xs"
  using assms by (auto simp: dl_rep_def header_ok_def)

lemma free_item_notin: "dl_rep h l xs \<Longrightarrow> free_item h a \<Longrightarrow> a \<notin> set xs"
  by (auto simp: free_item_def check_links_def dest!: dl_rep_seg dest: seg_owner)

lemma upd_item_Some [simp]: "items h a = Some i \<Longrightarrow> upd_item a f h = Some (set_item a (f i) h)"
  by (simp add: upd_item_def)

lemma set_item_sel [simp]:
  "items (set_item a i h) = (items h)(a \<mapsto> i)" "lists (set_item a i h) = lists h"
  by (simp_all add: set_item_def)

lemma set_list_sel [simp]:
  "lists (set_list l d h) = (lists h)(l \<mapsto> d)" "items (set_list l d h) = items h"
  by (simp_all add: set_list_def)

section \<open>Insertion at either end\<close>

lemma dl_add_empty:
  assumes rep: "dl_rep h l []" and fr: "free_item h a"
  shows "\<exists>h'. dl_add h l a = Some (0, h') \<and> dl_rep h' l [a]"
proof -
  from fr obtain i where i: "items h a = Some i" "\<not> check_links i"
    by (auto simp: free_item_def)
  from rep obtain d where d: "lists h l = Some d" "head d = None" "tail d = None"
      "itemsInContainer d = 0"
    by (rule dl_rep_header) simp
  have one: "sz_add 0 (Suc 0) = Suc 0" by (simp add: sz_add_def size_t_mod_def)
  have own: "b = a" if "items h b = Some j" "it_dl j = Some l" for b j
    using dl_rep_owned [OF rep that] by simp
  show ?thesis
    using i d
    by (auto simp: dl_add_def dl_register_def Let_def one size_t_mod_def dest: own
        intro!: dl_repI split: if_splits)
qed

lemma dl_add_nonempty:
  assumes rep: "dl_rep h l (ys @ [z])" and fr: "free_item h a"
    and room: "Suc (length (ys @ [z])) < size_t_mod"
  shows "\<exists>h'. dl_add h l a = Some (0, h') \<and> dl_rep h' l (ys @ [z, a])"
proof -
  from fr obtain i where i: "items h a = Some i" "\<not> check_links i"
    by (auto simp: free_item_def)
  have nin: "a \<notin> set ys" "a \<noteq> z"
    using free_item_notin [OF rep fr] by auto
  from rep obtain d where d: "lists h l = Some d" "head d = first_or (ys @ [z]) None"
      "tail d = Some z" "itemsInContainer d = Suc (length ys)"
    by (rule dl_rep_header) simp
  have s: "seg (items h) l None ys (Some z)" "seg (items h) l (last_or None ys) [z] None"
    using dl_rep_seg [OF rep] by simp_all
  then obtain k where k: "items h z = Some k" "it_prev k = last_or None ys" "it_dl k = Some l"
    by (auto split: option.splits)
  have dist: "distinct ys" "z \<notin> set ys"
    using dl_rep_distinct [OF rep] by auto
  have own: "b \<in> set ys \<or> b = z" if "items h b = Some j" "it_dl j = Some l" for b j
    using dl_rep_owned [OF rep that] by auto
  have cnt: "sz_add (Suc (length ys)) (Suc 0) = Suc (Suc (length ys))"
    using room by (simp add: size_t_simps)
  have hd: "first_or (ys @ [z, a]) None = first_or (ys @ [z]) None" by simp
  show ?thesis
    using i d k s nin dist room
    by (auto simp: dl_add_def dl_register_def Let_def cnt frame_simps dest: own
        intro!: dl_repI split: if_splits)
qed

theorem dl_add_refines:
  assumes "dl_rep h l xs" "free_item h a" "Suc (length xs) < size_t_mod"
  shows "\<exists>h'. dl_add h l a = Some (0, h') \<and> dl_rep h' l (xs @ [a])"
  using assms dl_add_empty dl_add_nonempty by (cases xs rule: rev_cases) auto

theorem dl_insert_refines:
  assumes rep: "dl_rep h l xs" and fr: "free_item h a" and room: "Suc (length xs) < size_t_mod"
  shows "\<exists>h'. dl_insert h l a = Some (0, h') \<and> dl_rep h' l (a # xs)"
proof -
  from fr obtain i where i: "items h a = Some i" "\<not> check_links i"
    by (auto simp: free_item_def)
  have nin: "a \<notin> set xs"
    using free_item_notin [OF rep fr] .
  from rep obtain d where d: "lists h l = Some d" "head d = first_or xs None"
      "tail d = last_or None xs" "itemsInContainer d = length xs"
    by (rule dl_rep_header)
  note s = dl_rep_seg [OF rep] and dist = dl_rep_distinct [OF rep]
  have own: "b \<in> set xs" if "items h b = Some j" "it_dl j = Some l" for b j
    using dl_rep_owned [OF rep that] .
  have cnt: "sz_add (length xs) (Suc 0) = Suc (length xs)"
    using room by (simp add: size_t_simps)
  show ?thesis
  proof (cases xs)
    case Nil
    then show ?thesis
      using i d cnt room own
      by (auto simp: dl_insert_def dl_register_def Let_def intro!: dl_repI split: if_splits)
  next
    case (Cons y ys)
    with s obtain k where k: "items h y = Some k" "it_next k = first_or ys None" "it_dl k = Some l"
        "seg (items h) l (Some y) ys None"
      by (auto split: option.splits)
    have own': "b = y \<or> b \<in> set ys" if "items h b = Some j" "it_dl j = Some l" for b j
      using own [OF that] Cons by simp
    show ?thesis
      using i d cnt room nin dist k Cons
      by (auto simp: dl_insert_def dl_register_def Let_def frame_simps dest: own'
          intro!: dl_repI split: if_splits)
  qed
qed


lemma dl_add_linked:
  "items h a = Some i \<Longrightarrow> check_links i \<Longrightarrow> dl_add h l a = Some (-1, h)"
  and dl_insert_linked:
  "items h a = Some i \<Longrightarrow> check_links i \<Longrightarrow> dl_insert h l a = Some (-1, h)"
  by (simp_all add: dl_add_def dl_insert_def)

section \<open>Deletion\<close>

text \<open>Unlinking from the head of the chain, and from behind a predecessor.\<close>

lemma dl_unlink_first:
  assumes "seg (items h) l None (a # bs) None" "distinct (a # bs)" "items h a = Some i"
    "head d = Some a" "tail d = last_or None (a # bs)"
  shows "\<exists>h' d'. dl_unlink h l i d = Some (h', d') \<and> lists h' = lists h \<and>
    seg (items h') l None bs None \<and> head d' = first_or bs None \<and> tail d' = last_or None bs \<and>
    itemsInContainer d' = itemsInContainer d \<and> items h' a = Some i \<and>
    (\<forall>b. map_option it_dl (items h' b) = map_option it_dl (items h b))"
proof (cases bs)
  case Nil
  with assms show ?thesis by (auto simp: dl_unlink_def)
next
  case (Cons b cs)
  with assms obtain j where "items h b = Some j" "it_next j = first_or cs None"
      "it_dl j = Some l" "seg (items h) l (Some b) cs None"
    by (auto split: option.splits)
  with assms Cons show ?thesis
    by (auto simp: dl_unlink_def frame_simps)
qed

lemma dl_unlink_behind:
  assumes sg: "seg (items h) l None (as @ [p] @ a # bs) None"
    and dist: "distinct (as @ [p] @ a # bs)" and i: "items h a = Some i"
    and hd: "head d = first_or (as @ [p] @ a # bs) None"
    and tl: "tail d = last_or None (as @ [p] @ a # bs)"
  shows "\<exists>h' d'. dl_unlink h l i d = Some (h', d') \<and> lists h' = lists h \<and>
    seg (items h') l None (as @ [p] @ bs) None \<and> head d' = first_or (as @ [p] @ bs) None \<and>
    tail d' = last_or None (as @ [p] @ bs) \<and>
    itemsInContainer d' = itemsInContainer d \<and> items h' a = Some i \<and>
    (\<forall>b. map_option it_dl (items h' b) = map_option it_dl (items h b))"
proof -
  from sg obtain k where k: "items h p = Some k" "it_prev k = last_or None as" "it_dl k = Some l"
      "seg (items h) l None as (Some p)"
    by (auto split: option.splits)
  have ip: "it_prev i = Some p" "it_next i = first_or bs None" "seg (items h) l (Some a) bs None"
    using sg i k(1) by auto
  show ?thesis
  proof (cases bs)
    case Nil
    with ip k i dist hd tl show ?thesis
      by (auto simp: dl_unlink_def frame_simps)
  next
    case (Cons b cs)
    with ip obtain j where "items h b = Some j" "it_next j = first_or cs None"
        "it_dl j = Some l" "seg (items h) l (Some b) cs None"
      by (auto split: option.splits)
    with Cons ip k i dist hd tl show ?thesis
      by (auto simp: dl_unlink_def frame_simps)
  qed
qed

lemma dl_unlink_rep:
  assumes sg: "seg (items h) l None (as @ a # bs) None"
    and dist: "distinct (as @ a # bs)" and i: "items h a = Some i"
    and hd: "head d = first_or (as @ a # bs) None" and tl: "tail d = last_or None (as @ a # bs)"
  shows "\<exists>h' d'. dl_unlink h l i d = Some (h', d') \<and> lists h' = lists h \<and>
    seg (items h') l None (as @ bs) None \<and> head d' = first_or (as @ bs) None \<and>
    tail d' = last_or None (as @ bs) \<and>
    itemsInContainer d' = itemsInContainer d \<and> items h' a = Some i \<and>
    (\<forall>b. map_option it_dl (items h' b) = map_option it_dl (items h b))"
proof (cases as rule: rev_cases)
  case Nil
  then show ?thesis using dl_unlink_first [of h l a bs i d] assms by simp
next
  case (snoc as' p)
  then show ?thesis using dl_unlink_behind [of h l as' p a bs i d] assms by simp
qed

text \<open>
  \<open>dl_delete\<close> removes exactly the given member, leaves the order of the others, and hands the
  unlinked item to the destructor when there is one.
\<close>

definition frees_only :: "(addr \<Rightarrow> dl_heap \<Rightarrow> dl_heap) option \<Rightarrow> bool" where
  "frees_only fn \<longleftrightarrow> (case fn of None \<Rightarrow> True
     | Some f \<Rightarrow> \<forall>a h. lists (f a h) = lists h \<and> (\<forall>b. b \<noteq> a \<longrightarrow> items (f a h) b = items h b) \<and>
         (\<forall>i. items (f a h) a = Some i \<longrightarrow> it_dl i = None))"

lemma dl_delete_unfreed:
  assumes rep: "dl_rep h l xs" and mem: "a \<in> set xs"
  shows "\<exists>h'. dl_delete h l (Some a) fn = Some (0, case fn of None \<Rightarrow> h' | Some f \<Rightarrow> f a h') \<and>
    dl_rep h' l (remove1 a xs) \<and> free_item h' a"
proof -
  from mem dl_rep_distinct [OF rep] obtain as bs where xs: "xs = as @ a # bs"
      and nin: "a \<notin> set as" "a \<notin> set bs"
    by (rule distinct_mem_splitE)
  from rep obtain d where d: "lists h l = Some d" "head d = first_or xs None"
      "tail d = last_or None xs" "itemsInContainer d = length xs" "length xs < size_t_mod"
    by (rule dl_rep_header)
  obtain i where i: "items h a = Some i" "it_dl i = Some l"
    using seg_owner [OF dl_rep_seg [OF rep] mem] by auto
  obtain h1 d1 where u: "dl_unlink h l i d = Some (h1, d1)" "lists h1 = lists h"
      "seg (items h1) l None (as @ bs) None" "head d1 = first_or (as @ bs) None"
      "tail d1 = last_or None (as @ bs)" "itemsInContainer d1 = itemsInContainer d"
      "items h1 a = Some i" "\<And>b. map_option it_dl (items h1 b) = map_option it_dl (items h b)"
    using dl_unlink_rep [of h l as a bs i d] dl_rep_seg [OF rep] dl_rep_distinct [OF rep] i d
    unfolding xs by blast
  have own: "b \<in> set as \<or> b = a \<or> b \<in> set bs" if "items h1 b = Some j" "it_dl j = Some l" for b j
    using u(8) [of b] that dl_rep_owned [OF rep, of b] xs by (cases "items h b") auto
  have ne: "head d \<noteq> None" "tail d \<noteq> None" "itemsInContainer d \<noteq> 0"
    using d xs by (simp_all del: not_None_eq)
  let ?h = "set_item a (i\<lparr>it_prev := None, it_next := None, it_dl := None\<rparr>)
     (set_list l (d1\<lparr>itemsInContainer := sz_sub (itemsInContainer d1) 1\<rparr>) h1)"
  have "dl_delete h l (Some a) fn = Some (0, case fn of None \<Rightarrow> ?h | Some f \<Rightarrow> f a ?h)"
    using i d(1) ne u(1,7)
    by (simp add: dl_delete_def check_no_links_def split: option.split)
  moreover have "dl_rep ?h l (remove1 a xs)"
    unfolding xs remove1_split [OF nin(1)]
    using u d nin dl_rep_distinct [OF rep] xs
    by (auto simp: size_t_simps frame_simps dest: own intro!: dl_repI split: if_splits)
  moreover have "free_item ?h a"
    by (simp add: free_item_def check_links_def)
  ultimately show ?thesis by blast
qed

lemma dl_rep_frees_only:
  assumes rep: "dl_rep h l xs" and nin: "a \<notin> set xs" and f: "frees_only (Some f)"
  shows "dl_rep (f a h) l xs"
proof -
  have same: "items (f a h) b = items h b" if "b \<noteq> a" for b
    using f that by (simp add: frees_only_def)
  have "seg (items (f a h)) l None xs None"
    using seg_cong [of xs "items (f a h)" "items h"] same nin dl_rep_seg [OF rep] by metis
  moreover have "b \<in> set xs" if "items (f a h) b = Some i" "it_dl i = Some l" for b i
    using f that same [of b] dl_rep_owned [OF rep, of b i]
    by (cases "b = a") (auto simp: frees_only_def)
  ultimately show ?thesis
    using rep f by (auto simp: dl_rep_def frees_only_def)
qed

theorem dl_delete_refines:
  assumes "dl_rep h l xs" "a \<in> set xs" "frees_only fn"
  shows "\<exists>h'. dl_delete h l (Some a) fn = Some (0, h') \<and> dl_rep h' l (remove1 a xs)"
proof (cases fn)
  case None
  with dl_delete_unfreed [OF assms(1,2), of fn] show ?thesis by auto
next
  case (Some f)
  from dl_delete_unfreed [OF assms(1,2), of fn] obtain h'
    where h': "dl_delete h l (Some a) fn = Some (0, f a h')" "dl_rep h' l (remove1 a xs)"
    using Some by auto
  have "a \<notin> set (remove1 a xs)"
    using dl_rep_distinct [OF assms(1)] by simp
  with h' Some assms(3) show ?thesis
    by (auto intro: dl_rep_frees_only)
qed

lemma dl_delete_not_member:
  assumes rep: "dl_rep h l xs" and a: "items h a = Some i" and nin: "a \<notin> set xs"
  shows "dl_delete h l (Some a) fn = Some (-1, h)"
proof -
  have "it_dl i \<noteq> Some l"
    using dl_rep_owned [OF rep a] nin by blast
  then show ?thesis
    using a by (simp add: dl_delete_def check_no_links_def)
qed


section \<open>Searching and flushing\<close>

lemma dl_find_loop_seg:
  "seg (items h) l p xs None \<Longrightarrow>
   dl_find_loop h (first_or xs None) x = Some (if x \<in> set xs then Some x else None)"
proof (induction xs arbitrary: p)
  case Nil
  then show ?case by (subst dl_find_loop.simps) simp
next
  case (Cons y ys)
  then obtain i where "items h y = Some i" "it_next i = first_or ys None"
      "seg (items h) l (Some y) ys None"
    by (auto split: option.splits)
  with Cons.IH show ?case by (subst dl_find_loop.simps) simp
qed

theorem dl_find_refines:
  assumes "dl_rep h l xs"
  shows "dl_find h l x = Some (if x \<in> set xs then Some x else None)"
proof -
  from assms obtain d where "lists h l = Some d" "head d = first_or xs None"
    by (rule dl_rep_header)
  then show ?thesis
    using dl_find_loop_seg [OF dl_rep_seg [OF assms]] by (simp add: dl_find_def)
qed

lemma dl_nfind_loop_seg:
  "seg (items h) l p xs None \<Longrightarrow> i \<le> n \<Longrightarrow>
   dl_nfind_loop h (first_or xs None) i n = Some (if n < i + length xs then Some (xs ! (n - i)) else None)"
proof (induction xs arbitrary: p i)
  case Nil
  then show ?case by (subst dl_nfind_loop.simps) simp
next
  case (Cons x xs)
  then obtain it where it: "items h x = Some it" "it_next it = first_or xs None"
      "seg (items h) l (Some x) xs None"
    by (auto split: option.splits)
  show ?case
  proof (cases "i = n")
    case True
    then show ?thesis by (subst dl_nfind_loop.simps) simp
  next
    case False
    with Cons.prems have le: "Suc i \<le> n" and "n - i = Suc (n - Suc i)" by simp_all
    then show ?thesis
      using Cons.IH [OF it(3) le] it False
      by (subst dl_nfind_loop.simps) simp
  qed
qed

theorem dl_nfind_refines:
  assumes "dl_rep h l xs"
  shows "dl_nfind h l n = Some (if 1 \<le> n \<and> n \<le> length xs then Some (xs ! (n - 1)) else None)"
proof -
  from assms obtain d where "lists h l = Some d" "head d = first_or xs None"
      "itemsInContainer d = length xs"
    by (rule dl_rep_header)
  then show ?thesis
    using dl_nfind_loop_seg [OF dl_rep_seg [OF assms], of 0 "n - 1"]
    by (auto simp: dl_nfind_def)
qed

text \<open>The loop of \<open>dl_flush\<close> ends on every well-formed list and leaves it empty.\<close>

theorem dl_flush_refines:
  assumes "dl_rep h l xs" and "frees_only fn"
  shows "\<exists>h'. dl_flush h l fn = Some h' \<and> dl_rep h' l []"
  using assms(1)
proof (induction xs arbitrary: h)
  case Nil
  from Nil obtain d where "lists h l = Some d" "head d = None"
    by (rule dl_rep_header) simp
  with Nil show ?case by (subst dl_flush.simps) simp
next
  case (Cons x xs)
  from Cons.prems obtain d where d: "lists h l = Some d" "head d = Some x"
    by (rule dl_rep_header) simp
  from dl_delete_refines [OF Cons.prems _ assms(2), of x] obtain h1
    where h1: "dl_delete h l (Some x) fn = Some (0, h1)" "dl_rep h1 l xs"
    by auto
  from Cons.IH [OF h1(2)] d h1(1) show ?case
    by (subst dl_flush.simps) simp
qed

section \<open>Separation of lists\<close>

text \<open>An operation on one list leaves every other list of the store as it was.\<close>

lemma dl_rep_other:
  assumes rep: "dl_rep h l' ys"
    and same: "\<And>b. b \<in> set ys \<Longrightarrow> items h' b = items h b"
    and own: "\<And>b i. b \<notin> set ys \<Longrightarrow> items h' b = Some i \<Longrightarrow> it_dl i \<noteq> Some l'"
    and hdr: "lists h' l' = lists h l'"
  shows "dl_rep h' l' ys"
  using rep own hdr seg_cong [of ys "items h'" "items h", OF same]
  by (auto simp: dl_rep_def)

text \<open>The exact effect of \<open>dl_add\<close> on the store.\<close>

lemma dl_add_effect:
  assumes add: "dl_add h l a = Some (r, h')" and d: "lists h l = Some d" and fr: "free_item h a"
  shows "r = 0"
    and "lists h' = (lists h)(l \<mapsto> d\<lparr>head := (if tail d = None then Some a else head d),
      tail := Some a, itemsInContainer := sz_add (itemsInContainer d) 1,
      last_id := sz_add (last_id d) 1\<rparr>)"
    and "\<And>b. b \<noteq> a \<Longrightarrow> tail d \<noteq> Some b \<Longrightarrow> items h' b = items h b"
    and "\<And>b. b \<noteq> a \<Longrightarrow> map_option it_id (items h' b) = map_option it_id (items h b)"
    and "map_option it_id (items h' a) = Some (sz_add (last_id d) 1)"
proof -
  from fr obtain i where i: "items h a = Some i" "\<not> check_links i"
    by (auto simp: free_item_def)
  have "r = 0 \<and>
    lists h' = (lists h)(l \<mapsto> d\<lparr>head := (if tail d = None then Some a else head d),
      tail := Some a, itemsInContainer := sz_add (itemsInContainer d) 1,
      last_id := sz_add (last_id d) 1\<rparr>) \<and>
    (\<forall>b. b \<noteq> a \<longrightarrow> tail d \<noteq> Some b \<longrightarrow> items h' b = items h b) \<and>
    (\<forall>b. b \<noteq> a \<longrightarrow> map_option it_id (items h' b) = map_option it_id (items h b)) \<and>
    map_option it_id (items h' a) = Some (sz_add (last_id d) 1)"
  proof (cases "tail d")
    case None
    with add d i show ?thesis by (auto simp: dl_add_def dl_register_def Let_def)
  next
    case (Some x)
    let ?h1 = "set_item a (i\<lparr>it_prev := Some x, it_next := None\<rparr>) h"
    from Some add d i obtain k where k: "items ?h1 x = Some k"
      by (cases "items ?h1 x") (auto simp: dl_add_def upd_item_def [of x])
    obtain k' where k': "items (set_item x (k\<lparr>it_next := Some a\<rparr>) ?h1) a = Some k'"
      by (cases "a = x") simp_all
    from Some add d i k k' show ?thesis
      by (auto simp: dl_add_def dl_register_def Let_def)
  qed
  then show "r = 0"
    and "lists h' = (lists h)(l \<mapsto> d\<lparr>head := (if tail d = None then Some a else head d),
      tail := Some a, itemsInContainer := sz_add (itemsInContainer d) 1,
      last_id := sz_add (last_id d) 1\<rparr>)"
    and "\<And>b. b \<noteq> a \<Longrightarrow> tail d \<noteq> Some b \<Longrightarrow> items h' b = items h b"
    and "\<And>b. b \<noteq> a \<Longrightarrow> map_option it_id (items h' b) = map_option it_id (items h b)"
    and "map_option it_id (items h' a) = Some (sz_add (last_id d) 1)"
    by blast+
qed

theorem dl_add_separate:
  assumes rep: "dl_rep h l xs" and other: "dl_rep h l' ys" and "l \<noteq> l'"
    and fr: "free_item h a" and room: "Suc (length xs) < size_t_mod"
    and add: "dl_add h l a = Some (r, h')"
  shows "dl_rep h' l' ys"
proof (rule dl_rep_other [OF other])
  from dl_add_refines [OF rep fr room] add have rep': "dl_rep h' l (xs @ [a])" by auto
  from rep obtain d where d: "lists h l = Some d" "tail d = last_or None xs"
    by (rule dl_rep_header)
  have tl: "b \<in> set xs" if "tail d = Some b" for b
    using that d(2) by (auto simp: last_or_def split: if_splits)
  have new: "it_dl i = Some l" if "b \<in> set (xs @ [a])" "items h' b = Some i" for b i
    using seg_owner [OF dl_rep_seg [OF rep'] that(1)] that(2) by auto
  show same: "items h' b = items h b" if "b \<in> set ys" for b
  proof -
    obtain i where i: "items h b = Some i" "it_dl i = Some l'"
      using seg_owner [OF dl_rep_seg [OF other]] \<open>b \<in> set ys\<close> by auto
    have "b \<noteq> a" using free_item_notin [OF other fr] that by auto
    moreover have "tail d \<noteq> Some b"
      using seg_owner [OF dl_rep_seg [OF rep], of b] tl i \<open>l \<noteq> l'\<close> by auto
    ultimately show ?thesis by (rule dl_add_effect(3) [OF add d(1) fr])
  qed
  show "it_dl i \<noteq> Some l'" if "b \<notin> set ys" "items h' b = Some i" for b i
  proof (cases "b \<in> set (xs @ [a])")
    case True
    with new that \<open>l \<noteq> l'\<close> show ?thesis by auto
  next
    case False
    with tl have "items h' b = items h b" using dl_add_effect(3) [OF add d(1) fr] by auto
    with that dl_rep_owned [OF other] show ?thesis by auto
  qed
  show "lists h' l' = lists h l'"
    using dl_add_effect(2) [OF add d(1) fr] \<open>l \<noteq> l'\<close> by simp
qed

section \<open>Identifiers\<close>

text \<open>
  Every insertion labels the item with the next id of the list, so on a list that is only
  appended to, and whose counter has not wrapped around, the ids grow along the chain. This is
  the property \<open>gobj_deliver_posted_events\<close> uses to mark its snapshot.
\<close>

definition ids_ascending :: "dl_heap \<Rightarrow> addr \<Rightarrow> addr list \<Rightarrow> bool" where
  "ids_ascending h l xs \<longleftrightarrow>
     sorted_wrt (<) (map (\<lambda>a. it_id (the (items h a))) xs) \<and>
     (\<forall>d a. lists h l = Some d \<longrightarrow> a \<in> set xs \<longrightarrow> it_id (the (items h a)) \<le> last_id d)"

theorem dl_add_ids_ascending:
  assumes rep: "dl_rep h l xs" and fr: "free_item h a" and d: "lists h l = Some d"
    and asc: "ids_ascending h l xs" and room: "Suc (last_id d) < size_t_mod"
    and add: "dl_add h l a = Some (0, h')"
  shows "ids_ascending h' l (xs @ [a])"
proof -
  have nin: "a \<notin> set xs" using free_item_notin [OF rep fr] .
  have inc: "sz_add (last_id d) 1 = Suc (last_id d)"
    using room by (simp add: size_t_simps)
  have old: "it_id (the (items h' b)) = it_id (the (items h b))" if "b \<in> set xs" for b
  proof -
    have "b \<noteq> a" using that nin by auto
    then have "map_option it_id (items h' b) = map_option it_id (items h b)"
      by (rule dl_add_effect(4) [OF add d fr])
    moreover obtain i where "items h b = Some i"
      using seg_owner [OF dl_rep_seg [OF rep]] \<open>b \<in> set xs\<close> by auto
    ultimately show ?thesis by auto
  qed
  have new: "it_id (the (items h' a)) = Suc (last_id d)"
    using dl_add_effect(5) [OF add d fr] inc by auto
  have last: "last_id d' = Suc (last_id d)" if "lists h' l = Some d'" for d'
    using dl_add_effect(2) [OF add d fr] inc that by auto
  have le: "it_id (the (items h b)) \<le> last_id d" if "b \<in> set xs" for b
    using asc d that by (auto simp: ids_ascending_def)
  have same: "map (\<lambda>b. it_id (the (items h' b))) xs = map (\<lambda>b. it_id (the (items h b))) xs"
    using old by simp
  have "sorted_wrt (<) (map (\<lambda>b. it_id (the (items h' b))) xs)"
    unfolding same using asc by (simp add: ids_ascending_def)
  then have "sorted_wrt (<) (map (\<lambda>b. it_id (the (items h' b))) (xs @ [a]))"
    using new le old by (simp add: sorted_wrt_append less_Suc_eq_le)
  then show ?thesis
    using old new last le by (auto simp: ids_ascending_def le_SucI)
qed

end
