(* ===== verification/Data_Properties.thy ===== *)
theory Data_Properties
  imports Demo_System GBuffer Dl_List
begin

text \<open>
  The main properties of gclasses, message dictionaries, json values, base64 and buffers, and doubly linked
  lists, each applied to a concrete case. Their proofs are in the theories of the components.
\<close>

section \<open>Gclasses\<close>

text \<open>C13: The check of a gclass returns 0 exactly for well-formed state machines: there is a state, every
  transition is for a defined event and leads to an existing state, and every input event is handled in
  some state. Otherwise it is negative.\<close>

theorem check_decides_fsm:
  "gclass_check_fsm gc \<le> 0 \<and> (gclass_check_fsm gc = 0 \<longleftrightarrow> fsm_ok gc)"
  by (rule gclass_check_fsm_iff)

text \<open>C14: A gclass that is created is registered under a new name, is well-formed and has no instance yet;
  a creation that fails leaves the register as it was.\<close>

theorem created_gclass_is_registered:
  assumes "registry_ok reg" and "gclass_create initialized reg nm evs sts ms attrs flag = (r, reg')"
  shows "registry_ok reg' \<and> (case r of None \<Rightarrow> reg' = reg
    | Some gc \<Rightarrow> reg' = reg @ [gc] \<and> gclass_name gc = nm \<and> nm \<notin> gclass_name ` set reg \<and> fsm_ok gc \<and>
        instances gc = 0)"
proof (cases r)
  case None
  then have "reg' = reg"
    using assms(2) by (auto simp: gclass_create_def Let_def split: if_splits option.splits)
  then show ?thesis using None assms(1) by simp
next
  case (Some gc)
  then show ?thesis
    using gclass_create_some [of initialized reg nm evs sts ms attrs flag gc reg'] assms
      gclass_create_registry [OF assms] by (simp add: gclass_ok_def)
qed

lemma demo_creation: "map_option instances (fst (gclass_create True [] ''C_DEMO'' (dl_events demo_gclass)
    [(ST_IDLE, [(EV_GO, Some 0, Some ST_BUSY)]), (ST_BUSY, [(EV_GO, Some 1, None)])] [] [] 0)) = Some 0"
  by code_simp

theorem created_gclass_is_registered_witness:
  "\<exists>gc. gclass_create True [] ''C_DEMO'' (dl_events demo_gclass)
      [(ST_IDLE, [(EV_GO, Some 0, Some ST_BUSY)]), (ST_BUSY, [(EV_GO, Some 1, None)])] [] [] 0 =
      (Some gc, [gc]) \<and> fsm_ok gc"
proof -
  obtain r reg' where c: "gclass_create True [] ''C_DEMO'' (dl_events demo_gclass)
      [(ST_IDLE, [(EV_GO, Some 0, Some ST_BUSY)]), (ST_BUSY, [(EV_GO, Some 1, None)])] [] [] 0 = (r, reg')"
    by (rule prod.exhaust)
  with demo_creation obtain gc where r: "r = Some gc" by auto
  have "registry_ok []" by (simp add: registry_ok_def)
  from created_gclass_is_registered [OF this c] show ?thesis unfolding c r by simp
qed

text \<open>C15: The loop that empties the register when the program ends comes to its end exactly when no
  gclass has an instance left; with one instance left it runs for ever.\<close>

theorem registry_empties_without_instances:
  "(\<exists>fuel. unregister_all fuel reg = Some []) \<longleftrightarrow> (\<forall>gc \<in> set reg. instances gc \<le> 0)"
  using unregister_all_empties unregister_all_stuck by (metis not_le option.distinct(1))

theorem registry_empties_without_instances_witness: "\<not> (\<exists>fuel. unregister_all fuel [demo_gclass] = Some [])"
  unfolding registry_empties_without_instances by (simp add: demo_gclass_def)

section \<open>Message dictionaries\<close>



text \<open>A value that is already there is not replaced: setting under a path that leads to a value
  changes nothing.\<close>

theorem set_keeps_existing_value:
  assumes "\<forall>s \<in> set ss. plain s \<and> s \<noteq> []" and "path_get (Some (JObject ps)) ss = Some y"
  shows "kw_set_dict_value (Some (JObject ps)) (join_path ss) v = (0, Some (JObject ps))"
  using assms set_dict_loop_existing by (simp add: kw_set_dict_value_def split2_join)

theorem set_keeps_existing_value_witness:
  "kw_set_dict_value (Some (JObject [(''a'', JInt 1)])) (join_path [''a'']) (Some (JInt 2)) =
    (0, Some (JObject [(''a'', JInt 1)]))"
  by (rule set_keeps_existing_value [where y = "JInt 1"])
    (simp_all add: plain_def delimiter_def segment_size_def path_step_def)

text \<open>C17: A flat filter matches a message exactly when every key of the filter is in the message with a
  simple value equal to the filter's.\<close>

theorem flat_filter_matches:
  assumes "fs \<noteq> []" and "\<forall>(k, v) \<in> set fs. leaf v \<and> plain k \<and> length k < match_path_size"
  shows "kw_match_simple lc (Some (JObject ps)) (Some (JObject fs)) \<longleftrightarrow>
    (\<forall>(k, v) \<in> set fs. \<exists>r. map_of ps k = Some r \<and> cmp_two_simple_json lc (Some r) (Some v) = 0)"
  using match_all_flat [OF assms(2)] assms(1)
  by (cases fs) (simp_all add: kw_match_simple_def kw_match_rec.simps del: match_all.simps)

theorem flat_filter_matches_witness:
  "\<not> kw_match_simple demo_libc (Some (JObject [(''id'', JInt 1)])) (Some (JObject [(''x'', JInt 1)]))"
  using flat_filter_matches [of "[(''x'', JInt 1)]" demo_libc "[(''id'', JInt 1)]"]
  by (simp add: leaf_def plain_def delimiter_def segment_size_def match_path_size_def)

section \<open>Json\<close>

text \<open>Comparing json values is reflexive and symmetric on values whose objects have no repeated key,
  and two objects are equal exactly when they have the same keys with equal values, in any order.\<close>

theorem json_comparison:
  assumes "json_ok j" "json_ok j'" "json_ok (JObject ps)" "json_ok (JObject qs)"
  shows "json_equal j j \<and> json_equal j j' = json_equal j' j \<and>
    json_equal (JObject ps) (JObject qs) = (dom (map_of ps) = dom (map_of qs) \<and>
      (\<forall>k v w. map_of ps k = Some v \<longrightarrow> map_of qs k = Some w \<longrightarrow> json_equal v w))"
  using json_equal_refl [OF assms(1)] json_equal_sym [OF assms(1,2)] json_equal_sym [OF assms(2,1)]
    json_equal_objects [OF assms(3,4)] by blast

theorem json_comparison_witness:
  "json_equal (JObject [(''a'', JInt 1), (''b'', JNull)]) (JObject [(''b'', JNull), (''a'', JInt 1)])"
proof -
  let ?p = "[(''a'', JInt 1), (''b'', JNull)]" and ?q = "[(''b'', JNull), (''a'', JInt 1)]"
  have "json_ok (JObject ?p)" "json_ok (JObject ?q)" by simp_all
  from json_comparison [OF this this] show ?thesis by auto
qed

text \<open>Adding a list to a list as sets keeps the first list in front, appends only elements of the
  second, never makes two elements equal, and every element of the second is then in it.\<close>

theorem list_update_is_union:
  assumes "json_set xs" and "\<forall>v \<in> set vs. json_ok v"
  shows "\<exists>ys. json_list_update (JArray xs) (JArray vs) True = (0, JArray (xs @ ys)) \<and>
    json_set (xs @ ys) \<and> set ys \<subseteq> set vs \<and> (\<forall>v \<in> set vs. \<exists>x \<in> set (xs @ ys). json_equal x v)"
  using list_update_loop_set [OF assms] by (auto simp: json_list_update_def)

theorem list_update_is_union_witness:
  "\<exists>ys. json_list_update (JArray [JInt 1]) (JArray [JInt 2, JInt 1]) True = (0, JArray ([JInt 1] @ ys)) \<and>
    set ys \<subseteq> {JInt 2, JInt 1}"
proof -
  have "json_set [JInt 1]" "\<forall>v \<in> set [JInt 2, JInt 1]. json_ok v" by (simp_all add: json_set_def)
  from list_update_is_union [OF this] show ?thesis by auto
qed

section \<open>Base64 and buffers\<close>

text \<open>C18: Encoding bytes as base64 and decoding the text gives the bytes back, with the block sizes the
  two size functions compute, for every length the program can allocate.\<close>

theorem base64_round_trip:
  assumes "length bs \<le> 2 ^ 61"
  shows "\<exists>cs t. b64_encode bs (b64_output_encode_len (length bs)) = Some cs \<and>
    length cs < b64_output_encode_len (length bs) \<and>
    b64_decode cs (Some (replicate (b64_output_decode_len (length cs)) 0)) (b64_output_decode_len (length cs)) =
      Some (length bs, Some t) \<and> take (length bs) t = bs"
proof -
  obtain cs where cs: "b64_encode bs (b64_output_encode_len (length bs)) = Some cs"
    "length cs = b64_len (length bs)" "b64_encode_loop bs [] (b64_output_encode_len (length bs)) = Some cs"
    using b64_encode_total [of bs] assms by auto
  let ?n = "b64_output_decode_len (length cs)"
  have "length bs + 2 < ?n" "?n \<le> length (replicate ?n (0 :: byte))"
    using decode_len_enough [OF assms] cs(2) by simp_all
  from b64_round_trip_loop [OF cs(3) this] show ?thesis
    using cs encode_len_enough [of "length bs"] assms by auto
qed

theorem base64_round_trip_witness:
  "\<exists>cs. b64_encode [77, 97, 110] (b64_output_encode_len (length [77 :: byte, 97, 110])) = Some cs"
  using base64_round_trip [of "[77, 97, 110]"] by auto



text \<open>A memory and a buffer of four bytes that holds two, one of them read.\<close>

definition demo_mem :: gbmem where
  "demo_mem = \<lparr>max_block = 1000, junk = (\<lambda>_. 0)\<rparr>"

definition demo_buf :: gbuffer where
  "demo_buf = \<lparr>gb_refcount = 1, gb_label = None, gb_mark = 5, gb_data_size = 4, gb_max_memory_size = 100,
     gb_tail = 2, gb_curp = 1, gb_data = [65, 66, 0, 0, 0]\<rparr>"

lemma demo_buf_ok: "gbmem_ok demo_mem" "gb_ok demo_mem demo_buf"
  by (simp_all add: gbmem_ok_def gb_ok_def demo_mem_def demo_buf_def sizeof_gbuffer_def)

text \<open>Appending bytes to a buffer writes as many as fit, growing it once when its own limit and the
  allocator allow, returns their number, leaves what was written before and the read position, and keeps
  the buffer well-formed; a buffer read back from its start thus gives the bytes in order.\<close>

theorem append_writes_what_fits:
  assumes "gbmem_ok mem" "gb_ok mem b" "length bs < 2 ^ 62"
  shows "\<exists>b'. gbuffer_append mem b bs = Some (append_room mem b (length bs), b') \<and> gb_ok mem b' \<and>
    content b' = content b @ take (append_room mem b (length bs)) bs \<and> gb_curp b' = gb_curp b"
  using gbuffer_append_spec [OF assms] by blast

theorem append_writes_what_fits_witness:
  "\<exists>b'. gbuffer_append demo_mem demo_buf [67, 68, 69] = Some (3, b') \<and> content b' = [65, 66, 67, 68, 69]"
proof -
  have "append_room demo_mem demo_buf (length [67 :: byte, 68, 69]) = 3"
    by (simp add: append_room_def can_grow_def grown_size_def demo_mem_def demo_buf_def)
  with append_writes_what_fits [OF demo_buf_ok, of "[67, 68, 69]"] show ?thesis
    by (auto simp: content_def demo_buf_def)
qed



text \<open>C21: Printing into a full buffer that grows and then has exactly as many free bytes as the text has
  loses the last byte: the call logs the lack of room, but returns the full length, and the content ends
  with a NUL in its place.\<close>

theorem exact_print_loses_last_byte:
  assumes "gbmem_ok mem" "gb_ok mem b" "gb_data_size b - gb_tail b \<le> length t"
    "can_grow mem b (length t)" "max_block mem < 2 ^ 31" "t \<noteq> []"
    "length t = grown_size b (length t) - gb_tail b"
  shows "\<exists>b'. gbuffer_vprintf mem b (Some t) = Some (int (length t), b') \<and>
    content b' = content b @ butlast t @ [0]"
  using assms by (rule gbuffer_vprintf_exact)

definition demo_full :: gbuffer where
  "demo_full = demo_buf\<lparr>gb_tail := 4\<rparr>"

theorem exact_print_loses_last_byte_witness:
  "\<exists>b'. gbuffer_vprintf demo_mem demo_full (Some [67, 68, 69, 70, 71]) =
      Some (int (length [67 :: byte, 68, 69, 70, 71]), b') \<and>
    content b' = content demo_full @ butlast [67, 68, 69, 70, 71] @ [0]"
proof (rule exact_print_loses_last_byte [OF demo_buf_ok(1)])
  show "gb_ok demo_mem demo_full" by (simp add: gb_ok_def demo_mem_def demo_full_def demo_buf_def)
qed (simp_all add: can_grow_def grown_size_def demo_mem_def demo_full_def demo_buf_def)



section \<open>Doubly linked lists\<close>

text \<open>C23: On a well-formed list, adding, inserting and deleting items succeed and act on the sequence of the
  list as appending, consing and removing do; finding returns the item exactly when it is a member.\<close>

theorem list_operations_refine:
  assumes "dl_rep h l xs" "free_item h a" "Suc (length xs) < size_t_mod"
    and "x \<in> set xs" "frees_only fn"
  shows "(\<exists>h'. dl_add h l a = Some (0, h') \<and> dl_rep h' l (xs @ [a])) \<and>
    (\<exists>h'. dl_insert h l a = Some (0, h') \<and> dl_rep h' l (a # xs)) \<and>
    (\<exists>h'. dl_delete h l (Some x) fn = Some (0, h') \<and> dl_rep h' l (remove1 x xs)) \<and>
    dl_find h l y = Some (if y \<in> set xs then Some y else None)"
  using dl_add_refines [OF assms(1-3)] dl_insert_refines [OF assms(1-3)]
    dl_delete_refines [OF assms(1,4,5)] dl_find_refines [OF assms(1)] by blast

text \<open>A list at 10 with the one item 1; the item 2 is free.\<close>

definition demo_heap :: dl_heap where
  "demo_heap = \<lparr>items = [1 \<mapsto> \<lparr>it_prev = None, it_next = None, it_dl = Some 10, it_id = 1\<rparr>,
       2 \<mapsto> \<lparr>it_prev = None, it_next = None, it_dl = None, it_id = 0\<rparr>],
     lists = [10 \<mapsto> \<lparr>head = Some 1, tail = Some 1, itemsInContainer = 1, last_id = 1\<rparr>,
       20 \<mapsto> \<lparr>head = None, tail = None, itemsInContainer = 0, last_id = 0\<rparr>]\<rparr>"

lemma demo_heap_rep: "dl_rep demo_heap 10 [1]" "dl_rep demo_heap 20 []" "free_item demo_heap 2"
  by (auto simp: dl_rep_def demo_heap_def header_ok_def size_t_mod_def free_item_def check_links_def
      first_or_def last_or_def split: if_splits)

theorem list_operations_refine_witness:
  "\<exists>h'. dl_add demo_heap 10 2 = Some (0, h') \<and> dl_rep h' 10 ([1] @ [2])"
proof -
  have "Suc (length [1 :: addr]) < size_t_mod" "1 \<in> set [1 :: addr]" "frees_only None"
    by (simp_all add: size_t_mod_def frees_only_def)
  from list_operations_refine [OF demo_heap_rep(1,3) this] show ?thesis by blast
qed

text \<open>Flushing a well-formed list ends, whatever its length, and leaves it empty, with a function that
  only frees the item it is given.\<close>

theorem flush_ends_empty:
  assumes "dl_rep h l xs" and "frees_only fn"
  shows "\<exists>h'. dl_flush h l fn = Some h' \<and> dl_rep h' l []"
  using assms by (rule dl_flush_refines)

theorem flush_ends_empty_witness: "\<exists>h'. dl_flush demo_heap 10 None = Some h' \<and> dl_rep h' 10 []"
  by (rule flush_ends_empty [OF demo_heap_rep(1)]) (simp add: frees_only_def)

text \<open>Adding to one list leaves every other list of the store as it was.\<close>

theorem add_keeps_other_lists:
  assumes "dl_rep h l xs" and "dl_rep h l' ys" and "l \<noteq> l'"
    and "free_item h a" and "Suc (length xs) < size_t_mod" and "dl_add h l a = Some (r, h')"
  shows "dl_rep h' l' ys"
  using assms by (rule dl_add_separate)

theorem add_keeps_other_lists_witness: "\<exists>r h'. dl_add demo_heap 20 2 = Some (r, h') \<and> dl_rep h' 10 [1]"
proof -
  have room: "Suc (length ([] :: addr list)) < size_t_mod" by (simp add: size_t_mod_def)
  obtain h' where h': "dl_add demo_heap 20 2 = Some (0, h')"
    using dl_add_refines [OF demo_heap_rep(2,3) room] by blast
  show ?thesis using add_keeps_other_lists [OF demo_heap_rep(2,1) _ demo_heap_rep(3) room h'] h' by simp
qed

end
