(* ===== verification/Kw_Records.thy ===== *)
theory Kw_Records
  imports KwId "HOL-Library.Multiset"
begin

text \<open>
  The second half of \<^verbatim>\<open>kernel/c/gobj-c/src/kwid.c\<close>: lists of records with an \<^verbatim>\<open>id\<close>, deep
  comparison of records and lists, duplicates without private or metadata keys, selection by filter,
  clones by keys, collapsing, ids, words, and the records made from a description
  (\<^verbatim>\<open>create_json_record\<close> of \<^verbatim>\<open>helpers.c\<close>).
\<close>

section \<open>Flags and small helpers\<close>

definition KW_BACKWARD :: kw_flag where "KW_BACKWARD = 16"
definition KW_VERBOSE :: kw_flag where "KW_VERBOSE = 32"
definition KW_LOWER :: kw_flag where "KW_LOWER = 64"

definition empty_str :: "string option \<Rightarrow> bool" where
  "empty_str s \<longleftrightarrow> (case s of None \<Rightarrow> True | Some t \<Rightarrow> t = [])"

text \<open>The type tags of jansson; the two booleans have different tags.\<close>

fun json_typeof :: "json \<Rightarrow> nat" where
  "json_typeof (JObject _) = 0"
| "json_typeof (JArray _) = 1"
| "json_typeof (JString _) = 2"
| "json_typeof (JInt _) = 3"
| "json_typeof (JReal _) = 4"
| "json_typeof (JBool b) = (if b then 5 else 6)"
| "json_typeof JNull = 7"

definition str_in_list :: "string list \<Rightarrow> string \<Rightarrow> bool \<Rightarrow> bool" where
  "str_in_list list str ignore_case =
     (if ignore_case then \<exists>x \<in> set list. strcasecmp_eq str x else str \<in> set list)"

text \<open>The number of leading underscores: one marks private keys, two metadata.\<close>

definition underscores_of :: "string \<Rightarrow> nat" where
  "underscores_of key = length (takeWhile (\<lambda>c. c = CHR ''_'') key)"

fun delete_underscored :: "nat \<Rightarrow> json \<Rightarrow> json" where
  "delete_underscored n (JObject ps) = JObject (filter (\<lambda>(k, v). underscores_of k \<noteq> n) ps)"
| "delete_underscored n j = j"

definition kw_delete_private_keys :: "json \<Rightarrow> json" where
  "kw_delete_private_keys kw = delete_underscored 1 kw"

definition kw_delete_metadata_keys :: "json \<Rightarrow> json" where
  "kw_delete_metadata_keys kw = delete_underscored 2 kw"

section \<open>Writing below a path\<close>

text \<open>
  \<open>kw_get_dict\<close> with \<open>KW_CREATE\<close> returns the default it stored. When the path cannot be created the
  default was freed by \<open>kw_set_dict_value\<close> and the write that follows touches freed memory: \<open>None\<close>.
  \<open>change_segments\<close> writes through the pointer to the value at the segments of the path.
\<close>

fun change_segments :: "json \<Rightarrow> string list \<Rightarrow> (json \<Rightarrow> json) \<Rightarrow> json" where
  "change_segments v [] f = f v"
| "change_segments v (segment # segments) f = (case v of
     JObject ps \<Rightarrow> (case map_of ps segment of None \<Rightarrow> v
       | Some nxt \<Rightarrow> JObject (pairs_set ps segment (change_segments nxt segments f)))
   | JArray xs \<Rightarrow> (case array_get_int (Some v) (atoi segment) of None \<Rightarrow> v
       | Some nxt \<Rightarrow> JArray (xs[nat (atoi segment) := change_segments nxt segments f]))
   | _ \<Rightarrow> v)"

definition kw_set_subdict_value :: "jn \<Rightarrow> string \<Rightarrow> string \<Rightarrow> json \<Rightarrow> (int \<times> jn) option" where
  "kw_set_subdict_value kw path key v =
     (let put = (\<lambda>d. json_object_set d key v);
          kw1 = snd (kw_get_dict kw path (Some (JObject [])) KW_CREATE)
      in case kw of
        None \<Rightarrow> Some (0, None)
      | Some j \<Rightarrow> (case kw_find_path kw (Some path) of
          Some d \<Rightarrow>
            (if json_is_object (Some d) then Some (0, Some (kw_change_path j path 0 put)) else Some (0, kw1))
        | None \<Rightarrow>
            (if path_get kw (split2 path) = None \<and> path_get kw1 (split2 path) \<noteq> None
             then Some (0, map_option (\<lambda>j. change_segments j (split2 path) put) kw1)
             else None)))"

definition kw_delete_subkey :: "jn \<Rightarrow> string \<Rightarrow> string \<Rightarrow> int \<times> jn" where
  "kw_delete_subkey kw path key = (case fst (kw_get_dict kw path None 0) of
     None \<Rightarrow> (-1, kw)
   | Some d \<Rightarrow> if \<not> kw_has_key (Some d) key then (-1, kw)
       else (0, map_option (\<lambda>j. kw_change_path j path 0 (\<lambda>d. json_object_del d key)) kw))"

definition kw_get_real :: "libc_real \<Rightarrow> jn \<Rightarrow> string \<Rightarrow> rat \<Rightarrow> kw_flag \<Rightarrow> rat \<times> jn" where
  "kw_get_real lc kw path dflt flag = (case kw_find_path kw (Some path) of
     None \<Rightarrow>
       (if has_flag flag KW_CREATE \<and> kw \<noteq> None
        then (dflt, snd (kw_set_dict_value kw path (Some (JReal dflt)))) else (dflt, kw))
   | Some v \<Rightarrow>
       (if \<not> (json_is_real (Some v) \<or> json_is_integer (Some v)) \<and> \<not> has_flag flag KW_WILD_NUMBER
        then (dflt, kw)
        else let kw' = (if has_flag flag KW_EXTRACT then snd (kw_delete kw path) else kw) in
          (case v of
             JReal r \<Rightarrow> (r, kw')
           | JInt i \<Rightarrow> (lc_real_of_int lc i, kw')
           | JBool b \<Rightarrow> (if b then 1 else 0, kw')
           | JString s \<Rightarrow> (lc_atof lc s, kw')
           | JNull \<Rightarrow> (0, kw')
           | _ \<Rightarrow> (0, kw))))"

definition kw_get_list_value :: "json \<Rightarrow> int \<Rightarrow> kw_flag \<Rightarrow> jn \<times> json" where
  "kw_get_list_value kw idx flag =
     (if \<not> json_is_array (Some kw) then (None, kw)
      else case array_get_int (Some kw) idx of
        None \<Rightarrow> (None, kw)
      | Some v \<Rightarrow> if has_flag flag KW_EXTRACT then (Some v, json_array_remove kw (nat idx)) else (Some v, kw))"

fun update_except_loop :: "json \<Rightarrow> (string \<times> json) list \<Rightarrow> string list \<Rightarrow> json" where
  "update_except_loop kw [] except_keys = kw"
| "update_except_loop kw ((key, v) # other) except_keys =
     (if str_in_list except_keys key False then update_except_loop kw other except_keys
      else update_except_loop (json_object_set kw key v) other except_keys)"

definition kw_update_except :: "json \<Rightarrow> json \<Rightarrow> string list \<Rightarrow> json" where
  "kw_update_except kw other except_keys = (case other of
     JObject ps \<Rightarrow> update_except_loop kw ps except_keys | _ \<Rightarrow> kw)"

section \<open>Searching in lists\<close>

fun find_str_loop :: "nat \<Rightarrow> json list \<Rightarrow> string \<Rightarrow> int" where
  "find_str_loop i [] str = -1"
| "find_str_loop i (x # xs) str =
     (if json_string_value (Some x) = Some str then int i else find_str_loop (i + 1) xs str)"

definition kw_find_str_in_list :: "jn \<Rightarrow> string option \<Rightarrow> int" where
  "kw_find_str_in_list kw_list str = (case (kw_list, str) of
     (Some (JArray xs), Some s) \<Rightarrow> find_str_loop 0 xs s | _ \<Rightarrow> -1)"

text \<open>The search stops with an error at the first item that is not a record with an \<^verbatim>\<open>id\<close> string.\<close>

fun find_record_loop :: "nat \<Rightarrow> json list \<Rightarrow> string \<Rightarrow> int" where
  "find_record_loop i [] rid = -1"
| "find_record_loop i (r # rs) rid = (case fst (kw_get_str (Some r) ''id'' None 0) of
     None \<Rightarrow> -1
   | Some rid' \<Rightarrow> if rid = rid' then int i else find_record_loop (i + 1) rs rid)"

definition kwid_find_record_in_list :: "jn \<Rightarrow> string option \<Rightarrow> int" where
  "kwid_find_record_in_list kw_list rid = (case (kw_list, rid) of
     (Some (JArray rs), Some i) \<Rightarrow> find_record_loop 0 rs i | _ \<Rightarrow> -1)"

fun find_json_loop :: "nat \<Rightarrow> json list \<Rightarrow> json \<Rightarrow> int" where
  "find_json_loop i [] item = -1"
| "find_json_loop i (x # xs) item = (if json_equal item x then int i else find_json_loop (i + 1) xs item)"

definition kw_find_json_in_list :: "jn \<Rightarrow> jn \<Rightarrow> int" where
  "kw_find_json_in_list kw_list item = (case (kw_list, item) of
     (Some (JArray xs), Some v) \<Rightarrow> find_json_loop 0 xs v | _ \<Rightarrow> -1)"

section \<open>Deep comparison\<close>

definition KWID_MAX_COMPARE_DEPTH :: nat where "KWID_MAX_COMPARE_DEPTH = 64"

record compare_opts =
  co_libc :: libc_real
  co_ignore_keys :: "string list"
  co_without_metadata :: bool
  co_without_private :: bool

text \<open>The keys that take part in the comparison.\<close>

definition pruned :: "compare_opts \<Rightarrow> json \<Rightarrow> (string \<times> json) list" where
  "pruned opts j =
     (let j = (if co_without_metadata opts then kw_delete_metadata_keys j else j);
          j = (if co_without_private opts then kw_delete_private_keys j else j);
          j = foldl json_object_del j (co_ignore_keys opts)
      in case j of JObject ps \<Rightarrow> ps | _ \<Rightarrow> [])"

text \<open>
  The loop over the keys of the record. A pair that matches is deleted from both copies, so the loop
  ends with nothing left of the record; what is left of \<open>expected\<close> decides.
\<close>

fun compare_pairs :: "compare_opts \<Rightarrow> (json \<Rightarrow> json \<Rightarrow> bool) \<Rightarrow> (string \<times> json) list \<Rightarrow>
  (string \<times> json) list \<Rightarrow> bool" where
  "compare_pairs opts cmp [] expected \<longleftrightarrow> expected = []"
| "compare_pairs opts cmp ((key, v) # record) expected \<longleftrightarrow> (case map_of expected key of
     None \<Rightarrow> False
   | Some v2 \<Rightarrow>
       (if json_is_object (Some v) \<or> json_is_array (Some v) then cmp v v2
        else cmp_two_simple_json (co_libc opts) (Some v) (Some v2) = 0) \<and>
       compare_pairs opts cmp record (pairs_del expected key))"

fun find_match :: "(json \<Rightarrow> bool) \<Rightarrow> nat \<Rightarrow> json list \<Rightarrow> nat option" where
  "find_match p i [] = None"
| "find_match p i (y # ys) = (if p y then Some i else find_match p (i + 1) ys)"

definition remove_idx :: "nat \<Rightarrow> 'a list \<Rightarrow> 'a list" where
  "remove_idx i xs = take i xs @ drop (Suc i) xs"

text \<open>The loop over the items of the list; a matched item leaves both lists.\<close>

fun compare_items :: "(json \<Rightarrow> json \<Rightarrow> bool) \<Rightarrow> json list \<Rightarrow> json list \<Rightarrow> bool" where
  "compare_items cmp [] expected \<longleftrightarrow> expected = []"
| "compare_items cmp (r1 # rest) expected \<longleftrightarrow>
     (case (if json_is_object (Some r1) then fst (kw_get_str (Some r1) ''id'' None 0) else None) of
        Some id1 \<Rightarrow>
          (let idx2 = kwid_find_record_in_list (Some (JArray expected)) (Some id1) in
           if idx2 < 0 then False
           else cmp r1 (expected ! nat idx2) \<and> compare_items cmp rest (remove_idx (nat idx2) expected))
      | None \<Rightarrow>
          (if json_is_object (Some r1) \<or> json_is_array (Some r1)
           then (case find_match (cmp r1) 0 expected of
               None \<Rightarrow> False
             | Some idx2 \<Rightarrow> compare_items cmp rest (remove_idx idx2 expected))
           else (let idx2 = kw_find_json_in_list (Some (JArray expected)) (Some r1) in
             if idx2 < 0 then False
             else compare_items cmp rest (remove_idx (nat idx2) expected))))"

text \<open>
  \<open>_kwid_compare_records_path\<close> and \<open>_kwid_compare_lists_path\<close> (\<open>as_list\<close>), with the number of
  levels left below \<open>KWID_MAX_COMPARE_DEPTH\<close>.
\<close>

primrec compare_path :: "compare_opts \<Rightarrow> nat \<Rightarrow> bool \<Rightarrow> json \<Rightarrow> json \<Rightarrow> bool" where
  "compare_path opts 0 as_list r e = False"
| "compare_path opts (Suc n) as_list r e =
     (if json_typeof r \<noteq> json_typeof e then False
      else (case (r, e) of
          (JArray xs, JArray ys) \<Rightarrow>
            (if as_list then compare_items (compare_path opts n False) xs ys
             else compare_path opts n True r e)
        | (JObject _, JObject _) \<Rightarrow>
            (if as_list then compare_path opts n False r e
             else compare_pairs opts (compare_path opts n False) (pruned opts r) (pruned opts e))
        | _ \<Rightarrow> cmp_two_simple_json (co_libc opts) (Some r) (Some e) = 0))"

definition kwid_compare_records :: "compare_opts \<Rightarrow> jn \<Rightarrow> jn \<Rightarrow> bool" where
  "kwid_compare_records opts record expected = (case (record, expected) of
     (Some r, Some e) \<Rightarrow> compare_path opts KWID_MAX_COMPARE_DEPTH False r e | _ \<Rightarrow> False)"

definition kwid_compare_lists :: "compare_opts \<Rightarrow> jn \<Rightarrow> jn \<Rightarrow> bool" where
  "kwid_compare_lists opts list expected = (case (list, expected) of
     (Some l, Some e) \<Rightarrow> compare_path opts KWID_MAX_COMPARE_DEPTH True l e | _ \<Rightarrow> False)"

section \<open>Duplicates\<close>

text \<open>
  The twin of an object without the keys that start with exactly \<open>underscores\<close> underscores (0: none is
  left out), and only with \<open>keys\<close> when given, at every level. The reference counts of binary fields are
  not modelled.
\<close>

definition keeps_key :: "string list option \<Rightarrow> nat \<Rightarrow> string \<Rightarrow> bool" where
  "keeps_key keys underscores key \<longleftrightarrow> \<not> (underscores \<noteq> 0 \<and> underscores_of key = underscores) \<and>
     (case keys of None \<Rightarrow> True | Some ks \<Rightarrow> str_in_list ks key False)"

fun duplicate_json :: "string list option \<Rightarrow> nat \<Rightarrow> json \<Rightarrow> json" where
  "duplicate_json keys underscores (JObject ps) =
     JObject (map (\<lambda>(k, v). (k, duplicate_json keys underscores v))
       (filter (\<lambda>(k, v). keeps_key keys underscores k) ps))"
| "duplicate_json keys underscores (JArray xs) = JArray (map (duplicate_json keys underscores) xs)"
| "duplicate_json keys underscores v = v"

definition duplicate_container :: "nat \<Rightarrow> jn \<Rightarrow> jn" where
  "duplicate_container underscores kw =
     (if json_is_object kw \<or> json_is_array kw then map_option (duplicate_json None underscores) kw else None)"

definition kw_duplicate :: "jn \<Rightarrow> jn" where
  "kw_duplicate kw = duplicate_container 0 kw"

definition kw_filter_private :: "jn \<Rightarrow> jn" where
  "kw_filter_private kw = duplicate_container 1 kw"

definition kw_filter_metadata :: "jn \<Rightarrow> jn" where
  "kw_filter_metadata kw = duplicate_container 2 kw"

section \<open>Selection and clones by keys\<close>

type_synonym match_fn = "jn \<Rightarrow> jn \<Rightarrow> bool"

definition select_rows :: "match_fn \<Rightarrow> (jn \<Rightarrow> jn) \<Rightarrow> jn \<Rightarrow> jn \<Rightarrow> json" where
  "select_rows mfn copy kw jn_filter = (case kw of
     Some (JArray rows) \<Rightarrow>
       JArray (concat (map (\<lambda>row. case copy (Some row) of None \<Rightarrow> [] | Some r \<Rightarrow> [r])
         (filter (\<lambda>row. mfn (Some row) jn_filter) rows)))
   | Some (JObject ps) \<Rightarrow>
       (if mfn kw jn_filter then JArray (case copy kw of None \<Rightarrow> [] | Some r \<Rightarrow> [r]) else JArray [])
   | _ \<Rightarrow> JArray [])"

definition the_match_fn :: "libc_real \<Rightarrow> match_fn option \<Rightarrow> match_fn" where
  "the_match_fn lc mfn = (case mfn of None \<Rightarrow> kw_match_simple lc | Some f \<Rightarrow> f)"

definition kw_select :: "libc_real \<Rightarrow> jn \<Rightarrow> jn \<Rightarrow> match_fn option \<Rightarrow> json" where
  "kw_select lc kw jn_filter mfn = select_rows (the_match_fn lc mfn) kw_duplicate kw jn_filter"

definition kw_collect :: "libc_real \<Rightarrow> jn \<Rightarrow> jn \<Rightarrow> match_fn option \<Rightarrow> json" where
  "kw_collect lc kw jn_filter mfn = select_rows (the_match_fn lc mfn) (\<lambda>row. row) kw jn_filter"

definition path_value :: "jn \<Rightarrow> string option \<Rightarrow> jn" where
  "path_value kw path = (case path of None \<Rightarrow> None | Some p \<Rightarrow> fst (kw_get_dict_value kw p None 0))"

fun clone_paths :: "jn \<Rightarrow> string option list \<Rightarrow> json \<Rightarrow> json" where
  "clone_paths kw [] kw_clone = kw_clone"
| "clone_paths kw (path # paths) kw_clone =
     clone_paths kw paths (case (path, path_value kw path) of
       (Some p, Some v) \<Rightarrow> json_object_set kw_clone p v | _ \<Rightarrow> kw_clone)"

definition kw_clone_by_path :: "jn \<Rightarrow> string list \<Rightarrow> jn" where
  "kw_clone_by_path kw paths =
     (if paths = [] then kw else Some (clone_paths kw (map Some paths) (JObject [])))"

text \<open>The keys a request names: a string, the keys of a dict, the strings of a list; \<open>None\<close> when empty.\<close>

definition named_keys :: "jn \<Rightarrow> string option list option" where
  "named_keys keys = (case keys of
     Some (JString s) \<Rightarrow> if s \<noteq> [] then Some [Some s] else None
   | Some (JObject ps) \<Rightarrow> if ps \<noteq> [] then Some (map (\<lambda>(k, v). Some k) ps) else None
   | Some (JArray xs) \<Rightarrow> if xs \<noteq> [] then Some (map (\<lambda>x. json_string_value (Some x)) xs) else None
   | _ \<Rightarrow> None)"

definition kw_clone_by_keys :: "jn \<Rightarrow> jn \<Rightarrow> jn" where
  "kw_clone_by_keys kw keys = (case named_keys keys of
     None \<Rightarrow> kw | Some ks \<Rightarrow> Some (clone_paths kw ks (JObject [])))"

fun unclone_paths :: "jn \<Rightarrow> string option list \<Rightarrow> json \<Rightarrow> json" where
  "unclone_paths kw [] kw_clone = kw_clone"
| "unclone_paths kw (path # paths) kw_clone =
     unclone_paths kw paths (case (path, path_value kw path) of
       (Some p, Some v) \<Rightarrow> json_object_del kw_clone p | _ \<Rightarrow> kw_clone)"

definition kw_clone_by_not_keys :: "jn \<Rightarrow> jn \<Rightarrow> json" where
  "kw_clone_by_not_keys kw keys =
     (let kw_clone = (case kw of None \<Rightarrow> JObject [] | Some j \<Rightarrow> json_object_update (JObject []) j) in
      case named_keys keys of None \<Rightarrow> JObject [] | Some ks \<Rightarrow> unclone_paths kw ks kw_clone)"

section \<open>Collapsing\<close>

definition join_key :: "string \<Rightarrow> string \<Rightarrow> string" where
  "join_key path key = (if path = [] then key else path @ [delimiter] @ key)"

definition collapsed :: "string \<Rightarrow> nat \<Rightarrow> json" where
  "collapsed path n = JObject [(''__collapsed__'',
     JObject [(''path'', JString path), (''size'', JInt (int n))])]"

function collapse_pairs :: "int \<Rightarrow> int \<Rightarrow> string \<Rightarrow> (string \<times> json) list \<Rightarrow> (string \<times> json) list"
and collapse_items :: "int \<Rightarrow> int \<Rightarrow> string \<Rightarrow> nat \<Rightarrow> json list \<Rightarrow> json list" where
  "collapse_pairs ll dl path [] = []"
| "collapse_pairs ll dl path ((key, v) # ps) =
     (key, let new_path = join_key path key in case v of
        JObject qs \<Rightarrow> if dl > 0 \<and> int (length qs) > dl then collapsed new_path (length qs)
          else JObject (collapse_pairs ll dl new_path qs)
      | JArray xs \<Rightarrow> if ll > 0 \<and> int (length xs) > ll then JArray [collapsed new_path (length xs)]
          else JArray (collapse_items ll dl new_path 0 xs)
      | _ \<Rightarrow> v) # collapse_pairs ll dl path ps"
| "collapse_items ll dl path i [] = []"
| "collapse_items ll dl path i (v # vs) =
     (case v of
        JObject qs \<Rightarrow> JObject (collapse_pairs ll dl (join_key path (nat_digits i)) qs)
      | _ \<Rightarrow> v) # collapse_items ll dl path (i + 1) vs"
  by pat_completeness auto
termination
  by (relation "measure (\<lambda>x. case x of
      Inl (l, d, p, ps) \<Rightarrow> size_list (size_prod (\<lambda>x. 0) size) ps
    | Inr (l, d, p, i, xs) \<Rightarrow> size_list size xs)") auto

definition kw_collapse :: "jn \<Rightarrow> int \<Rightarrow> int \<Rightarrow> jn" where
  "kw_collapse kw ll dl = (case kw of
     Some (JArray xs) \<Rightarrow> Some (JArray (collapse_items ll dl [] 0 xs))
   | Some (JObject ps) \<Rightarrow> Some (JObject (collapse_pairs ll dl [] ps))
   | _ \<Rightarrow> None)"

section \<open>Walking databases by id\<close>

text \<open>Tokens of a path with several delimiters, as \<open>split2\<close> gives them.\<close>

fun split_any :: "string \<Rightarrow> string \<Rightarrow> string \<Rightarrow> string list" where
  "split_any delims acc [] = (if acc = [] then [] else [acc])"
| "split_any delims acc (c # cs) =
     (if c \<in> set delims then (if acc = [] then split_any delims [] cs else acc # split_any delims [] cs)
      else split_any delims (acc @ [c]) cs)"

definition id_of :: "json \<Rightarrow> string option" where
  "id_of v = json_string_value (json_object_get (Some v) ''id'')"

text \<open>The position of the record with an id, from the front or from the back.\<close>

definition record_index :: "bool \<Rightarrow> json list \<Rightarrow> string \<Rightarrow> nat option" where
  "record_index backward xs rid =
     (if backward
      then map_option (\<lambda>i. length xs - 1 - i) (find_match (\<lambda>v. id_of v = Some rid) 0 (rev xs))
      else find_match (\<lambda>v. id_of v = Some rid) 0 xs)"

text \<open>A walk stops at a value that is neither dict nor list and returns it.\<close>

fun kwid_walk :: "bool \<Rightarrow> jn \<Rightarrow> string list \<Rightarrow> jn" where
  "kwid_walk backward v [] = v"
| "kwid_walk backward None (segment # segments) = None"
| "kwid_walk backward (Some (JObject ps)) (segment # segments) =
     (case map_of ps segment of None \<Rightarrow> None | Some nxt \<Rightarrow> kwid_walk backward (Some nxt) segments)"
| "kwid_walk backward (Some (JArray xs)) (segment # segments) =
     (case record_index backward xs segment of None \<Rightarrow> None
      | Some i \<Rightarrow> kwid_walk backward (Some (xs ! i)) segments)"
| "kwid_walk backward (Some v) (segment # segments) = Some v"

fun kwid_change :: "bool \<Rightarrow> json \<Rightarrow> string list \<Rightarrow> (json \<Rightarrow> json) \<Rightarrow> json" where
  "kwid_change backward v [] f = f v"
| "kwid_change backward (JObject ps) (segment # segments) f =
     (case map_of ps segment of None \<Rightarrow> JObject ps
      | Some nxt \<Rightarrow> JObject (pairs_set ps segment (kwid_change backward nxt segments f)))"
| "kwid_change backward (JArray xs) (segment # segments) f =
     (case record_index backward xs segment of None \<Rightarrow> JArray xs
      | Some i \<Rightarrow> JArray (xs[i := kwid_change backward (xs ! i) segments f]))"
| "kwid_change backward v (segment # segments) f = f v"

definition kwid_path_size :: nat where "kwid_path_size = 4 * 1024"

definition kwid_segments :: "kw_flag \<Rightarrow> string \<Rightarrow> string list" where
  "kwid_segments flag path =
     (let temp = snprintf kwid_path_size path;
          temp = (if has_flag flag KW_LOWER then to_lower temp else temp)
      in split_any [CHR 0x60, CHR ''.''] [] temp)"

definition kwid_get :: "jn \<Rightarrow> kw_flag \<Rightarrow> string \<Rightarrow> jn" where
  "kwid_get kw flag path = kwid_walk (has_flag flag KW_BACKWARD) kw (kwid_segments flag path)"

text \<open>A dict of records becomes a list; every record gets its key as \<^verbatim>\<open>id\<close>, in place.\<close>

definition with_ids :: "(string \<times> json) list \<Rightarrow> (string \<times> json) list" where
  "with_ids ps = map (\<lambda>(k, v). (k, json_object_set v ''id'' (JString k))) ps"

definition kwid_new_list :: "jn \<Rightarrow> kw_flag \<Rightarrow> string \<Rightarrow> jn \<times> jn" where
  "kwid_new_list kw flag path = (case kwid_get kw flag path of
     Some (JArray xs) \<Rightarrow> (Some (JArray xs), kw)
   | Some (JObject ps) \<Rightarrow> (Some (JArray (map snd (with_ids ps))),
       map_option (\<lambda>j. kwid_change (has_flag flag KW_BACKWARD) j (kwid_segments flag path)
         (\<lambda>_. JObject (with_ids ps))) kw)
   | _ \<Rightarrow> (None, kw))"

definition kwid_new_dict :: "jn \<Rightarrow> kw_flag \<Rightarrow> string \<Rightarrow> jn" where
  "kwid_new_dict kw flag path = (case kwid_get kw flag path of
     Some (JArray xs) \<Rightarrow> Some (foldl (\<lambda>d v. case fst (kw_get_str (Some v) ''id'' (Some []) KW_REQUIRED) of
         Some rid \<Rightarrow> if rid \<noteq> [] then json_object_set d rid v else d | None \<Rightarrow> d) (JObject []) xs)
   | Some (JObject ps) \<Rightarrow> Some (JObject ps)
   | _ \<Rightarrow> None)"

section \<open>Walks, ids and words\<close>

text \<open>The callback sees the enclosing dict, the key and the value, and changes a state of its own.\<close>

function walk_pairs :: "(json \<Rightarrow> string \<Rightarrow> json \<Rightarrow> 's \<Rightarrow> int \<times> 's) \<Rightarrow> json \<Rightarrow> (string \<times> json) list \<Rightarrow> 's \<Rightarrow>
  int \<times> 's" where
  "walk_pairs callback kw [] s = (0, s)"
| "walk_pairs callback kw ((key, v) # ps) s =
     (let (ret, s) = (case v of
          JObject qs \<Rightarrow> walk_pairs callback v qs s
        | _ \<Rightarrow> callback kw key v s)
      in if ret < 0 then (-1, s) else walk_pairs callback kw ps s)"
  by pat_completeness auto
termination
  by (relation "measure (\<lambda>(cb, kw, ps, s). size_list (size_prod (\<lambda>x. 0) size) ps)") auto

definition kw_walk :: "jn \<Rightarrow> (json \<Rightarrow> string \<Rightarrow> json \<Rightarrow> 's \<Rightarrow> int \<times> 's) \<Rightarrow> 's \<Rightarrow> int \<times> 's" where
  "kw_walk kw callback s = (case kw of
     Some (JObject ps) \<Rightarrow> walk_pairs callback (JObject ps) ps s | _ \<Rightarrow> (-1, s))"

definition kw_size :: "jn \<Rightarrow> nat" where
  "kw_size kw = (if json_is_object kw then json_object_size kw
     else if json_is_array kw then json_array_size kw else 1)"

definition ids_of_item :: "json \<Rightarrow> json list" where
  "ids_of_item v = (case v of
     JString s \<Rightarrow> if s \<noteq> [] then [JString s] else []
   | JInt i \<Rightarrow> [JString (print_int i)]
   | JObject ps \<Rightarrow> if empty_str (id_of v) then [] else [JString (the (id_of v))]
   | _ \<Rightarrow> [])"

definition kwid_get_ids :: "jn \<Rightarrow> jn" where
  "kwid_get_ids ids = (case ids of
     None \<Rightarrow> None
   | Some (JString s) \<Rightarrow> Some (JArray [JString s])
   | Some (JInt i) \<Rightarrow> Some (JArray [JString (print_int i)])
   | Some (JObject ps) \<Rightarrow> Some (JArray (map (\<lambda>(k, v). JString k) ps))
   | Some (JArray xs) \<Rightarrow> Some (JArray (concat (map ids_of_item xs)))
   | _ \<Rightarrow> Some (JArray []))"

fun strstr :: "string \<Rightarrow> string \<Rightarrow> bool" where
  "strstr [] needle = (needle = [])"
| "strstr (c # cs) needle = (take (length needle) (c # cs) = needle \<or> strstr cs needle)"

text \<open>Nested lists are searched with the flag \<open>KW_REQUIRED\<close>.\<close>

fun kw_has_word :: "json \<Rightarrow> string \<Rightarrow> kw_flag \<Rightarrow> bool" where
  "kw_has_word (JObject ps) word flag = json_is_true (map_of ps word)"
| "kw_has_word (JArray xs) word flag = (\<exists>v \<in> set xs. case v of
     JString s \<Rightarrow> strstr s word
   | _ \<Rightarrow> if has_flag flag KW_REQUIRED then kw_has_word v word flag else False)"
| "kw_has_word (JString s) word flag = strstr s word"
| "kw_has_word _ word flag = False"

definition match_ids :: "(string \<Rightarrow> string \<Rightarrow> bool) \<Rightarrow> jn \<Rightarrow> string option \<Rightarrow> bool" where
  "match_ids eq ids rid = (case (ids, rid) of
     (Some (JObject ps), Some i) \<Rightarrow> ps = [] \<or> (\<exists>(k, v) \<in> set ps. eq i k)
   | (Some (JArray xs), Some i) \<Rightarrow> xs = [] \<or> (\<exists>v \<in> set xs. case v of
         JString s \<Rightarrow> eq i s
       | JObject _ \<Rightarrow> (case fst (kw_get_str (Some v) ''id'' None 0) of None \<Rightarrow> False | Some s \<Rightarrow> eq i s)
       | _ \<Rightarrow> False)
   | (Some (JString s), Some i) \<Rightarrow> eq i s
   | (Some _, Some i) \<Rightarrow> False
   | _ \<Rightarrow> True)"

definition kwid_match_id :: "jn \<Rightarrow> string option \<Rightarrow> bool" where
  "kwid_match_id ids rid = match_ids (=) ids rid"

definition kwid_match_nid :: "jn \<Rightarrow> string option \<Rightarrow> nat \<Rightarrow> bool" where
  "kwid_match_nid ids rid max_id_size = match_ids (\<lambda>a b. take max_id_size a = take max_id_size b) ids rid"

section \<open>Records from a description\<close>

record json_desc =
  jd_name :: string
  jd_type :: string
  jd_defaults :: string
  jd_fillspace :: string

definition desc_integer :: "string \<Rightarrow> int" where
  "desc_integer defaults =
     (if defaults \<noteq> [] \<and> hd defaults = CHR ''0'' then strtoll defaults 8
      else if defaults \<noteq> [] \<and> hd defaults = CHR ''x'' then strtoll defaults 16
      else strtoll defaults 10)"

text \<open>The value of a field from its type and default; \<open>now\<close> is the result of \<open>time\<close>.\<close>

definition desc_value :: "libc_real \<Rightarrow> int \<Rightarrow> json_desc \<Rightarrow> jn" where
  "desc_value lc now d = (let t = jd_type d; v = jd_defaults d in
     if t = ''str'' \<or> t = ''string'' then Some (JString v)
     else if t = ''time'' then Some (JInt
       (if \<not> (v \<noteq> [] \<and> (hd v = CHR ''0'' \<or> hd v = CHR ''x'')) \<and> strcasecmp_eq v ''now'' then now
        else desc_integer v))
     else if t = ''int'' \<or> t = ''integer'' then Some (JInt (desc_integer v))
     else if t = ''real'' then Some (JReal (lc_atof lc v))
     else if t = ''bool'' \<or> t = ''boolean'' then Some (JBool
       (if strcasecmp_eq v ''TRUE'' then True else if strcasecmp_eq v ''FALSE'' then False else atoi v \<noteq> 0))
     else if t = ''null'' then Some JNull
     else if t = ''object'' \<or> t = ''dict'' then Some (JObject [])
     else if t = ''array'' \<or> t = ''list'' then Some (JArray [])
     else None)"

fun create_json_record :: "libc_real \<Rightarrow> int \<Rightarrow> json_desc list \<Rightarrow> json \<Rightarrow> json" where
  "create_json_record lc now [] jn = jn"
| "create_json_record lc now (d # ds) jn =
     (if jd_name d = [] \<or> jd_type d = [] then jn
      else create_json_record lc now ds (case desc_value lc now d of
        None \<Rightarrow> jn | Some v \<Rightarrow> json_object_set jn (jd_name d) v))"

definition schema_type :: "string \<Rightarrow> string" where
  "schema_type t = (if t = ''int'' then ''integer'' else if t = ''str'' then ''string''
     else if t = ''bool'' then ''boolean'' else t)"

definition json_desc_to_schema :: "json_desc list \<Rightarrow> json" where
  "json_desc_to_schema ds = JArray (map (\<lambda>d. JObject [
     (''id'', JString (jd_name d)), (''header'', JString (jd_name d)),
     (''type'', JString (schema_type (jd_type d))),
     (''fillspace'', JInt (if jd_fillspace d = [] then 20 else atoi (jd_fillspace d)))]) ds)"

text \<open>
  \<open>kwjr_get\<close>: the record with an id in a dict (by key) or in a list (by the first field of the
  description), created or extracted on request. The result is the record, its index and the new \<open>kw\<close>.
\<close>

definition new_json_record :: "libc_real \<Rightarrow> int \<Rightarrow> json_desc list \<Rightarrow> jn \<Rightarrow> json" where
  "new_json_record lc now ds new_record =
     (let r = create_json_record lc now ds (JObject []) in
      case new_record of None \<Rightarrow> r | Some n \<Rightarrow> json_object_update r n)"

definition kwjr_get :: "libc_real \<Rightarrow> int \<Rightarrow> jn \<Rightarrow> string \<Rightarrow> jn \<Rightarrow> json_desc list \<Rightarrow> kw_flag \<Rightarrow>
  jn \<times> nat \<times> jn" where
  "kwjr_get lc now kw rid new_record ds flag = (if rid = [] then (None, 0, kw) else case kw of
     Some (JObject ps) \<Rightarrow> (case map_of ps rid of
         None \<Rightarrow> (if has_flag flag KW_CREATE
           then let r = new_json_record lc now ds new_record in (Some r, 0, Some (json_object_set (JObject ps) rid r))
           else (None, 0, kw))
       | Some v \<Rightarrow> (Some v, 0, if has_flag flag KW_EXTRACT then Some (json_object_del (JObject ps) rid) else kw))
   | Some (JArray xs) \<Rightarrow>
       (let pkey = (case ds of [] \<Rightarrow> [] | d # _ \<Rightarrow> jd_name d);
            is_it = (\<lambda>v. json_string_value (json_object_get (Some v) pkey) = Some rid);
            found = (if has_flag flag KW_BACKWARD
              then map_option (\<lambda>i. length xs - 1 - i) (find_match is_it 0 (rev xs))
              else find_match is_it 0 xs)
        in case found of
          Some i \<Rightarrow> (Some (xs ! i), i,
            if has_flag flag KW_EXTRACT then Some (json_array_remove (JArray xs) i) else kw)
        | None \<Rightarrow> (if has_flag flag KW_CREATE
            then let r = new_json_record lc now ds new_record in (Some r, 0, Some (JArray (xs @ [r])))
            else (None, 0, kw)))
   | _ \<Rightarrow> (None, 0, kw))"

section \<open>Comparison is reflexive, and lists of simple values are multisets\<close>

text \<open>The levels a comparison of a value with itself goes down: one for a dict, two for a list.\<close>

fun levels :: "json \<Rightarrow> nat" where
  "levels (JArray xs) = 2 + Max (insert 0 (set (map levels xs)))"
| "levels (JObject ps) = 1 + Max (insert 0 (set (map (\<lambda>(k, v). levels v) ps)))"
| "levels _ = 1"

lemma levels_item: "x \<in> set xs \<Longrightarrow> levels x + 2 \<le> levels (JArray xs)"
  by simp

lemma levels_value: "(k, v) \<in> set ps \<Longrightarrow> levels v + 1 \<le> levels (JObject ps)"
proof -
  assume "(k, v) \<in> set ps"
  then have "levels v \<in> insert 0 (set (map (\<lambda>(k, v). levels v) ps))" by force
  then show ?thesis by (simp add: Max_ge)
qed

lemma strcmp_refl [simp]: "strcmp s s = 0"
  by (induction s) auto

lemma cmp_two_simple_refl: "leaf v \<Longrightarrow> cmp_two_simple_json lc (Some v) (Some v) = 0"
  by (cases v) (auto simp: leaf_def cmp_two_simple_json_def cmp_values_def jn2string_def)

lemma pairs_del_head: "distinct (map fst ((k, v) # ps)) \<Longrightarrow> pairs_del ((k, v) # ps) k = ps"
  by (auto simp: pairs_del_def filter_id_conv)

lemma compare_pairs_refl:
  assumes "distinct (map fst ps)" and "\<And>k v. (k, v) \<in> set ps \<Longrightarrow> \<not> leaf v \<Longrightarrow> cmp v v"
  shows "compare_pairs opts cmp ps ps"
  using assms
proof (induction ps)
  case Nil
  then show ?case by simp
next
  case (Cons p ps)
  obtain k v where p: "p = (k, v)" by force
  then show ?case
    using Cons pairs_del_head [of k v ps] cmp_two_simple_refl [of v]
    by (cases "leaf v") (auto simp: leaf_def)
qed

lemma remove_idx_0 [simp]: "remove_idx 0 (x # xs) = xs"
  by (simp add: remove_idx_def)

lemma compare_items_refl:
  assumes "\<And>x. x \<in> set xs \<Longrightarrow> json_ok x \<and> (\<not> leaf x \<longrightarrow> cmp x x)"
  shows "compare_items cmp xs xs"
  using assms
proof (induction xs)
  case Nil
  then show ?case by simp
next
  case (Cons x xs)
  have "json_equal x x" using Cons.prems by (simp add: json_equal_refl)
  then show ?case
    using Cons
    by (auto simp: leaf_def kwid_find_record_in_list_def kw_find_json_in_list_def split: option.split)
qed

text \<open>Whether a key takes part in the comparison.\<close>

definition compared_key :: "compare_opts \<Rightarrow> string \<Rightarrow> bool" where
  "compared_key opts k \<longleftrightarrow> k \<notin> set (co_ignore_keys opts) \<and>
     (co_without_metadata opts \<longrightarrow> underscores_of k \<noteq> 2) \<and> (co_without_private opts \<longrightarrow> underscores_of k \<noteq> 1)"

lemma foldl_del: "foldl json_object_del (JObject qs) ks = JObject (filter (\<lambda>p. fst p \<notin> set ks) qs)"
  by (induction ks arbitrary: qs) (auto simp: pairs_del_def intro: filter_cong)

lemma pruned_filter: "pruned opts (JObject ps) = filter (\<lambda>p. compared_key opts (fst p)) ps"
  by (cases "co_without_metadata opts"; cases "co_without_private opts")
    (auto simp: pruned_def kw_delete_metadata_keys_def kw_delete_private_keys_def foldl_del
      compared_key_def case_prod_unfold Let_def intro!: filter_cong)

lemma compare_path_refl:
  "json_ok j \<Longrightarrow> levels j \<le> n \<Longrightarrow> compare_path opts n False j j"
proof (induction n arbitrary: j rule: less_induct)
  case (less n)
  show ?case
  proof (cases j)
    case (JObject ps)
    obtain m where n: "n = Suc m" using less.prems(2) JObject by (cases n) auto
    have "compare_pairs opts (compare_path opts m False) (pruned opts j) (pruned opts j)"
    proof (rule compare_pairs_refl)
      show "distinct (map fst (pruned opts j))"
        using less.prems(1) JObject by (simp add: pruned_filter distinct_map_filter)
      show "compare_path opts m False v v" if "(k, v) \<in> set (pruned opts j)" for k v
      proof (rule less.IH)
        have mem: "(k, v) \<in> set ps" using that JObject by (auto simp: pruned_filter)
        show "json_ok v" using mem less.prems(1) JObject by auto
        show "levels v \<le> m" using levels_value [OF mem] less.prems(2) unfolding JObject n by linarith
        show "m < n" using n by simp
      qed
    qed
    then show ?thesis using JObject n by simp
  next
    case (JArray xs)
    have "2 \<le> n" using less.prems(2) JArray by simp
    then obtain m where n: "n = Suc (Suc m)" by (metis add_2_eq_Suc le_Suc_ex)
    have "compare_items (compare_path opts m False) xs xs"
    proof (rule compare_items_refl)
      fix x assume mem: "x \<in> set xs"
      have ok: "json_ok x" using mem less.prems(1) JArray by simp
      have "levels x \<le> m" using levels_item [OF mem] less.prems(2) unfolding JArray n by linarith
      then show "json_ok x \<and> (\<not> leaf x \<longrightarrow> compare_path opts m False x x)"
        using less.IH [of m x] ok n by simp
    qed
    then show ?thesis using JArray n by simp
  qed (use less.prems cmp_two_simple_refl in \<open>cases n; auto simp: leaf_def\<close>)+
qed

text \<open>A list of simple values against any list.\<close>

lemma find_json_loop_at:
  "find_json_loop i ys x = (case find_match (json_equal x) i ys of None \<Rightarrow> -1 | Some k \<Rightarrow> int k)"
  by (induction i ys x rule: find_json_loop.induct) auto

lemma find_match_Some:
  "find_match p i ys = Some k \<Longrightarrow> i \<le> k \<and> k - i < length ys \<and> p (ys ! (k - i))"
  by (induction p i ys rule: find_match.induct) (auto split: if_splits simp: nth_Cons' Suc_diff_le)

lemma find_match_None: "find_match p i ys = None \<longleftrightarrow> (\<forall>y \<in> set ys. \<not> p y)"
  by (induction p i ys rule: find_match.induct) auto

lemma mset_remove_idx: "i < length ys \<Longrightarrow> mset (remove_idx i ys) = mset ys - {#ys ! i#}"
  unfolding remove_idx_def
  by (subst (3) id_take_nth_drop) (auto simp: ac_simps)

lemma json_equal_leaf: "leaf x \<Longrightarrow> json_equal x y \<longleftrightarrow> x = y"
  by (cases x; cases y) (auto simp: leaf_def)

lemma compare_items_leaves:
  "\<forall>x \<in> set xs. leaf x \<Longrightarrow> compare_items cmp xs ys \<longleftrightarrow> mset xs = mset ys"
proof (induction xs arbitrary: ys)
  case Nil
  then show ?case by auto
next
  case (Cons x xs)
  have x: "leaf x" and IH: "compare_items cmp xs zs \<longleftrightarrow> mset xs = mset zs" for zs
    using Cons by auto
  note eq = json_equal_leaf [OF x]
  show ?case
  proof (cases "find_match (json_equal x) 0 ys")
    case None
    then have "x \<notin> set ys" using eq by (auto simp: find_match_None)
    then have "mset (x # xs) \<noteq> mset ys" by (metis list.set_intros(1) set_mset_mset)
    then show ?thesis
      using None x by (auto simp: leaf_def kw_find_json_in_list_def find_json_loop_at)
  next
    case (Some k)
    then have k: "k < length ys" "ys ! k = x" using find_match_Some [OF Some] eq by auto
    then have "x \<in># mset ys" by force
    then have "mset xs = mset (remove_idx k ys) \<longleftrightarrow> mset (x # xs) = mset ys"
      using mset_remove_idx [OF k(1)] k(2) by (metis add_mset_remove_trivial insert_DiffM mset.simps(2))
    then show ?thesis
      using Some x IH by (auto simp: leaf_def kw_find_json_in_list_def find_json_loop_at)
  qed
qed

section \<open>Duplicates and collapsing\<close>

text \<open>No dict, at any level, has a key with exactly \<open>n\<close> leading underscores.\<close>

fun without_keys :: "nat \<Rightarrow> json \<Rightarrow> bool" where
  "without_keys n (JObject ps) \<longleftrightarrow> (\<forall>(k, v) \<in> set ps. underscores_of k \<noteq> n \<and> without_keys n v)"
| "without_keys n (JArray xs) \<longleftrightarrow> (\<forall>x \<in> set xs. without_keys n x)"
| "without_keys n v \<longleftrightarrow> True"

lemma duplicate_without: "n \<noteq> 0 \<Longrightarrow> without_keys n (duplicate_json None n j)"
  by (induction n j rule: without_keys.induct) (auto simp: keeps_key_def)

lemma duplicate_same: "without_keys n j \<Longrightarrow> duplicate_json None n j = j"
proof (induction n j rule: without_keys.induct)
  case (1 n ps)
  have "filter (\<lambda>(k, v). keeps_key None n k) ps = ps"
    using 1(2) by (intro filter_True) (auto simp: keeps_key_def)
  moreover have "map (\<lambda>(k, v). (k, duplicate_json None n v)) ps = ps"
    using 1 by (intro map_idI) auto
  ultimately show ?case by simp
next
  case (2 n xs)
  then show ?case by (auto intro: map_idI)
qed auto

lemma duplicate_keeps_all: "duplicate_json None 0 j = j"
proof (induction j)
  case (JObject ps)
  have "map (\<lambda>(k, v). (k, duplicate_json None 0 v)) ps = ps" using JObject by (intro map_idI) auto
  then show ?case by (simp add: keeps_key_def case_prod_unfold)
next
  case (JArray xs)
  then show ?case by (auto intro: map_idI)
qed auto

lemma collapse_unlimited:
  assumes "ll \<le> 0" "dl \<le> 0"
  shows "collapse_pairs ll dl path ps = ps" "collapse_items ll dl path i xs = xs"
  using assms
  by (induction ll dl path ps and ll dl path i xs rule: collapse_pairs_collapse_items.induct)
    (auto simp: Let_def split: json.split)

end
