(* ===== verification/Kw_Flatten.thy ===== *)
theory Kw_Flatten
  imports KwId
begin

text \<open>
  \<open>json_flatten_dict\<close> and \<open>json_unflatten_dict\<close> of \<^verbatim>\<open>kernel/c/gobj-c/src/kwid.c\<close>: a nested json value as
  one dict whose keys are paths, and back. A segment of digits is an index of a list.
\<close>

section \<open>Flattening\<close>

fun flatten_recursive :: "json \<Rightarrow> json \<Rightarrow> string \<Rightarrow> json"
and flatten_object :: "json \<Rightarrow> (string \<times> json) list \<Rightarrow> string \<Rightarrow> json"
and flatten_array :: "json \<Rightarrow> nat \<Rightarrow> json list \<Rightarrow> string \<Rightarrow> json" where
  "flatten_recursive result (JObject ps) path = flatten_object result ps path"
| "flatten_recursive result (JArray xs) path = flatten_array result 0 xs path"
| "flatten_recursive result v path = (if path \<noteq> [] then json_object_set result path v else result)"
| "flatten_object result [] path = result"
| "flatten_object result ((key, child) # ps) path = flatten_object
     (flatten_recursive result child (if path \<noteq> [] then path @ [CHR 0x60] @ key else key)) ps path"
| "flatten_array result i [] path = result"
| "flatten_array result i (child # xs) path = flatten_array
     (flatten_recursive result child
        (if path \<noteq> [] then path @ [CHR 0x60] @ nat_digits i else nat_digits i)) (i + 1) xs path"

definition json_flatten_dict :: "jn \<Rightarrow> json" where
  "json_flatten_dict jn_nested = (case jn_nested of
     None \<Rightarrow> JObject [] | Some j \<Rightarrow> flatten_recursive (JObject []) j [])"

section \<open>Unflattening\<close>

definition isdigit :: "char \<Rightarrow> bool" where
  "isdigit c \<longleftrightarrow> (let n = of_char c :: nat in 48 \<le> n \<and> n \<le> 57)"

definition is_array_index :: "string \<Rightarrow> bool" where
  "is_array_index s \<longleftrightarrow> s \<noteq> [] \<and> list_all isdigit s"

text \<open>\<open>(size_t)atol(s)\<close>.\<close>

definition atol_index :: "string \<Rightarrow> nat" where
  "atol_index s = nat (strtoll s 10 mod 2 ^ 64)"

definition ensure_array_size :: "json list \<Rightarrow> nat \<Rightarrow> json list" where
  "ensure_array_size xs i = xs @ replicate (Suc i - length xs) JNull"

definition new_container :: "string \<Rightarrow> json" where
  "new_container next_key = (if is_array_index next_key then JArray [] else JObject [])"

definition child_or_new :: "jn \<Rightarrow> string \<Rightarrow> json" where
  "child_or_new child next_key = (case child of
     None \<Rightarrow> new_container next_key
   | Some v \<Rightarrow> if v = JNull then new_container next_key else v)"

text \<open>The walk along the tokens; it stops without a change at a value that is neither dict nor list.\<close>

fun set_tokens :: "json \<Rightarrow> string list \<Rightarrow> json \<Rightarrow> json" where
  "set_tokens cur [] v = cur"
| "set_tokens cur [key] v = (case cur of
     JObject ps \<Rightarrow> JObject (pairs_set ps key v)
   | JArray xs \<Rightarrow> (let i = atol_index key in JArray ((ensure_array_size xs i)[i := v]))
   | _ \<Rightarrow> cur)"
| "set_tokens cur (key # next_key # keys) v = (case cur of
     JObject ps \<Rightarrow> JObject (pairs_set ps key
       (set_tokens (child_or_new (map_of ps key) next_key) (next_key # keys) v))
   | JArray xs \<Rightarrow> (let i = atol_index key; ys = ensure_array_size xs i in
       JArray (ys[i := set_tokens (child_or_new (Some (ys ! i)) next_key) (next_key # keys) v]))
   | _ \<Rightarrow> cur)"

definition max_tokens :: nat where "max_tokens = 256"

definition set_path_value :: "json \<Rightarrow> string \<Rightarrow> json \<Rightarrow> json" where
  "set_path_value top_value path v = set_tokens top_value (take max_tokens (split2 path)) v"

definition json_unflatten_dict :: "jn \<Rightarrow> json" where
  "json_unflatten_dict jn_flat = (case jn_flat of
     Some (JObject ps) \<Rightarrow>
       (let top_value = (case ps of [] \<Rightarrow> JObject []
          | (first_key, _) # _ \<Rightarrow> (case split2 first_key of [] \<Rightarrow> JObject []
              | token # _ \<Rightarrow> if is_array_index token then JArray [] else JObject []))
        in foldl (\<lambda>top_value (path, v). set_path_value top_value path v) top_value ps)
   | _ \<Rightarrow> JObject [])"

section \<open>Numbers as segments\<close>

lemma digit_char [simp]: "d < 10 \<Longrightarrow> of_char (char_of (48 + d) :: char) = (48 + d :: nat)"
  by simp

lemma isdigit_digit: "d < (10 :: nat) \<Longrightarrow> isdigit (char_of (48 + d))"
  by (simp add: isdigit_def)

lemma digit_val_digit: "d < 10 \<Longrightarrow> digit_val (char_of (48 + d)) = Some d"
  by (simp add: digit_val_def)

lemma isdigit_val: "isdigit c \<Longrightarrow> \<exists>d < 10. digit_val c = Some d"
  by (auto simp: isdigit_def digit_val_def Let_def)

lemma digits_loop_app:
  "list_all isdigit s \<Longrightarrow> digits_loop 10 acc (s @ t) = digits_loop 10 (digits_loop 10 acc s) t"
proof (induction s arbitrary: acc)
  case (Cons c s)
  then obtain d where "digit_val c = Some d" "d < 10" using isdigit_val [of c] by auto
  then show ?case using Cons by simp
qed simp

lemma nat_digits_props:
  "nat_digits n \<noteq> [] \<and> list_all isdigit (nat_digits n) \<and> digits_loop 10 0 (nat_digits n) = int n"
proof (induction n rule: nat_digits.induct)
  case (1 n)
  show ?case
  proof (cases "n < 10")
    case True
    then show ?thesis
      by (subst (1 2 3) nat_digits.simps) (simp add: isdigit_digit digit_val_digit)
  next
    case False
    have "int n = int (n div 10) * 10 + int (n mod 10)" by presburger
    moreover have "digits_loop 10 0 (nat_digits (n div 10) @ [char_of (48 + n mod 10)]) =
        int (n div 10) * 10 + int (n mod 10)"
      using 1 [OF False] by (simp add: digits_loop_app digit_val_digit)
    ultimately show ?thesis
      using 1 [OF False] False
      by (subst (1 2 3) nat_digits.simps) (simp add: isdigit_digit)
  qed
qed

lemma isdigit_plain: "isdigit c \<Longrightarrow> \<not> isspace c \<and> c \<noteq> CHR ''-'' \<and> c \<noteq> CHR ''+'' \<and> c \<noteq> delimiter"
  by (auto simp: isdigit_def isspace_def delimiter_def Let_def)

lemma nat_digits_segment:
  "nat_digits n \<noteq> []" "delimiter \<notin> set (nat_digits n)" "is_array_index (nat_digits n)"
  using nat_digits_props [of n] isdigit_plain by (auto simp: is_array_index_def list_all_iff)

lemma strtoll_digits:
  assumes "s \<noteq> []" "list_all isdigit s" "digits_loop 10 0 s < 2 ^ 63" "0 \<le> digits_loop 10 0 s"
  shows "strtoll s 10 = digits_loop 10 0 s"
proof -
  obtain c cs where s: "s = c # cs" using assms(1) by (cases s) auto
  then have c: "\<not> isspace c" "c \<noteq> CHR ''-''" "c \<noteq> CHR ''+''"
    using assms(2) isdigit_plain [of c] by auto
  then have "dropWhile isspace s = s" using s by simp
  then show ?thesis using assms(3,4) c s by (simp add: strtoll_def Let_def)
qed

lemma atol_index_digits:
  assumes "i < 2 ^ 63"
  shows "atol_index (nat_digits i) = i"
proof -
  have "strtoll (nat_digits i) 10 = int i"
    using strtoll_digits [of "nat_digits i"] nat_digits_props [of i] assms by simp
  then show ?thesis using assms by (simp add: atol_index_def nat_mod_distrib)
qed

lemma nat_digits_inject: "nat_digits i = nat_digits j \<longleftrightarrow> i = j"
  using nat_digits_props by (metis of_nat_eq_iff)

section \<open>The leaves of a value\<close>

text \<open>Every simple value inside, with the segments that lead to it.\<close>

fun leaves :: "json \<Rightarrow> (string list \<times> json) list"
and leaves_object :: "(string \<times> json) list \<Rightarrow> (string list \<times> json) list"
and leaves_array :: "nat \<Rightarrow> json list \<Rightarrow> (string list \<times> json) list" where
  "leaves (JObject ps) = leaves_object ps"
| "leaves (JArray xs) = leaves_array 0 xs"
| "leaves v = [([], v)]"
| "leaves_object [] = []"
| "leaves_object ((k, v) # ps) = map (apfst (Cons k)) (leaves v) @ leaves_object ps"
| "leaves_array i [] = []"
| "leaves_array i (v # xs) = map (apfst (Cons (nat_digits i))) (leaves v) @ leaves_array (Suc i) xs"

definition segment_ok :: "string \<Rightarrow> bool" where
  "segment_ok k \<longleftrightarrow> k \<noteq> [] \<and> delimiter \<notin> set k"

text \<open>
  Values that survive: the keys are not empty, hold no delimiter and are no numbers, and no dict or list
  inside is empty.
\<close>

fun flat_ok :: "json \<Rightarrow> bool" where
  "flat_ok (JObject ps) \<longleftrightarrow> ps \<noteq> [] \<and> distinct (map fst ps) \<and>
     (\<forall>(k, v) \<in> set ps. segment_ok k \<and> \<not> is_array_index k \<and> flat_ok v)"
| "flat_ok (JArray xs) \<longleftrightarrow> xs \<noteq> [] \<and> length xs < 2 ^ 63 \<and> (\<forall>x \<in> set xs. flat_ok x)"
| "flat_ok v \<longleftrightarrow> True"

fun nesting :: "json \<Rightarrow> nat" where
  "nesting (JObject ps) = Suc (Max (insert 0 (set (map (\<lambda>(k, v). nesting v) ps))))"
| "nesting (JArray xs) = Suc (Max (insert 0 (set (map nesting xs))))"
| "nesting v = 0"

definition container :: "json \<Rightarrow> bool" where
  "container v \<longleftrightarrow> json_is_object (Some v) \<or> json_is_array (Some v)"

lemma container_simps [simp]:
  "container (JObject ps)" "container (JArray xs)" "\<not> container JNull" "\<not> container (JBool b)"
  "\<not> container (JInt i)" "\<not> container (JReal r)" "\<not> container (JString s)"
  by (simp_all add: container_def)

lemma leaves_leaf: "\<not> container v \<Longrightarrow> leaves v = [([], v)]"
  by (cases v) simp_all

section \<open>What flattening stores\<close>

text \<open>The path of a leaf below \<open>path\<close>.\<close>

fun below :: "string \<Rightarrow> string list \<Rightarrow> string" where
  "below path [] = path"
| "below path (t # ts) = below (if path \<noteq> [] then path @ [CHR 0x60] @ t else t) ts"

definition put_leaves :: "string \<Rightarrow> (string list \<times> json) list \<Rightarrow> (string \<times> json) list \<Rightarrow> (string \<times> json) list" where
  "put_leaves path ls qs = foldl (\<lambda>acc (ts, x). pairs_set acc (below path ts) x) qs ls"

lemma put_leaves_append: "put_leaves path (ls @ ms) qs = put_leaves path ms (put_leaves path ls qs)"
  by (simp add: put_leaves_def)

lemma put_leaves_cons: "put_leaves path (map (apfst (Cons k)) ls) qs =
    put_leaves (if path \<noteq> [] then path @ [CHR 0x60] @ k else k) ls qs"
  unfolding put_leaves_def by (induction ls arbitrary: qs) (auto simp: case_prod_unfold)

lemma flatten_puts:
  "flat_ok j \<Longrightarrow> path \<noteq> [] \<or> container j \<Longrightarrow>
     flatten_recursive (JObject qs) j path = JObject (put_leaves path (leaves j) qs)"
  "\<forall>(k, v) \<in> set ps. segment_ok k \<and> flat_ok v \<Longrightarrow>
     flatten_object (JObject qs) ps path = JObject (put_leaves path (leaves_object ps) qs)"
  "\<forall>x \<in> set xs. flat_ok x \<Longrightarrow>
     flatten_array (JObject qs) i xs path = JObject (put_leaves path (leaves_array i xs) qs)"
proof (induction j and ps and i xs arbitrary: path qs and path qs and path qs
    rule: leaves_leaves_object_leaves_array.induct)
  case (5 k v ps)
  then show ?case
    by (auto simp: put_leaves_append put_leaves_cons segment_ok_def case_prod_unfold)
next
  case (7 i v xs)
  then show ?case
    using nat_digits_segment(1) [of i] by (auto simp: put_leaves_append put_leaves_cons)
qed (auto simp: put_leaves_def case_prod_unfold)

section \<open>Paths are distinct\<close>

lemma split2_join_segments:
  "\<forall>s \<in> set ss. segment_ok s \<Longrightarrow> split2 (join_path ss) = ss"
  unfolding split2_def
  by (induction ss rule: join_path.induct)
    (auto simp: segment_ok_def split2_loop_app split2_loop_end)

lemma join_path_merge: "join_path ((t @ delimiter # a) # ts) = t @ delimiter # join_path (a # ts)"
  by (cases ts) simp_all

lemma below_join: "path \<noteq> [] \<Longrightarrow> below path (t # ts) = path @ delimiter # join_path (t # ts)"
  by (induction ts arbitrary: path t) (simp_all add: delimiter_def join_path_merge [unfolded delimiter_def])

lemma below_join0: "\<forall>s \<in> set ts. segment_ok s \<Longrightarrow> below [] ts = join_path ts"
proof (cases ts rule: join_path.cases)
  case (3 s t ss)
  assume "\<forall>s \<in> set ts. segment_ok s"
  then have "s \<noteq> []" using 3 by (simp add: segment_ok_def)
  then show ?thesis using 3 below_join [of s t ss] by (simp add: delimiter_def)
qed simp_all

lemma nat_digits_ok: "segment_ok (nat_digits i)"
  using nat_digits_segment by (simp add: segment_ok_def)

lemma leaves_segments:
  "flat_ok j \<Longrightarrow> (ts, x) \<in> set (leaves j) \<Longrightarrow> (\<forall>s \<in> set ts. segment_ok s) \<and> length ts \<le> nesting j"
  "\<forall>(k, v) \<in> set ps. segment_ok k \<and> flat_ok v \<Longrightarrow> (ts, x) \<in> set (leaves_object ps) \<Longrightarrow>
     (\<forall>s \<in> set ts. segment_ok s) \<and> (\<exists>(k, v) \<in> set ps. length ts \<le> Suc (nesting v))"
  "\<forall>x \<in> set xs. flat_ok x \<Longrightarrow> (ts, x) \<in> set (leaves_array i xs) \<Longrightarrow>
     (\<forall>s \<in> set ts. segment_ok s) \<and> (\<exists>v \<in> set xs. length ts \<le> Suc (nesting v))"
proof (induction j and ps and i xs arbitrary: ts and ts and ts
    rule: leaves_leaves_object_leaves_array.induct)
  case (1 ps)
  then have "\<forall>(k, v) \<in> set ps. segment_ok k \<and> flat_ok v" by auto
  from 1(1) [OF this] 1(3) obtain k v where kv: "\<forall>s \<in> set ts. segment_ok s" "(k, v) \<in> set ps"
    "length ts \<le> Suc (nesting v)" by fastforce
  then have "nesting v \<in> insert 0 (set (map (\<lambda>(k, v). nesting v) ps))" by force
  then have "nesting v \<le> Max (insert 0 (set (map (\<lambda>(k, v). nesting v) ps)))" by (simp add: Max_ge)
  then show ?case using kv by simp
next
  case (2 xs)
  then obtain v where v: "(\<forall>s \<in> set ts. segment_ok s)" "v \<in> set xs" "length ts \<le> Suc (nesting v)"
    by fastforce
  then have "nesting v \<le> Max (insert 0 (set (map nesting xs)))" by (intro Max_ge) auto
  then have "Suc (nesting v) \<le> nesting (JArray xs)" unfolding nesting.simps by (rule Suc_le_mono [THEN iffD2])
  then show ?case using v by (meson le_trans)
next
  case (7 i v xs)
  then show ?case using nat_digits_ok [of i] by fastforce
qed auto

lemma leaves_object_heads:
  "(ts, x) \<in> set (leaves_object ps) \<Longrightarrow> \<exists>k us. ts = k # us \<and> k \<in> fst ` set ps"
  by (induction ps) force+

lemma leaves_array_heads:
  "(ts, x) \<in> set (leaves_array i xs) \<Longrightarrow> \<exists>m us. ts = nat_digits m # us \<and> i \<le> m"
proof (induction xs arbitrary: i)
  case (Cons v xs)
  then show ?case by (auto dest: Suc_leD) (metis Cons.IH Suc_leD)
qed simp

lemma leaves_distinct:
  "flat_ok j \<Longrightarrow> distinct (map fst (leaves j))"
  "distinct (map fst ps) \<Longrightarrow> \<forall>(k, v) \<in> set ps. flat_ok v \<Longrightarrow> distinct (map fst (leaves_object ps))"
  "\<forall>x \<in> set xs. flat_ok x \<Longrightarrow> distinct (map fst (leaves_array i xs))"
proof (induction j and ps and i xs rule: leaves_leaves_object_leaves_array.induct)
  case (5 k v ps)
  have "map fst (map (apfst (Cons k)) (leaves v)) = map (Cons k) (map fst (leaves v))" by simp
  then show ?case using 5 leaves_object_heads [of _ _ ps]
    by (fastforce simp: distinct_map inj_on_def)
next
  case (7 i v xs)
  have "map fst (map (apfst (Cons (nat_digits i))) (leaves v)) = map (Cons (nat_digits i)) (map fst (leaves v))"
    by simp
  then show ?case using 7 leaves_array_heads [of _ _ "Suc i" xs]
    by (fastforce simp: distinct_map inj_on_def nat_digits_inject)
qed auto
section \<open>Rebuilding\<close>

definition build :: "json \<Rightarrow> (string list \<times> json) list \<Rightarrow> json" where
  "build v ls = foldl (\<lambda>v (ts, x). set_tokens v ts x) v ls"

lemma build_simps [simp]:
  "build v [] = v" "build v ((ts, x) # ls) = build (set_tokens v ts x) ls"
  "build v (ls @ ms) = build (build v ls) ms"
  by (simp_all add: build_def)

lemma container_set_tokens: "container c \<Longrightarrow> container (set_tokens c ts x)"
  by (cases "(c, ts, x)" rule: set_tokens.cases) (auto simp: container_def Let_def split: json.split)

lemma pairs_set_snoc: "k \<notin> fst ` set ps \<Longrightarrow> pairs_set (ps @ [(k, c)]) k v = ps @ [(k, v)]"
  "k \<notin> fst ` set ps \<Longrightarrow> pairs_set ps k v = ps @ [(k, v)]"
  by (induction ps) auto

lemma map_of_snoc: "k \<notin> fst ` set ps \<Longrightarrow> map_of (ps @ [(k, c)]) k = Some c"
  by (induction ps) auto

lemma container_child: "container c \<Longrightarrow> child_or_new (Some c) t = c"
  by (auto simp: child_or_new_def container_def)

text \<open>Leaves below one key, or one index, build the value there.\<close>

lemma build_key_more:
  assumes "k \<notin> fst ` set ps" "container c" "\<forall>(ts, x) \<in> set ls. ts \<noteq> []"
  shows "build (JObject (ps @ [(k, c)])) (map (apfst (Cons k)) ls) = JObject (ps @ [(k, build c ls)])"
  using assms(2,3)
proof (induction ls arbitrary: c)
  case (Cons l ls)
  obtain t ts x where l: "l = (t # ts, x)" using Cons.prems(2) by (cases l; cases "fst l") auto
  then show ?case
    using Cons container_set_tokens [OF Cons.prems(1), of "t # ts" x] map_of_snoc [OF assms(1), of c]
    by (simp add: pairs_set_snoc(1) [OF assms(1)] container_child del: map_of_append)
qed simp

lemma build_key:
  assumes "k \<notin> fst ` set ps" "ls = (t # ts, x) # rest" "\<forall>(ts, x) \<in> set ls. ts \<noteq> []"
  shows "build (JObject ps) (map (apfst (Cons k)) ls) = JObject (ps @ [(k, build (new_container t) ls)])"
proof -
  have "map_of ps k = None" using assms(1) by (simp add: map_of_eq_None_iff)
  moreover have "container (set_tokens (new_container t) (t # ts) x)"
    by (rule container_set_tokens) (simp add: new_container_def)
  ultimately show ?thesis
    using build_key_more [OF assms(1), of "set_tokens (new_container t) (t # ts) x" rest] assms(2,3)
    by (simp add: child_or_new_def pairs_set_snoc(2) [OF assms(1)])
qed

lemma ensure_at_end: "ensure_array_size (xs @ [c]) (length xs) = xs @ [c]"
  "ensure_array_size xs (length xs) = xs @ [JNull]"
  by (simp_all add: ensure_array_size_def)

lemma build_index_more:
  assumes "length xs < 2 ^ 63" "container c" "\<forall>(ts, x) \<in> set ls. ts \<noteq> []"
  shows "build (JArray (xs @ [c])) (map (apfst (Cons (nat_digits (length xs)))) ls) = JArray (xs @ [build c ls])"
  using assms(2,3)
proof (induction ls arbitrary: c)
  case (Cons l ls)
  obtain t ts x where l: "l = (t # ts, x)" using Cons.prems(2) by (cases l; cases "fst l") auto
  then show ?case
    using Cons container_set_tokens [OF Cons.prems(1), of "t # ts" x]
    by (simp add: atol_index_digits [OF assms(1)] ensure_at_end container_child Let_def)
qed simp

lemma build_index:
  assumes "length xs < 2 ^ 63" "ls = (t # ts, x) # rest" "\<forall>(ts, x) \<in> set ls. ts \<noteq> []"
  shows "build (JArray xs) (map (apfst (Cons (nat_digits (length xs)))) ls) =
    JArray (xs @ [build (new_container t) ls])"
proof -
  have "container (set_tokens (new_container t) (t # ts) x)"
    by (rule container_set_tokens) (simp add: new_container_def)
  then show ?thesis
    using build_index_more [OF assms(1), of "set_tokens (new_container t) (t # ts) x" rest] assms(2,3)
    by (simp add: atol_index_digits [OF assms(1)] ensure_at_end child_or_new_def Let_def)
qed

text \<open>The container a value starts from, as the first segment below it tells.\<close>

definition empty_like :: "json \<Rightarrow> json" where
  "empty_like v = (if json_is_array (Some v) then JArray [] else JObject [])"

lemma first_leaf:
  "flat_ok v \<Longrightarrow> container v \<Longrightarrow> \<exists>t ts x rest. leaves v = (t # ts, x) # rest \<and> new_container t = empty_like v"
  "flat_ok v \<Longrightarrow> leaves v \<noteq> []"
proof -
  have ne: "flat_ok v \<Longrightarrow> leaves v \<noteq> []" for v
  proof (induction v)
    case (JObject ps)
    then obtain k w qs where ps: "ps = (k, w) # qs" "flat_ok w" by (cases ps) auto
    then have "leaves w \<noteq> []" using JObject.IH by fastforce
    then show ?case using ps by simp
  next
    case (JArray xs)
    then show ?case by (cases xs) auto
  qed auto
  show "flat_ok v \<Longrightarrow> leaves v \<noteq> []" by (rule ne)
  assume ok: "flat_ok v" and c: "container v"
  show "\<exists>t ts x rest. leaves v = (t # ts, x) # rest \<and> new_container t = empty_like v"
  proof (cases v)
    case (JObject ps)
    then obtain k w qs where ps: "ps = (k, w) # qs" using ok by (cases ps) auto
    then have "flat_ok w" "\<not> is_array_index k" using ok JObject by auto
    then show ?thesis using ne [of w] JObject ps
      by (cases "leaves w") (auto simp: new_container_def empty_like_def)
  next
    case (JArray xs)
    then obtain w ys where xs: "xs = w # ys" using ok by (cases xs) auto
    then have "flat_ok w" using ok JArray by auto
    then show ?thesis using ne [of w] JArray xs nat_digits_segment(3)
      by (cases "leaves w") (auto simp: new_container_def empty_like_def)
  qed (use c in auto)
qed

lemma leaves_nonempty: "container v \<Longrightarrow> (ts, x) \<in> set (leaves v) \<Longrightarrow> ts \<noteq> []"
  by (cases v) (auto dest: leaves_object_heads leaves_array_heads)

lemma build_leaves:
  "flat_ok v \<Longrightarrow> container v \<Longrightarrow> build (empty_like v) (leaves v) = v"
  "distinct (map fst (qs @ ps)) \<Longrightarrow> \<forall>(k, v) \<in> set ps. flat_ok v \<Longrightarrow>
     build (JObject qs) (leaves_object ps) = JObject (qs @ ps)"
  "length (ys @ xs) < 2 ^ 63 \<Longrightarrow> i = length ys \<Longrightarrow> \<forall>x \<in> set xs. flat_ok x \<Longrightarrow>
     build (JArray ys) (leaves_array i xs) = JArray (ys @ xs)"
proof (induction v and ps and i xs arbitrary: and qs and ys rule: leaves_leaves_object_leaves_array.induct)
  case (1 ps)
  then have "\<forall>(k, v) \<in> set ps. flat_ok v" "distinct (map fst ([] @ ps))" by auto
  then show ?case using 1(1) [of "[]"] by (simp add: empty_like_def)
next
  case (5 k v ps)
  have k: "k \<notin> fst ` set qs" using 5(3) by auto
  have "build (JObject qs) (map (apfst (Cons k)) (leaves v)) = JObject (qs @ [(k, v)])"
  proof (cases "container v")
    case True
    obtain t ts x rest where l: "leaves v = (t # ts, x) # rest" "new_container t = empty_like v"
      using first_leaf(1) [of v] 5(4) True by auto
    then show ?thesis
      using build_key [OF k l(1)] leaves_nonempty [OF True] 5(1,4) True by auto
  next
    case False
    then show ?thesis by (simp add: leaves_leaf pairs_set_snoc(2) [OF k])
  qed
  then show ?case using 5(2) [of "qs @ [(k, v)]"] 5(3,4) by simp
next
  case (7 i v xs)
  have len: "length ys < 2 ^ 63" using 7(3) by simp
  have "build (JArray ys) (map (apfst (Cons (nat_digits i))) (leaves v)) = JArray (ys @ [v])"
  proof (cases "container v")
    case True
    obtain t ts x rest where l: "leaves v = (t # ts, x) # rest" "new_container t = empty_like v"
      using first_leaf(1) [of v] 7(5) True by auto
    then show ?thesis
      using build_index [OF len l(1)] leaves_nonempty [OF True] 7(1,4,5) True by auto
  next
    case False
    then show ?thesis
      using 7(4) by (simp add: leaves_leaf atol_index_digits [OF len] ensure_at_end Let_def)
  qed
  then show ?case using 7(2) [of "ys @ [v]"] 7(3-5) by simp
qed (auto simp: empty_like_def)

section \<open>The round trip\<close>

lemma foldl_pairs_set:
  "distinct (map fst (qs @ rs)) \<Longrightarrow> foldl (\<lambda>acc (k, v). pairs_set acc k v) qs rs = qs @ rs"
proof (induction rs arbitrary: qs)
  case (Cons r rs)
  obtain k v where r: "r = (k, v)" by force
  then have "k \<notin> fst ` set qs" using Cons.prems by auto
  then show ?case using Cons.IH [of "qs @ [(k, v)]"] Cons.prems r by (simp add: pairs_set_snoc(2))
qed simp

lemma flattened:
  assumes "flat_ok j" "container j"
  shows "json_flatten_dict (Some j) = JObject (map (apfst join_path) (leaves j))"
proof -
  have seg: "\<forall>s \<in> set ts. segment_ok s" if "(ts, x) \<in> set (leaves j)" for ts x
    using leaves_segments(1) [OF assms(1) that] by simp
  have "put_leaves [] (leaves j) [] = foldl (\<lambda>acc (k, v). pairs_set acc k v) [] (map (apfst join_path) (leaves j))"
    unfolding put_leaves_def foldl_map
    by (rule foldl_cong) (auto simp: below_join0 seg)
  also have "\<dots> = map (apfst join_path) (leaves j)"
  proof -
    have "inj_on join_path (set (map fst (leaves j)))"
      by (rule inj_on_inverseI [where g = split2]) (auto simp: split2_join_segments seg)
    then have "distinct (map join_path (map fst (leaves j)))"
      using leaves_distinct(1) [OF assms(1)] by (subst distinct_map) blast
    then show ?thesis using foldl_pairs_set [of "[]" "map (apfst join_path) (leaves j)"] by (simp add: comp_def)
  qed
  finally show ?thesis
    using flatten_puts(1) [OF assms(1), of "[]" "[]"] assms(2) by (simp add: json_flatten_dict_def)
qed

lemma unflatten_flatten:
  assumes "flat_ok j" "container j" "nesting j \<le> max_tokens"
  shows "json_unflatten_dict (Some (json_flatten_dict (Some j))) = j"
proof -
  obtain t ts x rest where first: "leaves j = (t # ts, x) # rest" "new_container t = empty_like j"
    using first_leaf(1) [OF assms(1,2)] by blast
  have seg: "\<forall>s \<in> set us. segment_ok s" "take max_tokens us = us" if "(us, y) \<in> set (leaves j)" for us y
    using leaves_segments(1) [OF assms(1) that] assms(3) by auto
  have top: "split2 (join_path (t # ts)) = t # ts"
    by (rule split2_join_segments) (use seg(1) [of "t # ts" x] first(1) in simp)
  have run: "foldl (\<lambda>v (path, x). set_path_value v path x) v (map (apfst join_path) ls) = build v ls"
    if "set ls \<subseteq> set (leaves j)" for v ls
    using that
    by (induction ls arbitrary: v)
      (auto simp: build_def set_path_value_def split2_join_segments seg)
  have "json_unflatten_dict (Some (json_flatten_dict (Some j))) =
      foldl (\<lambda>v (path, x). set_path_value v path x) (new_container t) (map (apfst join_path) (leaves j))"
    unfolding flattened [OF assms(1,2)] json_unflatten_dict_def first(1) using top
    by (simp add: new_container_def del: join_path.simps)
  also have "\<dots> = build (new_container t) (leaves j)" by (rule run) simp
  finally have "json_unflatten_dict (Some (json_flatten_dict (Some j))) = build (new_container t) (leaves j)" .
  then show ?thesis using build_leaves(1) [OF assms(1,2)] first(2) by simp
qed

end
