(* ===== verification/Kw_Serialize.thy ===== *)
theory Kw_Serialize
  imports KwId
begin

text \<open>
  Messages with binary fields, \<^verbatim>\<open>kernel/c/gobj-c/src/kwid.c\<close>: a field such as a buffer is an address in an
  integer; before a message leaves the process it is replaced by its json form, and back. The store the
  addresses point into is a state of type \<open>'s\<close>; the functions of a binary type work on it.
\<close>

record 's serialize_field =
  binary_field_name :: string
  serialized_field_name :: string
  serialize_fn :: "(int \<Rightarrow> 's \<Rightarrow> jn \<times> 's) option"
  deserialize_fn :: "(json \<Rightarrow> 's \<Rightarrow> int \<times> 's) option"
  incref_fn :: "(int \<Rightarrow> 's \<Rightarrow> 's) option"
  decref_fn :: "(int \<Rightarrow> 's \<Rightarrow> 's) option"

definition MAX_SERIALIZED_FIELDS :: nat where "MAX_SERIALIZED_FIELDS = 4"

definition kw_add_binary_type :: "'s serialize_field \<Rightarrow> 's serialize_field list \<Rightarrow> int \<times> 's serialize_field list" where
  "kw_add_binary_type pf table =
     (if length table \<ge> MAX_SERIALIZED_FIELDS then (-1, table) else (0, table @ [pf]))"

definition call_ref :: "(int \<Rightarrow> 's \<Rightarrow> 's) option \<Rightarrow> int \<Rightarrow> 's \<Rightarrow> 's" where
  "call_ref f b s = (case f of None \<Rightarrow> s | Some g \<Rightarrow> g b s)"

fun kw_serialize :: "'s serialize_field list \<Rightarrow> json \<Rightarrow> 's \<Rightarrow> json \<times> 's" where
  "kw_serialize [] kw s = (kw, s)"
| "kw_serialize (pf # table) kw s = (case json_object_get (Some kw) (binary_field_name pf) of
     None \<Rightarrow> kw_serialize table kw s
   | Some jn_binary \<Rightarrow>
       (let b = json_integer_value (Some jn_binary);
            (kw, s) = (case serialize_fn pf of
                None \<Rightarrow> (kw, s)
              | Some f \<Rightarrow> (let (jn_serialized, s) = f b s; s = call_ref (decref_fn pf) b s in
                  (case jn_serialized of None \<Rightarrow> kw
                     | Some j \<Rightarrow> json_object_set kw (serialized_field_name pf) j, s)))
        in kw_serialize table (json_object_del kw (binary_field_name pf)) s))"

text \<open>
  \<open>kw_serialize_to_string\<close>: the loop also collects what to restore and what to delete; the text is made
  by jansson from the value in between, which is the first result here.
\<close>

fun serialize_loop :: "'s serialize_field list \<Rightarrow> json \<Rightarrow> (string \<times> json) list \<Rightarrow> string list \<Rightarrow> 's \<Rightarrow>
  json \<times> (string \<times> json) list \<times> string list \<times> 's" where
  "serialize_loop [] kw to_restore to_delete s = (kw, to_restore, to_delete, s)"
| "serialize_loop (pf # table) kw to_restore to_delete s =
     (case json_object_get (Some kw) (binary_field_name pf) of
        None \<Rightarrow> serialize_loop table kw to_restore to_delete s
      | Some jn_binary \<Rightarrow>
          (let b = json_integer_value (Some jn_binary);
               (kw, to_delete, s) = (case serialize_fn pf of
                   None \<Rightarrow> (kw, to_delete, s)
                 | Some f \<Rightarrow> (let (jn_serialized, s) = f b s in (case jn_serialized of
                       None \<Rightarrow> (kw, to_delete, s)
                     | Some j \<Rightarrow> (json_object_set kw (serialized_field_name pf) j,
                         to_delete @ [serialized_field_name pf], s))))
           in serialize_loop table (json_object_del kw (binary_field_name pf))
                (pairs_set to_restore (binary_field_name pf) jn_binary) to_delete s))"

definition kw_serialize_to_string :: "'s serialize_field list \<Rightarrow> json \<Rightarrow> 's \<Rightarrow> json \<times> json \<times> 's" where
  "kw_serialize_to_string table kw s =
     (let (kw1, to_restore, to_delete, s) = serialize_loop table kw [] [] s;
          kw2 = foldl (\<lambda>kw (k, v). json_object_set kw k v) kw1 to_restore;
          kw3 = foldl json_object_del kw2 to_delete
      in (kw1, kw3, s))"

fun deserialize_loop :: "'s serialize_field list \<Rightarrow> json \<Rightarrow> 's \<Rightarrow> json \<times> 's" where
  "deserialize_loop [] kw s = (kw, s)"
| "deserialize_loop (pf # table) kw s = (case json_object_get (Some kw) (serialized_field_name pf) of
     None \<Rightarrow> deserialize_loop table kw s
   | Some jn_serialized \<Rightarrow>
       (let (kw, s) = (case deserialize_fn pf of
            None \<Rightarrow> (kw, s)
          | Some f \<Rightarrow> (let (b, s) = f jn_serialized s in
              (json_object_set kw (binary_field_name pf) (JInt b), s)))
        in deserialize_loop table (json_object_del kw (serialized_field_name pf)) s))"

definition kw_deserialize :: "'s serialize_field list \<Rightarrow> json \<Rightarrow> 's \<Rightarrow> json \<times> 's" where
  "kw_deserialize table kw s =
     deserialize_loop table (foldl json_object_del kw (map binary_field_name table)) s"

text \<open>What the reference counting of messages does to their binary fields.\<close>

fun ref_binaries :: "('s serialize_field \<Rightarrow> (int \<Rightarrow> 's \<Rightarrow> 's) option) \<Rightarrow> 's serialize_field list \<Rightarrow> json \<Rightarrow> 's \<Rightarrow> 's"
  where
  "ref_binaries op [] kw s = s"
| "ref_binaries op (pf # table) kw s =
     (let b = json_integer_value (json_object_get (Some kw) (binary_field_name pf))
      in ref_binaries op table kw (if b \<noteq> 0 then call_ref (op pf) b s else s))"

definition kw_incref :: "'s serialize_field list \<Rightarrow> json \<Rightarrow> 's \<Rightarrow> 's" where
  "kw_incref table kw s = ref_binaries incref_fn table kw s"

definition kw_decref :: "'s serialize_field list \<Rightarrow> json \<Rightarrow> 's \<Rightarrow> 's" where
  "kw_decref table kw s = ref_binaries decref_fn table kw s"

section \<open>What is kept\<close>

text \<open>The field names of a table do not clash.\<close>

definition table_ok :: "'s serialize_field list \<Rightarrow> bool" where
  "table_ok table \<longleftrightarrow> distinct (map binary_field_name table @ map serialized_field_name table)"

lemma get_object_set:
  "json_object_get (Some (json_object_set j k v)) k' =
   (if k' = k \<and> json_is_object (Some j) then Some v else json_object_get (Some j) k')"
  by (cases j) simp_all

lemma kw_serialize_other:
  assumes "k \<notin> set (map binary_field_name table @ map serialized_field_name table)"
  shows "json_object_get (Some (fst (kw_serialize table kw s))) k = json_object_get (Some kw) k"
  using assms
  by (induction table kw s rule: kw_serialize.induct)
    (auto simp: Let_def get_object_set get_object_del case_prod_unfold split: option.split)

lemma kw_deserialize_other:
  assumes "k \<notin> set (map binary_field_name table @ map serialized_field_name table)"
  shows "json_object_get (Some (fst (kw_deserialize table kw s))) k = json_object_get (Some kw) k"
proof -
  have del: "json_object_get (Some (foldl json_object_del kw ks)) k = json_object_get (Some kw) k"
    if "k \<notin> set ks" for ks
    using that by (induction ks arbitrary: kw) (auto simp: get_object_del)
  have loop: "json_object_get (Some (fst (deserialize_loop table kw s))) k = json_object_get (Some kw) k" for kw
    using assms
    by (induction table kw s rule: deserialize_loop.induct)
      (auto simp: Let_def get_object_set get_object_del case_prod_unfold split: option.split)
  show ?thesis using assms del [of "map binary_field_name table"] loop by (simp add: kw_deserialize_def)
qed

text \<open>What restoring and deleting leaves to be found.\<close>

definition restored :: "json \<Rightarrow> (string \<times> json) list \<Rightarrow> string list \<Rightarrow> json" where
  "restored kw to_restore to_delete =
     foldl json_object_del (foldl (\<lambda>kw (k, v). json_object_set kw k v) kw to_restore) to_delete"

lemma get_object_dels:
  "json_object_get (Some (foldl json_object_del kw ks)) k =
   (if k \<in> set ks then None else json_object_get (Some kw) k)"
  by (induction ks arbitrary: kw) (auto simp: get_object_del)

lemma object_set_object [simp]: "json_is_object (Some kw) \<Longrightarrow> json_is_object (Some (json_object_set kw k v))"
  by (cases kw) simp_all

lemma map_of_absent: "k \<notin> fst ` set ps \<Longrightarrow> map_of ps k = Some v \<longleftrightarrow> False"
  by (metis map_of_eq_None_iff option.distinct(1))

lemma get_object_sets:
  assumes "json_is_object (Some kw)" "distinct (map fst ps)"
  shows "json_object_get (Some (foldl (\<lambda>kw (k, v). json_object_set kw k v) kw ps)) k =
    (case map_of ps k of None \<Rightarrow> json_object_get (Some kw) k | Some v \<Rightarrow> Some v)"
  using assms
  by (induction ps arbitrary: kw) (auto simp: get_object_set map_of_eq_None_iff map_of_absent simp del: map_of_eq_Some_iff split: option.split)

lemma get_restored:
  assumes "json_is_object (Some kw)" "distinct (map fst rs)"
  shows "json_object_get (Some (restored kw rs ds)) k =
    (if k \<in> set ds then None
     else case map_of rs k of None \<Rightarrow> json_object_get (Some kw) k | Some v \<Rightarrow> Some v)"
  using get_object_sets [OF assms] by (simp add: restored_def get_object_dels)

lemma pairs_set_new: "k \<notin> fst ` set ps \<Longrightarrow> pairs_set ps k v = ps @ [(k, v)]"
  by (induction ps) auto

text \<open>Every step of the loop keeps what will be found once the message is restored.\<close>

lemma serialize_loop_restores:
  assumes "table_ok table" "json_is_object (Some kw)" "distinct (map fst rs)"
    and "\<And>pf. pf \<in> set table \<Longrightarrow> binary_field_name pf \<notin> fst ` set rs \<and> binary_field_name pf \<notin> set ds \<and>
      serialized_field_name pf \<notin> fst ` set rs \<and> json_object_get (Some kw) (serialized_field_name pf) = None"
    and "serialize_loop table kw rs ds s = (kw1, rs1, ds1, s1)"
  shows "json_object_get (Some (restored kw1 rs1 ds1)) k = json_object_get (Some (restored kw rs ds)) k"
  using assms
proof (induction table arbitrary: kw rs ds s)
  case Nil
  then show ?case by simp
next
  case (Cons pf table)
  note tab = Cons.prems(1)
  have ok: "table_ok table" using tab by (auto simp: table_ok_def)
  have names: "binary_field_name pf \<noteq> serialized_field_name pf"
    "\<And>q. q \<in> set table \<Longrightarrow> binary_field_name q \<noteq> binary_field_name pf \<and>
       binary_field_name q \<noteq> serialized_field_name pf \<and> serialized_field_name q \<noteq> binary_field_name pf \<and>
       serialized_field_name q \<noteq> serialized_field_name pf"
    using tab by (auto simp: table_ok_def) (metis image_eqI)+
  have here: "binary_field_name pf \<notin> fst ` set rs" "binary_field_name pf \<notin> set ds"
    "serialized_field_name pf \<notin> fst ` set rs" "json_object_get (Some kw) (serialized_field_name pf) = None"
    using Cons.prems(4) [of pf] by auto
  show ?case
  proof (cases "json_object_get (Some kw) (binary_field_name pf)")
    case None
    then show ?thesis using Cons.IH [OF ok Cons.prems(2,3), of ds s] Cons.prems(4,5) by simp
  next
    case (Some b)
    define rs' where "rs' = rs @ [(binary_field_name pf, b)]"
    obtain kw' ds' s' where step:
      "serialize_loop table (json_object_del kw' (binary_field_name pf)) rs' ds' s' = (kw1, rs1, ds1, s1)"
      and kw': "kw' = kw \<and> ds' = ds \<or>
        (\<exists>j. kw' = json_object_set kw (serialized_field_name pf) j \<and> ds' = ds @ [serialized_field_name pf])"
      using Cons.prems(5) Some here(1)
      by (auto simp: Let_def pairs_set_new rs'_def split: option.splits prod.splits) blast
    have obj: "json_is_object (Some (json_object_del kw' (binary_field_name pf)))"
      using kw' Cons.prems(2) by (cases kw) auto
    have d: "distinct (map fst rs')" using Cons.prems(3) here(1) by (simp add: rs'_def)
    have "json_object_get (Some (restored kw1 rs1 ds1)) k =
        json_object_get (Some (restored (json_object_del kw' (binary_field_name pf)) rs' ds')) k"
    proof (rule Cons.IH [OF ok obj d _ step])
      fix q assume "q \<in> set table"
      then show "binary_field_name q \<notin> fst ` set rs' \<and> binary_field_name q \<notin> set ds' \<and>
          serialized_field_name q \<notin> fst ` set rs' \<and>
          json_object_get (Some (json_object_del kw' (binary_field_name pf))) (serialized_field_name q) = None"
        using names Cons.prems(4) [of q] kw' by (auto simp: rs'_def get_object_del get_object_set)
    qed
    also have "\<dots> = json_object_get (Some (restored kw rs ds)) k"
      unfolding get_restored [OF obj d] get_restored [OF Cons.prems(2,3)]
      using kw' here names(1) Some Cons.prems(2)
      by (auto simp: rs'_def get_object_del get_object_set map_add_Some_iff map_of_eq_None_iff map_of_absent
          simp del: map_of_eq_Some_iff split: option.split if_splits)
    finally show ?thesis .
  qed
qed

lemma serialize_to_string_restores:
  assumes "table_ok table" "json_is_object (Some kw)"
    and "\<And>pf. pf \<in> set table \<Longrightarrow> json_object_get (Some kw) (serialized_field_name pf) = None"
  shows "json_object_get (Some (fst (snd (kw_serialize_to_string table kw s)))) k = json_object_get (Some kw) k"
proof -
  obtain kw1 rs ds s1 where run: "serialize_loop table kw [] [] s = (kw1, rs, ds, s1)"
    by (cases "serialize_loop table kw [] [] s") auto
  have "json_object_get (Some (restored kw1 rs ds)) k = json_object_get (Some (restored kw [] [])) k"
    by (rule serialize_loop_restores [OF assms(1,2) _ _ run]) (use assms(3) in auto)
  then show ?thesis using run by (simp add: kw_serialize_to_string_def restored_def)
qed

end
