(* ===== verification/Message_Properties.thy ===== *)
theory Message_Properties
  imports Kw_Records Kw_Flatten Kw_Serialize Demo_System
begin

text \<open>
  The main properties of messages: flattening to paths, comparison, filters of keys and binary fields,
  each applied to a concrete case. The proofs are in the theories on kwid.
\<close>

text \<open>C24: Unflattening undoes flattening: a nested dict or list is rebuilt from the dict of its paths, when
  no dict or list in it is empty, its keys are neither empty nor numbers nor contain the delimiter, and
  its paths have at most 256 segments. (An empty dict or list has no path and is lost.)\<close>

theorem unflatten_undoes_flatten:
  assumes "flat_ok j" and "container j" and "nesting j \<le> max_tokens"
  shows "json_unflatten_dict (Some (json_flatten_dict (Some j))) = j"
  using assms by (rule unflatten_flatten)

theorem unflatten_undoes_flatten_witness:
  "json_unflatten_dict (Some (json_flatten_dict (Some (JObject [(''a'', JArray [JInt 1, JObject [(''b'', JNull)]])]))))
     = JObject [(''a'', JArray [JInt 1, JObject [(''b'', JNull)]])]"
  by (rule unflatten_undoes_flatten)
    (simp_all add: segment_ok_def is_array_index_def isdigit_def container_def max_tokens_def
      delimiter_def isspace_def)

text \<open>The deep comparison of records accepts every well-formed record against itself, up to the
  maximum depth, and compares lists of simple values as multisets, whatever their order.\<close>

theorem comparison_of_records_and_lists:
  assumes "json_ok j" and "levels j \<le> KWID_MAX_COMPARE_DEPTH" and "\<forall>x \<in> set xs. leaf x"
  shows "kwid_compare_records opts (Some j) (Some j) \<and>
    (kwid_compare_lists opts (Some (JArray xs)) (Some (JArray ys)) \<longleftrightarrow> mset xs = mset ys)"
  using compare_path_refl [OF assms(1,2)] compare_items_leaves [OF assms(3)]
  by (simp add: kwid_compare_records_def kwid_compare_lists_def KWID_MAX_COMPARE_DEPTH_def numeral_eq_Suc)

definition demo_opts :: compare_opts where
  "demo_opts = \<lparr>co_libc = demo_libc, co_ignore_keys = [], co_without_metadata = False, co_without_private = False\<rparr>"

theorem comparison_of_records_and_lists_witness:
  "kwid_compare_lists demo_opts (Some (JArray [JInt 1, JInt 2])) (Some (JArray [JInt 2, JInt 1]))"
proof -
  have "mset [JInt 1, JInt 2] = mset [JInt 2, JInt 1]" by simp
  then show ?thesis
    using comparison_of_records_and_lists [of "JInt 1" "[JInt 1, JInt 2]" demo_opts "[JInt 2, JInt 1]"]
    by (simp add: leaf_def KWID_MAX_COMPARE_DEPTH_def)
qed

text \<open>Filtering the private keys of a message leaves none at any level, changes nothing when there is
  none left, and a plain duplicate is the message itself.\<close>

theorem filter_leaves_no_private_key:
  assumes "json_is_object (Some j) \<or> json_is_array (Some j)"
  shows "\<exists>j'. kw_filter_private (Some j) = Some j' \<and> without_keys 1 j' \<and>
    kw_filter_private (Some j') = Some j' \<and> kw_duplicate (Some j) = Some j"
proof -
  have "json_is_object (Some (duplicate_json None 1 j)) \<or> json_is_array (Some (duplicate_json None 1 j))"
    using assms by (cases j) simp_all
  then show ?thesis
    using assms duplicate_without [of 1 j] duplicate_same [OF duplicate_without [of 1 j]] duplicate_keeps_all [of j]
    by (simp add: kw_filter_private_def kw_duplicate_def duplicate_container_def)
qed

theorem filter_leaves_no_private_key_witness:
  "\<exists>j'. kw_filter_private (Some (JArray [JObject [(''_a'', JNull), (''b'', JInt 1)]])) = Some j' \<and> without_keys 1 j'"
  using filter_leaves_no_private_key [of "JArray [JObject [(''_a'', JNull), (''b'', JInt 1)]]"] by auto

text \<open>C25: Making the text of a message with binary fields leaves the message as it was: every key has the
  value it had, when the table of binary types has no repeated names and the message has none of the
  names used for the serialized forms.\<close>

theorem serialization_to_text_restores_message:
  assumes "table_ok table" and "json_is_object (Some kw)"
    and "\<And>pf. pf \<in> set table \<Longrightarrow> json_object_get (Some kw) (serialized_field_name pf) = None"
  shows "json_object_get (Some (fst (snd (kw_serialize_to_string table kw s)))) k = json_object_get (Some kw) k"
  using assms by (rule serialize_to_string_restores)

definition demo_field :: "nat serialize_field" where
  "demo_field = \<lparr>binary_field_name = ''gbuffer'', serialized_field_name = ''__gbuffer__'',
     serialize_fn = Some (\<lambda>b s. (Some (JString ''text''), s)), deserialize_fn = None,
     incref_fn = None, decref_fn = None\<rparr>"

theorem serialization_to_text_restores_message_witness:
  "json_object_get (Some (fst (snd (kw_serialize_to_string [demo_field] (JObject [(''gbuffer'', JInt 7)]) 0))))
     ''gbuffer'' = Some (JInt 7)"
  using serialization_to_text_restores_message [of "[demo_field]" "JObject [(''gbuffer'', JInt 7)]" 0 "''gbuffer''"]
  by (simp add: table_ok_def demo_field_def)

end
