(* ===== verification/Mqtt_Text.thy ===== *)
theory Mqtt_Text
  imports Kw_Records Base64
begin

unbundle bit_operations_syntax

text \<open>
  Names, topics and texts of MQTT: \<^verbatim>\<open>modules/c/mqtt/src/mqtt_util.c\<close> and \<^verbatim>\<open>mqtt_util.h\<close>. The enumerations
  are numbers, as C has them; the functions from numbers to names are tables.
\<close>

section \<open>Commands and properties\<close>

definition CMD_CONNECT :: nat where "CMD_CONNECT = 0x10"
definition CMD_CONNACK :: nat where "CMD_CONNACK = 0x20"
definition CMD_PUBLISH :: nat where "CMD_PUBLISH = 0x30"
definition CMD_PUBACK :: nat where "CMD_PUBACK = 0x40"
definition CMD_PUBREC :: nat where "CMD_PUBREC = 0x50"
definition CMD_PUBREL :: nat where "CMD_PUBREL = 0x60"
definition CMD_PUBCOMP :: nat where "CMD_PUBCOMP = 0x70"
definition CMD_SUBSCRIBE :: nat where "CMD_SUBSCRIBE = 0x80"
definition CMD_SUBACK :: nat where "CMD_SUBACK = 0x90"
definition CMD_UNSUBSCRIBE :: nat where "CMD_UNSUBSCRIBE = 0xA0"
definition CMD_UNSUBACK :: nat where "CMD_UNSUBACK = 0xB0"
definition CMD_PINGREQ :: nat where "CMD_PINGREQ = 0xC0"
definition CMD_PINGRESP :: nat where "CMD_PINGRESP = 0xD0"
definition CMD_DISCONNECT :: nat where "CMD_DISCONNECT = 0xE0"
definition CMD_AUTH :: nat where "CMD_AUTH = 0xF0"
definition CMD_WILL :: nat where "CMD_WILL = 0x100"

lemmas cmd_defs = CMD_CONNECT_def CMD_CONNACK_def CMD_PUBLISH_def CMD_PUBACK_def CMD_PUBREC_def
  CMD_PUBREL_def CMD_PUBCOMP_def CMD_SUBSCRIBE_def CMD_SUBACK_def CMD_UNSUBSCRIBE_def CMD_UNSUBACK_def
  CMD_PINGREQ_def CMD_PINGRESP_def CMD_DISCONNECT_def CMD_AUTH_def CMD_WILL_def

definition mqtt_command_string :: "nat \<Rightarrow> string" where
  "mqtt_command_string command = (case map_of [
      (CMD_CONNECT, ''CMD_CONNECT''), (CMD_CONNACK, ''CMD_CONNACK''), (CMD_PUBLISH, ''CMD_PUBLISH''),
      (CMD_PUBACK, ''CMD_PUBACK''), (CMD_PUBREC, ''CMD_PUBREC''), (CMD_PUBREL, ''CMD_PUBREL''),
      (CMD_PUBCOMP, ''CMD_PUBCOMP''), (CMD_SUBSCRIBE, ''CMD_SUBSCRIBE''), (CMD_SUBACK, ''CMD_SUBACK''),
      (CMD_UNSUBSCRIBE, ''CMD_UNSUBSCRIBE''), (CMD_UNSUBACK, ''CMD_UNSUBACK''),
      (CMD_PINGREQ, ''CMD_PINGREQ''), (CMD_PINGRESP, ''CMD_PINGRESP''),
      (CMD_DISCONNECT, ''CMD_DISCONNECT''), (CMD_AUTH, ''CMD_AUTH'')] command of
     Some s \<Rightarrow> s | None \<Rightarrow> ''Unknown command'')"

definition mqtt_connack_string :: "nat \<Rightarrow> string" where
  "mqtt_connack_string connack_code = (case map_of [
      (0, ''Connection Accepted.''),
      (1, ''Connection Refused: unacceptable protocol version.''),
      (2, ''Connection Refused: identifier rejected.''),
      (3, ''Connection Refused: broker unavailable.''),
      (4, ''Connection Refused: bad user name or password.''),
      (5, ''Connection Refused: not authorised.'')] connack_code of
     Some s \<Rightarrow> s | None \<Rightarrow> ''Connection Refused: unknown reason.'')"

definition mqtt_reason_string :: "nat \<Rightarrow> string" where
  "mqtt_reason_string reason_code = (case map_of [
      (0, ''Success''), (1, ''Granted QoS 1''), (2, ''Granted QoS 2''),
      (4, ''Disconnect with Will Message''), (16, ''No matching subscribers''),
      (17, ''No subscription existed''), (24, ''Continue authentication''), (25, ''Re-authenticate''),
      (128, ''Unspecified error''), (129, ''Malformed Packet''), (130, ''Protocol Error''),
      (131, ''Implementation specific error''), (132, ''Unsupported Protocol Version''),
      (133, ''Client Identifier not valid''), (134, ''Bad User Name or Password''),
      (135, ''Not authorized''), (136, ''Server unavailable''), (137, ''Server busy''),
      (138, ''Banned''), (139, ''Server shutting down''), (140, ''Bad authentication method''),
      (141, ''Keep Alive timeout''), (142, ''Session taken over''), (143, ''Topic Filter invalid''),
      (144, ''Topic Name invalid''), (145, ''Packet Identifier in use''),
      (146, ''Packet Identifier not found''), (147, ''Receive Maximum exceeded''),
      (148, ''Topic Alias invalid''), (149, ''Packet too large''), (150, ''Message rate too high''),
      (151, ''Quota exceeded''), (152, ''Administrative action''), (153, ''Payload format invalid''),
      (154, ''Retain not supported''), (155, ''QoS not supported''), (156, ''Use another server''),
      (157, ''Server moved''), (158, ''Shared Subscriptions not supported''),
      (159, ''Connection rate exceeded''), (160, ''Maximum connect time''),
      (161, ''Subscription identifiers not supported''),
      (162, ''Wildcard Subscriptions not supported'')] reason_code of
     Some s \<Rightarrow> s | None \<Rightarrow> ''Unknown reason'')"

abbreviation (input) MQTT_PROP_PAYLOAD_FORMAT_INDICATOR :: nat where "MQTT_PROP_PAYLOAD_FORMAT_INDICATOR \<equiv> 1"
abbreviation (input) MQTT_PROP_MESSAGE_EXPIRY_INTERVAL :: nat where "MQTT_PROP_MESSAGE_EXPIRY_INTERVAL \<equiv> 2"
abbreviation (input) MQTT_PROP_CONTENT_TYPE :: nat where "MQTT_PROP_CONTENT_TYPE \<equiv> 3"
abbreviation (input) MQTT_PROP_RESPONSE_TOPIC :: nat where "MQTT_PROP_RESPONSE_TOPIC \<equiv> 8"
abbreviation (input) MQTT_PROP_CORRELATION_DATA :: nat where "MQTT_PROP_CORRELATION_DATA \<equiv> 9"
abbreviation (input) MQTT_PROP_SUBSCRIPTION_IDENTIFIER :: nat where "MQTT_PROP_SUBSCRIPTION_IDENTIFIER \<equiv> 11"
abbreviation (input) MQTT_PROP_SESSION_EXPIRY_INTERVAL :: nat where "MQTT_PROP_SESSION_EXPIRY_INTERVAL \<equiv> 17"
abbreviation (input) MQTT_PROP_ASSIGNED_CLIENT_IDENTIFIER :: nat where "MQTT_PROP_ASSIGNED_CLIENT_IDENTIFIER \<equiv> 18"
abbreviation (input) MQTT_PROP_SERVER_KEEP_ALIVE :: nat where "MQTT_PROP_SERVER_KEEP_ALIVE \<equiv> 19"
abbreviation (input) MQTT_PROP_AUTHENTICATION_METHOD :: nat where "MQTT_PROP_AUTHENTICATION_METHOD \<equiv> 21"
abbreviation (input) MQTT_PROP_AUTHENTICATION_DATA :: nat where "MQTT_PROP_AUTHENTICATION_DATA \<equiv> 22"
abbreviation (input) MQTT_PROP_REQUEST_PROBLEM_INFORMATION :: nat where "MQTT_PROP_REQUEST_PROBLEM_INFORMATION \<equiv> 23"
abbreviation (input) MQTT_PROP_WILL_DELAY_INTERVAL :: nat where "MQTT_PROP_WILL_DELAY_INTERVAL \<equiv> 24"
abbreviation (input) MQTT_PROP_REQUEST_RESPONSE_INFORMATION :: nat where "MQTT_PROP_REQUEST_RESPONSE_INFORMATION \<equiv> 25"
abbreviation (input) MQTT_PROP_RESPONSE_INFORMATION :: nat where "MQTT_PROP_RESPONSE_INFORMATION \<equiv> 26"
abbreviation (input) MQTT_PROP_SERVER_REFERENCE :: nat where "MQTT_PROP_SERVER_REFERENCE \<equiv> 28"
abbreviation (input) MQTT_PROP_REASON_STRING :: nat where "MQTT_PROP_REASON_STRING \<equiv> 31"
abbreviation (input) MQTT_PROP_RECEIVE_MAXIMUM :: nat where "MQTT_PROP_RECEIVE_MAXIMUM \<equiv> 33"
abbreviation (input) MQTT_PROP_TOPIC_ALIAS_MAXIMUM :: nat where "MQTT_PROP_TOPIC_ALIAS_MAXIMUM \<equiv> 34"
abbreviation (input) MQTT_PROP_TOPIC_ALIAS :: nat where "MQTT_PROP_TOPIC_ALIAS \<equiv> 35"
abbreviation (input) MQTT_PROP_MAXIMUM_QOS :: nat where "MQTT_PROP_MAXIMUM_QOS \<equiv> 36"
abbreviation (input) MQTT_PROP_RETAIN_AVAILABLE :: nat where "MQTT_PROP_RETAIN_AVAILABLE \<equiv> 37"
abbreviation (input) MQTT_PROP_USER_PROPERTY :: nat where "MQTT_PROP_USER_PROPERTY \<equiv> 38"
abbreviation (input) MQTT_PROP_MAXIMUM_PACKET_SIZE :: nat where "MQTT_PROP_MAXIMUM_PACKET_SIZE \<equiv> 39"
abbreviation (input) MQTT_PROP_WILDCARD_SUB_AVAILABLE :: nat where "MQTT_PROP_WILDCARD_SUB_AVAILABLE \<equiv> 40"
abbreviation (input) MQTT_PROP_SUBSCRIPTION_ID_AVAILABLE :: nat where "MQTT_PROP_SUBSCRIPTION_ID_AVAILABLE \<equiv> 41"
abbreviation (input) MQTT_PROP_SHARED_SUB_AVAILABLE :: nat where "MQTT_PROP_SHARED_SUB_AVAILABLE \<equiv> 42"

definition mqtt_property_identifier_to_string :: "nat \<Rightarrow> string option" where
  "mqtt_property_identifier_to_string identifier = map_of [
      (MQTT_PROP_PAYLOAD_FORMAT_INDICATOR, ''payload-format-indicator''),
      (MQTT_PROP_MESSAGE_EXPIRY_INTERVAL, ''message-expiry-interval''),
      (MQTT_PROP_CONTENT_TYPE, ''content-type''), (MQTT_PROP_RESPONSE_TOPIC, ''response-topic''),
      (MQTT_PROP_CORRELATION_DATA, ''correlation-data''),
      (MQTT_PROP_SUBSCRIPTION_IDENTIFIER, ''subscription-identifier''),
      (MQTT_PROP_SESSION_EXPIRY_INTERVAL, ''session-expiry-interval''),
      (MQTT_PROP_ASSIGNED_CLIENT_IDENTIFIER, ''assigned-client-identifier''),
      (MQTT_PROP_SERVER_KEEP_ALIVE, ''server-keep-alive''),
      (MQTT_PROP_AUTHENTICATION_METHOD, ''authentication-method''),
      (MQTT_PROP_AUTHENTICATION_DATA, ''authentication-data''),
      (MQTT_PROP_REQUEST_PROBLEM_INFORMATION, ''request-problem-information''),
      (MQTT_PROP_WILL_DELAY_INTERVAL, ''will-delay-interval''),
      (MQTT_PROP_REQUEST_RESPONSE_INFORMATION, ''request-response-information''),
      (MQTT_PROP_RESPONSE_INFORMATION, ''response-information''),
      (MQTT_PROP_SERVER_REFERENCE, ''server-reference''), (MQTT_PROP_REASON_STRING, ''reason-string''),
      (MQTT_PROP_RECEIVE_MAXIMUM, ''receive-maximum''),
      (MQTT_PROP_TOPIC_ALIAS_MAXIMUM, ''topic-alias-maximum''), (MQTT_PROP_TOPIC_ALIAS, ''topic-alias''),
      (MQTT_PROP_MAXIMUM_QOS, ''maximum-qos''), (MQTT_PROP_RETAIN_AVAILABLE, ''retain-available''),
      (MQTT_PROP_USER_PROPERTY, ''user-property''),
      (MQTT_PROP_MAXIMUM_PACKET_SIZE, ''maximum-packet-size''),
      (MQTT_PROP_WILDCARD_SUB_AVAILABLE, ''wildcard-subscription-available''),
      (MQTT_PROP_SUBSCRIPTION_ID_AVAILABLE, ''subscription-identifier-available''),
      (MQTT_PROP_SHARED_SUB_AVAILABLE, ''shared-subscription-available'')] identifier"

section \<open>Topics\<close>

definition TOPIC_HIERARCHY_LIMIT :: nat where "TOPIC_HIERARCHY_LIMIT = 200"

text \<open>The pointer may be \<open>NULL\<close>; otherwise the string has exactly the length given. A topic to publish to.\<close>

fun pub_topic_loop :: "nat \<Rightarrow> string \<Rightarrow> int" where
  "pub_topic_loop hier_count [] = (if hier_count > TOPIC_HIERARCHY_LIMIT then -1 else 0)"
| "pub_topic_loop hier_count (c # str) =
     (if c = CHR ''+'' \<or> c = CHR 0x23 then -1
      else pub_topic_loop (if c = CHR ''/'' then hier_count + 1 else hier_count) str)"

definition mqtt_pub_topic_check2 :: "string option \<Rightarrow> int" where
  "mqtt_pub_topic_check2 str = (case str of None \<Rightarrow> -1
     | Some s \<Rightarrow> if s = [] \<or> length s > 65535 then -1 else pub_topic_loop 0 s)"

text \<open>A filter to subscribe with; \<open>c\<close> is the character before.\<close>

fun sub_topic_loop :: "char \<Rightarrow> nat \<Rightarrow> string \<Rightarrow> int" where
  "sub_topic_loop c hier_count [] = (if hier_count > TOPIC_HIERARCHY_LIMIT then -1 else 0)"
| "sub_topic_loop c hier_count (x # str) =
     (if x = CHR ''+'' then
        (if (c \<noteq> CHR 0x00 \<and> c \<noteq> CHR ''/'') \<or> (str \<noteq> [] \<and> hd str \<noteq> CHR ''/'') then -1
         else sub_topic_loop x hier_count str)
      else if x = CHR 0x23 then
        (if (c \<noteq> CHR 0x00 \<and> c \<noteq> CHR ''/'') \<or> str \<noteq> [] then -1
         else sub_topic_loop x hier_count str)
      else sub_topic_loop x (if x = CHR ''/'' then hier_count + 1 else hier_count) str)"

definition mqtt_sub_topic_check2 :: "string option \<Rightarrow> int" where
  "mqtt_sub_topic_check2 str = (case str of None \<Rightarrow> -1
     | Some s \<Rightarrow> if s = [] \<or> length s > 65535 then -1 else sub_topic_loop (CHR 0x00) 0 s)"

section \<open>UTF-8\<close>

text \<open>
  \<open>mqtt_validate_utf8\<close> reads memory from the pointer on, \<open>ustr\<close>: its \<open>i\<close>-th byte is \<open>ustr i\<close>, also beyond
  the length given. The head byte of a sequence gives its length and the first bits of the code point.
\<close>

definition utf8_head :: "byte \<Rightarrow> (nat \<times> nat) option" where
  "utf8_head c =
     (if c = 0 then None
      else if c \<le> 0x7F then Some (1, unat c)
      else if c AND 0xE0 = 0xC0 then (if c = 0xC0 \<or> c = 0xC1 then None else Some (2, unat (c AND 0x1F)))
      else if c AND 0xF0 = 0xE0 then Some (3, unat (c AND 0x0F))
      else if c AND 0xF8 = 0xF0 then (if c > 0xF4 then None else Some (4, unat (c AND 0x07)))
      else None)"

text \<open>The continuation bytes: the new code point and index.\<close>

fun utf8_tail :: "(nat \<Rightarrow> byte) \<Rightarrow> nat \<Rightarrow> nat \<Rightarrow> nat \<Rightarrow> (nat \<times> nat) option" where
  "utf8_tail ustr i 0 codepoint = Some (i, codepoint)"
| "utf8_tail ustr i (Suc j) codepoint =
     (if ustr (i + 1) AND 0xC0 \<noteq> 0x80 then None
      else utf8_tail ustr (i + 1) j (push_bit 6 codepoint OR unat (ustr (i + 1) AND 0x3F)))"

definition codepoint_ok :: "nat \<Rightarrow> nat \<Rightarrow> bool" where
  "codepoint_ok codelen codepoint \<longleftrightarrow>
     \<not> (codepoint \<ge> 0xD800 \<and> codepoint \<le> 0xDFFF) \<and>
     \<not> (codelen = 3 \<and> codepoint < 0x0800) \<and>
     \<not> (codelen = 4 \<and> (codepoint < 0x10000 \<or> codepoint > 0x10FFFF)) \<and>
     \<not> (codepoint \<ge> 0xFDD0 \<and> codepoint \<le> 0xFDEF) \<and>
     \<not> (codepoint AND 0xFFFF = 0xFFFE \<or> codepoint AND 0xFFFF = 0xFFFF) \<and>
     \<not> (codepoint \<le> 0x001F \<or> (codepoint \<ge> 0x007F \<and> codepoint \<le> 0x009F))"

lemma utf8_tail_index: "utf8_tail ustr i j cp = Some (i', cp') \<Longrightarrow> i' = i + j"
  by (induction ustr i j cp rule: utf8_tail.induct) (auto split: if_splits)

function utf8_loop :: "(nat \<Rightarrow> byte) \<Rightarrow> nat \<Rightarrow> nat \<Rightarrow> int" where
  "utf8_loop ustr len i =
     (if i \<ge> len then 0
      else case utf8_head (ustr i) of
        None \<Rightarrow> -1
      | Some (codelen, codepoint) \<Rightarrow>
          (if i + codelen = len + 1 then -1
           else case utf8_tail ustr i (codelen - 1) codepoint of
             None \<Rightarrow> -1
           | Some (i, codepoint) \<Rightarrow> if codepoint_ok codelen codepoint then utf8_loop ustr len (i + 1) else -1))"
  by pat_completeness auto
termination
  by (relation "measure (\<lambda>(ustr, len, i). len - i)") (auto dest: utf8_tail_index)

declare utf8_loop.simps [simp del]

definition mqtt_validate_utf8 :: "(nat \<Rightarrow> byte) option \<Rightarrow> int \<Rightarrow> int" where
  "mqtt_validate_utf8 str len = (case str of None \<Rightarrow> -1
     | Some ustr \<Rightarrow> if len < 0 \<or> len > 65536 then -1 else utf8_loop ustr (nat len) 0)"

section \<open>Messages\<close>

definition json_mqtt_desc :: "json_desc list" where
  "json_mqtt_desc = map (\<lambda>(n, t, d, f). \<lparr>jd_name = n, jd_type = t, jd_defaults = d, jd_fillspace = f\<rparr>)
     [(''topic'', ''string'', [], ''40''), (''tm'', ''time'', [], ''20''), (''mid'', ''int'', [], ''20''),
      (''qos'', ''int'', [], ''20''), (''expiry_interval'', ''int'', [], ''20''), (''retain'', ''bool'', [], ''20''),
      (''properties'', ''dict'', ''{}'', ''20''), (''gbuffer'', ''int'', [], ''20''),
      (''dup'', ''bool'', [], ''20''), (''state'', ''int'', [], ''20'')]"

text \<open>The payload is the address of its buffer; \<open>dup\<close> is a parameter the code does not use.\<close>

definition new_mqtt_message :: "libc_real \<Rightarrow> int \<Rightarrow> string \<Rightarrow> string \<Rightarrow> int option \<Rightarrow> nat \<Rightarrow> nat \<Rightarrow> bool \<Rightarrow>
  jn \<Rightarrow> nat \<Rightarrow> int \<Rightarrow> json" where
  "new_mqtt_message lc now client_id topic gbuf_payload qos mid retain properties expiry_interval t =
     (let kw = create_json_record lc now json_mqtt_desc (JObject []);
          kw = json_object_set kw ''topic'' (JString topic);
          kw = json_object_set kw ''tm'' (JInt t);
          kw = json_object_set kw ''client_id'' (JString client_id);
          kw = json_object_set kw ''qos'' (JInt (int qos));
          kw = json_object_set kw ''mid'' (JInt (int mid));
          kw = json_object_set kw ''expiry_interval'' (JInt (int expiry_interval));
          kw = json_object_set kw ''retain'' (JBool retain);
          kw = (case properties of None \<Rightarrow> kw | Some p \<Rightarrow> json_object_set kw ''properties'' p)
      in (case gbuf_payload of None \<Rightarrow> kw | Some p \<Rightarrow> json_object_set kw ''gbuffer'' (JInt p)))"

section \<open>Valid texts\<close>

text \<open>A statement on all bytes is checked on the 256 of them.\<close>

lemma byte_all: "list_all (\<lambda>n. P (word_of_nat n)) [0..<256] \<Longrightarrow> P (c :: byte)"
proof -
  assume all: "list_all (\<lambda>n. P (word_of_nat n)) [0..<256]"
  have "unat c \<in> set [0..<256]" using unsigned_less [of c] by simp
  then have "P (word_of_nat (unat c))" using all by (simp only: list_all_iff)
  then show ?thesis by simp
qed

text \<open>The head byte by its value.\<close>

definition head_of :: "nat \<Rightarrow> (nat \<times> nat) option" where
  "head_of v =
     (if v = 0 then None else if v < 0x80 then Some (1, v)
      else if v < 0xC2 then None else if v < 0xE0 then Some (2, v mod 32)
      else if v < 0xF0 then Some (3, v mod 16) else if v < 0xF5 then Some (4, v mod 8) else None)"

lemma utf8_head_of: "utf8_head c = head_of (unat c)"
  by (rule byte_all) code_simp

lemma continuation_byte: "c AND 0xC0 = 0x80 \<longleftrightarrow> 0x80 \<le> unat (c :: byte) \<and> unat c < 0xC0"
  by (rule byte_all) code_simp

lemma unat_and_mask: "unat ((c :: byte) AND mask n) = unat c mod 2 ^ n"
  unfolding take_bit_eq_mask [symmetric] unsigned_take_bit_eq by (rule take_bit_eq_mod)

lemma unat_low_bits: "unat ((c :: byte) AND 127) = unat c mod 128" "unat (c AND 0x3F) = unat c mod 64"
  "unat (c AND 0x1F) = unat c mod 32" "unat (c AND 0xF) = unat c mod 16" "unat (c AND 0x7) = unat c mod 8"
  using unat_and_mask [of c 7] unat_and_mask [of c 6] unat_and_mask [of c 5] unat_and_mask [of c 4] unat_and_mask [of c 3]
  by (simp_all add: mask_eq_exp_minus_1)

lemma unat_top_bit: "(c :: byte) AND 128 = 0 \<longleftrightarrow> unat c < 128"
proof -
  have "c AND 128 = 0 \<longleftrightarrow> even (unat c div 2 ^ 7)"
    using and_exp_eq_0_iff_not_bit [of c 7] bit_unsigned_iff [of c 7, where ?'a = nat] bit_iff_odd [of "unat c" 7] by auto
  moreover have "unat c < 256" using unsigned_less [of c] by simp
  ultimately show ?thesis by (cases "unat c < 128") (auto simp: div_nat_eqI [where q = 1])
qed

lemmas continuation_bits = unat_low_bits(2)

lemma shift_or: "y < 2 ^ n \<Longrightarrow> push_bit n x OR y = 2 ^ n * x + (y :: nat)"
proof -
  assume "y < 2 ^ n"
  then have y: "take_bit n y = y" by (simp add: take_bit_nat_eq_self)
  have "push_bit n x + y = push_bit n x OR y"
  proof (rule disjunctive_add)
    fix k
    have "bit y k \<longrightarrow> k < n" by (metis y bit_take_bit_iff)
    then show "\<not> bit (push_bit n x) k \<or> \<not> bit y k" by (auto simp: bit_push_bit_iff)
  qed
  then show ?thesis by (simp add: push_bit_eq_mult mult.commute)
qed

lemma shift6_or: "y < 64 \<Longrightarrow> push_bit 6 x OR y = 64 * x + (y :: nat)"
  using shift_or [of y 6 x] by simp

text \<open>The encoding of a code point, and the code points MQTT accepts in a text.\<close>

definition utf8 :: "nat \<Rightarrow> nat list" where
  "utf8 cp =
     (if cp < 0x80 then [cp]
      else if cp < 0x800 then [0xC0 + cp div 64, 0x80 + cp mod 64]
      else if cp < 0x10000 then [0xE0 + cp div 64 div 64, 0x80 + cp div 64 mod 64, 0x80 + cp mod 64]
      else [0xF0 + cp div 64 div 64 div 64, 0x80 + cp div 64 div 64 mod 64, 0x80 + cp div 64 mod 64, 0x80 + cp mod 64])"

definition text_char :: "nat \<Rightarrow> bool" where
  "text_char cp \<longleftrightarrow> 0x20 \<le> cp \<and> cp \<le> 0x10FFFF \<and> \<not> (0x7F \<le> cp \<and> cp \<le> 0x9F) \<and>
     \<not> (0xD800 \<le> cp \<and> cp \<le> 0xDFFF) \<and> \<not> (0xFDD0 \<le> cp \<and> cp \<le> 0xFDEF) \<and> cp mod 0x10000 < 0xFFFE"

lemma codepoint_ok_text: "codepoint_ok n cp \<longleftrightarrow>
    \<not> (n = 3 \<and> cp < 0x800) \<and> \<not> (n = 4 \<and> (cp < 0x10000 \<or> cp > 0x10FFFF)) \<and>
    0x20 \<le> cp \<and> \<not> (0x7F \<le> cp \<and> cp \<le> 0x9F) \<and> \<not> (0xD800 \<le> cp \<and> cp \<le> 0xDFFF) \<and>
    \<not> (0xFDD0 \<le> cp \<and> cp \<le> 0xFDEF) \<and> cp mod 0x10000 < 0xFFFE"
proof -
  have "cp AND mask 16 = take_bit 16 cp" by (simp add: take_bit_eq_mask)
  then have "cp AND 0xFFFF = cp mod 0x10000" by (simp add: take_bit_eq_mod mask_eq_exp_minus_1)
  moreover have "cp mod 0x10000 < 0xFFFE \<longleftrightarrow> cp mod 0x10000 \<noteq> 0xFFFE \<and> cp mod 0x10000 \<noteq> 0xFFFF"
  proof -
    have "cp mod 0x10000 < 0x10000" by simp
    then show ?thesis by linarith
  qed
  ultimately have m: "(cp AND 0xFFFF = 0xFFFE \<or> cp AND 0xFFFF = 0xFFFF) \<longleftrightarrow> \<not> cp mod 0x10000 < 0xFFFE"
    by presburger
  show ?thesis unfolding codepoint_ok_def m by linarith
qed

text \<open>The values of the bytes at an index.\<close>

definition bytes_from :: "(nat \<Rightarrow> byte) \<Rightarrow> nat \<Rightarrow> nat list \<Rightarrow> bool" where
  "bytes_from ustr i bs \<longleftrightarrow> (\<forall>k < length bs. unat (ustr (i + k)) = bs ! k)"

lemma bytes_from_Nil [simp]: "bytes_from ustr i []"
  by (simp add: bytes_from_def)

lemma bytes_from_Cons [simp]:
  "bytes_from ustr i (b # bs) \<longleftrightarrow> unat (ustr i) = b \<and> bytes_from ustr (i + 1) bs"
  unfolding bytes_from_def by (simp add: All_less_Suc2)

lemma bytes_from_append [simp]:
  "bytes_from ustr i (bs @ cs) \<longleftrightarrow> bytes_from ustr i bs \<and> bytes_from ustr (i + length bs) cs"
  by (induction bs arbitrary: i) auto

lemma utf8_tail_Suc: "utf8_tail ustr i (Suc j) cp = (let c = unat (ustr (i + 1)) in
    if 0x80 \<le> c \<and> c < 0xC0 then utf8_tail ustr (i + 1) j (64 * cp + c mod 64) else None)"
  using continuation_byte [of "ustr (i + 1)"] by (simp add: continuation_bits shift6_or Let_def)

text \<open>A sequence is accepted exactly when it encodes an accepted code point.\<close>

definition sequence_ok :: "(nat \<Rightarrow> byte) \<Rightarrow> nat \<Rightarrow> nat \<Rightarrow> nat \<Rightarrow> bool" where
  "sequence_ok ustr i n cp \<longleftrightarrow> (\<exists>first. utf8_head (ustr i) = Some (n, first) \<and>
     utf8_tail ustr i (n - 1) first = Some (i + (n - 1), cp) \<and> codepoint_ok n cp)"

lemma head_bits [simp]:
  "a < 32 \<Longrightarrow> (192 + a) mod 32 = (a :: nat)" "a < 16 \<Longrightarrow> (224 + a) mod 16 = a" "a < 8 \<Longrightarrow> (240 + a) mod 8 = a"
  "(128 + b) mod 64 = b mod (64 :: nat)"
  using mod_mult_self1 [of a 6 32] mod_mult_self1 [of a 14 16] mod_mult_self1 [of a 30 8]
    mod_mult_self1 [of b 2 64] by (simp_all add: add.commute)

lemma join_bits [simp]:
  "64 * (b div 64) + b mod 64 = (b :: nat)"
  "4096 * (b div 64 div 64) + 64 * (b div 64 mod 64) + b mod 64 = b"
  "262144 * (b div 64 div 64 div 64) + 4096 * (b div 64 div 64 mod 64) + 64 * (b div 64 mod 64) + b mod 64 = b"
proof -
  have j: "64 * (x div 64) + x mod 64 = x" for x :: nat by simp
  show "64 * (b div 64) + b mod 64 = b" by (rule j)
  show "4096 * (b div 64 div 64) + 64 * (b div 64 mod 64) + b mod 64 = b"
    using j [of b] j [of "b div 64"] by linarith
  show "262144 * (b div 64 div 64 div 64) + 4096 * (b div 64 div 64 mod 64) + 64 * (b div 64 mod 64) + b mod 64 = b"
    using j [of b] j [of "b div 64"] j [of "b div 64 div 64"] by linarith
qed

lemma split_bits: "d < 64 \<Longrightarrow> (64 * q + d) div 64 = (q :: nat)" "d < 64 \<Longrightarrow> (64 * q + d) mod 64 = (d :: nat)"
  by simp_all

lemma low_bits: "128 \<le> v \<Longrightarrow> v < 192 \<Longrightarrow> v mod 64 = v - (128 :: nat)"
  using head_bits(4) [of "v - 128"] by simp

lemmas sequence_simps = sequence_ok_def utf8_head_of head_of_def codepoint_ok_text utf8_tail_Suc Let_def

lemma sequence_decodes:
  assumes "text_char cp" "bytes_from ustr i (utf8 cp)"
  shows "sequence_ok ustr i (length (utf8 cp)) cp"
proof -
  consider "cp < 0x80" | "0x80 \<le> cp" "cp < 0x800" | "0x800 \<le> cp" "cp < 0x10000" | "0x10000 \<le> cp" "cp \<le> 0x10FFFF"
    using assms(1) by (force simp: text_char_def)
  then show ?thesis
  proof cases
    case 1
    then show ?thesis using assms by (auto simp: utf8_def text_char_def sequence_simps)
  next
    case 2
    then have "cp div 64 < 32" "2 \<le> cp div 64" by auto
    then show ?thesis
      using assms 2 by (auto simp: utf8_def text_char_def sequence_simps simp del: utf8_tail.simps(2))
  next
    case 3
    then have "cp div 64 div 64 < 16" by auto
    then show ?thesis
      using assms 3
      by (auto simp: utf8_def text_char_def sequence_simps numeral_2_eq_2 simp del: utf8_tail.simps(2))
  next
    case 4
    then have "cp div 64 div 64 div 64 < 5" by auto
    then show ?thesis
      using assms 4
      by (auto simp: utf8_def text_char_def sequence_simps numeral_3_eq_3 simp del: utf8_tail.simps(2))
  qed
qed

lemma sequence_encodes:
  assumes "sequence_ok ustr i n cp"
  shows "text_char cp" "n = length (utf8 cp)" "bytes_from ustr i (utf8 cp)"
proof -
  obtain first where head: "head_of (unat (ustr i)) = Some (n, first)"
    and tail: "utf8_tail ustr i (n - 1) first = Some (i + (n - 1), cp)" and ok: "codepoint_ok n cp"
    using assms by (auto simp: sequence_ok_def utf8_head_of)
  let ?c = "\<lambda>k. unat (ustr (i + k))"
  consider "n = 1" "first = ?c 0" "?c 0 < 0x80" | "n = 2" "first = ?c 0 mod 32" "0xC2 \<le> ?c 0" "?c 0 < 0xE0"
    | "n = 3" "first = ?c 0 mod 16" "0xE0 \<le> ?c 0" "?c 0 < 0xF0"
    | "n = 4" "first = ?c 0 mod 8" "0xF0 \<le> ?c 0" "?c 0 < 0xF5"
    using head by (auto simp: head_of_def split: if_splits)
  then have "text_char cp \<and> n = length (utf8 cp) \<and> bytes_from ustr i (utf8 cp)"
  proof cases
    case 1
    then show ?thesis using tail ok by (auto simp: utf8_def text_char_def codepoint_ok_text)
  next
    case 2
    define a b where "a = ?c 0 - 0xC0" and "b = ?c 1 - 0x80"
    then have c: "?c 0 = 0xC0 + a" "a < 32" "2 \<le> a" using 2 by auto
    have "?c 1 = 0x80 + b \<and> b < 64 \<and> cp = 64 * a + b"
      using tail 2 c by (auto simp: utf8_tail_Suc Let_def low_bits b_def simp del: utf8_tail.simps(2) split: if_splits)
    then show ?thesis using 2 c ok by (auto simp: utf8_def text_char_def codepoint_ok_text)
  next
    case 3
    define a b d where "a = ?c 0 - 0xE0" and "b = ?c 1 - 0x80" and "d = ?c 2 - 0x80"
    then have c: "?c 0 = 0xE0 + a" "a < 16" using 3 by auto
    have v: "?c 1 = 0x80 + b" "b < 64" "?c 2 = 0x80 + d" "d < 64" "cp = 64 * (64 * a + b) + d"
      using tail 3 c
      by (auto simp: utf8_tail_Suc Let_def low_bits b_def d_def numeral_2_eq_2 simp del: utf8_tail.simps(2) split: if_splits)
    have "cp div 64 = 64 * a + b" "cp mod 64 = d" unfolding v(5) by (rule split_bits [OF v(4)])+
    moreover have "(64 * a + b) div 64 = a" "(64 * a + b) mod 64 = b" by (rule split_bits [OF v(2)])+
    moreover have "cp < 0x10000" using v c(2) by simp
    ultimately show ?thesis
      using 3 c v(1,3) ok by (simp add: utf8_def text_char_def codepoint_ok_text numeral_2_eq_2)
  next
    case 4
    define a b d e where "a = ?c 0 - 0xF0" and "b = ?c 1 - 0x80" and "d = ?c 2 - 0x80" and "e = ?c 3 - 0x80"
    then have c: "?c 0 = 0xF0 + a" "a < 8" using 4 by auto
    have v: "?c 1 = 0x80 + b" "b < 64" "?c 2 = 0x80 + d" "d < 64" "?c 3 = 0x80 + e" "e < 64"
        "cp = 64 * (64 * (64 * a + b) + d) + e"
      using tail 4 c
      by (auto simp: utf8_tail_Suc Let_def low_bits b_def d_def e_def numeral_2_eq_2 numeral_3_eq_3
          simp del: utf8_tail.simps(2) split: if_splits)
    have "cp div 64 = 64 * (64 * a + b) + d" "cp mod 64 = e" unfolding v(7) by (rule split_bits [OF v(6)])+
    moreover have "(64 * (64 * a + b) + d) div 64 = 64 * a + b" "(64 * (64 * a + b) + d) mod 64 = d"
      by (rule split_bits [OF v(4)])+
    moreover have "(64 * a + b) div 64 = a" "(64 * a + b) mod 64 = b" by (rule split_bits [OF v(2)])+
    ultimately show ?thesis
      using 4 c v(1,3,5) ok
      by (simp add: utf8_def text_char_def codepoint_ok_text numeral_2_eq_2 numeral_3_eq_3)
  qed
  then show "text_char cp" "n = length (utf8 cp)" "bytes_from ustr i (utf8 cp)" by auto
qed

lemma utf8_nonempty [simp]: "utf8 cp \<noteq> []"
  by (simp add: utf8_def)

lemma utf8_tail_continues:
  "utf8_tail ustr i j cp = Some r \<Longrightarrow> 1 \<le> k \<Longrightarrow> k \<le> j \<Longrightarrow> ustr (i + k) AND 0xC0 = 0x80"
proof (induction ustr i j cp arbitrary: k rule: utf8_tail.induct)
  case (2 ustr i j cp)
  show ?case
  proof (cases "k = 1")
    case True
    then show ?thesis using 2 by (auto split: if_splits)
  next
    case False
    then have "ustr (i + 1 + (k - 1)) AND 0xC0 = 0x80" using 2 by (intro "2.IH") (auto split: if_splits)
    then show ?thesis using 2(3) by simp
  qed
qed simp

lemma utf8_loop_next:
  assumes "sequence_ok ustr i n cp" "i < len" "i + n \<noteq> len + 1" "1 \<le> n"
  shows "utf8_loop ustr len i = utf8_loop ustr len (i + n)"
  using assms by (subst utf8_loop.simps) (auto simp: sequence_ok_def)

lemma utf8_loop_accepts:
  "\<forall>cp \<in> set cps. text_char cp \<Longrightarrow> bytes_from ustr i (concat (map utf8 cps)) \<Longrightarrow>
    i + length (concat (map utf8 cps)) = len \<Longrightarrow> utf8_loop ustr len i = 0"
proof (induction cps arbitrary: i)
  case Nil
  then show ?case by (subst utf8_loop.simps) simp
next
  case (Cons cp cps)
  have pos: "1 \<le> length (utf8 cp)" by (simp add: Suc_le_eq)
  have "sequence_ok ustr i (length (utf8 cp)) cp" using Cons.prems by (intro sequence_decodes) auto
  then have "utf8_loop ustr len i = utf8_loop ustr len (i + length (utf8 cp))"
    by (rule utf8_loop_next) (use Cons.prems(3) pos in auto)
  then show ?case using Cons by simp
qed

lemma utf8_loop_sound:
  "utf8_loop ustr len i = 0 \<Longrightarrow> i \<le> len \<Longrightarrow> ustr len AND 0xC0 \<noteq> 0x80 \<Longrightarrow>
    \<exists>cps. (\<forall>cp \<in> set cps. text_char cp) \<and> bytes_from ustr i (concat (map utf8 cps)) \<and>
      i + length (concat (map utf8 cps)) = len"
proof (induction ustr len i rule: utf8_loop.induct)
  case (1 ustr len i)
  show ?case
  proof (cases "i = len")
    case True
    then show ?thesis by (intro exI [of _ "[]"]) simp
  next
    case False
    then have lt: "\<not> len \<le> i" using 1(3) by simp
    obtain n first i' cp where head: "utf8_head (ustr i) = Some (n, first)" and gap: "i + n \<noteq> len + 1"
      and tail: "utf8_tail ustr i (n - 1) first = Some (i', cp)" and ok: "codepoint_ok n cp"
      and more: "utf8_loop ustr len (i' + 1) = 0"
      using 1(2) lt by (subst (asm) utf8_loop.simps) (auto split: option.splits if_splits)
    have i': "i' = i + (n - 1)" using tail by (rule utf8_tail_index)
    have n: "1 \<le> n" using head by (auto simp: utf8_head_of head_of_def split: if_splits)
    have seq: "sequence_ok ustr i n cp" using head tail ok i' by (simp add: sequence_ok_def)
    have fits: "i' + 1 \<le> len"
    proof (rule ccontr)
      assume "\<not> i' + 1 \<le> len"
      then have "1 \<le> len - i" "len - i \<le> n - 1" using lt i' gap n by auto
      from utf8_tail_continues [OF tail this] show False using lt 1(4) by simp
    qed
    obtain cps where cps: "\<forall>cp \<in> set cps. text_char cp" "bytes_from ustr (i' + 1) (concat (map utf8 cps))"
        "i' + 1 + length (concat (map utf8 cps)) = len"
      using 1(1) [OF lt head refl gap tail refl ok more fits 1(4)] by blast
    show ?thesis
      using cps sequence_encodes [OF seq] i' n by (intro exI [of _ "cp # cps"]) auto
  qed
qed

lemma bytes_from_map: "bytes_from ustr 0 bs \<longleftrightarrow> map (\<lambda>k. unat (ustr k)) [0..<length bs] = bs"
proof -
  have "map (\<lambda>k. unat (ustr k)) [0..<length bs] = bs \<longleftrightarrow>
      map (\<lambda>k. unat (ustr k)) [0..<length bs] = map ((!) bs) [0..<length bs]"
    by (simp only: map_nth)
  then show ?thesis by (simp add: bytes_from_def Ball_def)
qed

lemma validate_utf8_iff:
  assumes "len \<le> 65536" "ustr len AND 0xC0 \<noteq> 0x80"
  shows "mqtt_validate_utf8 (Some ustr) (int len) = 0 \<longleftrightarrow>
    (\<exists>cps. (\<forall>cp \<in> set cps. text_char cp) \<and> map (\<lambda>k. unat (ustr k)) [0..<len] = concat (map utf8 cps))"
    (is "?v \<longleftrightarrow> ?text")
proof
  assume ?v
  then have "utf8_loop ustr len 0 = 0" using assms(1) by (simp add: mqtt_validate_utf8_def)
  from utf8_loop_sound [OF this _ assms(2)] show ?text by (auto simp: bytes_from_map)
next
  assume ?text
  then obtain cps where cps: "\<forall>cp \<in> set cps. text_char cp"
    "map (\<lambda>k. unat (ustr k)) [0..<len] = concat (map utf8 cps)" by blast
  have l: "length (concat (map utf8 cps)) = len" using arg_cong [OF cps(2), of length] by simp
  have "bytes_from ustr 0 (concat (map utf8 cps))" unfolding bytes_from_map l cps(2) by (rule refl)
  then show ?v
    using utf8_loop_accepts [OF cps(1), of ustr 0 len] l assms(1) by (simp add: mqtt_validate_utf8_def)
qed

text \<open>A text cut two or three bytes before the end of a sequence is accepted when memory goes on with them.\<close>

lemma cut_sequence_accepted:
  assumes "text_char cp" "0x800 \<le> cp" "bytes_from ustr 0 (utf8 cp)"
  shows "mqtt_validate_utf8 (Some ustr) 1 = 0"
proof -
  have n: "3 \<le> length (utf8 cp)" using assms(2) by (simp add: utf8_def)
  have "utf8_loop ustr 1 0 = utf8_loop ustr 1 (0 + length (utf8 cp))"
    by (rule utf8_loop_next [OF sequence_decodes [OF assms(1,3)]]) (use n in auto)
  also have "\<dots> = 0" using n by (subst utf8_loop.simps) simp
  finally show ?thesis by (simp add: mqtt_validate_utf8_def)
qed

section \<open>Valid topics\<close>

text \<open>The levels of a topic are what the slashes separate; empty levels count.\<close>

fun topic_levels :: "string \<Rightarrow> string list" where
  "topic_levels [] = [[]]"
| "topic_levels (c # s) = (if c = CHR ''/'' then [] # topic_levels s
     else (c # hd (topic_levels s)) # tl (topic_levels s))"

lemma topic_levels_nonempty [simp]: "topic_levels s \<noteq> []"
  by (cases s) auto

definition plain_level :: "string \<Rightarrow> bool" where
  "plain_level l \<longleftrightarrow> CHR ''+'' \<notin> set l \<and> CHR 0x23 \<notin> set l"

text \<open>A wildcard is a level of its own, and the one for many levels is the last.\<close>

fun filter_levels_ok :: "string list \<Rightarrow> bool" where
  "filter_levels_ok [] \<longleftrightarrow> True"
| "filter_levels_ok (l # ls) \<longleftrightarrow> (plain_level l \<or> l = ''+'' \<or> (l = [CHR 0x23] \<and> ls = [])) \<and> filter_levels_ok ls"

lemma sub_topic_loop_levels:
  "CHR 0x00 \<notin> set s \<Longrightarrow> sub_topic_loop c h s = 0 \<longleftrightarrow>
     h + length (topic_levels s) \<le> Suc TOPIC_HIERARCHY_LIMIT \<and>
     (if c = CHR 0x00 \<or> c = CHR ''/'' then filter_levels_ok (topic_levels s)
      else plain_level (hd (topic_levels s)) \<and> filter_levels_ok (tl (topic_levels s)))"
proof (induction c h s rule: sub_topic_loop.induct)
  case (1 c h)
  then show ?case by (simp add: plain_level_def)
next
  case (2 c h x s)
  obtain l ls where levels: "topic_levels s = l # ls" by (cases "topic_levels s") auto
  have hd_s: "s \<noteq> [] \<Longrightarrow> hd s \<noteq> CHR ''/'' \<Longrightarrow> l \<noteq> []" "s = [] \<Longrightarrow> l = [] \<and> ls = []"
    "s \<noteq> [] \<Longrightarrow> hd s = CHR ''/'' \<Longrightarrow> l = []" "ls = [] \<Longrightarrow> l = [] \<Longrightarrow> s = []"
    using levels by (cases s; auto split: if_splits)+
  have prems: "x \<noteq> CHR 0x00" "CHR 0x00 \<notin> set s" using "2.prems" by auto
  consider "x = CHR ''+''" | "x = CHR 0x23" | "x = CHR ''/''"
    | "x \<noteq> CHR ''+''" "x \<noteq> CHR 0x23" "x \<noteq> CHR ''/''" by blast
  then show ?case
  proof cases
    case 1
    show ?thesis
    proof (cases "(c \<noteq> CHR 0x00 \<and> c \<noteq> CHR ''/'') \<or> (s \<noteq> [] \<and> hd s \<noteq> CHR ''/'')")
      case True
      then show ?thesis using 1 levels hd_s(1) by (cases "s = []") (simp_all add: plain_level_def, auto)
    next
      case False
      then have "l = []" using hd_s(2,3) by blast
      then show ?thesis
        using "2.IH"(1) [OF 1 False prems(2)] 1 False levels by (simp add: plain_level_def) blast
    qed
  next
    case 2
    show ?thesis
    proof (cases "(c \<noteq> CHR 0x00 \<and> c \<noteq> CHR ''/'') \<or> s \<noteq> []")
      case True
      then show ?thesis using 2 levels hd_s(4) by (simp add: plain_level_def) blast
    next
      case False
      then show ?thesis
        using 2 levels hd_s(2) "2.IH"(2) [OF _ 2 False prems(2)] by (simp add: plain_level_def) blast
    qed
  next
    case 3
    then show ?thesis using "2.IH"(3) [OF _ _ prems(2)] levels by (simp add: plain_level_def)
  next
    case 4
    then show ?thesis
      using "2.IH"(3) [OF 4(1,2) prems(2)] prems levels by (auto simp: plain_level_def)
  qed
qed

lemma sub_topic_iff:
  assumes "CHR 0x00 \<notin> set s"
  shows "mqtt_sub_topic_check2 (Some s) = 0 \<longleftrightarrow> s \<noteq> [] \<and> length s \<le> 65535 \<and>
    length (topic_levels s) \<le> Suc TOPIC_HIERARCHY_LIMIT \<and> filter_levels_ok (topic_levels s)"
  using sub_topic_loop_levels [OF assms, of "CHR 0x00" 0] by (auto simp: mqtt_sub_topic_check2_def)

lemma pub_topic_loop_levels:
  "pub_topic_loop h s = 0 \<longleftrightarrow> h + length (topic_levels s) \<le> Suc TOPIC_HIERARCHY_LIMIT \<and>
     CHR ''+'' \<notin> set s \<and> CHR 0x23 \<notin> set s"
  by (induction h s rule: pub_topic_loop.induct) auto

lemma pub_topic_iff: "mqtt_pub_topic_check2 (Some s) = 0 \<longleftrightarrow> s \<noteq> [] \<and> length s \<le> 65535 \<and>
    length (topic_levels s) \<le> Suc TOPIC_HIERARCHY_LIMIT \<and> CHR ''+'' \<notin> set s \<and> CHR 0x23 \<notin> set s"
  using pub_topic_loop_levels [of 0 s] by (auto simp: mqtt_pub_topic_check2_def)

end
