(* ===== verification/Mqtt_Codec.thy ===== *)
theory Mqtt_Codec
  imports Mqtt_Text GBuffer
begin

text \<open>
  The encoding and decoding of MQTT packets of \<^verbatim>\<open>modules/c/mqtt/src/c_prot_mqtt2.c\<close>: integers, strings,
  variable-length integers and the properties of MQTT 5, written to and read from buffers. Integers of a
  C width are numbers, truncated where the code converts them. A reader either fails with an error code
  (\<open>Inl\<close>) or returns a value; both leave the buffer as read so far. The check for a \<open>NULL\<close> buffer that
  opens each reader is left out: here a buffer is given. \<open>None\<close> is an access outside allocated memory.
\<close>

definition MOSQ_ERR_MALFORMED_PACKET :: int where "MOSQ_ERR_MALFORMED_PACKET = -6"
definition MOSQ_ERR_DUPLICATE_PROPERTY :: int where "MOSQ_ERR_DUPLICATE_PROPERTY = -7"

lemmas mosq_err_defs = MOSQ_ERR_MALFORMED_PACKET_def MOSQ_ERR_DUPLICATE_PROPERTY_def

definition cuint :: "nat \<Rightarrow> int \<Rightarrow> nat" where "cuint w i = nat (i mod 2 ^ w)"

section \<open>Names and types of properties\<close>

definition property_infos :: "(string \<times> nat \<times> nat) list" where
  "property_infos = [
     (''payload-format-indicator'', MQTT_PROP_PAYLOAD_FORMAT_INDICATOR, 1),
     (''message-expiry-interval'', MQTT_PROP_MESSAGE_EXPIRY_INTERVAL, 3),
     (''content-type'', MQTT_PROP_CONTENT_TYPE, 6),
     (''response-topic'', MQTT_PROP_RESPONSE_TOPIC, 6),
     (''correlation-data'', MQTT_PROP_CORRELATION_DATA, 5),
     (''subscription-identifier'', MQTT_PROP_SUBSCRIPTION_IDENTIFIER, 4),
     (''session-expiry-interval'', MQTT_PROP_SESSION_EXPIRY_INTERVAL, 3),
     (''assigned-client-identifier'', MQTT_PROP_ASSIGNED_CLIENT_IDENTIFIER, 6),
     (''server-keep-alive'', MQTT_PROP_SERVER_KEEP_ALIVE, 2),
     (''authentication-method'', MQTT_PROP_AUTHENTICATION_METHOD, 6),
     (''authentication-data'', MQTT_PROP_AUTHENTICATION_DATA, 5),
     (''request-problem-information'', MQTT_PROP_REQUEST_PROBLEM_INFORMATION, 1),
     (''will-delay-interval'', MQTT_PROP_WILL_DELAY_INTERVAL, 3),
     (''request-response-information'', MQTT_PROP_REQUEST_RESPONSE_INFORMATION, 1),
     (''response-information'', MQTT_PROP_RESPONSE_INFORMATION, 6),
     (''server-reference'', MQTT_PROP_SERVER_REFERENCE, 6),
     (''reason-string'', MQTT_PROP_REASON_STRING, 6),
     (''receive-maximum'', MQTT_PROP_RECEIVE_MAXIMUM, 2),
     (''topic-alias-maximum'', MQTT_PROP_TOPIC_ALIAS_MAXIMUM, 2),
     (''topic-alias'', MQTT_PROP_TOPIC_ALIAS, 2),
     (''maximum-qos'', MQTT_PROP_MAXIMUM_QOS, 1),
     (''retain-available'', MQTT_PROP_RETAIN_AVAILABLE, 1),
     (''user-property'', MQTT_PROP_USER_PROPERTY, 7),
     (''maximum-packet-size'', MQTT_PROP_MAXIMUM_PACKET_SIZE, 3),
     (''wildcard-subscription-available'', MQTT_PROP_WILDCARD_SUB_AVAILABLE, 1),
     (''subscription-identifier-available'', MQTT_PROP_SUBSCRIPTION_ID_AVAILABLE, 1),
     (''shared-subscription-available'', MQTT_PROP_SHARED_SUB_AVAILABLE, 1)]"

text \<open>The identifier and the type of a name (\<open>None\<close>: returns -1 and the caller keeps 0 and 0).\<close>

definition mosquitto_string_to_property_info :: "string option \<Rightarrow> (nat \<times> nat) option" where
  "mosquitto_string_to_property_info propname = (case propname of None \<Rightarrow> None
     | Some p \<Rightarrow> map_option snd (List.find (\<lambda>(n, i, t). strcasecmp_eq p n) property_infos))"

text \<open>The groups of the \<open>switch\<close> statements.\<close>

definition byte_props :: "nat list" where "byte_props = [1, 23, 25, 36, 37, 40, 41, 42]"
definition int16_props :: "nat list" where "int16_props = [19, 33, 34, 35]"
definition int32_props :: "nat list" where "int32_props = [2, 17, 24, 39]"
definition string_props :: "nat list" where "string_props = [3, 8, 18, 21, 26, 28, 31]"
definition binary_props :: "nat list" where "binary_props = [22, 9]"

lemmas prop_groups = byte_props_def int16_props_def int32_props_def string_props_def binary_props_def

definition protocol_version_name :: "nat \<Rightarrow> string" where
  "protocol_version_name v = (if v = 3 then ''mqtt31'' else if v = 4 then ''mqtt311''
     else if v = 5 then ''mqtt5'' else ''invalid protocol version'')"

section \<open>Writing\<close>

definition mqtt_write_byte :: "gbmem \<Rightarrow> gbuffer \<Rightarrow> nat \<Rightarrow> (int \<times> gbuffer) option" where
  "mqtt_write_byte mem gbuf b = do {
     (n, gbuf) \<leftarrow> gbuffer_append_char mem gbuf (word_of_nat b);
     Some (if n \<noteq> 1 then -1 else 0, gbuf)
   }"

definition mqtt_write_uint16 :: "gbmem \<Rightarrow> gbuffer \<Rightarrow> nat \<Rightarrow> (int \<times> gbuffer) option" where
  "mqtt_write_uint16 mem gbuf w = do {
     (n1, gbuf) \<leftarrow> gbuffer_append_char mem gbuf (word_of_nat (w div 256 mod 256));
     (n2, gbuf) \<leftarrow> gbuffer_append_char mem gbuf (word_of_nat (w mod 256));
     Some (if n1 + n2 = 2 then 0 else -1, gbuf)
   }"

definition mqtt_write_uint32 :: "gbmem \<Rightarrow> gbuffer \<Rightarrow> nat \<Rightarrow> (int \<times> gbuffer) option" where
  "mqtt_write_uint32 mem gbuf w = do {
     (n1, gbuf) \<leftarrow> gbuffer_append_char mem gbuf (word_of_nat (w div 2 ^ 24 mod 256));
     (n2, gbuf) \<leftarrow> gbuffer_append_char mem gbuf (word_of_nat (w div 2 ^ 16 mod 256));
     (n3, gbuf) \<leftarrow> gbuffer_append_char mem gbuf (word_of_nat (w div 2 ^ 8 mod 256));
     (n4, gbuf) \<leftarrow> gbuffer_append_char mem gbuf (word_of_nat (w mod 256));
     Some (if n1 + n2 + n3 + n4 = 4 then 0 else -1, gbuf)
   }"

text \<open>The digit of a variable-length integer: seven bits, and the top bit when more follow.\<close>

definition varint_digit :: "nat \<Rightarrow> nat" where
  "varint_digit w = (if w div 128 > 0 then w mod 128 OR 0x80 else w mod 128)"

text \<open>The loop of \<open>mqtt_write_varint\<close>, with the digits that may still be written: the fifth is an error.\<close>

fun write_varint_loop :: "gbmem \<Rightarrow> nat \<Rightarrow> nat \<Rightarrow> gbuffer \<Rightarrow> (int \<times> gbuffer) option" where
  "write_varint_loop mem 0 w gbuf = Some (-1, gbuf)"
| "write_varint_loop mem (Suc n) w gbuf = do {
     (r, gbuf) \<leftarrow> mqtt_write_byte mem gbuf (varint_digit w);
     if r < 0 then Some (-1, gbuf)
     else if w div 128 > 0 then write_varint_loop mem n (w div 128) gbuf
     else Some (if n = 0 then -1 else 0, gbuf)
   }"

definition mqtt_write_varint :: "gbmem \<Rightarrow> gbuffer \<Rightarrow> nat \<Rightarrow> (int \<times> gbuffer) option" where
  "mqtt_write_varint mem gbuf w = write_varint_loop mem 5 w gbuf"

definition mqtt_write_bytes :: "gbmem \<Rightarrow> gbuffer \<Rightarrow> byte list \<Rightarrow> (int \<times> gbuffer) option" where
  "mqtt_write_bytes mem gbuf bs = do {
     (n, gbuf) \<leftarrow> gbuffer_append mem gbuf bs;
     Some (if n \<noteq> length bs then -1 else 0, gbuf)
   }"

text \<open>
  \<open>strlen\<close>. The length of a string is cut to 16 bits. Both results are 0 or -1, and their sum as a
  \<open>size_t\<close> is compared with the number of bytes.
\<close>

definition strlen :: "string \<Rightarrow> nat" where
  "strlen s = length (takeWhile (\<lambda>c. c \<noteq> CHR 0x00) s)"

definition mqtt_write_string :: "gbmem \<Rightarrow> gbuffer \<Rightarrow> string \<Rightarrow> (int \<times> gbuffer) option" where
  "mqtt_write_string mem gbuf str = do {
     let len = strlen str mod 2 ^ 16;
     (r1, gbuf) \<leftarrow> mqtt_write_uint16 mem gbuf len;
     (r2, gbuf) \<leftarrow> mqtt_write_bytes mem gbuf (map byte_of_char (take len str));
     Some (if (r1 + r2) mod 2 ^ 64 = int (len + 2) then 0 else -1, gbuf)
   }"

section \<open>Lengths of packets and properties\<close>

definition packet__varint_bytes :: "nat \<Rightarrow> nat" where
  "packet__varint_bytes w =
     (if w < 128 then 1 else if w < 16384 then 2 else if w < 2097152 then 3
      else if w < 268435456 then 4 else 5)"

text \<open>The identifier of a property to write: from its name, else from the value; 0 is an error.\<close>

definition identifier_of :: "libc_real \<Rightarrow> string \<Rightarrow> jn \<Rightarrow> nat" where
  "identifier_of lc property_name v = (case mosquitto_string_to_property_info (Some property_name) of
     Some (i, t) \<Rightarrow> i
   | None \<Rightarrow> if json_is_object v then cuint 32 (fst (kw_get_int lc v ''identifier'' 0 0)) else 0)"

definition value_of :: "jn \<Rightarrow> jn" where
  "value_of v = (if json_is_object v then fst (kw_get_dict_value v ''value'' None KW_REQUIRED) else v)"

text \<open>The bytes a base64 text stands for; no buffer (\<open>NULL\<close>) is read through a bad pointer.\<close>

definition base64_bytes :: "gbmem \<Rightarrow> string \<Rightarrow> byte list option" where
  "base64_bytes mem b64 = (case gbuffer_base64_to_binary mem (Some b64) (strlen b64) of
     Some (Some gbuf) \<Rightarrow> bytes_at gbuf (gb_curp gbuf) (gbuffer_leftbytes gbuf)
   | _ \<Rightarrow> None)"

definition subscription_id_length :: "json \<Rightarrow> nat" where
  "subscription_id_length item = (let id_val = json_integer_value (Some item) in
     1 + (if id_val < 128 then 1 else if id_val < 16384 then 2 else if id_val < 2097152 then 3
          else if id_val < 268435456 then 4 else 0))"

definition user_property_length :: "json \<Rightarrow> nat" where
  "user_property_length item =
     5 + strlen (the (fst (kw_get_str (Some item) ''name'' (Some []) 0)))
       + strlen (the (fst (kw_get_str (Some item) ''value'' (Some []) 0)))"

definition property__get_length :: "gbmem \<Rightarrow> libc_real \<Rightarrow> string \<Rightarrow> json \<Rightarrow> nat option" where
  "property__get_length mem lc property_name pv =
     (let identifier = identifier_of lc property_name (Some pv); v = value_of (Some pv) in
      if identifier = 0 then Some 0
      else do {
        str_len \<leftarrow> (case v of
            Some (JString s) \<Rightarrow> (if identifier \<in> set binary_props
              then map_option length (base64_bytes mem s) else Some (strlen s))
          | _ \<Rightarrow> Some 0);
        let n = cuint 64 (json_integer_value v);
        Some (
          if identifier \<in> set byte_props then 2
          else if identifier \<in> set int16_props then 3
          else if identifier \<in> set int32_props then 5
          else if identifier = MQTT_PROP_SUBSCRIPTION_IDENTIFIER then (case v of
              Some (JArray xs) \<Rightarrow> cuint 32 (int (sum_list (map subscription_id_length xs)))
            | _ \<Rightarrow> if n < 128 then 2 else if n < 16384 then 3 else if n < 2097152 then 4
                else if n < 268435456 then 5 else 0)
          else if identifier \<in> set binary_props \<or> identifier \<in> set string_props
            then cuint 32 (int (3 + str_len))
          else if identifier = MQTT_PROP_USER_PROPERTY then (case v of
              Some (JArray xs) \<Rightarrow> cuint 32 (int (sum_list (map user_property_length xs)))
            | _ \<Rightarrow> cuint 32 (int (5 + str_len)))
          else 0)
      })"

fun get_length_loop :: "gbmem \<Rightarrow> libc_real \<Rightarrow> (string \<times> json) list \<Rightarrow> nat \<Rightarrow> nat option" where
  "get_length_loop mem lc [] len = Some len"
| "get_length_loop mem lc ((property_name, v) # ps) len = do {
     n \<leftarrow> property__get_length mem lc property_name v;
     get_length_loop mem lc ps (cuint 32 (int (len + n)))
   }"

definition json_pairs :: "jn \<Rightarrow> (string \<times> json) list" where
  "json_pairs j = (case j of Some (JObject ps) \<Rightarrow> ps | _ \<Rightarrow> [])"

definition property__get_length_all :: "gbmem \<Rightarrow> libc_real \<Rightarrow> jn \<Rightarrow> nat option" where
  "property__get_length_all mem lc props = get_length_loop mem lc (json_pairs props) 0"

definition property__get_remaining_length :: "gbmem \<Rightarrow> libc_real \<Rightarrow> jn \<Rightarrow> nat option" where
  "property__get_remaining_length mem lc props = do {
     proplen \<leftarrow> property__get_length_all mem lc props;
     Some (cuint 32 (int (proplen + packet__varint_bytes proplen)))
   }"

definition packet__check_oversize :: "nat \<Rightarrow> nat \<Rightarrow> int" where
  "packet__check_oversize maximum_packet_size remaining_length =
     (if maximum_packet_size = 0 then 0
      else if cuint 32 (int (remaining_length + packet__varint_bytes remaining_length)) > maximum_packet_size
      then -1 else 0)"

section \<open>Properties added to a list\<close>

definition property_add :: "nat list \<Rightarrow> jn \<Rightarrow> nat \<Rightarrow> json \<Rightarrow> int \<times> jn" where
  "property_add allowed proplist identifier v = (case proplist of
     None \<Rightarrow> (-1, None)
   | Some pl \<Rightarrow> (if identifier \<notin> set allowed then (-1, proplist)
       else (0, Some (json_object_set pl (the (mqtt_property_identifier_to_string identifier)) v))))"

definition mqtt_property_add_byte :: "jn \<Rightarrow> nat \<Rightarrow> nat \<Rightarrow> int \<times> jn" where
  "mqtt_property_add_byte proplist identifier n = property_add byte_props proplist identifier (JInt (int (n mod 2 ^ 8)))"

definition mqtt_property_add_int16 :: "jn \<Rightarrow> nat \<Rightarrow> nat \<Rightarrow> int \<times> jn" where
  "mqtt_property_add_int16 proplist identifier n = property_add int16_props proplist identifier (JInt (int (n mod 2 ^ 16)))"

definition mqtt_property_add_int32 :: "jn \<Rightarrow> nat \<Rightarrow> nat \<Rightarrow> int \<times> jn" where
  "mqtt_property_add_int32 proplist identifier n = property_add int32_props proplist identifier (JInt (int (n mod 2 ^ 32)))"

text \<open>A C string in memory: its characters and a NUL.\<close>

definition c_memory :: "string \<Rightarrow> nat \<Rightarrow> byte" where
  "c_memory s i = (if i < length s then byte_of_char (s ! i) else 0)"

definition mqtt_property_add_string :: "jn \<Rightarrow> nat \<Rightarrow> string option \<Rightarrow> int \<times> jn" where
  "mqtt_property_add_string proplist identifier str = (case proplist of
     None \<Rightarrow> (-1, None)
   | Some _ \<Rightarrow>
       (if str \<noteq> None \<and> mqtt_validate_utf8 (Some (c_memory (the str))) (int (strlen (the str))) < 0
        then (-1, proplist)
        else property_add string_props proplist identifier (JString (case str of None \<Rightarrow> [] | Some s \<Rightarrow> s))))"

section \<open>Properties written\<close>

text \<open>The loops over the values of a repeated property; the identifier of the first is already written.\<close>

fun write_subscription_ids :: "gbmem \<Rightarrow> nat \<Rightarrow> nat \<Rightarrow> json list \<Rightarrow> int \<Rightarrow> gbuffer \<Rightarrow> (int \<times> gbuffer) option" where
  "write_subscription_ids mem identifier idx [] ret gbuf = Some (ret, gbuf)"
| "write_subscription_ids mem identifier idx (item # items) ret gbuf = do {
     (r1, gbuf) \<leftarrow> (if idx > 0 then mqtt_write_varint mem gbuf identifier else Some (0, gbuf));
     (r2, gbuf) \<leftarrow> mqtt_write_varint mem gbuf (cuint 32 (json_integer_value (Some item)));
     write_subscription_ids mem identifier (idx + 1) items (ret + r1 + r2) gbuf
   }"

fun write_user_properties :: "gbmem \<Rightarrow> nat \<Rightarrow> nat \<Rightarrow> json list \<Rightarrow> int \<Rightarrow> gbuffer \<Rightarrow> (int \<times> gbuffer) option" where
  "write_user_properties mem identifier idx [] ret gbuf = Some (ret, gbuf)"
| "write_user_properties mem identifier idx (item # items) ret gbuf = do {
     (r1, gbuf) \<leftarrow> (if idx > 0 then mqtt_write_varint mem gbuf identifier else Some (0, gbuf));
     (r2, gbuf) \<leftarrow> mqtt_write_string mem gbuf (the (fst (kw_get_str (Some item) ''name'' (Some []) KW_REQUIRED)));
     (r3, gbuf) \<leftarrow> mqtt_write_string mem gbuf (the (fst (kw_get_str (Some item) ''value'' (Some []) KW_REQUIRED)));
     write_user_properties mem identifier (idx + 1) items (ret + r1 + r2 + r3) gbuf
   }"

definition property__write :: "gbmem \<Rightarrow> libc_real \<Rightarrow> gbuffer \<Rightarrow> string \<Rightarrow> json \<Rightarrow> (int \<times> gbuffer) option" where
  "property__write mem lc gbuf property_name pv =
     (let identifier = identifier_of lc property_name (Some pv); v = value_of (Some pv);
          n = json_integer_value v in
      if identifier = 0 then Some (-1, gbuf)
      else do {
        (_, gbuf) \<leftarrow> mqtt_write_varint mem gbuf identifier;
        if identifier \<in> set byte_props then do {
          (_, gbuf) \<leftarrow> mqtt_write_byte mem gbuf (cuint 8 n); Some (0, gbuf) }
        else if identifier \<in> set int16_props then do {
          (_, gbuf) \<leftarrow> mqtt_write_uint16 mem gbuf (cuint 16 n); Some (0, gbuf) }
        else if identifier \<in> set int32_props then do {
          (_, gbuf) \<leftarrow> mqtt_write_uint32 mem gbuf (cuint 32 n); Some (0, gbuf) }
        else if identifier = MQTT_PROP_SUBSCRIPTION_IDENTIFIER then (case pv of
            JArray xs \<Rightarrow> write_subscription_ids mem identifier 0 xs 0 gbuf
          | _ \<Rightarrow> mqtt_write_varint mem gbuf (cuint 32 n))
        else if identifier \<in> set string_props then do {
          s \<leftarrow> json_string_value v;
          (_, gbuf) \<leftarrow> mqtt_write_string mem gbuf s; Some (0, gbuf) }
        else if identifier \<in> set binary_props then do {
          b64 \<leftarrow> json_string_value v;
          bs \<leftarrow> base64_bytes mem b64;
          let len = length bs mod 2 ^ 16;
          (_, gbuf) \<leftarrow> mqtt_write_uint16 mem gbuf len;
          (_, gbuf) \<leftarrow> mqtt_write_bytes mem gbuf (take len bs); Some (0, gbuf) }
        else if identifier = MQTT_PROP_USER_PROPERTY then (case pv of
            JArray xs \<Rightarrow> write_user_properties mem identifier 0 xs 0 gbuf
          | _ \<Rightarrow> do {
              (_, gbuf) \<leftarrow> mqtt_write_string mem gbuf (the (fst (kw_get_str (Some pv) ''name'' (Some []) KW_REQUIRED)));
              s \<leftarrow> json_string_value v;
              (_, gbuf) \<leftarrow> mqtt_write_string mem gbuf s; Some (0, gbuf) })
        else Some (-1, gbuf)
      })"

fun write_all_loop :: "gbmem \<Rightarrow> libc_real \<Rightarrow> (string \<times> json) list \<Rightarrow> int \<Rightarrow> gbuffer \<Rightarrow> (int \<times> gbuffer) option" where
  "write_all_loop mem lc [] ret gbuf = Some (ret, gbuf)"
| "write_all_loop mem lc ((property_name, v) # ps) ret gbuf = do {
     (r, gbuf) \<leftarrow> property__write mem lc gbuf property_name v;
     write_all_loop mem lc ps (ret + r) gbuf
   }"

definition property__write_all :: "gbmem \<Rightarrow> libc_real \<Rightarrow> gbuffer \<Rightarrow> jn \<Rightarrow> bool \<Rightarrow> (int \<times> gbuffer) option" where
  "property__write_all mem lc gbuf props write_len = do {
     (ret, gbuf) \<leftarrow> (if write_len then do {
         len \<leftarrow> property__get_length_all mem lc props;
         mqtt_write_varint mem gbuf len }
       else Some (0, gbuf));
     write_all_loop mem lc (json_pairs props) ret gbuf
   }"

text \<open>The head of a packet: the command and the remaining length in at most four digits.\<close>

fun remaining_digits :: "nat \<Rightarrow> nat \<Rightarrow> nat list" where
  "remaining_digits 0 w = []"
| "remaining_digits (Suc n) w =
     varint_digit w # (if w div 128 > 0 then remaining_digits n (w div 128) else [])"

fun append_chars :: "gbmem \<Rightarrow> gbuffer \<Rightarrow> nat list \<Rightarrow> gbuffer option" where
  "append_chars mem gbuf [] = Some gbuf"
| "append_chars mem gbuf (c # cs) = do {
     (_, gbuf) \<leftarrow> gbuffer_append_char mem gbuf (word_of_nat c);
     append_chars mem gbuf cs
   }"

definition build_mqtt_packet :: "gbmem \<Rightarrow> nat \<Rightarrow> nat \<Rightarrow> gbuffer option option" where
  "build_mqtt_packet mem command sz =
     (let remaining_bytes = remaining_digits 5 sz in
      if length remaining_bytes = 5 then Some None
      else let packet_length = cuint 32 (int (sz + 1 + length remaining_bytes)) in
        (case gbuffer_create mem packet_length packet_length of
           None \<Rightarrow> Some None
         | Some gbuf \<Rightarrow> map_option Some (append_chars mem gbuf (command # remaining_bytes))))"

section \<open>Reading\<close>

type_synonym 'a reader = "gbuffer \<Rightarrow> ((int + 'a) \<times> gbuffer) option"

definition rd_then :: "'a reader \<Rightarrow> ('a \<Rightarrow> 'b reader) \<Rightarrow> 'b reader" where
  "rd_then m f gbuf = (case m gbuf of
     None \<Rightarrow> None
   | Some (Inl e, gbuf) \<Rightarrow> Some (Inl e, gbuf)
   | Some (Inr a, gbuf) \<Rightarrow> f a gbuf)"

definition rd_return :: "'a \<Rightarrow> 'a reader" where "rd_return a gbuf = Some (Inr a, gbuf)"

definition rd_fail :: "int \<Rightarrow> 'a reader" where "rd_fail e gbuf = Some (Inl e, gbuf)"

text \<open>A failure of \<open>m\<close> is reported with the code \<open>e\<close>.\<close>

definition rd_code :: "int \<Rightarrow> 'a reader \<Rightarrow> 'a reader" where
  "rd_code e m gbuf = (case m gbuf of Some (Inl _, gbuf) \<Rightarrow> Some (Inl e, gbuf) | r \<Rightarrow> r)"

definition rd_char :: "byte reader" where
  "rd_char gbuf = map_option (\<lambda>(c, gbuf). (Inr c, gbuf)) (gbuffer_getchar gbuf)"

definition rd_need :: "nat \<Rightarrow> unit reader" where
  "rd_need n gbuf = (if gbuffer_leftbytes gbuf < n then rd_fail MOSQ_ERR_MALFORMED_PACKET gbuf
     else rd_return () gbuf)"

definition mqtt_read_byte :: "nat reader" where
  "mqtt_read_byte = rd_then (rd_need 1) (\<lambda>_. rd_then rd_char (\<lambda>c. rd_return (unat c)))"

definition mqtt_read_uint16 :: "nat reader" where
  "mqtt_read_uint16 = rd_then (rd_need 2) (\<lambda>_. rd_then rd_char (\<lambda>msb. rd_then rd_char (\<lambda>lsb.
     rd_return (256 * unat msb + unat lsb))))"

fun read_uint32_loop :: "nat \<Rightarrow> nat \<Rightarrow> nat reader" where
  "read_uint32_loop 0 val = rd_return val"
| "read_uint32_loop (Suc n) val = rd_then rd_char (\<lambda>c. read_uint32_loop n (cuint 32 (int (256 * val + unat c))))"

definition mqtt_read_uint32 :: "nat reader" where
  "mqtt_read_uint32 = rd_then (rd_need 4) (\<lambda>_. read_uint32_loop 4 0)"

definition rd_get :: "nat \<Rightarrow> (nat option \<times> byte list) reader" where
  "rd_get n gbuf = (case gbuffer_get gbuf n of
     (None, gbuf) \<Rightarrow> Some (Inr (None, []), gbuf)
   | (Some p, gbuf) \<Rightarrow> (case bytes_at gbuf p n of None \<Rightarrow> None | Some bs \<Rightarrow> Some (Inr (Some p, bs), gbuf)))"

definition mqtt_read_bytes :: "nat \<Rightarrow> byte list reader" where
  "mqtt_read_bytes n = rd_then (rd_need n) (\<lambda>_. rd_then (rd_get n) (\<lambda>(p, bs). rd_return bs))"

text \<open>The data are the offset of the bytes in the buffer, \<open>None\<close> for \<open>NULL\<close>, and the bytes.\<close>

definition mqtt_read_binary :: "(nat option \<times> byte list) reader" where
  "mqtt_read_binary = rd_then mqtt_read_uint16 (\<lambda>slen.
     if slen = 0 then rd_return (None, [])
     else rd_then (rd_need slen) (\<lambda>_. rd_get slen))"

text \<open>The memory at an offset of the buffer; the block is followed by what is taken for zeros here.\<close>

definition memory_at :: "gbuffer \<Rightarrow> nat \<Rightarrow> nat \<Rightarrow> byte" where
  "memory_at gbuf p i = (case peek gbuf (p + i) of None \<Rightarrow> 0 | Some c \<Rightarrow> c)"

definition mqtt_read_string :: "(nat option \<times> byte list) reader" where
  "mqtt_read_string = rd_then (rd_code (-1) mqtt_read_binary) (\<lambda>(p, bs) gbuf.
     if bs = [] then rd_return (p, bs) gbuf
     else if mqtt_validate_utf8 (map_option (memory_at gbuf) p) (int (length bs)) < 0 then rd_fail (-1) gbuf
     else rd_return (p, bs) gbuf)"

text \<open>The value and the number of digits; \<open>n\<close> digits may still be read.\<close>

fun read_varint_loop :: "nat \<Rightarrow> nat \<Rightarrow> nat \<Rightarrow> nat \<Rightarrow> (nat \<times> nat) reader" where
  "read_varint_loop 0 lword mul lbytes = rd_fail MOSQ_ERR_MALFORMED_PACKET"
| "read_varint_loop (Suc n) lword mul lbytes = rd_then (rd_need 1) (\<lambda>_. rd_then rd_char (\<lambda>c.
     let lbytes = lbytes + 1;
         lword = cuint 32 (int (lword + unat (c AND 127) * mul))
     in if c AND 128 = 0
        then (if lbytes > 1 \<and> c = 0 then rd_fail MOSQ_ERR_MALFORMED_PACKET
              else rd_return (lword, lbytes))
        else read_varint_loop n lword (cuint 32 (int (mul * 128))) lbytes))"

definition mqtt_read_varint :: "(nat \<times> nat) reader" where
  "mqtt_read_varint = read_varint_loop 4 0 1 0"

section \<open>Properties read\<close>

definition property_len_consume :: "nat \<Rightarrow> nat \<Rightarrow> nat option" where
  "property_len_consume len consumed = (if len < consumed then None else Some (len - consumed))"

text \<open>\<open>json_object_set_new\<close> with a value that may be \<open>NULL\<close>: then nothing is set.\<close>

definition set_new :: "json \<Rightarrow> string \<Rightarrow> jn \<Rightarrow> json" where
  "set_new j k v = (case v of None \<Rightarrow> j | Some x \<Rightarrow> json_object_set j k x)"

text \<open>\<open>json_stringn\<close> of jansson, with its check of UTF-8 (\<^verbatim>\<open>utf.c\<close>).\<close>

definition utf8_check_first :: "byte \<Rightarrow> nat" where
  "utf8_check_first u = (if u < 0x80 then 1 else if u \<le> 0xBF then 0 else if u = 0xC0 \<or> u = 0xC1 then 0
     else if u \<le> 0xDF then 2 else if u \<le> 0xEF then 3 else if u \<le> 0xF4 then 4 else 0)"

fun check_full_loop :: "nat \<Rightarrow> byte list \<Rightarrow> nat option" where
  "check_full_loop v [] = Some v"
| "check_full_loop v (u # us) = (if u < 0x80 \<or> u > 0xBF then None
     else check_full_loop (64 * v + unat (u AND 0x3F)) us)"

definition utf8_check_full :: "byte list \<Rightarrow> bool" where
  "utf8_check_full buf = (case buf of [] \<Rightarrow> False | u # us \<Rightarrow>
     (let sz = length buf in
      if sz < 2 \<or> sz > 4 then False
      else case check_full_loop (unat (u AND (if sz = 2 then 0x1F else if sz = 3 then 0xF else 0x7))) us of
        None \<Rightarrow> False
      | Some v \<Rightarrow> \<not> v > 0x10FFFF \<and> \<not> (0xD800 \<le> v \<and> v \<le> 0xDFFF) \<and>
          \<not> (sz = 2 \<and> v < 0x80) \<and> \<not> (sz = 3 \<and> v < 0x800) \<and> \<not> (sz = 4 \<and> v < 0x10000)))"

function utf8_check_string :: "byte list \<Rightarrow> bool" where
  "utf8_check_string buf = (case buf of [] \<Rightarrow> True | u # us \<Rightarrow>
     (let cnt = utf8_check_first u in
      if cnt = 0 then False
      else if cnt > 1 then
        (if cnt > length buf then False
         else if \<not> utf8_check_full (take cnt buf) then False
         else utf8_check_string (drop cnt buf))
      else utf8_check_string us))"
  by pat_completeness auto
termination by (relation "measure length") auto

declare utf8_check_string.simps [simp del]

definition json_stringn :: "nat option \<times> byte list \<Rightarrow> jn" where
  "json_stringn d = (if fst d = None \<or> \<not> utf8_check_string (snd d) then None
     else Some (JString (map char_of_byte (snd d))))"

text \<open>The value of a string property, with the length it leaves.\<close>

definition read_string_value :: "nat \<Rightarrow> (nat \<times> jn) reader" where
  "read_string_value len = rd_then (rd_code MOSQ_ERR_MALFORMED_PACKET mqtt_read_string) (\<lambda>d.
     case property_len_consume len (2 + length (snd d)) of
       None \<Rightarrow> rd_fail MOSQ_ERR_MALFORMED_PACKET
     | Some len \<Rightarrow> rd_return (len, json_stringn d))"

text \<open>The base64 text of binary data; \<open>None\<close> is \<open>NULL\<close>, read as a string.\<close>

definition base64_text :: "gbmem \<Rightarrow> byte list \<Rightarrow> string option" where
  "base64_text mem bs = (case gbuffer_binary_to_base64 mem bs of
     Some (Some gbuf) \<Rightarrow> c_string_at gbuf (gb_curp gbuf) | _ \<Rightarrow> None)"

definition read_binary_value :: "gbmem \<Rightarrow> nat \<Rightarrow> (nat \<times> jn) reader" where
  "read_binary_value mem len = rd_then (rd_code MOSQ_ERR_MALFORMED_PACKET mqtt_read_binary) (\<lambda>d.
     case property_len_consume len (2 + length (snd d)) of
       None \<Rightarrow> rd_fail MOSQ_ERR_MALFORMED_PACKET
     | Some len \<Rightarrow> (\<lambda>gbuf. case base64_text mem (snd d) of None \<Rightarrow> None
         | Some s \<Rightarrow> rd_return (len, Some (JString s)) gbuf))"

text \<open>The values of fixed width, without check of the length.\<close>

definition read_int_value :: "nat \<Rightarrow> nat \<Rightarrow> nat reader \<Rightarrow> (nat \<times> jn) reader" where
  "read_int_value len width m = rd_then (rd_code MOSQ_ERR_MALFORMED_PACKET m) (\<lambda>n.
     rd_return (cuint 32 (int len - int width), Some (JInt (int n))))"

text \<open>The value of a property that is not a user property, by the type of the property.\<close>

definition property_read_value :: "gbmem \<Rightarrow> nat \<Rightarrow> nat \<Rightarrow> (nat \<times> jn) reader" where
  "property_read_value mem len identifier =
     (if identifier \<in> set byte_props then read_int_value len 1 mqtt_read_byte
      else if identifier \<in> set int16_props then read_int_value len 2 mqtt_read_uint16
      else if identifier \<in> set int32_props then read_int_value len 4 mqtt_read_uint32
      else if identifier = MQTT_PROP_SUBSCRIPTION_IDENTIFIER then
        rd_then (rd_code MOSQ_ERR_MALFORMED_PACKET mqtt_read_varint) (\<lambda>(n, byte_count).
          rd_return (cuint 32 (int len - int byte_count), Some (JInt (int n))))
      else if identifier \<in> set string_props then read_string_value len
      else if identifier \<in> set binary_props then read_binary_value mem len
      else rd_fail MOSQ_ERR_MALFORMED_PACKET)"

definition property_read :: "gbmem \<Rightarrow> nat \<Rightarrow> json \<Rightarrow> (nat \<times> json) reader" where
  "property_read mem len all_properties =
     rd_then (rd_code MOSQ_ERR_MALFORMED_PACKET mqtt_read_varint) (\<lambda>(identifier, _).
       let property_name = mqtt_property_identifier_to_string identifier in
       if identifier \<noteq> MQTT_PROP_USER_PROPERTY \<and> property_name \<noteq> None \<and>
          kw_has_key (Some all_properties) (the property_name)
       then rd_fail MOSQ_ERR_DUPLICATE_PROPERTY
       else
         let property = json_object_set (JObject []) ''identifier'' (JInt (int identifier));
             property = set_new property ''name'' (map_option JString property_name);
             property = json_object_set property ''type''
               (JInt (case mosquitto_string_to_property_info property_name of None \<Rightarrow> 0 | Some (i, t) \<Rightarrow> int t));
             len = cuint 32 (int len - 1)
         in if identifier = MQTT_PROP_USER_PROPERTY then
              rd_then (read_string_value len) (\<lambda>(len, v1). rd_then (read_string_value len) (\<lambda>(len, v2).
                let property = set_new (set_new property ''name'' v1) ''value'' v2;
                    arr = (case json_object_get (Some all_properties) ''user-property'' of
                      None \<Rightarrow> JArray [] | Some a \<Rightarrow> a)
                in rd_return (len, json_object_set all_properties ''user-property''
                     (json_array_append arr property))))
            else rd_then (property_read_value mem len identifier) (\<lambda>(len, v).
              rd_return (len, json_object_set all_properties (the property_name) (set_new property ''value'' v))))"

text \<open>\<open>(int) kw_get_int\<close>: the value as a signed number of 32 bits.\<close>

definition int32 :: "int \<Rightarrow> int" where "int32 i = (i + 2 ^ 31) mod 2 ^ 32 - 2 ^ 31"

definition property_identifier :: "libc_real \<Rightarrow> json \<Rightarrow> nat" where
  "property_identifier lc property = (if json_is_array (Some property) then MQTT_PROP_USER_PROPERTY
     else cuint 32 (fst (kw_get_int lc (Some property) ''identifier'' 0 KW_REQUIRED)))"

definition mosquitto_property_check_command :: "nat \<Rightarrow> nat \<Rightarrow> int" where
  "mosquitto_property_check_command command identifier =
     (let allow = (\<lambda>cmds. if command \<notin> set cmds then MOSQ_ERR_MALFORMED_PACKET else 0) in
      if identifier \<in> {1, 2, 3, 8, 9} then allow [CMD_PUBLISH, CMD_WILL]
      else if identifier = 11 then allow [CMD_PUBLISH, CMD_SUBSCRIBE]
      else if identifier = 17 then allow [CMD_CONNECT, CMD_CONNACK, CMD_DISCONNECT]
      else if identifier \<in> {21, 22} then allow [CMD_CONNECT, CMD_CONNACK, CMD_AUTH]
      else if identifier \<in> {18, 19, 26, 36, 37, 40, 41, 42} then allow [CMD_CONNACK]
      else if identifier = 24 then allow [CMD_WILL]
      else if identifier \<in> {23, 25} then allow [CMD_CONNECT]
      else if identifier = 28 then allow [CMD_CONNACK, CMD_DISCONNECT]
      else if identifier = 31 then
        (if command \<in> {CMD_CONNECT, CMD_PUBLISH, CMD_SUBSCRIBE, CMD_UNSUBSCRIBE}
         then MOSQ_ERR_MALFORMED_PACKET else 0)
      else if identifier \<in> {33, 34, 39} then allow [CMD_CONNECT, CMD_CONNACK]
      else if identifier = 35 then allow [CMD_PUBLISH]
      else if identifier = MQTT_PROP_USER_PROPERTY then 0
      else MOSQ_ERR_MALFORMED_PACKET)"

definition mqtt_property_check :: "libc_real \<Rightarrow> nat \<Rightarrow> json \<Rightarrow> int" where
  "mqtt_property_check lc command property =
     (let identifier = property_identifier lc property;
          v = int32 (fst (kw_get_int lc (Some property) ''value'' 0 KW_REQUIRED)) in
      if identifier \<in> set byte_props \<and> v > 1 then MOSQ_ERR_MALFORMED_PACKET
      else if identifier \<in> {MQTT_PROP_MAXIMUM_PACKET_SIZE, MQTT_PROP_RECEIVE_MAXIMUM, MQTT_PROP_TOPIC_ALIAS} \<and>
        v = 0 then MOSQ_ERR_MALFORMED_PACKET
      else mosquitto_property_check_command command identifier)"

fun property_check_loop :: "libc_real \<Rightarrow> nat \<Rightarrow> (string \<times> json) list \<Rightarrow> int" where
  "property_check_loop lc command [] = 0"
| "property_check_loop lc command ((name, property) # ps) =
     (let ret = mqtt_property_check lc command property in
      if ret < 0 then ret else property_check_loop lc command ps)"

definition mqtt_property_check_all :: "libc_real \<Rightarrow> nat \<Rightarrow> json \<Rightarrow> int" where
  "mqtt_property_check_all lc command all_properties =
     property_check_loop lc command (json_pairs (Some all_properties))"

text \<open>The loop over the length declared: it ends only when that length is used up exactly.\<close>

partial_function (option) read_all_loop :: "gbmem \<Rightarrow> nat \<Rightarrow> json \<Rightarrow> json reader" where
  "read_all_loop mem proplen all_properties gbuf =
     (if proplen > 0 then (case property_read mem proplen all_properties gbuf of
         None \<Rightarrow> None
       | Some (Inl e, gbuf) \<Rightarrow> Some (Inl e, gbuf)
       | Some (Inr (proplen, all_properties), gbuf) \<Rightarrow> read_all_loop mem proplen all_properties gbuf)
      else Some (Inr all_properties, gbuf))"

definition property_read_all :: "gbmem \<Rightarrow> libc_real \<Rightarrow> nat \<Rightarrow> json reader" where
  "property_read_all mem lc command = rd_then mqtt_read_varint (\<lambda>(proplen, _).
     rd_then (read_all_loop mem proplen (JObject [])) (\<lambda>all_properties.
       let ret = mqtt_property_check_all lc command all_properties in
       if ret < 0 then rd_fail ret else rd_return all_properties))"

definition property_get_property :: "jn \<Rightarrow> nat \<Rightarrow> jn" where
  "property_get_property properties identifier = (case mqtt_property_identifier_to_string identifier of
     None \<Rightarrow> None | Some n \<Rightarrow> fst (kw_get_dict properties n None 0))"

definition property_read_varint :: "libc_real \<Rightarrow> jn \<Rightarrow> nat \<Rightarrow> int" where
  "property_read_varint lc properties identifier = (case property_get_property properties identifier of
     None \<Rightarrow> -1 | Some p \<Rightarrow> fst (kw_get_int lc (Some p) ''value'' (-1) KW_REQUIRED))"

definition property_read_string :: "jn \<Rightarrow> nat \<Rightarrow> string option" where
  "property_read_string properties identifier = (case property_get_property properties identifier of
     None \<Rightarrow> None | Some p \<Rightarrow> fst (kw_get_str (Some p) ''value'' (Some []) KW_REQUIRED))"


section \<open>What readers and writers do to a buffer\<close>

text \<open>\<open>m\<close> takes exactly \<open>bs\<close> from the unread bytes and gives \<open>a\<close>; \<open>m\<close> appends \<open>bs\<close> and gives \<open>r\<close>.\<close>

definition reads :: "gbmem \<Rightarrow> 'a reader \<Rightarrow> byte list \<Rightarrow> 'a \<Rightarrow> bool" where
  "reads mem m bs a \<longleftrightarrow> (\<forall>b rest. gb_ok mem b \<longrightarrow> unread b = bs @ rest \<longrightarrow>
     (\<exists>b'. m b = Some (Inr a, b') \<and> gb_ok mem b' \<and> unread b' = rest))"

definition writes :: "gbmem \<Rightarrow> (gbuffer \<Rightarrow> (int \<times> gbuffer) option) \<Rightarrow> byte list \<Rightarrow> int \<Rightarrow> bool" where
  "writes mem m bs r \<longleftrightarrow> (\<forall>b. gb_ok mem b \<longrightarrow> length bs \<le> gb_data_size b - gb_tail b \<longrightarrow>
     (\<exists>b'. m b = Some (r, b') \<and> gb_ok mem b' \<and> unread b' = unread b @ bs \<and>
       gb_tail b' = gb_tail b + length bs \<and> gb_data_size b' = gb_data_size b))"

lemma readsI:
  assumes "\<And>b rest. gb_ok mem b \<Longrightarrow> unread b = bs @ rest \<Longrightarrow>
    \<exists>b'. m b = Some (Inr a, b') \<and> gb_ok mem b' \<and> unread b' = rest"
  shows "reads mem m bs a"
  using assms by (simp add: reads_def)

lemma reads_return: "reads mem (rd_return a) [] a"
  by (simp add: reads_def rd_return_def)

lemma reads_then: "reads mem m bs a \<Longrightarrow> reads mem (f a) cs c \<Longrightarrow> reads mem (rd_then m f) (bs @ cs) c"
  unfolding reads_def rd_then_def by (auto 4 4)

lemma reads_then_return: "reads mem m bs a \<Longrightarrow> f a = rd_return c \<Longrightarrow> reads mem (rd_then m f) bs c"
  using reads_then [of mem m bs a f "[]" c] reads_return by (metis append_Nil2)

lemma reads_code: "reads mem m bs a \<Longrightarrow> reads mem (rd_code e m) bs a"
  unfolding reads_def rd_code_def by (auto 4 4)

lemma reads_need:
  assumes "reads mem (f ()) bs a" "n \<le> length bs"
  shows "reads mem (rd_then (rd_need n) f) bs a"
  using assms by (auto simp: reads_def rd_then_def rd_need_def rd_return_def leftbytes_unread)

lemma reads_char: "gbmem_ok mem \<Longrightarrow> reads mem rd_char [c] c"
proof (rule readsI)
  fix b rest assume mem: "gbmem_ok mem" and b: "gb_ok mem b" "unread b = [c] @ rest"
  from gbuffer_getchar_spec [OF mem b(1)] b(2)
  show "\<exists>b'. rd_char b = Some (Inr c, b') \<and> gb_ok mem b' \<and> unread b' = rest"
    by (auto simp: rd_char_def)
qed

lemma writesI:
  assumes "\<And>b. gb_ok mem b \<Longrightarrow> length bs \<le> gb_data_size b - gb_tail b \<Longrightarrow>
    \<exists>b'. m b = Some (r, b') \<and> gb_ok mem b' \<and> unread b' = unread b @ bs \<and>
      gb_tail b' = gb_tail b + length bs \<and> gb_data_size b' = gb_data_size b"
  shows "writes mem m bs r"
  using assms by (simp add: writes_def)

lemma writes_return: "writes mem (\<lambda>b. Some (r, b)) [] r"
  by (simp add: writes_def)

lemma writes_then:
  assumes "writes mem m bs r" "writes mem (f r) cs r'"
  shows "writes mem (\<lambda>b. m b \<bind> (\<lambda>(r, b). f r b)) (bs @ cs) r'"
proof (rule writesI)
  fix b assume b: "gb_ok mem b" "length (bs @ cs) \<le> gb_data_size b - gb_tail b"
  then have "length bs \<le> gb_data_size b - gb_tail b" by simp
  with assms(1) b(1) obtain b1 where b1: "m b = Some (r, b1)" "gb_ok mem b1" "unread b1 = unread b @ bs"
      "gb_tail b1 = gb_tail b + length bs" "gb_data_size b1 = gb_data_size b"
    unfolding writes_def by blast
  then have "length cs \<le> gb_data_size b1 - gb_tail b1" using b(2) by simp
  with assms(2) b1(2) obtain b2 where b2: "f r b1 = Some (r', b2)" "gb_ok mem b2" "unread b2 = unread b1 @ cs"
      "gb_tail b2 = gb_tail b1 + length cs" "gb_data_size b2 = gb_data_size b1"
    unfolding writes_def by blast
  show "\<exists>b'. m b \<bind> (\<lambda>(r, b). f r b) = Some (r', b') \<and> gb_ok mem b' \<and> unread b' = unread b @ bs @ cs \<and>
      gb_tail b' = gb_tail b + length (bs @ cs) \<and> gb_data_size b' = gb_data_size b"
    using b1 b2 by (intro exI [of _ b2]) simp
qed

text \<open>The result of a writer only counts when it is used.\<close>

lemma writes_result: "writes mem m bs r \<Longrightarrow> writes mem (\<lambda>b. m b \<bind> (\<lambda>(r, b). Some (g r, b))) bs (g r)"
  using writes_then [of mem m bs r "\<lambda>r b. Some (g r, b)" "[]" "g r"] writes_return by (metis append_Nil2)

lemma writes_append:
  assumes "gbmem_ok mem"
  shows "writes mem (\<lambda>b. gbuffer_append mem b bs \<bind> (\<lambda>(n, b). Some (g n, b))) bs (g (length bs))"
proof (rule writesI)
  fix b assume b: "gb_ok mem b" "length bs \<le> gb_data_size b - gb_tail b"
  from gbuffer_append_fits [OF assms b] 
  show "\<exists>b'. gbuffer_append mem b bs \<bind> (\<lambda>(n, b). Some (g n, b)) = Some (g (length bs), b') \<and> gb_ok mem b' \<and>
    unread b' = unread b @ bs \<and> gb_tail b' = gb_tail b + length bs \<and> gb_data_size b' = gb_data_size b"
    by force
qed

lemma writes_byte: "gbmem_ok mem \<Longrightarrow> writes mem (\<lambda>b. mqtt_write_byte mem b n) [word_of_nat n] 0"
  using writes_append [of mem "[word_of_nat n]" "\<lambda>n. if n \<noteq> 1 then -1 else 0"]
  by (simp add: mqtt_write_byte_def gbuffer_append_char_def)

lemma writes_bytes: "gbmem_ok mem \<Longrightarrow> writes mem (\<lambda>b. mqtt_write_bytes mem b bs) bs 0"
  using writes_append [of mem bs "\<lambda>n. if n \<noteq> length bs then -1 else 0"]
  by (simp add: mqtt_write_bytes_def)

lemma writes_char_then:
  assumes "gbmem_ok mem" "writes mem (f 1) cs r"
  shows "writes mem (\<lambda>b. gbuffer_append_char mem b c \<bind> (\<lambda>(n, b). f n b)) (c # cs) r"
proof -
  have "writes mem (\<lambda>b. gbuffer_append mem b [c] \<bind> (\<lambda>(n, b). Some (int n, b))) [c] 1"
    using writes_append [OF assms(1), of "[c]" int] by simp
  from writes_then [OF this, of "\<lambda>r. f (nat r)" cs r] assms(2)
  show ?thesis
    by (simp add: gbuffer_append_char_def bind_split case_prod_unfold cong: option.case_cong)
qed

section \<open>Integers\<close>

definition enc16 :: "nat \<Rightarrow> byte list" where
  "enc16 w = [word_of_nat (w div 256 mod 256), word_of_nat (w mod 256)]"

definition enc32 :: "nat \<Rightarrow> byte list" where
  "enc32 w = [word_of_nat (w div 2 ^ 24 mod 256), word_of_nat (w div 2 ^ 16 mod 256),
     word_of_nat (w div 2 ^ 8 mod 256), word_of_nat (w mod 256)]"

fun enc_varint :: "nat \<Rightarrow> byte list" where
  "enc_varint w = word_of_nat (varint_digit w) # (if w div 128 > 0 then enc_varint (w div 128) else [])"

declare enc_varint.simps [simp del]

lemma length_enc_varint_step:
  "length (enc_varint w) = (if w < 128 then 1 else 1 + length (enc_varint (w div 128)))"
  by (subst enc_varint.simps) (auto simp: div_greater_zero_iff)

lemma length_enc_varint: "w < 2 ^ 28 \<Longrightarrow> length (enc_varint w) = packet__varint_bytes w"
  by (simp add: length_enc_varint_step [of w] length_enc_varint_step [of "w div 128"]
      length_enc_varint_step [of "w div 16384"] length_enc_varint_step [of "w div 2097152"]
      packet__varint_bytes_def div_mult2_eq [symmetric] div_less_iff_less_mult)

lemma unat_byte: "unat (word_of_nat n :: byte) = n mod 256"
  by (simp add: unsigned_of_nat take_bit_eq_mod)

lemma writes_uint16: "gbmem_ok mem \<Longrightarrow> writes mem (\<lambda>b. mqtt_write_uint16 mem b w) (enc16 w) 0"
  unfolding mqtt_write_uint16_def enc16_def
  by (intro writes_char_then) (simp_all add: writes_return)

lemma writes_uint32: "gbmem_ok mem \<Longrightarrow> writes mem (\<lambda>b. mqtt_write_uint32 mem b w) (enc32 w) 0"
  unfolding mqtt_write_uint32_def enc32_def
  by (intro writes_char_then) (simp_all add: writes_return)

lemma reads_byte: "gbmem_ok mem \<Longrightarrow> reads mem mqtt_read_byte [c] (unat c)"
  unfolding mqtt_read_byte_def
  by (intro reads_need reads_then_return [OF reads_char]) auto

lemma reads_char_then: "gbmem_ok mem \<Longrightarrow> reads mem (f c) cs a \<Longrightarrow> reads mem (rd_then rd_char f) (c # cs) a"
  using reads_then [OF reads_char, of mem f c cs a] by simp

lemma reads_uint16:
  assumes "gbmem_ok mem" "w < 2 ^ 16"
  shows "reads mem mqtt_read_uint16 (enc16 w) w"
proof -
  have "256 * unat (word_of_nat (w div 256 mod 256) :: byte) + unat (word_of_nat (w mod 256) :: byte) = w"
    using assms(2) by (simp add: unat_byte)
  then show ?thesis
    unfolding mqtt_read_uint16_def enc16_def
    by (intro reads_need reads_char_then assms) (auto simp: reads_return)
qed

lemma reads_uint32:
  assumes "gbmem_ok mem" "w < 2 ^ 32"
  shows "reads mem mqtt_read_uint32 (enc32 w) w"
proof -
  have "w div 16777216 < 256" using assms(2) by simp
  then have d1: "w div 16777216 mod 256 = w div 16777216" by simp
  have d2: "w div 65536 = 256 * (w div 16777216) + w div 65536 mod 256"
    "w div 256 = 256 * (w div 65536) + w div 256 mod 256" "w = 256 * (w div 256) + w mod 256"
    using div_mult2_eq [of w 65536 256] div_mult2_eq [of w 256 256] by simp_all
  note d = d1 d2
  let ?b = "\<lambda>n. unat (word_of_nat n :: byte)"
  have u: "cuint 32 (int n) = n" if "n \<le> w" for n
    using that assms(2) by (simp add: cuint_def)
  define v1 v2 v3 where "v1 = w div 2 ^ 24" and "v2 = w div 2 ^ 16" and "v3 = w div 2 ^ 8"
  have s: "cuint 32 (int (256 * 0 + ?b (w div 2 ^ 24 mod 256))) = v1"
    "cuint 32 (int (256 * v1 + ?b (w div 2 ^ 16 mod 256))) = v2"
    "cuint 32 (int (256 * v2 + ?b (w div 2 ^ 8 mod 256))) = v3"
    "cuint 32 (int (256 * v3 + ?b (w mod 256))) = w"
    using d u [of v1] u [of v2] u [of v3] u [of w] by (simp_all add: unat_byte v1_def v2_def v3_def)
  have step: "reads mem (read_uint32_loop (Suc n) v) (c # cs) w"
    if "reads mem (read_uint32_loop n v') cs w" "cuint 32 (int (256 * v + unat c)) = v'" for n v v' c cs
    using that by (simp add: reads_char_then [OF assms(1)])
  have "reads mem (read_uint32_loop (Suc (Suc (Suc (Suc 0)))) 0) (enc32 w) w"
    unfolding enc32_def by (intro step [OF step [OF step [OF step [OF _ s(4)] s(3)] s(2)] s(1)]) (simp add: reads_return)
  moreover have "Suc (Suc (Suc (Suc 0))) = 4" by simp
  ultimately have "reads mem (read_uint32_loop 4 0) (enc32 w) w" by (simp only:)
  then show ?thesis
    unfolding mqtt_read_uint32_def by (rule reads_need) (simp add: enc32_def)
qed

lemma varint_digit_value: "varint_digit w = w mod 128 + (if w div 128 > 0 then 128 else 0)"
  using shift_or [of "w mod 128" 7 1] by (simp add: varint_digit_def or.commute add.commute)

lemma unat_digit: "unat (word_of_nat (varint_digit w) :: byte) = varint_digit w"
proof -
  have "varint_digit w < 256"
    using mod_less_divisor [of 128 w] unfolding varint_digit_value by (simp only: split: if_split) linarith
  then show ?thesis by (simp add: unat_byte)
qed

lemmas digit_bits = unat_top_bit unat_low_bits(1)

lemma write_varint_step:
  "write_varint_loop mem (Suc n) w = (\<lambda>b. mqtt_write_byte mem b (varint_digit w) \<bind> (\<lambda>(r, b).
     if r < 0 then Some (-1, b)
     else if w div 128 > 0 then write_varint_loop mem n (w div 128) b
     else Some (if n = 0 then -1 else 0, b)))"
  by (rule ext) simp

lemma writes_varint_loop:
  assumes "gbmem_ok mem"
  shows "0 < n \<Longrightarrow> w < 128 ^ n \<Longrightarrow> writes mem (write_varint_loop mem (Suc n) w) (enc_varint w) 0"
proof (induction n arbitrary: w)
  case (Suc m)
  let ?d = "word_of_nat (varint_digit w) :: byte"
  let ?more = "\<lambda>r b. if r < (0 :: int) then Some (-1 :: int, b)
      else if w div 128 > 0 then write_varint_loop mem (Suc m) (w div 128) b
      else Some (if Suc m = 0 then -1 else 0, b)"
  have "writes mem (?more 0) (if w div 128 > 0 then enc_varint (w div 128) else []) 0"
  proof (cases "w div 128 > 0")
    case True
    then have "0 < m" using Suc.prems(2) by (cases m) auto
    moreover have "w div 128 < 128 ^ m" using Suc.prems(2) by (simp add: less_mult_imp_div_less mult.commute)
    ultimately show ?thesis using Suc.IH True by simp
  qed (simp add: writes_return)
  note w = writes_then [where f = ?more, OF writes_byte [OF assms, of "varint_digit w"] this]
  show ?case
    unfolding write_varint_step [of mem "Suc m" w] enc_varint.simps [of w]
    using w by (simp only: append_Cons append_Nil)
qed simp

lemma writes_varint: "gbmem_ok mem \<Longrightarrow> w < 2 ^ 28 \<Longrightarrow> writes mem (\<lambda>b. mqtt_write_varint mem b w) (enc_varint w) 0"
  using writes_varint_loop [of mem 4 w] unfolding mqtt_write_varint_def by simp

lemma reads_varint_loop:
  assumes mem: "gbmem_ok mem"
  shows "0 < n \<Longrightarrow> w < 128 ^ n \<Longrightarrow> lword + w * mul < 2 ^ 32 \<Longrightarrow> lbytes = 0 \<or> w > 0 \<Longrightarrow> mul > 0 \<Longrightarrow>
    reads mem (read_varint_loop n lword mul lbytes) (enc_varint w) (lword + w * mul, lbytes + length (enc_varint w))"
proof (induction n arbitrary: w lword mul lbytes)
  case (Suc n)
  let ?d = "word_of_nat (varint_digit w) :: byte" and ?q = "w div 128"
  note enc = enc_varint.simps [of w]
  have w: "w mod 128 + 128 * ?q = w" by simp
  have "w * mul = (w mod 128) * mul + ?q * (mul * 128)"
    by (metis add_mult_distrib mult.assoc mult.commute w)
  then have sum: "lword + (w mod 128) * mul + ?q * (mul * 128) = lword + w * mul" by simp
  have bits: "unat (?d AND 127) = w mod 128" "?d AND 128 = 0 \<longleftrightarrow> ?q = 0"
    unfolding digit_bits unat_digit by (auto simp: varint_digit_value)
  have small: "cuint 32 (int k) = k" if "k \<le> lword + w * mul" for k
    using that Suc.prems(3) by (simp add: cuint_def)
  have low: "cuint 32 (int (lword + unat (?d AND 127) * mul)) = lword + (w mod 128) * mul"
    unfolding bits(1) by (rule small) (use sum in linarith)
  show ?case
  proof (cases "?q > 0")
    case True
    have "mul * 128 \<le> ?q * (mul * 128)" using True by simp
    then have mul: "cuint 32 (int (mul * 128)) = mul * 128" by (intro small) (use sum in linarith)
    have q: "?q < 128 ^ n" using Suc.prems(2) by (simp add: less_mult_imp_div_less mult.commute)
    then have "0 < n" using True by (cases n) auto
    then have "reads mem (read_varint_loop n (lword + (w mod 128) * mul) (mul * 128) (lbytes + 1)) (enc_varint ?q)
        (lword + (w mod 128) * mul + ?q * (mul * 128), lbytes + 1 + length (enc_varint ?q))"
      using Suc.prems True sum q by (intro Suc.IH) simp_all
    then have r: "reads mem (read_varint_loop n (lword + (w mod 128) * mul) (mul * 128) (lbytes + 1)) (enc_varint ?q)
        (lword + w * mul, lbytes + length (?d # enc_varint ?q))"
      unfolding sum by simp
    have e: "enc_varint w = ?d # enc_varint ?q" using True enc by simp
    show ?thesis
      unfolding e read_varint_loop.simps
      by (intro reads_need reads_char_then mem) (use r low mul bits(2) True in \<open>simp_all add: Let_def\<close>)
  next
    case False
    then have m: "w mod 128 = w" by simp
    moreover have d: "?d = 0 \<longleftrightarrow> w = 0"
      using unat_digit [of w] False by (auto simp: varint_digit_value unat_eq_zero [symmetric])
    have e: "enc_varint w = [?d]" using False enc by simp
    show ?thesis
      unfolding e read_varint_loop.simps
      by (intro reads_need reads_char_then mem)
        (use False low bits(2) Suc.prems(4) d m in \<open>auto simp: Let_def reads_return\<close>)
  qed
qed simp

lemma reads_varint:
  "gbmem_ok mem \<Longrightarrow> w < 2 ^ 28 \<Longrightarrow> reads mem mqtt_read_varint (enc_varint w) (w, length (enc_varint w))"
  using reads_varint_loop [of mem 4 w 0 1 0] by (simp add: mqtt_read_varint_def)

section \<open>Byte strings and texts\<close>

definition enc_bytes :: "byte list \<Rightarrow> byte list" where
  "enc_bytes bs = enc16 (length bs) @ bs"

lemma length_enc16 [simp]: "length (enc16 w) = 2"
  by (simp add: enc16_def)

lemma length_enc32 [simp]: "length (enc32 w) = 4"
  by (simp add: enc32_def)

lemma reads_need_then:
  assumes "reads mem m bs a" "n \<le> length bs"
  shows "reads mem (rd_then (rd_need n) (\<lambda>_. m)) bs a"
  by (rule reads_need [OF assms])

text \<open>Reading a block also tells where it was: its bytes are in memory there.\<close>

lemma rd_get_unread:
  assumes "gbmem_ok mem" "gb_ok mem b" "unread b = bs @ rest" "bs \<noteq> []"
  shows "\<exists>b'. rd_get (length bs) b = Some (Inr (Some (gb_curp b), bs), b') \<and> gb_ok mem b' \<and> unread b' = rest \<and>
    (\<forall>i < length bs. memory_at b' (gb_curp b) i = bs ! i)"
proof -
  let ?b = "b\<lparr>gb_curp := gb_curp b + length bs\<rparr>"
  have l: "length bs \<le> length (unread b)" using assms(3) by simp
  then have fits: "gb_curp b + length bs \<le> gb_tail b" "gb_tail b < length (gb_data b)"
    using assms(2) by (auto simp: length_unread gb_ok_def)
  have u: "unread b = take (gb_tail b - gb_curp b) (drop (gb_curp b) (gb_data b))"
    using assms(2) by (simp add: unread_def content_def drop_take)
  have "take (length bs) (drop (gb_curp b) (gb_data b)) = take (length bs) (unread b)"
    unfolding u using fits(1) by (simp add: min_def)
  then have data: "bytes_at ?b (gb_curp b) (length bs) = Some bs"
    using fits assms(3) by (simp add: bytes_at_def)
  have get: "gbuffer_get b (length bs) = (Some (gb_curp b), ?b)"
    using gbuffer_get_spec [OF assms(1,2)] l assms(4) by simp
  have ok: "gb_ok mem ?b" using assms(2) fits(1) by (simp add: gb_ok_def)
  have "unread ?b = drop (length bs) (unread b)" by (simp add: unread_def content_def add.commute)
  then have rest: "unread ?b = rest" using assms(3) by simp
  have "memory_at ?b (gb_curp b) i = bs ! i" if "i < length bs" for i
    using peek_unread [OF assms(2), of i] l assms(3) that by (auto simp: memory_at_def peek_def nth_append split: if_splits)
  then show ?thesis using get data ok rest by (simp add: rd_get_def)
qed

lemma reads_some_get:
  assumes "gbmem_ok mem" "bs \<noteq> []"
    and "\<And>b' p rest. gb_ok mem b' \<Longrightarrow> unread b' = rest \<Longrightarrow> \<forall>i < length bs. memory_at b' p i = bs ! i \<Longrightarrow>
      f (Some p, bs) b' = Some (Inr a, b')"
  shows "reads mem (rd_then (rd_get (length bs)) f) bs a"
proof (rule readsI)
  fix b rest assume b: "gb_ok mem b" "unread b = bs @ rest"
  from rd_get_unread [OF assms(1) b assms(2)] obtain b' where b':
    "rd_get (length bs) b = Some (Inr (Some (gb_curp b), bs), b')" "gb_ok mem b'" "unread b' = rest"
    "\<forall>i < length bs. memory_at b' (gb_curp b) i = bs ! i" by blast
  with assms(3) [OF b'(2,3,4)]
  show "\<exists>b'. rd_then (rd_get (length bs)) f b = Some (Inr a, b') \<and> gb_ok mem b' \<and> unread b' = rest"
    by (simp add: rd_then_def)
qed

text \<open>A continuation that looks at the bytes only, or at the text and its validity.\<close>

lemma rd_then_assoc: "rd_then (rd_then m f) g = rd_then m (\<lambda>a. rd_then (f a) g)"
  by (rule ext) (simp add: rd_then_def split: option.splits sum.splits prod.splits)

lemma rd_code_then_id: "rd_then (rd_code e m) f b =
    (case m b of Some (Inl _, b) \<Rightarrow> Some (Inl e, b) | None \<Rightarrow> None | Some (Inr a, b) \<Rightarrow> f a b)"
  by (simp add: rd_then_def rd_code_def split: option.splits sum.splits prod.splits)

lemma reads_binary_then:
  assumes mem: "gbmem_ok mem" and len: "length bs < 2 ^ 16"
    and empty: "\<And>b. bs = [] \<Longrightarrow> f (None, []) b = Some (Inr a, b)"
    and full: "\<And>b p. bs \<noteq> [] \<Longrightarrow> \<forall>i < length bs. memory_at b p i = bs ! i \<Longrightarrow> f (Some p, bs) b = Some (Inr a, b)"
  shows "reads mem (rd_then mqtt_read_binary f) (enc_bytes bs) a"
proof (cases "bs = []")
  case True
  have "reads mem (rd_then (rd_return (None, [])) f) [] a"
    using empty [OF True] by (simp add: reads_def rd_then_def rd_return_def)
  then show ?thesis
    unfolding mqtt_read_binary_def enc_bytes_def rd_then_assoc
    by (intro reads_then [OF reads_uint16 [OF mem len]]) (simp add: True)
next
  case False
  have "reads mem (rd_then (rd_get (length bs)) f) bs a"
    by (rule reads_some_get [OF mem False]) (use full [OF False] in blast)
  then have "reads mem (rd_then (rd_need (length bs)) (\<lambda>_. rd_then (rd_get (length bs)) f)) bs a"
    by (rule reads_need_then) simp
  then show ?thesis
    unfolding mqtt_read_binary_def enc_bytes_def rd_then_assoc
    by (intro reads_then [OF reads_uint16 [OF mem len]]) (simp add: False rd_then_assoc)
qed

definition utf8_text :: "byte list \<Rightarrow> bool" where
  "utf8_text bs \<longleftrightarrow> (\<exists>cps. (\<forall>cp \<in> set cps. text_char cp) \<and> map unat bs = concat (map utf8 cps))"

lemma utf8_text_valid:
  assumes "utf8_text bs" "length bs < 2 ^ 16" "\<forall>i < length bs. ustr i = bs ! i"
  shows "mqtt_validate_utf8 (Some ustr) (int (length bs)) = 0"
proof -
  from assms(1) obtain cps where cps: "\<forall>cp \<in> set cps. text_char cp" "map unat bs = concat (map utf8 cps)"
    by (auto simp: utf8_text_def)
  have l: "length (concat (map utf8 cps)) = length bs" using arg_cong [OF cps(2), of length] by simp
  have "bytes_from ustr 0 (concat (map utf8 cps))"
    using assms(3) by (simp add: cps(2) [symmetric] bytes_from_def)
  from utf8_loop_accepts [OF cps(1) this, of "length bs"] show ?thesis
    using l assms(2) by (simp add: mqtt_validate_utf8_def)
qed

lemma reads_string_then:
  assumes mem: "gbmem_ok mem" and len: "length bs < 2 ^ 16" and val: "utf8_text bs"
    and empty: "\<And>b. bs = [] \<Longrightarrow> f (None, []) b = Some (Inr a, b)"
    and full: "\<And>b p. bs \<noteq> [] \<Longrightarrow> f (Some p, bs) b = Some (Inr a, b)"
  shows "reads mem (rd_then mqtt_read_string f) (enc_bytes bs) a"
proof -
  let ?check = "\<lambda>(p, bs) gbuf.
     if bs = [] then rd_return (p, bs) gbuf
     else if mqtt_validate_utf8 (map_option (memory_at gbuf) p) (int (length bs)) < 0 then rd_fail (-1) gbuf
     else rd_return (p, bs) gbuf"
  have "reads mem (rd_then mqtt_read_binary (\<lambda>d. rd_then (?check d) f)) (enc_bytes bs) a"
  proof (rule reads_binary_then [OF mem len])
    fix b p assume ne: "bs \<noteq> []" and at: "\<forall>i < length bs. memory_at b p i = bs ! i"
    have "mqtt_validate_utf8 (Some (memory_at b p)) (int (length bs)) = 0"
      using utf8_text_valid [OF val len] at by blast
    then show "rd_then (?check (Some p, bs)) f b = Some (Inr a, b)"
      using full [OF ne] ne by (simp add: rd_then_def rd_return_def)
  qed (simp add: empty rd_then_def rd_return_def)
  moreover have "rd_then (rd_code (-1) mqtt_read_binary) h b = Some (Inr a, b')"
    if "rd_then mqtt_read_binary h b = Some (Inr a, b')" for h b b'
    using that by (auto simp: rd_then_def rd_code_def split: option.splits sum.splits prod.splits)
  ultimately show ?thesis
    unfolding mqtt_read_string_def rd_then_assoc reads_def by blast
qed

lemma map_byte_char: "map char_of_byte (map byte_of_char s) = s"
  by (simp add: comp_def)

lemma utf8_no_nul: "text_char cp \<Longrightarrow> b \<in> set (utf8 cp) \<Longrightarrow> b \<noteq> 0"
  by (auto simp: utf8_def text_char_def split: if_splits)

lemma utf8_text_strlen:
  assumes "utf8_text (map byte_of_char s)"
  shows "strlen s = length s"
proof -
  have "byte_of_char c \<noteq> 0" if "c \<in> set s" for c
  proof -
    from assms obtain cps where "\<forall>cp \<in> set cps. text_char cp" "map unat (map byte_of_char s) = concat (map utf8 cps)"
      by (auto simp: utf8_text_def)
    moreover have "unat (byte_of_char c) \<in> set (map unat (map byte_of_char s))" using that by simp
    ultimately obtain cp where "text_char cp" "unat (byte_of_char c) \<in> set (utf8 cp)" by (auto simp del: map_map)
    from utf8_no_nul [OF this] show ?thesis by auto
  qed
  then have "c \<noteq> CHR 0x00" if "c \<in> set s" for c using that by fastforce
  then have "takeWhile (\<lambda>c. c \<noteq> CHR 0x00) s = s" unfolding takeWhile_eq_all_conv by blast
  then show ?thesis by (simp only: strlen_def)
qed

text \<open>\<open>mqtt_write_string\<close> writes the length and the bytes, and then returns -1: it compares the sum of
  two result codes with the number of bytes.\<close>

lemma writes_string:
  assumes "gbmem_ok mem" "strlen s = length s" "length s < 2 ^ 16"
  shows "writes mem (\<lambda>b. mqtt_write_string mem b s) (enc_bytes (map byte_of_char s)) (-1)"
proof -
  have w: "writes mem (\<lambda>b. mqtt_write_bytes mem b (map byte_of_char s) \<bind>
      (\<lambda>(r2, b). Some (if (0 + r2) mod 2 ^ 64 = int (length s + 2) then 0 else -1, b)))
      (map byte_of_char s) (-1)"
    using writes_result [OF writes_bytes [OF assms(1), of "map byte_of_char s"],
        of "\<lambda>r2. if (0 + r2) mod 2 ^ 64 = int (length s + 2) then 0 else -1"] by simp
  from writes_then [OF writes_uint16 [OF assms(1), of "length s"], of
      "\<lambda>r1 b. mqtt_write_bytes mem b (map byte_of_char s) \<bind>
      (\<lambda>(r2, b). Some (if (r1 + r2) mod 2 ^ 64 = int (length s + 2) then 0 else -1, b))", OF w]
  show ?thesis using assms(2,3) by (simp add: mqtt_write_string_def enc_bytes_def Let_def)
qed

text \<open>A text MQTT accepts is UTF-8 for jansson.\<close>

lemma check_first_value: "utf8_check_first u = (let v = unat u in
    if v < 128 then 1 else if v < 0xC2 then 0 else if v < 0xE0 then 2 else if v < 0xF0 then 3
    else if v < 0xF5 then 4 else 0)"
  by (simp add: utf8_check_first_def Let_def word_less_nat_alt word_le_nat_alt word_unat_eq_iff)

lemma check_continuation: "u < 0x80 \<or> u > 0xBF \<longleftrightarrow> unat (u :: byte) < 128 \<or> 192 \<le> unat u"
  by (auto simp: word_less_nat_alt)

lemma check_full_loop_Cons:
  "check_full_loop v (u # us) = (if unat u < 128 \<or> 192 \<le> unat u then None
     else check_full_loop (64 * v + unat u mod 64) us)"
  using check_continuation [of u] by (simp add: continuation_bits)

lemma check_string_Cons:
  "utf8_check_string (u # us) = (let cnt = utf8_check_first u in
     if cnt = 0 then False
     else if cnt > 1 then cnt \<le> length (u # us) \<and> utf8_check_full (take cnt (u # us)) \<and>
       utf8_check_string (drop cnt (u # us))
     else utf8_check_string us)"
  by (subst utf8_check_string.simps) (simp add: Let_def not_less)

lemma digits:
  obtains q d :: nat where "n = 64 * q + d" "d < 64"
  using that [of "n div 64" "n mod 64"] by simp

lemmas checked_sequence = check_string_Cons utf8_check_full_def check_full_loop_Cons unat_low_bits

declare check_full_loop.simps(2) [simp del]

lemma text_char_checked:
  assumes "text_char cp" "map unat us = utf8 cp"
  shows "utf8_check_string (us @ vs) = utf8_check_string vs"
proof -
  have cp: "cp \<le> 0x10FFFF" "\<not> (0xD800 \<le> cp \<and> cp \<le> 0xDFFF)" using assms(1) by (auto simp: text_char_def)
  consider (1) "cp < 0x80" | (2) "0x80 \<le> cp" "cp < 0x800" | (3) "0x800 \<le> cp" "cp < 0x10000" | (4) "0x10000 \<le> cp"
    by linarith
  then show ?thesis
  proof cases
    case 1
    then obtain a where "us = [a]" "unat a = cp" using assms(2) by (auto simp: utf8_def)
    then show ?thesis using 1 by (simp add: check_string_Cons check_first_value)
  next
    case 2
    obtain p q where d: "cp = 64 * p + q" "q < 64" by (rule digits [of cp])
    then have p: "2 \<le> p" "p < 32" using 2 by linarith+
    have "utf8 cp = [0xC0 + p, 0x80 + q]" using 2 d(2) by (simp add: utf8_def d(1))
    then obtain a b where us: "us = [a, b]" and v: "unat a = 0xC0 + p" "unat b = 0x80 + q" using assms(2) by auto
    have "64 * (unat a mod 32) + unat b mod 64 = cp" using v d p by simp
    moreover have "\<not> unat b < 128" "\<not> 192 \<le> unat b" "utf8_check_first a = 2"
      using v d(2) p by (simp_all add: check_first_value)
    ultimately show ?thesis using 2(1) cp unfolding us by (simp add: checked_sequence)
  next
    case 3
    obtain p' r where d1: "cp = 64 * p' + r" "r < 64" by (rule digits [of cp])
    obtain p q where d2: "p' = 64 * p + q" "q < 64" by (rule digits [of p'])
    note d = d1(1) [unfolded d2(1)] d1(2) d2(2)
    have parts: "cp div 64 = p'" "cp mod 64 = r" "p' div 64 = p" "p' mod 64 = q"
      by (simp_all only: d1(1) d2(1) split_bits [OF d1(2)] split_bits [OF d2(2)])
    have p: "p < 16" using 3(2) unfolding d(1) by simp
    have "utf8 cp = [0xE0 + p, 0x80 + q, 0x80 + r]" using 3 parts by (simp add: utf8_def)
    then obtain a b c where us: "us = [a, b, c]"
      and v: "unat a = 0xE0 + p" "unat b = 0x80 + q" "unat c = 0x80 + r" using assms(2) by auto
    have "64 * (64 * (unat a mod 16) + unat b mod 64) + unat c mod 64 = cp" using v d p by simp
    moreover have "\<not> unat b < 128" "\<not> 192 \<le> unat b" "\<not> unat c < 128" "\<not> 192 \<le> unat c" "utf8_check_first a = 3"
      using v d(2,3) p by (simp_all add: check_first_value)
    ultimately show ?thesis using 3(1) cp unfolding us by (simp add: checked_sequence)
  next
    case 4
    obtain p' s where d1: "cp = 64 * p' + s" "s < 64" by (rule digits [of cp])
    obtain p'' r where d2: "p' = 64 * p'' + r" "r < 64" by (rule digits [of p'])
    obtain p q where d3: "p'' = 64 * p + q" "q < 64" by (rule digits [of p''])
    note d = d1(1) [unfolded d2(1) d3(1)] d1(2) d2(2) d3(2)
    have parts: "cp div 64 = p'" "cp mod 64 = s" "p' div 64 = p''" "p' mod 64 = r" "p'' div 64 = p" "p'' mod 64 = q"
      by (simp_all only: d1(1) d2(1) d3(1) split_bits [OF d1(2)] split_bits [OF d2(2)] split_bits [OF d3(2)])
    have p: "p < 5" using cp(1) unfolding d(1) by simp
    have "utf8 cp = [0xF0 + p, 0x80 + q, 0x80 + r, 0x80 + s]" using 4 parts by (simp add: utf8_def)
    then obtain a b c e where us: "us = [a, b, c, e]"
      and v: "unat a = 0xF0 + p" "unat b = 0x80 + q" "unat c = 0x80 + r" "unat e = 0x80 + s" using assms(2) by auto
    have "64 * (64 * (64 * (unat a mod 8) + unat b mod 64) + unat c mod 64) + unat e mod 64 = cp" using v d p by simp
    moreover have "\<not> unat b < 128" "\<not> 192 \<le> unat b" "\<not> unat c < 128" "\<not> 192 \<le> unat c" "\<not> unat e < 128"
      "\<not> 192 \<le> unat e" "utf8_check_first a = 4"
      using v d(2-) p by (simp_all add: check_first_value)
    ultimately show ?thesis using 4(1) cp unfolding us by (simp add: checked_sequence)
  qed
qed

lemma utf8_text_checked: "utf8_text bs \<Longrightarrow> utf8_check_string bs"
proof -
  have "\<forall>cp \<in> set cps. text_char cp \<Longrightarrow> map unat bs = concat (map utf8 cps) \<Longrightarrow> utf8_check_string bs"
    for cps and bs :: "byte list"
  proof (induction cps arbitrary: bs)
    case Nil
    then show ?case by (simp add: utf8_check_string.simps)
  next
    case (Cons cp cps)
    then have split: "map unat bs = utf8 cp @ concat (map utf8 cps)" by simp
    then obtain us vs where "bs = us @ vs" "map unat us = utf8 cp" "map unat vs = concat (map utf8 cps)"
      by (auto simp: map_eq_append_conv)
    then show ?case using Cons.prems(1) Cons.IH [of vs] text_char_checked [of cp us vs] by simp
  qed
  then show "utf8_text bs \<Longrightarrow> utf8_check_string bs" by (auto simp: utf8_text_def)
qed


section \<open>Codecs\<close>

text \<open>
  A writer and a reader of one kind of value: the writer appends the encoding of a good value, the
  reader takes it away again. Values written one after the other are then read back in that order.
\<close>

fun write_seq :: "('a \<Rightarrow> gbuffer \<Rightarrow> (int \<times> gbuffer) option) \<Rightarrow> 'a list \<Rightarrow> gbuffer \<Rightarrow> gbuffer option" where
  "write_seq wr [] b = Some b"
| "write_seq wr (a # as) b = (case wr a b of None \<Rightarrow> None | Some (r, b) \<Rightarrow> write_seq wr as b)"

fun read_seq :: "'b reader \<Rightarrow> nat \<Rightarrow> 'b list reader" where
  "read_seq rd 0 = rd_return []"
| "read_seq rd (Suc n) = rd_then rd (\<lambda>a. rd_then (read_seq rd n) (\<lambda>as. rd_return (a # as)))"

locale wire_codec =
  fixes mem :: gbmem and good :: "'a \<Rightarrow> bool" and enc :: "'a \<Rightarrow> byte list"
    and wr :: "'a \<Rightarrow> gbuffer \<Rightarrow> (int \<times> gbuffer) option" and ret :: int
    and rd :: "'b reader" and val :: "'a \<Rightarrow> 'b"
  assumes writes_enc: "good a \<Longrightarrow> writes mem (wr a) (enc a) ret"
    and reads_enc: "good a \<Longrightarrow> reads mem rd (enc a) (val a)"
begin

lemma round_trip:
  assumes "good a" "gb_ok mem b" "unread b = []" "length (enc a) \<le> gb_data_size b - gb_tail b"
  shows "\<exists>b1 b2. wr a b = Some (ret, b1) \<and> rd b1 = Some (Inr (val a), b2) \<and> unread b2 = []"
proof -
  obtain b1 where b1: "wr a b = Some (ret, b1)" "gb_ok mem b1" "unread b1 = enc a"
    using writes_enc [OF assms(1)] assms(2-) unfolding writes_def by force
  then obtain b2 where "rd b1 = Some (Inr (val a), b2)" "unread b2 = []"
    using reads_enc [OF assms(1)] unfolding reads_def by force
  with b1 show ?thesis by blast
qed

lemma writes_seq:
  "list_all good as \<Longrightarrow> gb_ok mem b \<Longrightarrow> length (concat (map enc as)) \<le> gb_data_size b - gb_tail b \<Longrightarrow>
    \<exists>b'. write_seq wr as b = Some b' \<and> gb_ok mem b' \<and> unread b' = unread b @ concat (map enc as)"
proof (induction "as" arbitrary: b)
  case (Cons a as)
  obtain b1 where b1: "wr a b = Some (ret, b1)" "gb_ok mem b1" "unread b1 = unread b @ enc a"
    "gb_tail b1 = gb_tail b + length (enc a)" "gb_data_size b1 = gb_data_size b"
    using writes_enc [of a] Cons.prems unfolding writes_def by force
  then have "length (concat (map enc as)) \<le> gb_data_size b1 - gb_tail b1" using Cons.prems(3) by simp
  then obtain b2 where "write_seq wr as b1 = Some b2" "gb_ok mem b2" "unread b2 = unread b1 @ concat (map enc as)"
    using Cons.IH [OF _ b1(2)] Cons.prems(1) by auto
  then show ?case using b1 by simp
qed simp

lemma reads_seq: "list_all good as \<Longrightarrow> reads mem (read_seq rd (length as)) (concat (map enc as)) (map val as)"
proof (induction "as")
  case (Cons a as)
  then show ?case by (simp add: reads_then [OF reads_enc reads_then_return])
qed (simp add: reads_return)

lemma seq_round_trip:
  assumes "list_all good as" "gb_ok mem b" "unread b = []" "length (concat (map enc as)) \<le> gb_data_size b - gb_tail b"
  shows "\<exists>b1 b2. write_seq wr as b = Some b1 \<and> read_seq rd (length as) b1 = Some (Inr (map val as), b2) \<and> unread b2 = []"
proof -
  obtain b1 where b1: "write_seq wr as b = Some b1" "gb_ok mem b1" "unread b1 = concat (map enc as)"
    using writes_seq [OF assms(1,2,4)] assms(3) by auto
  then obtain b2 where "read_seq rd (length as) b1 = Some (Inr (map val as), b2)" "unread b2 = []"
    using reads_seq [OF assms(1)] unfolding reads_def by force
  with b1 show ?thesis by blast
qed

end

interpretation byte_codec: wire_codec mem "\<lambda>n. gbmem_ok mem \<and> n < 2 ^ 8" "\<lambda>n. [word_of_nat n]"
  "\<lambda>n b. mqtt_write_byte mem b n" 0 mqtt_read_byte "\<lambda>n. n" for mem
proof (unfold_locales, goal_cases)
  case (2 n)
  then show ?case using reads_byte [of mem "word_of_nat n"] by (simp add: unat_byte)
qed (simp add: writes_byte)

interpretation uint16_codec: wire_codec mem "\<lambda>n. gbmem_ok mem \<and> n < 2 ^ 16" enc16
  "\<lambda>n b. mqtt_write_uint16 mem b n" 0 mqtt_read_uint16 "\<lambda>n. n" for mem
  by unfold_locales (simp_all add: writes_uint16 reads_uint16)

interpretation uint32_codec: wire_codec mem "\<lambda>n. gbmem_ok mem \<and> n < 2 ^ 32" enc32
  "\<lambda>n b. mqtt_write_uint32 mem b n" 0 mqtt_read_uint32 "\<lambda>n. n" for mem
  by unfold_locales (simp_all add: writes_uint32 reads_uint32)

interpretation varint_codec: wire_codec mem "\<lambda>n. gbmem_ok mem \<and> n < 2 ^ 28" enc_varint
  "\<lambda>n b. mqtt_write_varint mem b n" 0 mqtt_read_varint "\<lambda>n. (n, length (enc_varint n))" for mem
  by unfold_locales (simp_all add: writes_varint reads_varint)

interpretation string_codec: wire_codec mem "\<lambda>s. gbmem_ok mem \<and> length s < 2 ^ 16 \<and> utf8_text (map byte_of_char s)"
  "\<lambda>s. enc_bytes (map byte_of_char s)" "\<lambda>s b. mqtt_write_string mem b s" "-1"
  "rd_then mqtt_read_string (\<lambda>d. rd_return (map char_of_byte (snd d)))" "\<lambda>s. s" for mem
proof (unfold_locales, goal_cases)
  case (1 s)
  then show ?case by (simp add: writes_string utf8_text_strlen)
next
  case (2 s)
  then show ?case using map_byte_char [of s] by (intro reads_string_then) (simp_all add: rd_return_def)
qed


end
