(* ===== verification/Mqtt_Properties.thy ===== *)
theory Mqtt_Properties
  imports Mqtt_Codec
begin

text \<open>
  Properties of MQTT 5 packets (\<^verbatim>\<open>property__write_all\<close>, \<^verbatim>\<open>property_read_all\<close> and the functions they
  call, defined in \<open>Mqtt_Codec\<close>): the bytes of a property, the length declared for it, and the round
  trip of a list of properties. User properties, which repeat, are left out of the round trip.
\<close>

section \<open>Binary data\<close>

text \<open>The text of binary data is canonical: it decodes to them.\<close>

lemma base64_text_bytes:
  assumes "gbmem_ok mem" "length bs < 2 ^ 16" "2 ^ 20 \<le> max_block mem"
  shows "\<exists>s. base64_text mem bs = Some s \<and> base64_bytes mem s = Some bs"
proof -
  have small: "length bs \<le> 2 ^ 61" "b64_output_encode_len (length bs) < max_block mem"
    using assms(2,3) by (simp_all add: b64_output_encode_len_def sz_add_def size_t_mod_def)
  from binary_to_base64_text [OF assms(1) small] obtain b cs where e:
    "gbuffer_binary_to_base64 mem bs = Some (Some b)" "gb_ok mem b" "gb_curp b = 0"
    "b64_encode_loop bs [] (b64_output_encode_len (length bs)) = Some cs" "length cs = b64_len (length bs)"
    "content b = map byte_of_char cs" "nul_ended b" "c_string_at b 0 = Some cs" by blast
  have nul: "strlen cs = length cs"
  proof -
    have "CHR 0x00 \<notin> set cs" using b64_chars_not_nul [OF e(4)] by simp
    then have "takeWhile (\<lambda>c. c \<noteq> CHR 0x00) cs = cs" by (auto simp: takeWhile_eq_all_conv)
    then show ?thesis by (simp only: strlen_def)
  qed
  have "b64_output_decode_len (length cs) < max_block mem"
    using assms(2,3) by (simp add: e(5) b64_len_def b64_output_decode_len_def sz_add_def size_t_mod_def)
  from base64_to_binary_encoded [OF assms(1) small(1) e(4,5) this] obtain b' where b':
    "gbuffer_base64_to_binary mem (Some cs) (length cs) = Some (Some b')" "gb_ok mem b'" "unread b' = bs" by blast
  have "bytes_at b' (gb_curp b') (gbuffer_leftbytes b') = Some (unread b')"
    using b'(2) leftbytes_unread [OF b'(2)] length_unread [OF b'(2)]
    by (simp add: bytes_at_def unread_def content_def drop_take gb_ok_def)
  then have "base64_bytes mem cs = Some bs" using b'(1,3) nul by (simp add: base64_bytes_def)
  moreover have "base64_text mem bs = Some cs" using e(1,3,8) by (simp add: base64_text_def)
  ultimately show ?thesis by blast
qed

section \<open>The bytes of a property\<close>

text \<open>
  The bytes of a value that has the type of its property. A string is not empty (an empty one is read
  without value); binary data are the base64 text of their bytes.
\<close>

definition int_bytes :: "nat \<Rightarrow> (nat \<Rightarrow> byte list) \<Rightarrow> json \<Rightarrow> byte list option" where
  "int_bytes bits enc v = (case v of JInt n \<Rightarrow> (if 0 \<le> n \<and> n < 2 ^ bits then Some (enc (nat n)) else None)
     | _ \<Rightarrow> None)"

definition string_bytes :: "json \<Rightarrow> byte list option" where
  "string_bytes v = (case v of
     JString s \<Rightarrow> (if s \<noteq> [] \<and> length s < 2 ^ 16 \<and> utf8_text (map byte_of_char s)
       then Some (enc_bytes (map byte_of_char s)) else None)
   | _ \<Rightarrow> None)"

definition binary_bytes :: "gbmem \<Rightarrow> json \<Rightarrow> byte list option" where
  "binary_bytes mem v = (case v of
     JString s \<Rightarrow> (case base64_bytes mem s of
        Some bs \<Rightarrow> (if length bs < 2 ^ 16 \<and> base64_text mem bs = Some s then Some (enc_bytes bs) else None)
      | None \<Rightarrow> None)
   | _ \<Rightarrow> None)"

definition value_bytes :: "gbmem \<Rightarrow> nat \<Rightarrow> json \<Rightarrow> byte list option" where
  "value_bytes mem i v =
     (if i \<in> set byte_props then int_bytes 8 (\<lambda>n. [word_of_nat n]) v
      else if i \<in> set int16_props then int_bytes 16 enc16 v
      else if i \<in> set int32_props then int_bytes 32 enc32 v
      else if i = MQTT_PROP_SUBSCRIPTION_IDENTIFIER then int_bytes 28 enc_varint v
      else if i \<in> set string_props then string_bytes v
      else if i \<in> set binary_props then binary_bytes mem v
      else None)"

definition property_bytes :: "gbmem \<Rightarrow> string \<times> json \<Rightarrow> byte list option" where
  "property_bytes mem p = (case mosquitto_string_to_property_info (Some (fst p)) of
     Some (i, t) \<Rightarrow> (if mqtt_property_identifier_to_string i = Some (fst p)
       then map_option ((@) (enc_varint i)) (value_bytes mem i (snd p)) else None)
   | None \<Rightarrow> None)"

text \<open>The object a property is read as.\<close>

definition property_entry :: "string \<times> json \<Rightarrow> json" where
  "property_entry p = (case the (mosquitto_string_to_property_info (Some (fst p))) of (i, t) \<Rightarrow>
     JObject [(''identifier'', JInt (int i)), (''name'', JString (fst p)), (''type'', JInt (int t)), (''value'', snd p)])"

lemma disjoint_groups:
  "i \<in> set byte_props \<Longrightarrow> i \<notin> set int16_props \<and> i \<notin> set int32_props \<and> i \<noteq> 11 \<and> i \<notin> set string_props \<and> i \<notin> set binary_props \<and> i \<noteq> 38"
  "i \<in> set int16_props \<Longrightarrow> i \<notin> set byte_props \<and> i \<notin> set int32_props \<and> i \<noteq> 11 \<and> i \<notin> set string_props \<and> i \<notin> set binary_props \<and> i \<noteq> 38"
  "i \<in> set int32_props \<Longrightarrow> i \<notin> set byte_props \<and> i \<notin> set int16_props \<and> i \<noteq> 11 \<and> i \<notin> set string_props \<and> i \<notin> set binary_props \<and> i \<noteq> 38"
  "i \<in> set string_props \<Longrightarrow> i \<notin> set byte_props \<and> i \<notin> set int16_props \<and> i \<notin> set int32_props \<and> i \<noteq> 11 \<and> i \<notin> set binary_props \<and> i \<noteq> 38"
  "i \<in> set binary_props \<Longrightarrow> i \<notin> set byte_props \<and> i \<notin> set int16_props \<and> i \<notin> set int32_props \<and> i \<noteq> 11 \<and> i \<notin> set string_props \<and> i \<noteq> 38"
  by (auto simp: prop_groups)

lemma subscription_group:
  "11 \<notin> set byte_props" "11 \<notin> set int16_props" "11 \<notin> set int32_props" "11 \<notin> set string_props" "11 \<notin> set binary_props"
  by (simp_all add: prop_groups)

lemma value_bytes_cases:
  assumes "value_bytes mem i v = Some bs"
  obtains (byte) n where "i \<in> set byte_props" "v = JInt (int n)" "n < 2 ^ 8" "bs = [word_of_nat n]"
  | (int16) n where "i \<in> set int16_props" "v = JInt (int n)" "n < 2 ^ 16" "bs = enc16 n"
  | (int32) n where "i \<in> set int32_props" "v = JInt (int n)" "n < 2 ^ 32" "bs = enc32 n"
  | (varint) n where "i = 11" "v = JInt (int n)" "n < 2 ^ 28" "bs = enc_varint n"
  | (string) s where "i \<in> set string_props" "v = JString s" "s \<noteq> []" "length s < 2 ^ 16"
      "utf8_text (map byte_of_char s)" "bs = enc_bytes (map byte_of_char s)"
  | (binary) s cs where "i \<in> set binary_props" "v = JString s" "base64_bytes mem s = Some cs" "length cs < 2 ^ 16"
      "base64_text mem cs = Some s" "bs = enc_bytes cs"
proof -
  have int: "\<exists>n. v = JInt (int n) \<and> n < 2 ^ w \<and> bs = enc n" if i: "int_bytes w enc v = Some bs" for w enc
  proof (cases v)
    case (JInt m)
    then have "v = JInt (int (nat m))" "nat m < 2 ^ w" "bs = enc (nat m)"
      using i by (auto simp: int_bytes_def nat_less_iff split: if_splits)
    then show ?thesis by blast
  qed (use i in \<open>simp_all add: int_bytes_def\<close>)
  consider "i \<in> set byte_props" "int_bytes 8 (\<lambda>n. [word_of_nat n]) v = Some bs"
    | "i \<in> set int16_props" "int_bytes 16 enc16 v = Some bs" | "i \<in> set int32_props" "int_bytes 32 enc32 v = Some bs"
    | "i = 11" "int_bytes 28 enc_varint v = Some bs" | "i \<in> set string_props" "string_bytes v = Some bs"
    | "i \<in> set binary_props" "binary_bytes mem v = Some bs"
    using assms by (auto simp: value_bytes_def split: if_splits)
  then show thesis
  proof cases
    case 1
    with int show thesis using byte by blast
  next
    case 2
    with int show thesis using int16 by blast
  next
    case 3
    with int show thesis using int32 by blast
  next
    case 4
    with int show thesis using varint by blast
  next
    case 5
    then show thesis by (auto simp: string_bytes_def split: json.splits if_splits intro: string)
  next
    case 6
    then show thesis by (auto simp: binary_bytes_def split: json.splits if_splits option.splits intro: binary)
  qed
qed

lemma property_bytes_cases:
  assumes "property_bytes mem p = Some bs"
  obtains i t vs where "mosquitto_string_to_property_info (Some (fst p)) = Some (i, t)"
    "mqtt_property_identifier_to_string i = Some (fst p)" "value_bytes mem i (snd p) = Some vs"
    "bs = enc_varint i @ vs" "0 < i" "i < 128" "i \<noteq> 38"
proof -
  obtain i t vs where i: "mosquitto_string_to_property_info (Some (fst p)) = Some (i, t)"
    "mqtt_property_identifier_to_string i = Some (fst p)" "value_bytes mem i (snd p) = Some vs"
    "bs = enc_varint i @ vs"
    using assms by (auto simp: property_bytes_def split: option.splits if_splits prod.splits)
  moreover have "0 < i \<and> i < 128 \<and> i \<noteq> 38"
    using i(3) by (rule value_bytes_cases) (auto simp: prop_groups)
  ultimately show thesis using that by blast
qed

lemma value_not_object: "value_bytes mem i v = Some bs \<Longrightarrow> \<not> json_is_object (Some v)"
  by (erule value_bytes_cases) simp_all

section \<open>Properties are written as their bytes\<close>

lemma writes_then_result:
  assumes "writes mem m bs r"
  shows "writes mem (\<lambda>b. m b \<bind> (\<lambda>(_, b). Some (r', b))) bs r'"
  using writes_result [OF assms, of "\<lambda>_. r'"] .

lemma writes_property:
  assumes mem: "gbmem_ok mem" and p: "property_bytes mem (n, v) = Some bs"
  shows "writes mem (\<lambda>b. property__write mem lc b n v) bs 0"
  using p
proof (cases rule: property_bytes_cases)
  case (1 i t vs)
  note i = 1 [unfolded fst_conv snd_conv]
  have obj: "\<not> json_is_object (Some v)" by (rule value_not_object [OF i(3)])
  have id: "identifier_of lc n (Some v) = i" and val: "value_of (Some v) = Some v"
    using i(1) obj by (simp_all add: identifier_of_def value_of_def)
  have ident: "writes mem (\<lambda>b. mqtt_write_varint mem b i) (enc_varint i) 0"
    using writes_varint [OF mem, of i] i(6) by simp
  have start: "writes mem (\<lambda>b. mqtt_write_varint mem b i \<bind> (\<lambda>(_, b). m b)) bs 0" if "writes mem m vs 0" for m
    unfolding i(4) using writes_then [OF ident, of "\<lambda>_. m", OF that] .
  from i(3) show ?thesis
  proof (cases rule: value_bytes_cases)
    case (byte k)
    have "cuint 8 (int k) = k" using byte(3) by (simp add: cuint_def)
    then have w: "writes mem (\<lambda>b. mqtt_write_byte mem b (cuint 8 (int k)) \<bind> (\<lambda>(_, b). Some (0, b))) vs 0"
      using writes_then_result [OF writes_byte [OF mem]] byte(4) by simp
    show ?thesis
      unfolding property__write_def Let_def id val
      using start [OF w]
        disjoint_groups(1) [OF byte(1)] i(5) byte(1,2) by (simp add: case_prod_unfold)
  next
    case (int16 k)
    have "cuint 16 (int k) = k" using int16(3) by (simp add: cuint_def)
    then have w: "writes mem (\<lambda>b. mqtt_write_uint16 mem b (cuint 16 (int k)) \<bind> (\<lambda>(_, b). Some (0, b))) vs 0"
      using writes_then_result [OF writes_uint16 [OF mem]] int16(4) by simp
    show ?thesis
      unfolding property__write_def Let_def id val
      using start [OF w]
        disjoint_groups(2) [OF int16(1)] i(5) int16(1,2) by (simp add: case_prod_unfold)
  next
    case (int32 k)
    have "cuint 32 (int k) = k" using int32(3) by (simp add: cuint_def)
    then have w: "writes mem (\<lambda>b. mqtt_write_uint32 mem b (cuint 32 (int k)) \<bind> (\<lambda>(_, b). Some (0, b))) vs 0"
      using writes_then_result [OF writes_uint32 [OF mem]] int32(4) by simp
    show ?thesis
      unfolding property__write_def Let_def id val
      using start [OF w]
        disjoint_groups(3) [OF int32(1)] i(5) int32(1,2) by (simp add: case_prod_unfold)
  next
    case (varint k)
    have "cuint 32 (int k) = k" using varint(3) by (simp add: cuint_def)
    then have w: "writes mem (\<lambda>b. mqtt_write_varint mem b (cuint 32 (int k))) vs 0"
      using writes_varint [OF mem] varint(3,4) by simp
    show ?thesis
      unfolding property__write_def Let_def id val
      using start [OF w]
        subscription_group varint(1,2) by (simp add: case_prod_unfold)
  next
    case (string s)
    have w: "writes mem (\<lambda>b. mqtt_write_string mem b s \<bind> (\<lambda>(_, b). Some (0, b))) vs 0"
      using writes_then_result [OF writes_string [OF mem utf8_text_strlen [OF string(5)] string(4)]] string(6) by simp
    show ?thesis
      unfolding property__write_def Let_def id val
      using start [OF w]
        disjoint_groups(4) [OF string(1)] i(5) string(1,2) by (simp add: case_prod_unfold)
  next
    case (binary s cs)
    have w: "writes mem (\<lambda>b. mqtt_write_uint16 mem b (length cs) \<bind> (\<lambda>(_, b).
        mqtt_write_bytes mem b cs \<bind> (\<lambda>(_, b). Some (0, b)))) vs 0"
      unfolding binary(6) enc_bytes_def
      by (rule writes_then [OF writes_uint16 [OF mem], of "\<lambda>_ b. mqtt_write_bytes mem b cs \<bind> (\<lambda>(_, b). Some (0, b))"])
        (rule writes_then_result [OF writes_bytes [OF mem]])
    show ?thesis
      unfolding property__write_def Let_def id val
      using start [OF w]
        disjoint_groups(5) [OF binary(1)] i(5) binary(1-4) by (simp add: case_prod_unfold)
  qed
qed

section \<open>The declared length is the number of bytes\<close>

lemma small_varint: "i < 128 \<Longrightarrow> length (enc_varint i) = 1"
  by (simp add: length_enc_varint packet__varint_bytes_def)

lemma property_length:
  assumes p: "property_bytes mem (n, v) = Some bs"
  shows "property__get_length mem lc n v = Some (length bs)"
  using p
proof (cases rule: property_bytes_cases)
  case (1 i t vs)
  note i = 1 [unfolded fst_conv snd_conv]
  have obj: "\<not> json_is_object (Some v)" by (rule value_not_object [OF i(3)])
  have id: "identifier_of lc n (Some v) = i" and val: "value_of (Some v) = Some v"
    using i(1) obj by (simp_all add: identifier_of_def value_of_def)
  have len: "length bs = 1 + length vs" using i(4) small_varint [OF i(6)] by simp
  from i(3) show ?thesis
  proof (cases rule: value_bytes_cases)
    case (byte k)
    then show ?thesis
      unfolding property__get_length_def Let_def id val len using i(5) disjoint_groups(1) [OF byte(1)] by simp
  next
    case (int16 k)
    then show ?thesis
      unfolding property__get_length_def Let_def id val len using i(5) disjoint_groups(2) [OF int16(1)] by simp
  next
    case (int32 k)
    then show ?thesis
      unfolding property__get_length_def Let_def id val len using i(5) disjoint_groups(3) [OF int32(1)] by simp
  next
    case (varint k)
    then have "cuint 64 (int k) = k" by (simp add: cuint_def)
    moreover have "length vs = packet__varint_bytes k" using varint(3,4) by (simp add: length_enc_varint)
    ultimately show ?thesis
      unfolding property__get_length_def Let_def id val len
      using varint(1-3) subscription_group by (simp add: packet__varint_bytes_def)
  next
    case (string s)
    have "length vs = 2 + length s" by (simp add: string(6) enc_bytes_def)
    moreover have "cuint 32 (int (3 + length s)) = 3 + length s" using string(4) by (simp add: cuint_def)
    ultimately show ?thesis
      unfolding property__get_length_def Let_def id val len
      using i(5) disjoint_groups(4) [OF string(1)] string(1,2) utf8_text_strlen [OF string(5)] by simp
  next
    case (binary s cs)
    have "length vs = 2 + length cs" by (simp add: binary(6) enc_bytes_def)
    moreover have "cuint 32 (int (3 + length cs)) = 3 + length cs" using binary(4) by (simp add: cuint_def)
    ultimately show ?thesis
      unfolding property__get_length_def Let_def id val len
      using i(5) disjoint_groups(5) [OF binary(1)] binary(1-3) by simp
  qed
qed

text \<open>A list of properties: its bytes, one after the other.\<close>

fun properties_bytes :: "gbmem \<Rightarrow> (string \<times> json) list \<Rightarrow> byte list option" where
  "properties_bytes mem [] = Some []"
| "properties_bytes mem (p # ps) = do {
     bs \<leftarrow> property_bytes mem p;
     cs \<leftarrow> properties_bytes mem ps;
     Some (bs @ cs)
   }"

lemma properties_bytes_Cons:
  assumes "properties_bytes mem (p # ps) = Some bs"
  obtains xs ys where "property_bytes mem p = Some xs" "properties_bytes mem ps = Some ys" "bs = xs @ ys"
  using assms by (auto simp: bind_eq_Some_conv)

lemma get_length_loop_bytes:
  "properties_bytes mem ps = Some bs \<Longrightarrow> n + length bs < 2 ^ 32 \<Longrightarrow>
    get_length_loop mem lc ps n = Some (n + length bs)"
proof (induction ps arbitrary: bs n)
  case (Cons p ps)
  obtain xs ys where b: "property_bytes mem p = Some xs" "properties_bytes mem ps = Some ys" "bs = xs @ ys"
    using Cons.prems(1) by (rule properties_bytes_Cons)
  obtain name v where p: "p = (name, v)" by (cases p)
  have "cuint 32 (int (n + length xs)) = n + length xs" using Cons.prems(2) b(3) by (simp add: cuint_def)
  moreover have "get_length_loop mem lc ps (n + length xs) = Some (n + length xs + length ys)"
    using Cons.prems(2) b(3) by (intro Cons.IH [OF b(2)]) simp
  ultimately show ?case
    using property_length [OF b(1) [unfolded p], of lc] by (simp add: p b(3) add.assoc)
qed simp

lemma writes_all_loop:
  assumes "gbmem_ok mem"
  shows "properties_bytes mem ps = Some bs \<Longrightarrow> writes mem (\<lambda>b. write_all_loop mem lc ps 0 b) bs 0"
proof (induction ps arbitrary: bs)
  case (Cons p ps)
  obtain xs ys where b: "property_bytes mem p = Some xs" "properties_bytes mem ps = Some ys" "bs = xs @ ys"
    using Cons.prems by (rule properties_bytes_Cons)
  obtain name v where p: "p = (name, v)" by (cases p)
  have "writes mem (\<lambda>b. property__write mem lc b name v) xs 0"
    using writes_property [OF assms] b(1) p by simp
  from writes_then [where f = "\<lambda>r b. write_all_loop mem lc ps (0 + r) b", OF this] Cons.IH [OF b(2)]
  show ?case by (simp add: p b(3))
qed (simp add: writes_def)

text \<open>With the length before them, as in a packet.\<close>

definition packet_properties :: "byte list \<Rightarrow> byte list" where
  "packet_properties bs = enc_varint (length bs) @ bs"

lemma writes_all:
  assumes "gbmem_ok mem" "properties_bytes mem ps = Some bs" "length bs < 2 ^ 28"
  shows "writes mem (\<lambda>b. property__write_all mem lc b (Some (JObject ps)) True) (packet_properties bs) 0"
proof -
  have len: "property__get_length_all mem lc (Some (JObject ps)) = Some (length bs)"
    using get_length_loop_bytes [OF assms(2), of 0 lc] assms(3)
    by (simp add: property__get_length_all_def json_pairs_def)
  have "writes mem (\<lambda>b. mqtt_write_varint mem b (length bs)) (enc_varint (length bs)) 0"
    by (rule writes_varint [OF assms(1,3)])
  from writes_then [where f = "\<lambda>r b. write_all_loop mem lc ps r b", OF this writes_all_loop [OF assms(1,2)]]
  show ?thesis by (simp add: property__write_all_def len json_pairs_def packet_properties_def)
qed

section \<open>Properties are read back\<close>

lemma reads_code_then:
  assumes "reads mem (rd_then m f) bs a"
  shows "reads mem (rd_then (rd_code e m) f) bs a"
proof -
  have "rd_then (rd_code e m) f b = Some (Inr a, b')" if "rd_then m f b = Some (Inr a, b')" for b b'
    using that by (auto simp: rd_then_def rd_code_def split: option.splits sum.splits prod.splits)
  with assms show ?thesis unfolding reads_def by blast
qed

lemma reads_int_value:
  assumes "reads mem m bs n"
  shows "reads mem (read_int_value len w m) bs (cuint 32 (int len - int w), Some (JInt (int n)))"
  unfolding read_int_value_def by (rule reads_then_return [OF reads_code [OF assms] refl])

lemma reads_string_value:
  assumes "gbmem_ok mem" "length s < 2 ^ 16" "utf8_text (map byte_of_char s)" "s \<noteq> []" "2 + length s \<le> len"
  shows "reads mem (read_string_value len) (enc_bytes (map byte_of_char s)) (len - (2 + length s), Some (JString s))"
proof -
  have "utf8_check_string (map byte_of_char s)" by (rule utf8_text_checked [OF assms(3)])
  then show ?thesis
    unfolding read_string_value_def
    using assms(2-5) map_byte_char [of s]
    by (intro reads_code_then reads_string_then [OF assms(1)])
      (simp_all add: property_len_consume_def json_stringn_def rd_return_def)
qed

lemma reads_binary_value:
  assumes "gbmem_ok mem" "length bs < 2 ^ 16" "base64_text mem bs = Some s" "2 + length bs \<le> len"
  shows "reads mem (read_binary_value mem len) (enc_bytes bs) (len - (2 + length bs), Some (JString s))"
  unfolding read_binary_value_def using assms(2-)
  by (intro reads_code_then reads_binary_then [OF assms(1)]) (simp_all add: property_len_consume_def rd_return_def)

lemma pairs_set_fresh: "map_of ps k = None \<Longrightarrow> pairs_set ps k v = ps @ [(k, v)]"
  by (induction ps) (auto split: if_splits)

lemma cuint_diff: "n \<le> len \<Longrightarrow> len < 2 ^ 32 \<Longrightarrow> cuint 32 (int len - int n) = len - n"
  by (simp only: cuint_def of_nat_diff [of n len, symmetric]) simp

lemma reads_property:
  assumes mem: "gbmem_ok mem" and p: "property_bytes mem p = Some bs" and new: "map_of acc (fst p) = None"
    and len: "length bs \<le> len" "len < 2 ^ 32"
  shows "reads mem (property_read mem len (JObject acc)) bs
    (len - length bs, JObject (acc @ [(fst p, property_entry p)]))"
  using p
proof (cases rule: property_bytes_cases)
  case i: (1 i t vs)
  have lb: "length bs = 1 + length vs" using i(4) small_varint [OF i(6)] by simp
  then have len1: "cuint 32 (int len - 1) = len - 1" using cuint_diff [of 1 len] len by simp
  have key: "\<not> kw_has_key (Some (JObject acc)) (fst p)" using new by (simp add: kw_has_key_def)
  have typed: "reads mem (property_read_value mem (len - 1) i) vs (len - length bs, Some (snd p))"
    using i(3)
  proof (cases rule: value_bytes_cases)
    case (byte n)
    have "unat (word_of_nat n :: byte) = n" using byte(3) by (simp add: unat_byte)
    then have "reads mem (read_int_value (len - 1) 1 mqtt_read_byte) vs (len - length bs, Some (snd p))"
      using reads_int_value [OF reads_byte [OF mem, of "word_of_nat n"], of "len - 1" 1] byte(2,4) lb len
        cuint_diff [of 1 "len - 1"] by simp
    then show ?thesis using byte(1) by (simp add: property_read_value_def)
  next
    case (int16 n)
    have "reads mem (read_int_value (len - 1) 2 mqtt_read_uint16) vs (len - length bs, Some (snd p))"
      using reads_int_value [OF reads_uint16 [OF mem int16(3)], of "len - 1" 2] int16(2,4) lb len
        cuint_diff [of 2 "len - 1"] by simp
    then show ?thesis using int16(1) disjoint_groups(2) by (simp add: property_read_value_def)
  next
    case (int32 n)
    have "reads mem (read_int_value (len - 1) 4 mqtt_read_uint32) vs (len - length bs, Some (snd p))"
      using reads_int_value [OF reads_uint32 [OF mem int32(3)], of "len - 1" 4] int32(2,4) lb len
        cuint_diff [of 4 "len - 1"] by simp
    then show ?thesis using int32(1) disjoint_groups(3) by (simp add: property_read_value_def)
  next
    case (varint n)
    have "cuint 32 (int (len - 1) - int (length vs)) = len - length bs"
      using cuint_diff [of "length vs" "len - 1"] lb len by simp
    then have "reads mem (rd_then (rd_code MOSQ_ERR_MALFORMED_PACKET mqtt_read_varint) (\<lambda>(n, byte_count).
          rd_return (cuint 32 (int (len - 1) - int byte_count), Some (JInt (int n))))) vs
       (len - length bs, Some (snd p))"
      using varint(2,4)
      by (intro reads_then_return [OF reads_code [OF reads_varint [OF mem varint(3)], folded varint(4)]]) simp
    then show ?thesis using varint(1) subscription_group by (simp add: property_read_value_def)
  next
    case (string s)
    have "reads mem (read_string_value (len - 1)) vs (len - length bs, Some (snd p))"
      using reads_string_value [OF mem string(4,5,3), of "len - 1"] string(2,6) lb len by (simp add: enc_bytes_def)
    then show ?thesis using string(1) disjoint_groups(4) by (simp add: property_read_value_def)
  next
    case (binary s cs)
    have "reads mem (read_binary_value mem (len - 1)) vs (len - length bs, Some (snd p))"
      using reads_binary_value [OF mem binary(4,5), of "len - 1"] binary(2,6) lb len by (simp add: enc_bytes_def)
    then show ?thesis using binary(1) disjoint_groups(5) by (simp add: property_read_value_def)
  qed
  have "reads mem (property_read mem len (JObject acc)) (enc_varint i @ vs)
      (len - length bs, JObject (acc @ [(fst p, property_entry p)]))"
    unfolding property_read_def
    by (rule reads_then [OF reads_code [OF reads_varint [OF mem]]])
      (use i(1,2,6,7) key new in \<open>auto simp: len1 Let_def set_new_def property_entry_def pairs_set_fresh
        simp del: One_nat_def intro!: reads_then_return [OF typed]\<close>)
  then show ?thesis by (simp add: i(4))
qed

lemma read_all_loop_end: "read_all_loop mem 0 j b = Some (Inr j, b)"
  by (subst read_all_loop.simps) simp

lemma reads_all_loop:
  assumes mem: "gbmem_ok mem"
  shows "properties_bytes mem ps = Some bs \<Longrightarrow> distinct (map fst (acc @ ps)) \<Longrightarrow> length bs < 2 ^ 32 \<Longrightarrow>
    reads mem (read_all_loop mem (length bs) (JObject acc)) bs
      (JObject (acc @ map (\<lambda>p. (fst p, property_entry p)) ps))"
proof (induction ps arbitrary: bs acc)
  case Nil
  then show ?case by (simp add: reads_def read_all_loop_end)
next
  case (Cons p ps)
  obtain xs ys where b: "property_bytes mem p = Some xs" "properties_bytes mem ps = Some ys" "bs = xs @ ys"
    using Cons.prems(1) by (rule properties_bytes_Cons)
  have "xs \<noteq> []" using b(1) by (auto elim!: property_bytes_cases simp: enc_varint.simps)
  then have pos: "0 < length bs" by (simp add: b(3))
  have new: "map_of acc (fst p) = None" using Cons.prems(2) by (auto simp: map_of_eq_None_iff)
  have first: "reads mem (property_read mem (length bs) (JObject acc)) xs
      (length ys, JObject (acc @ [(fst p, property_entry p)]))"
    using reads_property [OF mem b(1) new, of "length bs"] Cons.prems(3) by (simp add: b(3))
  have "reads mem (read_all_loop mem (length ys) (JObject (acc @ [(fst p, property_entry p)]))) ys
      (JObject ((acc @ [(fst p, property_entry p)]) @ map (\<lambda>p. (fst p, property_entry p)) ps))"
    using Cons.prems(2,3) by (intro Cons.IH [OF b(2)]) (auto simp: b(3))
  from reads_then [where f = "\<lambda>(n, j). read_all_loop mem n j", OF first] this
  have "reads mem (rd_then (property_read mem (length bs) (JObject acc)) (\<lambda>(n, j). read_all_loop mem n j)) bs
      (JObject (acc @ map (\<lambda>p. (fst p, property_entry p)) (p # ps)))"
    by (simp add: b(3))
  moreover have "read_all_loop mem (length bs) (JObject acc) =
      rd_then (property_read mem (length bs) (JObject acc)) (\<lambda>(n, j). read_all_loop mem n j)"
    using pos by (intro ext, subst read_all_loop.simps)
      (simp add: rd_then_def split: option.splits sum.splits prod.splits)
  ultimately show ?case by simp
qed

text \<open>What is read is what was written, unless a property is not allowed in the packet.\<close>

definition properties_object :: "(string \<times> json) list \<Rightarrow> json" where
  "properties_object ps = JObject (map (\<lambda>p. (fst p, property_entry p)) ps)"

lemma reads_all:
  assumes mem: "gbmem_ok mem" and ps: "properties_bytes mem ps = Some bs" "distinct (map fst ps)" "length bs < 2 ^ 28"
    and allowed: "\<not> mqtt_property_check_all lc command (properties_object ps) < 0"
  shows "reads mem (property_read_all mem lc command) (packet_properties bs) (properties_object ps)"
proof -
  have "reads mem (read_all_loop mem (length bs) (JObject [])) bs (properties_object ps)"
    using reads_all_loop [OF mem ps(1), of "[]"] ps(2,3) by (simp add: properties_object_def)
  then have "reads mem (rd_then (read_all_loop mem (length bs) (JObject [])) (\<lambda>j.
      let ret = mqtt_property_check_all lc command j in if ret < 0 then rd_fail ret else rd_return j)) bs
      (properties_object ps)"
    by (rule reads_then_return) (simp only: Let_def allowed if_False)
  then show ?thesis
    unfolding property_read_all_def packet_properties_def
    by (intro reads_then [OF reads_varint [OF mem ps(3)]]) simp
qed

text \<open>A list of properties that may stand in a packet, as one value of the wire.\<close>

definition good_properties :: "gbmem \<Rightarrow> libc_real \<Rightarrow> nat \<Rightarrow> (string \<times> json) list \<Rightarrow> bool" where
  "good_properties mem lc command ps \<longleftrightarrow> gbmem_ok mem \<and> distinct (map fst ps) \<and>
     \<not> mqtt_property_check_all lc command (properties_object ps) < 0 \<and>
     (case properties_bytes mem ps of None \<Rightarrow> False | Some bs \<Rightarrow> length bs < 2 ^ 28)"

definition enc_properties :: "gbmem \<Rightarrow> (string \<times> json) list \<Rightarrow> byte list" where
  "enc_properties mem ps = packet_properties (the (properties_bytes mem ps))"

interpretation properties_codec: wire_codec mem "good_properties mem lc command" "enc_properties mem"
  "\<lambda>ps b. property__write_all mem lc b (Some (JObject ps)) True" 0 "property_read_all mem lc command"
  properties_object for mem lc command
proof (unfold_locales, goal_cases)
  case (1 ps)
  then show ?case
    by (auto simp: good_properties_def enc_properties_def split: option.splits intro: writes_all)
next
  case (2 ps)
  then show ?case
    by (auto simp: good_properties_def enc_properties_def split: option.splits intro: reads_all)
qed

end
