(* ===== verification/IStream.thy ===== *)
theory IStream
  imports GBuffer
begin

text \<open>
  Input streams, \<^verbatim>\<open>kernel/c/root-linux/src/istream.c\<close>: bytes that arrive in pieces are accumulated in a
  buffer until a number of them, or a delimiter, has been read. A completed stream either keeps the
  bytes for \<open>istream_extract_matched_data\<close> or sends them in an event. The event is a result of
  \<open>istream_consume\<close> here; the pointers to the data are offsets in the buffer.
\<close>

record istream =
  ist_gbuf :: "gbuffer option"
  ist_data_size :: size_t
  ist_max_size :: size_t
  ist_event_name :: "string option"
  ist_delimiter :: "byte list option"
  ist_num_bytes :: size_t
  ist_completed :: bool

text \<open>The size of the C structure on a 64-bit target; \<open>None\<close> is the pointer \<open>NULL\<close>.\<close>

definition sizeof_istream :: size_t where "sizeof_istream = 72"

definition istream_create :: "gbmem \<Rightarrow> size_t \<Rightarrow> size_t \<Rightarrow> istream option" where
  "istream_create mem data_size max_size =
     (case gbmem_malloc mem sizeof_istream of None \<Rightarrow> None
      | Some _ \<Rightarrow> (case gbuffer_create mem data_size max_size of None \<Rightarrow> None
        | Some gbuf \<Rightarrow> Some \<lparr>ist_gbuf = Some gbuf, ist_data_size = data_size, ist_max_size = max_size,
            ist_event_name = None, ist_delimiter = None, ist_num_bytes = 0, ist_completed = False\<rparr>))"

definition istream_read_until_delimiter ::
  "gbmem \<Rightarrow> istream \<Rightarrow> byte list \<Rightarrow> string option \<Rightarrow> int \<times> istream" where
  "istream_read_until_delimiter mem ist delimiter event =
     (if delimiter = [] then (-1, ist)
      else case gbmem_malloc mem (length delimiter) of
        None \<Rightarrow> (-1, ist\<lparr>ist_delimiter := None\<rparr>)
      | Some _ \<Rightarrow> (0, ist\<lparr>ist_delimiter := Some delimiter, ist_event_name := event,
          ist_completed := False, ist_num_bytes := 0\<rparr>))"

definition istream_read_until_num_bytes :: "istream \<Rightarrow> size_t \<Rightarrow> string option \<Rightarrow> int \<times> istream" where
  "istream_read_until_num_bytes ist num_bytes event =
     (0, ist\<lparr>ist_num_bytes := num_bytes, ist_event_name := event, ist_completed := False,
        ist_delimiter := None\<rparr>)"

text \<open>
  The loop over the bytes in the search of the delimiter: the bytes consumed, the buffer, and how it
  ended: \<open>None\<close> when the buffer is full, else whether the delimiter was found. The C code compares the
  bytes before the write pointer.
\<close>

fun delimiter_loop :: "gbmem \<Rightarrow> byte list \<Rightarrow> gbuffer \<Rightarrow> size_t \<Rightarrow> byte list \<Rightarrow>
  (size_t \<times> gbuffer \<times> bool option) option" where
  "delimiter_loop mem delimiter gbuf consumed [] = Some (consumed, gbuf, Some False)"
| "delimiter_loop mem delimiter gbuf consumed (c # bf) = (case gbuffer_append mem gbuf [c] of
     None \<Rightarrow> None
   | Some (n, gbuf) \<Rightarrow>
       (if n \<noteq> 1 then Some (consumed, gbuf, None)
        else if gbuffer_leftbytes gbuf \<ge> length delimiter then
          (case bytes_at gbuf (gb_tail gbuf - length delimiter) (length delimiter) of
             None \<Rightarrow> None
           | Some p \<Rightarrow> if p = delimiter then Some (consumed + 1, gbuf, Some True)
               else delimiter_loop mem delimiter gbuf (consumed + 1) bf)
        else delimiter_loop mem delimiter gbuf (consumed + 1) bf))"

text \<open>The end of a consumption: a completed stream with an event gives its buffer away.\<close>

definition istream_emit :: "gbmem \<Rightarrow> size_t \<Rightarrow> istream \<Rightarrow> size_t \<times> istream \<times> (string \<times> gbuffer option) option" where
  "istream_emit mem consumed ist =
     (if ist_completed ist \<and> ist_event_name ist \<noteq> None \<and> ist_event_name ist \<noteq> Some []
      then (consumed, ist\<lparr>ist_gbuf := gbuffer_create mem (ist_data_size ist) (ist_max_size ist)\<rparr>,
        Some (the (ist_event_name ist), ist_gbuf ist))
      else (consumed, ist, None))"

definition istream_consume :: "gbmem \<Rightarrow> istream \<Rightarrow> byte list \<Rightarrow>
  (size_t \<times> istream \<times> (string \<times> gbuffer option) option) option" where
  "istream_consume mem ist bf =
     (if bf = [] then Some (0, ist, None)
      else case ist_gbuf ist of
        None \<Rightarrow> Some (0, ist, None)
      | Some gbuf \<Rightarrow>
          (if ist_num_bytes ist \<noteq> 0 then
             (let needed = sz_sub (ist_num_bytes ist) (gbuffer_leftbytes gbuf) in
              if needed > length bf then
                (case gbuffer_append mem gbuf bf of None \<Rightarrow> None
                 | Some (_, gbuf) \<Rightarrow> Some (length bf, ist\<lparr>ist_gbuf := Some gbuf\<rparr>, None))
              else if needed > 0 then
                (case gbuffer_append mem gbuf (take needed bf) of None \<Rightarrow> None
                 | Some (_, gbuf) \<Rightarrow> Some (istream_emit mem needed
                     (ist\<lparr>ist_gbuf := Some gbuf, ist_completed := True\<rparr>)))
              else Some (istream_emit mem 0 (ist\<lparr>ist_completed := True\<rparr>)))
           else case ist_delimiter ist of
             None \<Rightarrow> Some (istream_emit mem 0 ist)
           | Some delimiter \<Rightarrow> (case delimiter_loop mem delimiter gbuf 0 bf of
               None \<Rightarrow> None
             | Some (consumed, gbuf, None) \<Rightarrow> Some (consumed, ist\<lparr>ist_gbuf := Some gbuf\<rparr>, None)
             | Some (consumed, gbuf, Some found) \<Rightarrow> Some (istream_emit mem consumed
                 (ist\<lparr>ist_gbuf := Some gbuf, ist_completed := ist_completed ist \<or> found\<rparr>)))))"

definition istream_length :: "istream option \<Rightarrow> size_t option" where
  "istream_length ist = (case ist of None \<Rightarrow> Some 0
     | Some i \<Rightarrow> map_option gbuffer_leftbytes (ist_gbuf i))"

definition istream_get_gbuffer :: "istream option \<Rightarrow> gbuffer option" where
  "istream_get_gbuffer ist = (case ist of None \<Rightarrow> None | Some i \<Rightarrow> ist_gbuf i)"

definition istream_pop_gbuffer :: "istream \<Rightarrow> gbuffer option \<times> istream" where
  "istream_pop_gbuffer ist = (ist_gbuf ist, ist\<lparr>ist_gbuf := None\<rparr>)"

definition istream_new_gbuffer :: "gbmem \<Rightarrow> istream \<Rightarrow> size_t \<Rightarrow> size_t \<Rightarrow> int \<times> istream" where
  "istream_new_gbuffer mem ist data_size max_size =
     (let gbuf = gbuffer_create mem data_size max_size;
          ist = ist\<lparr>ist_data_size := data_size, ist_max_size := max_size, ist_gbuf := gbuf\<rparr>
      in (if gbuf = None then -1 else 0, ist))"

text \<open>The matched data: its offset in the buffer (\<open>NULL\<close> is \<open>None\<close>) and its length.\<close>

definition istream_extract_matched_data :: "istream \<Rightarrow> (nat option \<times> size_t) \<times> istream" where
  "istream_extract_matched_data ist =
     (if \<not> ist_completed ist then ((None, 0), ist)
      else case ist_gbuf ist of
        None \<Rightarrow> ((None, 0), ist)
      | Some gbuf \<Rightarrow> (let ln = gbuffer_leftbytes gbuf; (p, gbuf) = gbuffer_get gbuf ln
          in ((p, ln), ist\<lparr>ist_gbuf := Some gbuf, ist_completed := False\<rparr>)))"

definition istream_reset_wr :: "istream \<Rightarrow> (int \<times> istream) option" where
  "istream_reset_wr ist = (case ist_gbuf ist of None \<Rightarrow> Some (-1, ist)
     | Some gbuf \<Rightarrow> map_option (\<lambda>gbuf. (0, ist\<lparr>ist_gbuf := Some gbuf\<rparr>)) (gbuffer_reset_wr gbuf))"

definition istream_reset_rd :: "istream \<Rightarrow> int \<times> istream" where
  "istream_reset_rd ist = (case ist_gbuf ist of None \<Rightarrow> (-1, ist)
     | Some gbuf \<Rightarrow> (0, ist\<lparr>ist_gbuf := Some (gbuffer_reset_rd gbuf)\<rparr>))"

definition istream_clear :: "istream \<Rightarrow> istream option" where
  "istream_clear ist = map_option snd (istream_reset_wr (snd (istream_reset_rd ist)))"

definition istream_is_completed :: "istream option \<Rightarrow> bool" where
  "istream_is_completed ist = (case ist of None \<Rightarrow> False | Some i \<Rightarrow> ist_completed i)"

section \<open>Streams that wait for a number of bytes\<close>

text \<open>A stream without event that waits for \<open>n\<close> bytes, has \<open>got\<close> unread, and has room for the rest.\<close>

definition waiting :: "gbmem \<Rightarrow> istream \<Rightarrow> size_t \<Rightarrow> byte list \<Rightarrow> bool" where
  "waiting mem ist n got \<longleftrightarrow> ist_num_bytes ist = n \<and> n \<noteq> 0 \<and> ist_event_name ist = None \<and>
     length got \<le> n \<and> (\<exists>gbuf. ist_gbuf ist = Some gbuf \<and> gb_ok mem gbuf \<and> unread gbuf = got \<and>
       n - length got \<le> gb_data_size gbuf - gb_tail gbuf)"

text \<open>One consumption takes what is missing and no more, and completes the stream when nothing is.\<close>

lemma consume_waiting:
  assumes mem: "gbmem_ok mem" and w: "waiting mem ist n got" and bf: "bf \<noteq> []"
  shows "\<exists>ist'. istream_consume mem ist bf = Some (min (length bf) (n - length got), ist', None) \<and>
    waiting mem ist' n (got @ take (n - length got) bf) \<and>
    ist_completed ist' = (ist_completed ist \<or> n \<le> length got + length bf) \<and>
    ist_gbuf ist' \<noteq> None \<and> (\<forall>g g'. ist_gbuf ist = Some g \<longrightarrow> ist_gbuf ist' = Some g' \<longrightarrow>
      gb_data_size g' = gb_data_size g \<and> gb_curp g' = gb_curp g)"
proof -
  obtain gbuf where g: "ist_gbuf ist = Some gbuf" "gb_ok mem gbuf" "unread gbuf = got"
    "n - length got \<le> gb_data_size gbuf - gb_tail gbuf" "length got \<le> n"
    and n: "ist_num_bytes ist = n" "n \<noteq> 0" "ist_event_name ist = None"
    using w by (auto simp: waiting_def)
  have need: "sz_sub n (gbuffer_leftbytes gbuf) = n - length got"
    using g(2,3,5) by (simp add: leftbytes_unread size_t_simps)
  let ?t = "take (n - length got) bf"
  have "length ?t \<le> gb_data_size gbuf - gb_tail gbuf" using g(4) by simp
  from gbuffer_append_fits [OF mem g(2) this] obtain b' where
    b': "gbuffer_append mem gbuf ?t = Some (length ?t, b')" "gb_ok mem b'" "unread b' = got @ ?t"
      "gb_tail b' = gb_tail gbuf + length ?t" "gb_data_size b' = gb_data_size gbuf"
      "gb_curp b' = gb_curp gbuf"
    using g(3) by metis
  consider "n - length got > length bf" | "n - length got \<le> length bf" "n - length got > 0"
    | "n - length got = 0" by linarith
  then show ?thesis
  proof cases
    case 1
    then show ?thesis
      using b' g n need bf by (auto simp: istream_consume_def waiting_def Let_def)
  next
    case 2
    then show ?thesis
      using b' g n need bf by (auto simp: istream_consume_def istream_emit_def waiting_def Let_def)
  next
    case 3
    then show ?thesis
      using g n need bf by (auto simp: istream_consume_def istream_emit_def waiting_def Let_def)
  qed
qed

text \<open>Pieces of data given one after another, as the events of a connection bring them; what a piece has
  left over goes on before the next one.\<close>

fun istream_feed :: "gbmem \<Rightarrow> istream \<Rightarrow> byte list list \<Rightarrow> (istream \<times> byte list) option" where
  "istream_feed mem ist [] = Some (ist, [])"
| "istream_feed mem ist (bf # pieces) = (case istream_consume mem ist bf of
     None \<Rightarrow> None
   | Some (consumed, ist, _) \<Rightarrow>
       (if ist_completed ist then Some (ist, drop consumed bf @ concat pieces)
        else istream_feed mem ist pieces))"

lemma feed_waiting:
  assumes "gbmem_ok mem" "waiting mem ist n got" "\<not> ist_completed ist" "length got < n"
    and "[] \<notin> set pieces"
  shows "\<exists>ist' gbuf. istream_feed mem ist pieces = Some (ist', drop (n - length got) (concat pieces)) \<and>
    ist_gbuf ist' = Some gbuf \<and> gb_ok mem gbuf \<and>
    unread gbuf = got @ take (n - length got) (concat pieces) \<and>
    (ist_completed ist' \<longleftrightarrow> n \<le> length got + length (concat pieces))"
  using assms
proof (induction pieces arbitrary: ist got)
  case Nil
  then show ?case by (auto simp: waiting_def)
next
  case (Cons bf pieces)
  then have "bf \<noteq> []" by auto
  from consume_waiting [OF Cons.prems(1,2) this] obtain ist' where
    c: "istream_consume mem ist bf = Some (min (length bf) (n - length got), ist', None)"
      "waiting mem ist' n (got @ take (n - length got) bf)"
      "ist_completed ist' \<longleftrightarrow> n \<le> length got + length bf"
    using Cons.prems(3) by auto
  show ?case
  proof (cases "n \<le> length got + length bf")
    case True
    then show ?thesis using c by (auto simp: waiting_def min_def)
  next
    case False
    then have "take (n - length got) bf = bf" "length (got @ bf) < n" by auto
    then show ?thesis
      using Cons.IH [OF Cons.prems(1), of ist' "got @ bf"] c False Cons.prems(5)
      by (auto simp: diff_diff_add)
  qed
qed

text \<open>The data of a completed stream are what it was waiting for, and the stream is ready for more.\<close>

lemma extract_completed:
  assumes mem: "gbmem_ok mem" and g: "ist_gbuf ist = Some gbuf" "gb_ok mem gbuf" "unread gbuf \<noteq> []"
    and c: "ist_completed ist"
  shows "\<exists>gbuf'. istream_extract_matched_data ist =
      ((Some (gb_curp gbuf), length (unread gbuf)), ist\<lparr>ist_gbuf := Some gbuf', ist_completed := False\<rparr>) \<and>
    gb_ok mem gbuf' \<and> unread gbuf' = [] \<and> gb_tail gbuf' = gb_tail gbuf \<and>
    gb_data_size gbuf' = gb_data_size gbuf \<and> gb_data gbuf' = gb_data gbuf \<and>
    gb_max_memory_size gbuf' = gb_max_memory_size gbuf \<and>
    bytes_at gbuf' (gb_curp gbuf) (length (unread gbuf)) = Some (unread gbuf)"
proof (rule exI)
  let ?b = "gbuf\<lparr>gb_curp := gb_curp gbuf + length (unread gbuf)\<rparr>"
  show "istream_extract_matched_data ist =
      ((Some (gb_curp gbuf), length (unread gbuf)), ist\<lparr>ist_gbuf := Some ?b, ist_completed := False\<rparr>) \<and>
    gb_ok mem ?b \<and> unread ?b = [] \<and> gb_tail ?b = gb_tail gbuf \<and>
    gb_data_size ?b = gb_data_size gbuf \<and> gb_data ?b = gb_data gbuf \<and>
    gb_max_memory_size ?b = gb_max_memory_size gbuf \<and>
    bytes_at ?b (gb_curp gbuf) (length (unread gbuf)) = Some (unread gbuf)"
    using g c gbuffer_get_spec [OF mem g(2), of "length (unread gbuf)"]
      advance_ok [OF g(2), of "length (unread gbuf)"] bytes_at_curp [OF g(2), of "length (unread gbuf)"]
    by (simp add: istream_extract_matched_data_def leftbytes_unread bytes_at_def Let_def split: if_splits)
qed

end
