(* ===== verification/Mqtt_Frame.thy ===== *)
theory Mqtt_Frame
  imports Mqtt_Codec IStream
begin

text \<open>
  The head of an MQTT packet as it arrives: \<^verbatim>\<open>decode_head\<close> and \<^verbatim>\<open>framehead_consume\<close> of
  \<^verbatim>\<open>modules/c/mqtt/src/c_prot_mqtt2.c\<close>, on an input stream. Two bytes give the command, the flags and
  the first digit of the remaining length; up to three more digits follow. The flags that say which
  digits are to be read stay set while the head is incomplete. \<open>None\<close> is a read through the pointer
  \<open>NULL\<close>.
\<close>

record frame_head =
  fh_command :: nat
  fh_flags :: nat
  fh_busy :: bool
  fh_header_complete :: bool
  fh_read_2 :: bool
  fh_read_3 :: bool
  fh_read_4 :: bool
  fh_frame_length :: nat

text \<open>The attributes of the connection the head is checked against.\<close>

record mqtt_link =
  ml_in_session :: bool
  ml_iamServer :: bool
  ml_max_packet_size :: int

definition frame_zero :: frame_head where
  "frame_zero = \<lparr>fh_command = 0, fh_flags = 0, fh_busy = False, fh_header_complete = False,
     fh_read_2 = False, fh_read_3 = False, fh_read_4 = False, fh_frame_length = 0\<rparr>"

definition start_wait_frame_header :: "istream \<Rightarrow> (frame_head \<times> istream) option" where
  "start_wait_frame_header ist = map_option (\<lambda>(_, ist). (frame_zero, ist)) (istream_reset_wr ist)"

definition framehead_prepare_new_frame :: "frame_head \<Rightarrow> frame_head" where
  "framehead_prepare_new_frame frame = frame_zero\<lparr>fh_busy := True\<rparr>"

definition decode_head :: "frame_head \<Rightarrow> byte \<Rightarrow> byte \<Rightarrow> frame_head" where
  "decode_head frame byte1 byte2 = frame
     \<lparr>fh_command := unat (byte1 AND 0xF0), fh_flags := unat (byte1 AND 0x0F),
      fh_frame_length := unat (byte2 AND 0x7F),
      fh_read_2 := (fh_read_2 frame \<or> byte2 AND 0x80 \<noteq> 0)\<rparr>"

text \<open>Wait for \<open>n\<close> bytes and read them: what was consumed, the rest, and the bytes when they are all there.\<close>

definition frame_read :: "gbmem \<Rightarrow> nat \<Rightarrow> istream \<Rightarrow> byte list \<Rightarrow>
  (nat \<times> istream \<times> byte list \<times> byte list option) option" where
  "frame_read mem n ist bf = do {
     let ist = snd (istream_read_until_num_bytes ist n None);
     (consumed, ist, _) \<leftarrow> istream_consume mem ist bf;
     if \<not> istream_is_completed (Some ist) then Some (consumed, ist, drop consumed bf, None)
     else (case istream_extract_matched_data ist of
        ((Some p, _), ist) \<Rightarrow> (case ist_gbuf ist of
            None \<Rightarrow> None
          | Some gbuf \<Rightarrow> (case bytes_at gbuf p n of
              None \<Rightarrow> None
            | Some data \<Rightarrow> Some (consumed, ist, drop consumed bf, Some data)))
      | ((None, _), _) \<Rightarrow> None)
   }"

text \<open>
  The state in the middle of \<open>framehead_consume\<close>: the head, the stream, the bytes left and the number of
  bytes consumed. A step waits for more data, goes on, or fails.
\<close>

type_synonym frame_state = "frame_head \<times> istream \<times> byte list \<times> nat"

datatype head_step = Wait frame_state | Go frame_state | Bad frame_state

text \<open>The reading of one more digit; \<open>onward\<close> is what its top bit means.\<close>

definition read_digit :: "gbmem \<Rightarrow> (frame_head \<Rightarrow> bool) \<Rightarrow> nat \<Rightarrow> (frame_head \<Rightarrow> frame_head option) \<Rightarrow>
  frame_state \<Rightarrow> head_step option" where
  "read_digit mem must weight onward = (\<lambda>(frame, ist, bf, sum_read).
     if \<not> must frame then Some (Go (frame, ist, bf, sum_read))
     else do {
       (consumed, ist, bf, data) \<leftarrow> frame_read mem 1 ist bf;
       Some (case data of
         None \<Rightarrow> Wait (frame, ist, bf, sum_read + consumed)
       | Some d \<Rightarrow> (let byte = hd d;
             frame = frame\<lparr>fh_frame_length := fh_frame_length frame + unat (byte AND 0x7F) * weight\<rparr>
           in if byte AND 0x80 \<noteq> 0 then (case onward frame of
                  None \<Rightarrow> Bad (frame, ist, bf, sum_read + consumed)
                | Some frame \<Rightarrow> Go (frame, ist, bf, sum_read + consumed))
              else Go (frame, ist, bf, sum_read + consumed)))
     })"

definition then_step :: "head_step option \<Rightarrow> (frame_state \<Rightarrow> head_step option) \<Rightarrow> head_step option" where
  "then_step r f = (case r of Some (Go s) \<Rightarrow> f s | r \<Rightarrow> r)"

definition read_remaining_length :: "gbmem \<Rightarrow> frame_state \<Rightarrow> head_step option" where
  "read_remaining_length mem s =
     then_step (read_digit mem fh_read_2 128 (\<lambda>f. Some (f\<lparr>fh_read_3 := True\<rparr>)) s)
       (\<lambda>s. then_step (read_digit mem fh_read_3 (128 * 128) (\<lambda>f. Some (f\<lparr>fh_read_4 := True\<rparr>)) s)
         (read_digit mem fh_read_4 (128 * 128 * 128) (\<lambda>f. None)))"

text \<open>The first two bytes; the first packet a server sees must be a \<open>CONNECT\<close>.\<close>

definition read_head :: "gbmem \<Rightarrow> mqtt_link \<Rightarrow> frame_state \<Rightarrow> head_step option" where
  "read_head mem link = (\<lambda>(frame, ist, bf, sum_read).
     if fh_busy frame then Some (Go (frame, ist, bf, sum_read))
     else do {
       (consumed, ist, bf, data) \<leftarrow> frame_read mem 2 ist bf;
       Some (case data of
         None \<Rightarrow> Wait (frame, ist, bf, sum_read + consumed)
       | Some d \<Rightarrow> (let frame = decode_head (framehead_prepare_new_frame frame) (d ! 0) (d ! 1)
           in if \<not> ml_in_session link \<and> ml_iamServer link \<and> fh_command frame \<noteq> CMD_CONNECT
              then Bad (frame, ist, bf, sum_read + consumed)
              else Go (frame, ist, bf, sum_read + consumed)))
     })"

text \<open>The checks of a complete head.\<close>

definition frame_ok :: "mqtt_link \<Rightarrow> frame_head \<Rightarrow> bool" where
  "frame_ok link frame =
     (if (fh_command frame = CMD_PINGREQ \<or> fh_command frame = CMD_PINGRESP) \<and> fh_frame_length frame \<noteq> 0 then False
      else if fh_frame_length frame = 0 \<and> fh_command frame \<noteq> CMD_DISCONNECT \<and> fh_command frame \<noteq> CMD_AUTH \<and>
        fh_command frame \<noteq> CMD_PINGREQ \<and> fh_command frame \<noteq> CMD_PINGRESP then False
      else \<not> (ml_iamServer link \<and> ml_max_packet_size link > 0 \<and>
        int32 (int (fh_frame_length frame)) > ml_max_packet_size link))"

definition framehead_consume :: "gbmem \<Rightarrow> mqtt_link \<Rightarrow> frame_head \<Rightarrow> istream \<Rightarrow> byte list \<Rightarrow>
  (int \<times> frame_head \<times> istream) option" where
  "framehead_consume mem link frame ist bf =
     (case then_step (read_head mem link (frame, ist, bf, 0)) (read_remaining_length mem) of
        None \<Rightarrow> None
      | Some (Wait (frame, ist, bf, sum_read)) \<Rightarrow> Some (int sum_read, frame, ist)
      | Some (Bad (frame, ist, bf, sum_read)) \<Rightarrow> Some (-1, frame, ist)
      | Some (Go (frame, ist, bf, sum_read)) \<Rightarrow>
          (let frame = frame\<lparr>fh_header_complete := True\<rparr>
           in Some (if frame_ok link frame then int sum_read else -1, frame, ist)))"

text \<open>The data of a connection in the pieces they arrive in, up to the end of the head: what every call
  returns, and the head. What a call does not consume comes before the next piece.\<close>

fun framehead_feed :: "gbmem \<Rightarrow> mqtt_link \<Rightarrow> frame_head \<Rightarrow> istream \<Rightarrow> byte list list \<Rightarrow>
  (int list \<times> frame_head \<times> istream \<times> byte list) option" where
  "framehead_feed mem link frame ist [] = Some ([], frame, ist, [])"
| "framehead_feed mem link frame ist (bf # pieces) = (case framehead_consume mem link frame ist bf of
     None \<Rightarrow> None
   | Some (n, frame, ist) \<Rightarrow>
       (if n \<le> 0 \<or> fh_header_complete frame then Some ([n], frame, ist, drop (nat n) bf @ concat pieces)
        else (case framehead_feed mem link frame ist pieces of
          None \<Rightarrow> None
        | Some (ns, frame, ist, rest) \<Rightarrow> Some (n # ns, frame, ist, rest))))"


section \<open>Reading through the stream of a head\<close>

text \<open>The stream of a connection has a buffer of five bytes: \<open>got\<close> are unread, \<open>room\<close> are free.\<close>

definition head_stream :: "gbmem \<Rightarrow> istream \<Rightarrow> byte list \<Rightarrow> nat \<Rightarrow> bool" where
  "head_stream mem ist got room \<longleftrightarrow> room \<le> 5 \<and> (\<exists>g. ist_gbuf ist = Some g \<and> gb_ok mem g \<and> unread g = got \<and>
     gb_data_size g = 5 \<and> gb_max_memory_size g = 5 \<and> gb_tail g = 5 - room)"

lemma copy_in_keeps: "copy_in b p bs = Some b' \<Longrightarrow> gb_max_memory_size b' = gb_max_memory_size b"
  by (auto simp: copy_in_def split: if_splits)

lemma poke_keeps: "poke b p c = Some b' \<Longrightarrow> gb_max_memory_size b' = gb_max_memory_size b"
  by (auto simp: poke_def split: if_splits)

lemma gbuffer_append_keeps:
  assumes "gbuffer_append mem b bs = Some (n, b')"
  shows "gb_max_memory_size b' = gb_max_memory_size b"
proof -
  have "gb_max_memory_size (snd (gbuffer_realloc mem b k)) = gb_max_memory_size b" for k
    by (simp add: gbuffer_realloc_def Let_def split: option.split)
  then show ?thesis
    using assms copy_in_keeps poke_keeps
    by (force simp: gbuffer_append_def Let_def bind_eq_Some_conv split: if_splits)
qed

lemma frame_read_arrived:
  assumes mem: "gbmem_ok mem" and s: "head_stream mem ist got room"
    and n: "length got < n" "n \<le> length got + length bf" "n - length got \<le> room"
  shows "\<exists>ist'. frame_read mem n ist bf = Some (n - length got, ist', drop (n - length got) bf,
      Some (got @ take (n - length got) bf)) \<and> head_stream mem ist' [] (room - (n - length got))"
proof -
  let ?k = "n - length got" and ?ist = "snd (istream_read_until_num_bytes ist n None)"
  obtain g where g: "ist_gbuf ist = Some g" "gb_ok mem g" "unread g = got" "gb_data_size g = 5"
    "gb_max_memory_size g = 5" "gb_tail g = 5 - room" "room \<le> 5"
    using s by (auto simp: head_stream_def)
  have len: "length (take ?k bf) = ?k" using n by simp
  have "length (take ?k bf) \<le> gb_data_size g - gb_tail g" unfolding len using n(3) g(4,6,7) by simp
  from gbuffer_append_fits [OF mem g(2) this] obtain g1 where g1:
    "gbuffer_append mem g (take ?k bf) = Some (?k, g1)" "gb_ok mem g1" "unread g1 = got @ take ?k bf"
    "gb_tail g1 = gb_tail g + ?k" "gb_data_size g1 = 5" unfolding len g(3,4) by blast
  have max1: "gb_max_memory_size g1 = 5" using gbuffer_append_keeps [OF g1(1)] g(5) by simp
  have need: "sz_sub n (gbuffer_leftbytes g) = ?k"
    using g(2,3) n(1) by (simp add: leftbytes_unread size_t_simps)
  define ist1 where "ist1 = ?ist\<lparr>ist_gbuf := Some g1, ist_completed := True\<rparr>"
  have bf: "bf \<noteq> []" using n by auto
  have c: "istream_consume mem ?ist bf = Some (?k, ist1, None)"
    using g(1) need g1(1) n bf
    by (auto simp: istream_consume_def istream_read_until_num_bytes_def istream_emit_def ist1_def Let_def)
  have ne: "unread g1 \<noteq> []" using g1(3) len n(1) by auto
  have i1: "ist_gbuf ist1 = Some g1" "ist_completed ist1" by (simp_all add: ist1_def)
  from extract_completed [OF mem i1(1) g1(2) ne i1(2)] obtain g2 where
    x: "istream_extract_matched_data ist1 = ((Some (gb_curp g1), length (unread g1)),
        ist1\<lparr>ist_gbuf := Some g2, ist_completed := False\<rparr>)"
    and g2: "gb_ok mem g2" "unread g2 = []" "gb_tail g2 = gb_tail g1" "gb_data_size g2 = gb_data_size g1"
      "gb_max_memory_size g2 = gb_max_memory_size g1" "bytes_at g2 (gb_curp g1) (length (unread g1)) = Some (unread g1)"
    by blast
  have "length (unread g1) = n" using g1(3) len n(1) by simp
  then have "frame_read mem n ist bf = Some (?k, ist1\<lparr>ist_gbuf := Some g2, ist_completed := False\<rparr>, drop ?k bf,
      Some (got @ take ?k bf))"
    using c x g2(6) i1(2) g1(3) by (simp add: frame_read_def istream_is_completed_def)
  moreover have "head_stream mem (ist1\<lparr>ist_gbuf := Some g2, ist_completed := False\<rparr>) [] (room - ?k)"
    using g2 max1 g1(4,5) g(6,7) n(3) by (simp add: head_stream_def)
  ultimately show ?thesis by blast
qed

lemma frame_read_waits:
  assumes mem: "gbmem_ok mem" and s: "head_stream mem ist got room"
    and n: "length got + length bf < n" "length bf \<le> room"
  shows "\<exists>ist'. frame_read mem n ist bf = Some (length bf, ist', [], None) \<and>
    head_stream mem ist' (got @ bf) (room - length bf)"
proof -
  let ?ist = "snd (istream_read_until_num_bytes ist n None)"
  obtain g where g: "ist_gbuf ist = Some g" "gb_ok mem g" "unread g = got" "gb_data_size g = 5"
    "gb_max_memory_size g = 5" "gb_tail g = 5 - room" "room \<le> 5"
    using s by (auto simp: head_stream_def)
  have "length bf \<le> gb_data_size g - gb_tail g" using n(2) g(4,6,7) by simp
  from gbuffer_append_fits [OF mem g(2) this] obtain g1 where g1:
    "gbuffer_append mem g bf = Some (length bf, g1)" "gb_ok mem g1" "unread g1 = got @ bf"
    "gb_tail g1 = gb_tail g + length bf" "gb_data_size g1 = 5" unfolding g(3,4) by blast
  have max1: "gb_max_memory_size g1 = 5" using gbuffer_append_keeps [OF g1(1)] g(5) by simp
  have need: "sz_sub n (gbuffer_leftbytes g) = n - length got"
    using g(2,3) n(1) by (simp add: leftbytes_unread size_t_simps)
  show ?thesis
  proof (cases "bf = []")
    case True
    then have "frame_read mem n ist bf = Some (length bf, ?ist, [], None)"
      by (simp add: frame_read_def istream_consume_def istream_read_until_num_bytes_def istream_is_completed_def)
    moreover have "head_stream mem ?ist (got @ bf) (room - length bf)"
      using s True by (simp add: head_stream_def istream_read_until_num_bytes_def)
    ultimately show ?thesis by blast
  next
    case False
    have "istream_consume mem ?ist bf = Some (length bf, ?ist\<lparr>ist_gbuf := Some g1\<rparr>, None)"
      using g(1) need g1(1) n False by (auto simp: istream_consume_def istream_read_until_num_bytes_def Let_def)
    then have "frame_read mem n ist bf = Some (length bf, ?ist\<lparr>ist_gbuf := Some g1\<rparr>, [], None)"
      by (simp add: frame_read_def istream_read_until_num_bytes_def istream_is_completed_def)
    moreover have "head_stream mem (?ist\<lparr>ist_gbuf := Some g1\<rparr>) (got @ bf) (room - length bf)"
      using g1 max1 g(6,7) n(2) by (simp add: head_stream_def)
    ultimately show ?thesis by blast
  qed
qed

text \<open>A full buffer takes nothing, and yet the stream says that the byte is there.\<close>

lemma frame_read_full:
  assumes mem: "gbmem_ok mem" and s: "head_stream mem ist [] 0" and bf: "bf \<noteq> []"
  shows "frame_read mem 1 ist bf = None"
proof -
  let ?ist = "snd (istream_read_until_num_bytes ist 1 None)"
  obtain g where g: "ist_gbuf ist = Some g" "gb_ok mem g" "unread g = []" "gb_data_size g = 5"
    "gb_max_memory_size g = 5" "gb_tail g = 5"
    using s by (auto simp: head_stream_def)
  have left: "gbuffer_leftbytes g = 0" using g(2,3) by (simp add: leftbytes_unread)
  have free: "gbuffer_freebytes g = 0" using g(4,6) by (simp add: gbuffer_freebytes_def sz_sub_def)
  have "gbuffer_realloc mem g 1 = (False, g)" using g(4,5) by (simp add: gbuffer_realloc_def sz_add_def size_t_mod_def)
  then have "gbuffer_append mem g [c] = Some (0, g)" for c using free by (simp add: gbuffer_append_def)
  then have "istream_consume mem ?ist bf = Some (1, ?ist\<lparr>ist_gbuf := Some g, ist_completed := True\<rparr>, None)"
    using g(1) left bf
    by (cases bf) (auto simp: istream_consume_def istream_read_until_num_bytes_def istream_emit_def Let_def size_t_simps)
  then show ?thesis
    using g(2) gbuffer_get_spec [OF mem g(2), of 0] left
    by (simp add: frame_read_def istream_is_completed_def istream_extract_matched_data_def
        istream_read_until_num_bytes_def)
qed

section \<open>Heads\<close>

text \<open>The head of a packet on the wire, and the head it stands for.\<close>

definition head_bytes :: "byte \<Rightarrow> nat \<Rightarrow> byte list" where
  "head_bytes c w = c # enc_varint w"

definition is_head :: "frame_head \<Rightarrow> byte \<Rightarrow> nat \<Rightarrow> bool" where
  "is_head f c w \<longleftrightarrow> fh_command f = unat (c AND 0xF0) \<and> fh_flags f = unat (c AND 0x0F) \<and>
     fh_frame_length f = w \<and> fh_header_complete f"

text \<open>The server has seen a \<open>CONNECT\<close>, or this is one.\<close>

definition may_open :: "mqtt_link \<Rightarrow> byte \<Rightarrow> bool" where
  "may_open link c \<longleftrightarrow> ml_in_session link \<or> \<not> ml_iamServer link \<or> unat (c AND 0xF0) = CMD_CONNECT"

text \<open>The digits of a number, by value.\<close>

definition digit_byte :: "nat \<Rightarrow> byte \<Rightarrow> bool" where
  "digit_byte w d \<longleftrightarrow> unat (d AND 0x7F) = w mod 128 \<and> (d AND 0x80 \<noteq> 0 \<longleftrightarrow> 128 \<le> w)"

lemma digit_byte_encoded: "digit_byte w (word_of_nat (varint_digit w))"
proof -
  have "varint_digit w = w mod 128 + (if 128 \<le> w then 128 else 0)"
    by (simp add: varint_digit_value div_greater_zero_iff)
  then show ?thesis unfolding digit_byte_def digit_bits unat_digit by (simp add: mod_add_right_eq [symmetric])
qed

lemma enc_varint_digits:
  obtains d where "digit_byte w d" "enc_varint w = d # (if 128 \<le> w then enc_varint (w div 128) else [])"
  using digit_byte_encoded [of w] enc_varint.simps [of w] that by (simp add: div_greater_zero_iff)

text \<open>One digit read: the frame it leaves.\<close>

definition take_digit :: "nat \<Rightarrow> frame_head \<Rightarrow> nat \<Rightarrow> frame_head" where
  "take_digit weight f w = f\<lparr>fh_frame_length := fh_frame_length f + (w mod 128) * weight\<rparr>"

lemma read_digit_arrived:
  assumes mem: "gbmem_ok mem" and s: "head_stream mem ist [] room" "1 \<le> room"
    and must: "must f" and d: "digit_byte w d"
  shows "\<exists>ist'. read_digit mem must weight onward (f, ist, d # bf, n) = Some
      (if 128 \<le> w then (case onward (take_digit weight f w) of None \<Rightarrow> Bad (take_digit weight f w, ist', bf, n + 1)
         | Some f' \<Rightarrow> Go (f', ist', bf, n + 1))
       else Go (take_digit weight f w, ist', bf, n + 1)) \<and> head_stream mem ist' [] (room - 1)"
proof -
  from frame_read_arrived [OF mem s(1), of 1 "d # bf"] s(2) obtain ist' where
    "frame_read mem 1 ist (d # bf) = Some (1, ist', bf, Some [d])" "head_stream mem ist' [] (room - 1)" by auto
  then show ?thesis
    using must d unfolding read_digit_def digit_byte_def take_digit_def
    by (intro exI [of _ ist']) (simp add: Let_def split: option.split)
qed

lemma read_digit_waits:
  assumes mem: "gbmem_ok mem" and s: "head_stream mem ist [] room" and must: "must f"
  shows "\<exists>ist'. read_digit mem must weight onward (f, ist, [], n) = Some (Wait (f, ist', [], n)) \<and>
    head_stream mem ist' [] room"
proof -
  from frame_read_waits [OF mem s(1), of "[]" 1] obtain ist' where
    "frame_read mem 1 ist [] = Some (0, ist', [], None)" "head_stream mem ist' [] room" by auto
  then show ?thesis using must unfolding read_digit_def by (intro exI [of _ ist']) simp
qed

lemma read_digit_skips: "\<not> must f \<Longrightarrow> read_digit mem must weight onward (f, ist, bf, n) = Some (Go (f, ist, bf, n))"
  by (simp add: read_digit_def)

text \<open>The first two bytes.\<close>

definition opened :: "byte \<Rightarrow> nat \<Rightarrow> frame_head" where
  "opened c w = frame_zero\<lparr>fh_busy := True, fh_command := unat (c AND 0xF0), fh_flags := unat (c AND 0x0F),
     fh_frame_length := w mod 128, fh_read_2 := 128 \<le> w\<rparr>"

lemma read_head_arrived:
  assumes mem: "gbmem_ok mem" and s: "head_stream mem ist got room" "length got < 2" "2 \<le> room + length got"
    and f: "\<not> fh_busy f" and d: "digit_byte w d" and c: "may_open link c" and bs: "got @ bf = [c, d] @ rest"
  shows "\<exists>ist'. read_head mem link (f, ist, bf, n) = Some (Go (opened c w, ist', rest, n + (2 - length got))) \<and>
    head_stream mem ist' [] (room - (2 - length got))"
proof -
  have len: "2 \<le> length got + length bf" using arg_cong [OF bs, of length] by simp
  have split: "got @ take (2 - length got) bf = [c, d]" "drop (2 - length got) bf = rest"
    using arg_cong [OF bs, of "take 2"] arg_cong [OF bs, of "drop 2"] s(2) by simp_all
  have room: "2 - length got \<le> room" using s(3) by simp
  from frame_read_arrived [OF mem s(1,2) len room] obtain ist' where
    r: "frame_read mem 2 ist bf = Some (2 - length got, ist', rest, Some [c, d])"
      "head_stream mem ist' [] (room - (2 - length got))" unfolding split by blast
  have "decode_head (framehead_prepare_new_frame f) c d = opened c w"
    using d by (simp add: decode_head_def framehead_prepare_new_frame_def opened_def digit_byte_def frame_zero_def)
  moreover have "fh_command (opened c w) = unat (c AND 0xF0)" by (simp add: opened_def)
  ultimately show ?thesis
    using r f c by (intro exI [of _ ist']) (auto simp: read_head_def Let_def may_open_def)
qed

text \<open>The bytes after the first digit, and the frame after the second, the third and the fourth.\<close>

definition digits_tail :: "nat \<Rightarrow> byte list" where
  "digits_tail w = (if 128 \<le> w then enc_varint (w div 128) else [])"

definition second :: "byte \<Rightarrow> nat \<Rightarrow> frame_head" where
  "second c w = (opened c w)\<lparr>fh_frame_length := w mod 128 + (w div 128 mod 128) * 128, fh_read_3 := 128 \<le> w div 128\<rparr>"

definition third :: "byte \<Rightarrow> nat \<Rightarrow> frame_head" where
  "third c w = (second c w)\<lparr>fh_frame_length := w mod 128 + (w div 128 mod 128) * 128 +
     (w div 128 div 128 mod 128) * (128 * 128), fh_read_4 := 128 \<le> w div 128 div 128\<rparr>"

lemmas frame_defs = opened_def second_def third_def frame_zero_def take_digit_def

lemma digits_tail_next:
  assumes "128 \<le> w"
  obtains d where "digit_byte (w div 128) d" "digits_tail w = d # digits_tail (w div 128)"
  using enc_varint_digits [of "w div 128"] assms by (auto simp: digits_tail_def)

lemma read_second:
  assumes "gbmem_ok mem" "head_stream mem ist [] room" "1 \<le> room" "128 \<le> w"
  shows "\<exists>ist'. read_digit mem fh_read_2 128 (\<lambda>f. Some (f\<lparr>fh_read_3 := True\<rparr>)) (opened c w, ist, digits_tail w @ rest, n) =
      Some (Go (second c w, ist', digits_tail (w div 128) @ rest, n + 1)) \<and> head_stream mem ist' [] (room - 1)"
proof -
  obtain d where d: "digit_byte (w div 128) d" "digits_tail w = d # digits_tail (w div 128)"
    by (rule digits_tail_next [OF assms(4)])
  have "fh_read_2 (opened c w)" using assms(4) by (simp add: frame_defs)
  from read_digit_arrived [where must = fh_read_2 and bf = "digits_tail (w div 128) @ rest"
      and weight = 128 and onward = "\<lambda>f. Some (f\<lparr>fh_read_3 := True\<rparr>)" and n = n, OF assms(1-3) this d(1)]
  obtain ist' where "read_digit mem fh_read_2 128 (\<lambda>f. Some (f\<lparr>fh_read_3 := True\<rparr>))
      (opened c w, ist, d # digits_tail (w div 128) @ rest, n) =
      Some (Go (second c w, ist', digits_tail (w div 128) @ rest, n + 1))" "head_stream mem ist' [] (room - 1)"
    by (auto simp: frame_defs)
  then show ?thesis unfolding d(2) by auto
qed

lemma read_third:
  assumes "gbmem_ok mem" "head_stream mem ist [] room" "1 \<le> room" "128 \<le> w div 128"
  shows "\<exists>ist'. read_digit mem fh_read_3 (128 * 128) (\<lambda>f. Some (f\<lparr>fh_read_4 := True\<rparr>))
      (second c w, ist, digits_tail (w div 128) @ rest, n) =
      Some (Go (third c w, ist', digits_tail (w div 128 div 128) @ rest, n + 1)) \<and> head_stream mem ist' [] (room - 1)"
proof -
  obtain d where d: "digit_byte (w div 128 div 128) d" "digits_tail (w div 128) = d # digits_tail (w div 128 div 128)"
    by (rule digits_tail_next [OF assms(4)])
  have "fh_read_3 (second c w)" using assms(4) by (simp add: frame_defs)
  from read_digit_arrived [where must = fh_read_3 and bf = "digits_tail (w div 128 div 128) @ rest"
      and weight = "128 * 128" and onward = "\<lambda>f. Some (f\<lparr>fh_read_4 := True\<rparr>)" and n = n, OF assms(1-3) this d(1)]
  obtain ist' where "read_digit mem fh_read_3 (128 * 128) (\<lambda>f. Some (f\<lparr>fh_read_4 := True\<rparr>))
      (second c w, ist, d # digits_tail (w div 128 div 128) @ rest, n) =
      Some (Go (third c w, ist', digits_tail (w div 128 div 128) @ rest, n + 1))" "head_stream mem ist' [] (room - 1)"
    by (auto simp: frame_defs)
  then show ?thesis unfolding d(2) by auto
qed

lemma weights: "w mod 128 + (w div 128 mod 128) * 128 + (w div 128 div 128 mod 128) * (128 * 128) +
    (w div 128 div 128 div 128) * (128 * 128 * 128) = (w :: nat)"
proof -
  have step: "a = a mod 128 + 128 * (a div 128)" for a :: nat by simp
  show ?thesis
    using step [of w] step [of "w div 128"] step [of "w div 128 div 128"] by linarith
qed

lemma read_fourth:
  assumes "gbmem_ok mem" "head_stream mem ist [] room" "1 \<le> room" "128 \<le> w div 128 div 128" "w < 2 ^ 28"
  shows "\<exists>ist'. read_digit mem fh_read_4 (128 * 128 * 128) (\<lambda>f. None)
      (third c w, ist, digits_tail (w div 128 div 128) @ rest, n) =
      Some (Go ((third c w)\<lparr>fh_frame_length := w\<rparr>, ist', rest, n + 1))"
proof -
  obtain d where d: "digit_byte (w div 128 div 128 div 128) d"
      "digits_tail (w div 128 div 128) = d # digits_tail (w div 128 div 128 div 128)"
    by (rule digits_tail_next [OF assms(4)])
  have "w div 128 div 128 div 128 < 128" using assms(5) by (simp add: div_mult2_eq [symmetric] div_less_iff_less_mult)
  then have last: "digits_tail (w div 128 div 128 div 128) = []" "\<not> 128 \<le> w div 128 div 128 div 128"
    "w div 128 div 128 div 128 mod 128 = w div 128 div 128 div 128"
    by (simp_all add: digits_tail_def)
  have "fh_read_4 (third c w)" using assms(4) by (simp add: frame_defs)
  from read_digit_arrived [where must = fh_read_4 and bf = rest and weight = "128 * 128 * 128"
      and onward = "\<lambda>f. None" and n = n, OF assms(1-3) this d(1)]
  show ?thesis
    unfolding d(2) last(1) using weights [of w] last(2,3) by (auto simp: third_def take_digit_def)
qed

text \<open>A head that arrives whole is read, whatever its length.\<close>

lemma remaining_length_whole:
  assumes mem: "gbmem_ok mem" and w: "w < 2 ^ 28" and s: "head_stream mem ist [] 3"
  shows "\<exists>f ist'. read_remaining_length mem (opened c w, ist, digits_tail w @ rest, 2) =
      Some (Go (f, ist', rest, 1 + length (enc_varint w))) \<and>
    fh_command f = unat (c AND 0xF0) \<and> fh_flags f = unat (c AND 0x0F) \<and> fh_frame_length f = w"
proof -
  let ?w1 = "w div 128" and ?w2 = "w div 128 div 128"
  consider "w < 128" | "128 \<le> w" "?w1 < 128" | "128 \<le> w" "128 \<le> ?w1" "?w2 < 128"
    | "128 \<le> w" "128 \<le> ?w1" "128 \<le> ?w2" by linarith
  then show ?thesis
  proof cases
    case 1
    then show ?thesis
      by (simp add: read_remaining_length_def then_step_def read_digit_skips frame_defs digits_tail_def
          length_enc_varint_step [of w])
  next
    case 2
    from read_second [OF mem s _ 2(1), of c rest 2] obtain ist1 where
      "read_digit mem fh_read_2 128 (\<lambda>f. Some (f\<lparr>fh_read_3 := True\<rparr>)) (opened c w, ist, digits_tail w @ rest, 2) =
        Some (Go (second c w, ist1, rest, 3))" using 2(2) by (auto simp: digits_tail_def)
    moreover have "\<not> fh_read_3 (second c w)" "\<not> fh_read_4 (second c w)" using 2(2) by (simp_all add: frame_defs)
    moreover have "fh_frame_length (second c w) = w" using 2(2) weights [of w] by (simp add: second_def)
    ultimately show ?thesis
      using 2 by (simp add: read_remaining_length_def then_step_def read_digit_skips frame_defs
          length_enc_varint_step [of w] length_enc_varint_step [of ?w1])
  next
    case 3
    from read_second [OF mem s _ 3(1), of c rest 2] obtain ist1 where r2:
      "read_digit mem fh_read_2 128 (\<lambda>f. Some (f\<lparr>fh_read_3 := True\<rparr>)) (opened c w, ist, digits_tail w @ rest, 2) =
        Some (Go (second c w, ist1, digits_tail ?w1 @ rest, 3))" "head_stream mem ist1 [] 2" by auto
    from read_third [OF mem r2(2) _ 3(2), of c rest 3] obtain ist2 where
      "read_digit mem fh_read_3 (128 * 128) (\<lambda>f. Some (f\<lparr>fh_read_4 := True\<rparr>)) (second c w, ist1, digits_tail ?w1 @ rest, 3) =
        Some (Go (third c w, ist2, rest, 4))" using 3(3) by (auto simp: digits_tail_def)
    moreover have "\<not> fh_read_4 (third c w)" using 3(3) by (simp add: frame_defs)
    moreover have "fh_frame_length (third c w) = w" using 3(3) weights [of w] by (simp add: third_def)
    moreover have "length (enc_varint w) = 3"
      using 3 by (simp add: length_enc_varint_step [of w] length_enc_varint_step [of ?w1] length_enc_varint_step [of ?w2])
    moreover have "fh_command (third c w) = unat (c AND 0xF0)" "fh_flags (third c w) = unat (c AND 0x0F)"
      by (simp_all add: frame_defs)
    ultimately show ?thesis
      using r2(1) by (simp only: read_remaining_length_def then_step_def head_step.case option.case)
        (simp add: read_digit_skips)
  next
    case 4
    from read_second [OF mem s _ 4(1), of c rest 2] obtain ist1 where r2:
      "read_digit mem fh_read_2 128 (\<lambda>f. Some (f\<lparr>fh_read_3 := True\<rparr>)) (opened c w, ist, digits_tail w @ rest, 2) =
        Some (Go (second c w, ist1, digits_tail ?w1 @ rest, 3))" "head_stream mem ist1 [] 2" by auto
    from read_third [OF mem r2(2) _ 4(2), of c rest 3] obtain ist2 where r3:
      "read_digit mem fh_read_3 (128 * 128) (\<lambda>f. Some (f\<lparr>fh_read_4 := True\<rparr>)) (second c w, ist1, digits_tail ?w1 @ rest, 3) =
        Some (Go (third c w, ist2, digits_tail ?w2 @ rest, 4))" "head_stream mem ist2 [] 1" by auto
    from read_fourth [OF mem r3(2) _ 4(3) w, of c rest 4] obtain ist3 where r4:
      "read_digit mem fh_read_4 (128 * 128 * 128) (\<lambda>f. None) (third c w, ist2, digits_tail ?w2 @ rest, 4) =
        Some (Go ((third c w)\<lparr>fh_frame_length := w\<rparr>, ist3, rest, 5))" by auto
    have "?w2 div 128 < 128" using w by (simp add: div_mult2_eq [symmetric] div_less_iff_less_mult)
    then have "length (enc_varint w) = 4"
      using 4 by (simp add: length_enc_varint_step [of w] length_enc_varint_step [of ?w1]
          length_enc_varint_step [of ?w2] length_enc_varint_step [of "?w2 div 128"])
    moreover have "fh_command ((third c w)\<lparr>fh_frame_length := w\<rparr>) = unat (c AND 0xF0)"
      "fh_flags ((third c w)\<lparr>fh_frame_length := w\<rparr>) = unat (c AND 0x0F)"
      by (simp_all add: frame_defs)
    ultimately show ?thesis
      using r2(1) r3(1) r4 by (simp only: read_remaining_length_def then_step_def head_step.case option.case) simp
  qed
qed

lemma head_whole:
  assumes mem: "gbmem_ok mem" and w: "w < 2 ^ 28" and s: "head_stream mem ist [] 5" and f: "\<not> fh_busy f"
    and c: "may_open link c"
  shows "\<exists>f' ist'. framehead_consume mem link f ist (head_bytes c w @ rest) =
      Some (if frame_ok link f' then int (length (head_bytes c w)) else -1, f', ist') \<and> is_head f' c w"
proof -
  obtain d where d: "digit_byte w d" "enc_varint w = d # digits_tail w"
    unfolding digits_tail_def by (rule enc_varint_digits)
  from read_head_arrived [OF mem s _ _ f d(1) c, of "head_bytes c w @ rest" "digits_tail w @ rest" 0]
  obtain ist1 where r: "read_head mem link (f, ist, head_bytes c w @ rest, 0) =
      Some (Go (opened c w, ist1, digits_tail w @ rest, 2))" "head_stream mem ist1 [] 3"
    by (auto simp: head_bytes_def d(2))
  from remaining_length_whole [OF mem w r(2), of c rest] obtain f' ist' where
    "read_remaining_length mem (opened c w, ist1, digits_tail w @ rest, 2) =
      Some (Go (f', ist', rest, 1 + length (enc_varint w)))"
    "fh_command f' = unat (c AND 0xF0)" "fh_flags f' = unat (c AND 0x0F)" "fh_frame_length f' = w" by blast
  then show ?thesis
    using r(1) unfolding framehead_consume_def then_step_def
    by (intro exI [of _ "f'\<lparr>fh_header_complete := True\<rparr>"] exI [of _ ist'])
      (simp add: is_head_def head_bytes_def Let_def)
qed


section \<open>Heads in pieces\<close>

text \<open>A head of at most two digits is read in whatever pieces it arrives.\<close>

lemma digits_tail_one:
  assumes "128 \<le> w" "w < 16384"
  obtains d where "digits_tail w = [d]"
proof (rule digits_tail_next [OF assms(1)])
  fix d assume d: "digits_tail w = d # digits_tail (w div 128)"
  have "w div 128 < 128" using assms(2) by (simp add: div_less_iff_less_mult)
  then have "digits_tail (w div 128) = []" by (simp add: digits_tail_def)
  with d show thesis using that by simp
qed

lemma consume_second:
  assumes mem: "gbmem_ok mem" and w: "128 \<le> w" "w < 16384" and s: "head_stream mem ist [] 3"
  shows "\<exists>f ist'. read_remaining_length mem (opened c w, ist, digits_tail w @ rest, n) = Some (Go (f, ist', rest, n + 1)) \<and>
    fh_command f = unat (c AND 0xF0) \<and> fh_flags f = unat (c AND 0x0F) \<and> fh_frame_length f = w"
proof -
  have w1: "w div 128 < 128" using w(2) by simp
  from read_second [OF mem s _ w(1), of c rest n] obtain ist1 where
    "read_digit mem fh_read_2 128 (\<lambda>f. Some (f\<lparr>fh_read_3 := True\<rparr>)) (opened c w, ist, digits_tail w @ rest, n) =
      Some (Go (second c w, ist1, rest, n + 1))" using w1 by (auto simp: digits_tail_def)
  moreover have "\<not> fh_read_3 (second c w)" "\<not> fh_read_4 (second c w)" using w1 by (simp_all add: frame_defs)
  moreover have "fh_frame_length (second c w) = w" using w1 weights [of w] by (simp add: second_def)
  ultimately show ?thesis
    by (simp add: read_remaining_length_def then_step_def read_digit_skips frame_defs)
qed

definition head_accepted :: "mqtt_link \<Rightarrow> byte \<Rightarrow> nat \<Rightarrow> bool" where
  "head_accepted link c w \<longleftrightarrow> may_open link c \<and> frame_ok link ((opened c w)\<lparr>fh_frame_length := w\<rparr>)"

lemma frame_ok_cong: "fh_command f = fh_command g \<Longrightarrow> fh_frame_length f = fh_frame_length g \<Longrightarrow>
    frame_ok link f = frame_ok link g"
  by (simp only: frame_ok_def)

lemma head_accepted_ok: "head_accepted link c w \<Longrightarrow> is_head f c w \<Longrightarrow> frame_ok link f"
  using frame_ok_cong [of f "(opened c w)\<lparr>fh_frame_length := w\<rparr>" link]
  by (simp add: head_accepted_def is_head_def opened_def)

lemma go_consume:
  assumes "then_step (read_head mem link (f, ist, bf, 0)) (read_remaining_length mem) = Some (Go (f', ist', rest, n))"
    and "fh_command f' = unat (c AND 0xF0)" "fh_flags f' = unat (c AND 0x0F)" "fh_frame_length f' = w"
    and "head_accepted link c w"
  shows "\<exists>f'. framehead_consume mem link f ist bf = Some (int n, f', ist') \<and> is_head f' c w"
proof -
  have "is_head (f'\<lparr>fh_header_complete := True\<rparr>) c w" using assms(2-4) by (simp add: is_head_def)
  with head_accepted_ok [OF assms(5) this] assms(1) show ?thesis by (simp add: framehead_consume_def Let_def)
qed

lemma first_piece:
  assumes "concat pieces = d # rest" "[] \<notin> set pieces"
  obtains bf ps where "pieces = (d # bf) # ps" "rest = bf @ concat ps"
proof (cases pieces)
  case (Cons p ps)
  then show thesis using assms that by (cases p) auto
qed (use assms in simp)

lemma feed_second:
  assumes mem: "gbmem_ok mem" and w: "128 \<le> w" "w < 16384" and s: "head_stream mem ist [] 3"
    and acc: "head_accepted link c w" and ps: "concat pieces = digits_tail w @ rest" "[] \<notin> set pieces"
  shows "\<exists>ns f ist'. framehead_feed mem link (opened c w) ist pieces = Some (ns, f, ist', rest) \<and> is_head f c w \<and>
    list_all ((<) 0) ns"
proof -
  obtain d where tail: "digits_tail w = [d]" by (rule digits_tail_one [OF w])
  have "concat pieces = d # rest" using ps(1) tail by simp
  then obtain bf ps' where p: "pieces = (d # bf) # ps'" "rest = bf @ concat ps'"
    using ps(2) by (rule first_piece)
  from consume_second [OF mem w s, of c bf 0] obtain f ist' where
    r: "read_remaining_length mem (opened c w, ist, d # bf, 0) = Some (Go (f, ist', bf, 1))"
    "fh_command f = unat (c AND 0xF0)" "fh_flags f = unat (c AND 0x0F)" "fh_frame_length f = w"
    unfolding tail by auto
  have "then_step (read_head mem link (opened c w, ist, d # bf, 0)) (read_remaining_length mem) = Some (Go (f, ist', bf, 1))"
    using r(1) by (simp add: read_head_def then_step_def opened_def)
  from go_consume [OF this r(2-4) acc] obtain f' where
    "framehead_consume mem link (opened c w) ist (d # bf) = Some (1, f', ist')" "is_head f' c w" by auto
  then show ?thesis using p by (simp add: is_head_def)
qed

lemma feed_first:
  assumes mem: "gbmem_ok mem" and w: "w < 16384" and acc: "head_accepted link c w" and f: "\<not> fh_busy f"
    and s: "head_stream mem ist got (5 - length got)" "length got < 2"
    and ps: "got @ bf = [c, d] @ bf'" "bf' @ concat pieces = digits_tail w @ rest" "[] \<notin> set pieces"
    and d: "digit_byte w d"
  shows "\<exists>ns f' ist'. framehead_feed mem link f ist (bf # pieces) = Some (ns, f', ist', rest) \<and> is_head f' c w \<and>
    list_all ((<) 0) ns"
proof -
  let ?k = "2 - length got"
  have sz: "5 - length got - ?k = 3" "2 \<le> 5 - length got + length got" "0 < ?k" using s(2) by simp_all
  have open_c: "may_open link c" using acc by (simp add: head_accepted_def)
  have drop: "drop ?k bf = bf'" using arg_cong [OF ps(1), of "drop 2"] s(2) by simp
  from read_head_arrived [OF mem s sz(2) f d open_c ps(1), of 0] obtain ist1 where
    r: "read_head mem link (f, ist, bf, 0) = Some (Go (opened c w, ist1, bf', ?k))" "head_stream mem ist1 [] 3"
    unfolding sz(1) by auto
  show ?thesis
  proof (cases "bf' = [] \<and> 128 \<le> w")
    case True
    then have b: "bf' = []" and w1: "128 \<le> w" by simp_all
    have must: "fh_read_2 (opened c w)" using w1 by (simp add: frame_defs)
    from read_digit_waits [where must = fh_read_2 and weight = 128 and onward = "\<lambda>f. Some (f\<lparr>fh_read_3 := True\<rparr>)"
        and n = ?k, OF mem r(2) must] obtain ist2 where
      r2: "read_digit mem fh_read_2 128 (\<lambda>f. Some (f\<lparr>fh_read_3 := True\<rparr>)) (opened c w, ist1, [], ?k) =
        Some (Wait (opened c w, ist2, [], ?k))" "head_stream mem ist2 [] 3" by blast
    have "framehead_consume mem link f ist bf = Some (int ?k, opened c w, ist2)"
      using r(1) r2(1) by (simp add: framehead_consume_def then_step_def read_remaining_length_def b)
    moreover have "\<not> fh_header_complete (opened c w)" by (simp add: frame_defs)
    moreover obtain ns f' ist' where
      "framehead_feed mem link (opened c w) ist2 pieces = Some (ns, f', ist', rest)" "is_head f' c w" "list_all ((<) 0) ns"
      using feed_second [OF mem w1 w r2(2) acc, of pieces rest] ps(2,3) b by auto
    ultimately show ?thesis using sz(3) by simp
  next
    case False
    obtain bf2 n f' ist' where go: "read_remaining_length mem (opened c w, ist1, bf', ?k) = Some (Go (f', ist', bf2, ?k + n))"
      "fh_command f' = unat (c AND 0xF0)" "fh_flags f' = unat (c AND 0x0F)" "fh_frame_length f' = w"
      "bf2 = drop n bf'" "bf2 @ concat pieces = rest"
    proof (cases "128 \<le> w")
      case True
      obtain e where e: "digits_tail w = [e]" by (rule digits_tail_one [OF True w])
      obtain bf2 where "bf' = digits_tail w @ bf2" "bf2 @ concat pieces = rest"
        using False True ps(2) e by (cases bf') auto
      note b = this
      from consume_second [OF mem True w r(2), of c bf2 ?k] obtain f' ist' where
        "read_remaining_length mem (opened c w, ist1, bf', ?k) = Some (Go (f', ist', bf2, ?k + 1))"
        "fh_command f' = unat (c AND 0xF0)" "fh_flags f' = unat (c AND 0x0F)" "fh_frame_length f' = w"
        unfolding b(1) by blast
      then show ?thesis by (rule that) (use b e in simp_all)
    next
      case False
      then have "digits_tail w = []" "w mod 128 = w" by (simp_all add: digits_tail_def)
      then show ?thesis
        using that [of "opened c w" ist1 bf' 0] False ps(2)
        by (simp add: read_remaining_length_def then_step_def read_digit_skips frame_defs)
    qed
    have "then_step (read_head mem link (f, ist, bf, 0)) (read_remaining_length mem) = Some (Go (f', ist', bf2, ?k + n))"
      using r(1) go(1) by (simp add: then_step_def)
    from go_consume [OF this go(2-4) acc] obtain f2 where
      one: "framehead_consume mem link f ist bf = Some (int (?k + n), f2, ist')" "is_head f2 c w" by blast
    have "drop (?k + n) bf = bf2" using drop go(5) by (metis add.commute drop_drop)
    then have "drop (nat (int (?k + n))) bf @ concat pieces = rest" using go(6) by (simp only: nat_int)
    moreover have "0 < int (?k + n)" using sz(3) by simp
    moreover have "fh_header_complete f2" using one(2) by (simp add: is_head_def)
    ultimately have "framehead_feed mem link f ist (bf # pieces) = Some ([int (?k + n)], f2, ist', rest)"
      using one(1) by (simp only: framehead_feed.simps option.case prod.case simp_thms if_True)
    then show ?thesis using one(2) sz(3) by auto
  qed
qed

lemma feed_head:
  assumes mem: "gbmem_ok mem" and w: "w < 16384" and acc: "head_accepted link c w"
    and f: "\<not> fh_busy f" "\<not> fh_header_complete f"
    and s: "head_stream mem ist [] 5"
    and ps: "concat pieces = head_bytes c w @ rest" "[] \<notin> set pieces"
  shows "\<exists>ns f' ist'. framehead_feed mem link f ist pieces = Some (ns, f', ist', rest) \<and> is_head f' c w \<and>
    list_all ((<) 0) ns"
proof -
  obtain d where d: "digit_byte w d" "head_bytes c w = [c, d] @ digits_tail w"
    unfolding head_bytes_def digits_tail_def using enc_varint_digits [of w] by auto
  obtain bf pieces' where p: "pieces = bf # pieces'" "bf \<noteq> []" "[] \<notin> set pieces'"
    using ps by (cases pieces) (auto simp: head_bytes_def)
  show ?thesis
  proof (cases "length bf = 1")
    case True
    then have bf: "bf = [c]" "concat pieces' = [d] @ digits_tail w @ rest"
      using ps(1) p(1) d(2) by (auto simp: length_Suc_conv)
    obtain bf2 pieces2 where p2: "pieces' = bf2 # pieces2" "bf2 \<noteq> []" "[] \<notin> set pieces2"
      using bf(2) p(3) by (cases pieces') auto
    then obtain bf3 where b3: "bf2 = d # bf3" "bf3 @ concat pieces2 = digits_tail w @ rest"
      using bf(2) by (cases bf2) auto
    from frame_read_waits [OF mem s, of "[c]" 2] obtain ist1 where
      r: "frame_read mem 2 ist [c] = Some (1, ist1, [], None)" "head_stream mem ist1 [c] (5 - length [c])" by auto
    have one: "framehead_consume mem link f ist [c] = Some (1, f, ist1)"
      using f r(1) by (simp add: framehead_consume_def then_step_def read_head_def)
    have "[c] @ bf2 = [c, d] @ bf3" using b3(1) by simp
    from feed_first [OF mem w acc f(1) r(2) _ this b3(2) p2(3) d(1)] obtain ns f' ist' where
      "framehead_feed mem link f ist1 pieces' = Some (ns, f', ist', rest)" "is_head f' c w" "list_all ((<) 0) ns"
      unfolding p2(1) by auto
    then show ?thesis using one f(2) p(1) bf(1) by simp
  next
    case False
    then obtain x y bf' where b0: "bf = x # y # bf'" using p(2) by (metis length_Cons list.exhaust list.size(3) One_nat_def)
    then have b: "bf = [c, d] @ bf'" "bf' @ concat pieces' = digits_tail w @ rest"
      using ps(1) p(1) d(2) by simp_all
    from feed_first [OF mem w acc f(1), of ist "[]" bf d bf' pieces' rest] s b p(3) d(1) show ?thesis
      by (simp add: p(1))
  qed
qed

text \<open>
  The flags stay set while the head is incomplete, so that a head of more than two digits is read wrong
  when its third byte ends a piece: the next byte is taken for the second digit again.
\<close>

lemma consume_first_three:
  assumes mem: "gbmem_ok mem" and w: "16384 \<le> w" and c: "may_open link c" and f: "\<not> fh_busy f"
    and s: "head_stream mem ist [] 5" and d: "digit_byte w d" and e: "digits_tail w = e # digits_tail (w div 128)"
  shows "\<exists>ist'. framehead_consume mem link f ist [c, d, e] = Some (3, second c w, ist') \<and> head_stream mem ist' [] 2"
proof -
  have w1: "128 \<le> w" "128 \<le> w div 128" using w by simp_all
  have dd: "digit_byte (w div 128) e"
    using digits_tail_next [OF w1(1)] e by auto
  from read_head_arrived [OF mem s _ _ f d c, of "[c, d, e]" "[e]" 0] obtain ist1 where r1:
    "read_head mem link (f, ist, [c, d, e], 0) = Some (Go (opened c w, ist1, [e], 2))" "head_stream mem ist1 [] 3"
    by auto
  have must: "fh_read_2 (opened c w)" using w1 by (simp add: frame_defs)
  from read_digit_arrived [where must = fh_read_2 and weight = 128 and onward = "\<lambda>f. Some (f\<lparr>fh_read_3 := True\<rparr>)"
      and n = 2 and bf = "[]", OF mem r1(2) _ must dd] w1(2) obtain ist2 where r2:
    "read_digit mem fh_read_2 128 (\<lambda>f. Some (f\<lparr>fh_read_3 := True\<rparr>)) (opened c w, ist1, [e], 2) =
      Some (Go (second c w, ist2, [], 3))" "head_stream mem ist2 [] 2"
    by (auto simp: frame_defs)
  have must3: "fh_read_3 (second c w)" using w1 by (simp add: frame_defs)
  from read_digit_waits [where must = fh_read_3 and weight = "128 * 128"
      and onward = "\<lambda>f. Some (f\<lparr>fh_read_4 := True\<rparr>)" and n = 3, OF mem r2(2) must3] obtain ist3 where
    "read_digit mem fh_read_3 (128 * 128) (\<lambda>f. Some (f\<lparr>fh_read_4 := True\<rparr>)) (second c w, ist2, [], 3) =
      Some (Wait (second c w, ist3, [], 3))" "head_stream mem ist3 [] 2" by blast
  then show ?thesis
    using r1(1) r2(1) by (intro exI [of _ ist3]) (simp only: framehead_consume_def then_step_def
        read_remaining_length_def head_step.case option.case prod.case, simp)
qed

text \<open>Another byte for a frame whose flags for the second and the third digit are set.\<close>

lemma reread_second:
  assumes mem: "gbmem_ok mem" and s: "head_stream mem ist [] room" "1 \<le> room" and d: "digit_byte v d"
    and f: "fh_busy f" "fh_read_2 f" "fh_read_3 f"
  shows "\<exists>ist'. then_step (read_head mem link (f, ist, d # bf, 0)) (read_remaining_length mem) =
      then_step (read_digit mem fh_read_3 (128 * 128) (\<lambda>f. Some (f\<lparr>fh_read_4 := True\<rparr>))
        (take_digit 128 f v, ist', bf, 1)) (read_digit mem fh_read_4 (128 * 128 * 128) (\<lambda>f. None)) \<and>
    head_stream mem ist' [] (room - 1)"
proof -
  have same: "f\<lparr>fh_frame_length := n, fh_read_3 := True\<rparr> = f\<lparr>fh_frame_length := n\<rparr>" for n
    using f(3) by (cases f) simp
  have upd: "(take_digit 128 f v)\<lparr>fh_read_3 := True\<rparr> = take_digit 128 f v" by (simp add: take_digit_def same)
  from read_digit_arrived [where must = fh_read_2 and weight = 128 and onward = "\<lambda>f. Some (f\<lparr>fh_read_3 := True\<rparr>)"
      and n = 0 and bf = bf, OF mem s f(2) d] obtain ist' where
    "read_digit mem fh_read_2 128 (\<lambda>f. Some (f\<lparr>fh_read_3 := True\<rparr>)) (f, ist, d # bf, 0) =
      Some (Go (take_digit 128 f v, ist', bf, 1))" "head_stream mem ist' [] (room - 1)"
    by (auto simp: upd)
  then show ?thesis using f(1) by (auto simp: read_head_def then_step_def read_remaining_length_def)
qed

lemma reread_waits:
  assumes mem: "gbmem_ok mem" and s: "head_stream mem ist [] room" "1 \<le> room" and d: "digit_byte v d"
    and f: "fh_busy f" "fh_read_2 f" "fh_read_3 f"
  shows "\<exists>ist'. framehead_consume mem link f ist [d] = Some (1, take_digit 128 f v, ist') \<and>
    head_stream mem ist' [] (room - 1)"
proof -
  from reread_second [OF mem s d f, of link "[]"] obtain ist1 where r:
    "then_step (read_head mem link (f, ist, [d], 0)) (read_remaining_length mem) =
      then_step (read_digit mem fh_read_3 (128 * 128) (\<lambda>f. Some (f\<lparr>fh_read_4 := True\<rparr>))
        (take_digit 128 f v, ist1, [], 1)) (read_digit mem fh_read_4 (128 * 128 * 128) (\<lambda>f. None))"
    "head_stream mem ist1 [] (room - 1)" by blast
  have "fh_read_3 (take_digit 128 f v)" using f(3) by (simp add: take_digit_def)
  from read_digit_waits [where must = fh_read_3 and weight = "128 * 128"
      and onward = "\<lambda>f. Some (f\<lparr>fh_read_4 := True\<rparr>)" and n = 1, OF mem r(2) this] obtain ist2 where
    "read_digit mem fh_read_3 (128 * 128) (\<lambda>f. Some (f\<lparr>fh_read_4 := True\<rparr>)) (take_digit 128 f v, ist1, [], 1) =
      Some (Wait (take_digit 128 f v, ist2, [], 1))" "head_stream mem ist2 [] (room - 1)" by blast
  then show ?thesis
    unfolding framehead_consume_def r(1) by (intro exI [of _ ist2]) (simp add: then_step_def)
qed

lemma reread_full:
  assumes mem: "gbmem_ok mem" and s: "head_stream mem ist [] 0" and f: "fh_busy f" "fh_read_2 f"
  shows "framehead_consume mem link f ist (p # bf) = None"
  using frame_read_full [OF mem s, of "p # bf"] f
  by (simp add: framehead_consume_def then_step_def read_head_def read_remaining_length_def read_digit_def)

lemma head_cut_crashes:
  assumes mem: "gbmem_ok mem" and w: "2 ^ 21 \<le> w" "w < 2 ^ 28" and c: "may_open link c"
    and f: "\<not> fh_busy f" and s: "head_stream mem ist [] 5" and ds: "enc_varint w = [d1, d2, d3, d4]"
  shows "framehead_feed mem link f ist [[c, d1, d2], [d3], [d4], [p]] = None"
proof -
  have w1: "128 \<le> w" "128 \<le> w div 128" "128 \<le> w div 128 div 128"
    using w(1) by (simp_all add: div_mult2_eq [symmetric] less_eq_div_iff_mult_less_eq)
  obtain d where d: "digit_byte w d" "enc_varint w = d # digits_tail w"
    unfolding digits_tail_def by (rule enc_varint_digits)
  obtain e where e: "digit_byte (w div 128) e" "digits_tail w = e # digits_tail (w div 128)"
    by (rule digits_tail_next [OF w1(1)])
  obtain g where g: "digit_byte (w div 128 div 128) g" "digits_tail (w div 128) = g # digits_tail (w div 128 div 128)"
    by (rule digits_tail_next [OF w1(2)])
  obtain h where h: "digit_byte (w div 128 div 128 div 128) h"
      "digits_tail (w div 128 div 128) = h # digits_tail (w div 128 div 128 div 128)"
    by (rule digits_tail_next [OF w1(3)])
  have b: "d1 = d" "d2 = e" "d3 = g" "d4 = h" using ds d(2) e(2) g(2) h(2) by simp_all
  let ?v = "w div 128 div 128"
  from consume_first_three [OF mem _ c f s d(1) e(2)] w(1) obtain ist1 where c1:
    "framehead_consume mem link f ist [c, d, e] = Some (3, second c w, ist1)" "head_stream mem ist1 [] 2" by auto
  have flags: "fh_busy (second c w)" "fh_read_2 (second c w)" "fh_read_3 (second c w)" "\<not> fh_header_complete (second c w)"
    using w1 by (simp_all add: frame_defs)
  from reread_waits [OF mem c1(2) _ g(1) flags(1-3)] obtain ist2 where c2:
    "framehead_consume mem link (second c w) ist1 [g] = Some (1, take_digit 128 (second c w) ?v, ist2)"
    "head_stream mem ist2 [] 1" by auto
  let ?f = "take_digit 128 (second c w) ?v"
  have flags2: "fh_busy ?f" "fh_read_2 ?f" "fh_read_3 ?f" "\<not> fh_header_complete ?f"
    using flags by (simp_all add: take_digit_def)
  from reread_waits [OF mem c2(2) _ h(1) flags2(1-3)] obtain ist3 where c3:
    "framehead_consume mem link ?f ist2 [h] = Some (1, take_digit 128 ?f (?v div 128), ist3)"
    "head_stream mem ist3 [] 0" by auto
  let ?f' = "take_digit 128 ?f (?v div 128)"
  have flags3: "fh_busy ?f'" "fh_read_2 ?f'" "\<not> fh_header_complete ?f'" using flags2 by (simp_all add: take_digit_def)
  from reread_full [OF mem c3(2) flags3(1,2)] show ?thesis
    using c1(1) c2(1) c3(1) flags(4) flags2(4) flags3(3) unfolding b by simp
qed

lemma head_cut_misread:
  assumes mem: "gbmem_ok mem" and w: "16384 \<le> w" "w < 2 ^ 21" and c: "may_open link c"
    and f: "\<not> fh_busy f" and s: "head_stream mem ist [] 5" and ds: "enc_varint w = [d1, d2, d3]"
    and p: "unat p < 128"
  shows "\<exists>n f' ist'. framehead_feed mem link f ist [[c, d1, d2], d3 # p # rest] = Some ([3, n], f', ist', drop (nat n) (d3 # p # rest)) \<and>
    fh_header_complete f' \<and>
    fh_frame_length f' = w mod 16384 + 128 * (w div 16384) + 16384 * unat p"
proof -
  have w1: "128 \<le> w" "128 \<le> w div 128" using w(1) by simp_all
  have w2: "w div 128 div 128 < 128" using w(2) by (simp add: div_mult2_eq [symmetric] div_less_iff_less_mult)
  obtain d where d: "digit_byte w d" "enc_varint w = d # digits_tail w"
    unfolding digits_tail_def by (rule enc_varint_digits)
  obtain e where e: "digit_byte (w div 128) e" "digits_tail w = e # digits_tail (w div 128)"
    by (rule digits_tail_next [OF w1(1)])
  obtain g where g: "digit_byte (w div 128 div 128) g" "digits_tail (w div 128) = g # digits_tail (w div 128 div 128)"
    by (rule digits_tail_next [OF w1(2)])
  have b: "d1 = d" "d2 = e" "d3 = g" using ds d(2) e(2) g(2) by simp_all
  let ?v = "w div 128 div 128"
  from consume_first_three [OF mem w(1) c f s d(1) e(2)] obtain ist1 where c1:
    "framehead_consume mem link f ist [c, d, e] = Some (3, second c w, ist1)" "head_stream mem ist1 [] 2" by auto
  have flags: "fh_busy (second c w)" "fh_read_2 (second c w)" "fh_read_3 (second c w)" "\<not> fh_header_complete (second c w)"
    "\<not> fh_read_4 (second c w)"
    using w1 by (simp_all add: frame_defs)
  from reread_second [OF mem c1(2) _ g(1) flags(1-3), of link "p # rest"] obtain ist2 where r:
    "then_step (read_head mem link (second c w, ist1, g # p # rest, 0)) (read_remaining_length mem) =
      then_step (read_digit mem fh_read_3 (128 * 128) (\<lambda>f. Some (f\<lparr>fh_read_4 := True\<rparr>))
        (take_digit 128 (second c w) ?v, ist2, p # rest, 1)) (read_digit mem fh_read_4 (128 * 128 * 128) (\<lambda>f. None))"
    "head_stream mem ist2 [] 1" by auto
  let ?f = "take_digit 128 (second c w) ?v"
  have flags2: "fh_read_3 ?f" "\<not> fh_read_4 ?f" using flags by (simp_all add: take_digit_def)
  have pd: "digit_byte (unat p) p" using p unat_low_bits(1) [of p] unat_top_bit [of p] by (simp add: digit_byte_def)
  from read_digit_arrived [where must = fh_read_3 and weight = "128 * 128"
      and onward = "\<lambda>f. Some (f\<lparr>fh_read_4 := True\<rparr>)" and n = 1 and bf = rest, OF mem r(2) _ flags2(1) pd] p
  obtain ist3 where r3: "read_digit mem fh_read_3 (128 * 128) (\<lambda>f. Some (f\<lparr>fh_read_4 := True\<rparr>)) (?f, ist2, p # rest, 1) =
      Some (Go (take_digit (128 * 128) ?f (unat p), ist3, rest, 2))" by auto
  let ?f' = "take_digit (128 * 128) ?f (unat p)"
  have "\<not> fh_read_4 ?f'" using flags2 by (simp add: take_digit_def)
  then have r4: "then_step (read_head mem link (second c w, ist1, g # p # rest, 0)) (read_remaining_length mem) =
      Some (Go (?f', ist3, rest, 2))"
    unfolding r(1) using r3 by (simp add: then_step_def read_digit_skips)
  have len: "fh_frame_length ?f' = w mod 16384 + 128 * (w div 16384) + 16384 * unat p"
  proof -
    have "w mod 16384 = w mod 128 + 128 * (w div 128 mod 128)" using mod_mult2_eq [of w 128 128] by simp
    moreover have "?v = w div 16384" by (simp add: div_mult2_eq [symmetric])
    ultimately show ?thesis using p w2 by (simp add: take_digit_def second_def)
  qed
  obtain n where "framehead_consume mem link (second c w) ist1 (g # p # rest) =
      Some (n, ?f'\<lparr>fh_header_complete := True\<rparr>, ist3)"
    unfolding framehead_consume_def r4 by (simp add: Let_def)
  then show ?thesis using c1(1) flags(4) len unfolding b by simp
qed

section \<open>The head a sender builds\<close>

lemma remaining_digits_enc: "0 < n \<Longrightarrow> w < 128 ^ n \<Longrightarrow> map word_of_nat (remaining_digits n w) = enc_varint w"
proof (induction n arbitrary: w)
  case (Suc n)
  show ?case
  proof (cases "w div 128 > 0")
    case True
    have q: "w div 128 < 128 ^ n" using Suc.prems(2) by (simp add: less_mult_imp_div_less mult.commute)
    then have "0 < n" using True by (cases n) auto
    then show ?thesis using Suc.IH [OF _ q] True enc_varint.simps [of w] by simp
  next
    case False
    then show ?thesis using enc_varint.simps [of w] by simp
  qed
qed simp

lemma append_chars_fits:
  assumes "gbmem_ok mem"
  shows "gb_ok mem b \<Longrightarrow> length cs \<le> gb_data_size b - gb_tail b \<Longrightarrow>
    \<exists>b'. append_chars mem b cs = Some b' \<and> gb_ok mem b' \<and> unread b' = unread b @ map word_of_nat cs \<and>
      gb_tail b' = gb_tail b + length cs \<and> gb_data_size b' = gb_data_size b"
proof (induction cs arbitrary: b)
  case (Cons c cs)
  have "length [word_of_nat c :: byte] \<le> gb_data_size b - gb_tail b" using Cons.prems(2) by simp
  from gbuffer_append_fits [OF assms Cons.prems(1) this] obtain b1 where b1:
    "gbuffer_append_char mem b (word_of_nat c) = Some (1, b1)" "gb_ok mem b1"
    "unread b1 = unread b @ [word_of_nat c]" "gb_tail b1 = gb_tail b + 1" "gb_data_size b1 = gb_data_size b"
    by (auto simp: gbuffer_append_char_def)
  have "length cs \<le> gb_data_size b1 - gb_tail b1" using Cons.prems(2) b1(4,5) by simp
  from Cons.IH [OF b1(2) this] b1 show ?case by auto
qed simp

lemma build_packet_head:
  assumes mem: "gbmem_ok mem" and w: "w < 2 ^ 28" and room: "w + 6 < max_block mem"
  shows "\<exists>b. build_mqtt_packet mem command w = Some (Some b) \<and> gb_ok mem b \<and>
    unread b = head_bytes (word_of_nat command) w \<and> gb_data_size b = gb_tail b + w"
proof -
  have enc: "map word_of_nat (remaining_digits 5 w) = enc_varint w" using w by (intro remaining_digits_enc) simp_all
  then have len: "length (remaining_digits 5 w) = length (enc_varint w)" by (metis length_map)
  also have "\<dots> = packet__varint_bytes w" by (rule length_enc_varint [OF w])
  finally have k: "length (remaining_digits 5 w) = packet__varint_bytes w" .
  have k4: "packet__varint_bytes w \<le> 4" using w by (simp add: packet__varint_bytes_def)
  let ?n = "w + 1 + packet__varint_bytes w"
  have n: "cuint 32 (int ?n) = ?n" using w k4 by (simp add: cuint_def)
  have small: "?n < max_block mem" using room k4 by simp
  obtain b0 where b0: "gbuffer_create mem ?n ?n = Some b0"
    using gbuffer_create_some [OF mem small, of ?n] by blast
  have "?n < size_t_mod" using w k4 by (simp add: size_t_mod_def)
  note c = gbuffer_create_ok [OF mem b0 this]
  from append_chars_fits [OF mem c(1), of "command # remaining_digits 5 w"] k c(6,8) obtain b where b:
    "append_chars mem b0 (command # remaining_digits 5 w) = Some b" "gb_ok mem b"
    "unread b = unread b0 @ map word_of_nat (command # remaining_digits 5 w)"
    "gb_tail b = gb_tail b0 + length (command # remaining_digits 5 w)" "gb_data_size b = gb_data_size b0"
    by auto
  have "build_mqtt_packet mem command w = Some (Some b)"
    using k k4 n b0 b(1) by (simp add: build_mqtt_packet_def Let_def)
  then show ?thesis using b c(3,6,8) k enc by (intro exI [of _ b]) (simp add: head_bytes_def)
qed

lemma start_wait_stream:
  assumes "head_stream mem ist got room"
  shows "\<exists>ist'. start_wait_frame_header ist = Some (frame_zero, ist') \<and> head_stream mem ist' [] 5"
proof -
  obtain g where g: "ist_gbuf ist = Some g" "gb_ok mem g" "gb_data_size g = 5" "gb_max_memory_size g = 5"
    using assms by (auto simp: head_stream_def)
  let ?g = "g\<lparr>gb_tail := 0, gb_curp := 0, gb_data := (gb_data g)[0 := 0]\<rparr>"
  have "gbuffer_reset_wr g = Some ?g" using g(2) by (simp add: gbuffer_reset_wr_def poke_def gb_ok_def)
  then have "start_wait_frame_header ist = Some (frame_zero, ist\<lparr>ist_gbuf := Some ?g\<rparr>)"
    using g(1) by (simp add: start_wait_frame_header_def istream_reset_wr_def)
  moreover have "head_stream mem (ist\<lparr>ist_gbuf := Some ?g\<rparr>) [] 5"
    using g by (simp add: head_stream_def gb_ok_def unread_def content_def)
  ultimately show ?thesis by blast
qed

lemma istream_create_head_stream:
  assumes "gbmem_ok mem" "istream_create mem 5 5 = Some ist"
  shows "head_stream mem ist [] 5"
proof -
  obtain g where g: "gbuffer_create mem 5 5 = Some g" "ist_gbuf ist = Some g"
    using assms(2) by (auto simp: istream_create_def split: option.splits)
  have "gb_max_memory_size g = 5" using g(1) by (auto simp: gbuffer_create_def split: option.splits if_splits)
  then show ?thesis
    using gbuffer_create_ok [OF assms(1) g(1)] g(2) by (simp add: head_stream_def size_t_mod_def)
qed

text \<open>A packet that is sent is recognised by the receiver: its command, its flags and its length.\<close>

lemma packet_head_recognised:
  assumes mem: "gbmem_ok mem" and w: "w < 2 ^ 28" "w + 6 < max_block mem"
    and s: "head_stream mem' ist [] 5" and mem': "gbmem_ok mem'" and f: "\<not> fh_busy f"
    and acc: "head_accepted link (word_of_nat command) w"
  shows "\<exists>b f' ist'. build_mqtt_packet mem command w = Some (Some b) \<and>
    framehead_consume mem' link f ist (unread b @ payload) = Some (int (length (unread b)), f', ist') \<and>
    is_head f' (word_of_nat command) w"
proof -
  obtain b where b: "build_mqtt_packet mem command w = Some (Some b)" "unread b = head_bytes (word_of_nat command) w"
    using build_packet_head [OF mem w, of command] by blast
  have "may_open link (word_of_nat command)" using acc by (simp add: head_accepted_def)
  from head_whole [OF mem' w(1) s f this, of payload] obtain f' ist' where
    "framehead_consume mem' link f ist (head_bytes (word_of_nat command) w @ payload) =
      Some (if frame_ok link f' then int (length (head_bytes (word_of_nat command) w)) else -1, f', ist')"
    "is_head f' (word_of_nat command) w" by blast
  then show ?thesis using b head_accepted_ok [OF acc, of f'] by auto
qed

end
