(* ===== verification/Protocol_Properties.thy ===== *)
theory Protocol_Properties
  imports Data_Properties Demo_System Mqtt_Properties Mqtt_Frame
begin

text \<open>
  The main properties of input streams and of the MQTT protocol, on the definitions of \<open>IStream\<close>,
  \<open>Mqtt_Text\<close>, \<open>Mqtt_Codec\<close> and \<open>Mqtt_Frame\<close>.
\<close>

section \<open>Examples\<close>

definition demo_stream :: istream where
  "demo_stream = the (istream_create demo_mem 5 5)"

definition demo_link :: mqtt_link where
  "demo_link = \<lparr>ml_in_session = False, ml_iamServer = True, ml_max_packet_size = 0\<rparr>"

lemma demo_head_stream: "head_stream demo_mem demo_stream [] 5"
proof -
  obtain g where "gbuffer_create demo_mem 5 5 = Some g"
    using gbuffer_create_some [OF demo_buf_ok(1), of 5 5] by (auto simp: demo_mem_def)
  then have "istream_create demo_mem 5 5 = Some demo_stream"
    by (simp add: demo_stream_def istream_create_def gbmem_malloc_def sizeof_istream_def demo_mem_def)
  then show ?thesis by (rule istream_create_head_stream [OF demo_buf_ok(1)])
qed

text \<open>A \<open>CONNECT\<close> may come first.\<close>

lemma demo_accepted: "head_accepted demo_link 0x10 300" "head_accepted demo_link 0x10 40000"
  by (simp_all add: head_accepted_def may_open_def frame_ok_def frame_defs cmd_defs demo_link_def)


section \<open>Input streams\<close>

text \<open>C30: A stream that waits for n bytes completes as soon as n bytes have arrived, in whatever pieces they
  come: it then holds exactly the first n, and what came after them is left over in order; until then it
  holds everything.\<close>

theorem input_stream_completes:
  assumes "gbmem_ok mem" "waiting mem ist n []" "\<not> ist_completed ist" "[] \<notin> set pieces"
  shows "\<exists>ist' gbuf. istream_feed mem ist pieces = Some (ist', drop n (concat pieces)) \<and>
    ist_gbuf ist' = Some gbuf \<and> unread gbuf = take n (concat pieces) \<and>
    (istream_is_completed (Some ist') \<longleftrightarrow> n \<le> length (concat pieces))"
proof -
  have "0 < n" using assms(2) by (simp add: waiting_def)
  with feed_waiting [OF assms(1-3) _ assms(4)] show ?thesis
    by (auto simp: istream_is_completed_def)
qed

theorem input_stream_completes_witness:
  "\<exists>ist' gbuf. istream_feed demo_mem (snd (istream_read_until_num_bytes demo_stream 3 None)) [[1, 2], [3, 4], [5]] =
      Some (ist', [4, 5]) \<and>
    ist_gbuf ist' = Some gbuf \<and> unread gbuf = [1, 2, 3] \<and> istream_is_completed (Some ist')"
proof -
  have "waiting demo_mem (snd (istream_read_until_num_bytes demo_stream 3 None)) 3 []"
    using demo_head_stream by (auto simp: waiting_def istream_read_until_num_bytes_def head_stream_def)
  from input_stream_completes [OF demo_buf_ok(1) this, of "[[1, 2], [3, 4], [5]]"] show ?thesis
    by (simp add: istream_read_until_num_bytes_def)
qed

section \<open>Texts and topics\<close>



text \<open>C32: The check of a subscription accepts exactly the filters of the standard: not empty, at most 65535
  bytes, at most 200 separators, and each level is plain, a single plus sign, or, at the end, a single
  number sign.\<close>

theorem subscription_check_decides_filter:
  assumes "CHR 0x00 \<notin> set s"
  shows "mqtt_sub_topic_check2 (Some s) = 0 \<longleftrightarrow> s \<noteq> [] \<and> length s \<le> 65535 \<and>
    length (topic_levels s) \<le> Suc TOPIC_HIERARCHY_LIMIT \<and> filter_levels_ok (topic_levels s)"
  using assms by (rule sub_topic_iff)

theorem subscription_check_decides_filter_witness:
  "mqtt_sub_topic_check2 (Some ''a/+/#'') = 0 \<and> mqtt_sub_topic_check2 (Some ''a/#/b'') \<noteq> 0"
proof -
  have n: "CHR 0x00 \<notin> set ''a/+/#''" "CHR 0x00 \<notin> set ''a/#/b''" by simp_all
  show ?thesis
    unfolding subscription_check_decides_filter [OF n(1)] subscription_check_decides_filter [OF n(2)]
    by (simp add: plain_level_def TOPIC_HIERARCHY_LIMIT_def)
qed

section \<open>Packets\<close>

text \<open>C26: A list of properties that may stand in a packet, written with its length into an empty buffer with
  room for it, is read back: every property under its name, with its identifier, type and value, and
  nothing is left over.\<close>

theorem written_properties_are_read:
  assumes "good_properties mem lc command ps" "gb_ok mem b" "unread b = []"
    "length (enc_properties mem ps) \<le> gb_data_size b - gb_tail b"
  shows "\<exists>b1 b2. property__write_all mem lc b (Some (JObject ps)) True = Some (0, b1) \<and>
    property_read_all mem lc command b1 = Some (Inr (properties_object ps), b2) \<and> unread b2 = []"
  using assms by (rule properties_codec.round_trip)

definition demo_properties :: "(string \<times> json) list" where
  "demo_properties = [(''receive-maximum'', JInt 20), (''session-expiry-interval'', JInt 3600), (''reason-string'', JString ''ok'')]"

lemma demo_text: "utf8_text (map byte_of_char ''ok'')"
  unfolding utf8_text_def by (rule exI [of _ "[111, 107]"]) (simp add: text_char_def utf8_def)

lemma demo_infos:
  "mosquitto_string_to_property_info (Some ''receive-maximum'') = Some (33, 2)"
  "mosquitto_string_to_property_info (Some ''session-expiry-interval'') = Some (17, 3)"
  "mosquitto_string_to_property_info (Some ''reason-string'') = Some (31, 6)"
  "mqtt_property_identifier_to_string 33 = Some ''receive-maximum''"
  "mqtt_property_identifier_to_string 17 = Some ''session-expiry-interval''"
  "mqtt_property_identifier_to_string 31 = Some ''reason-string''"
  by code_simp+

lemma demo_properties_bytes: "properties_bytes demo_mem demo_properties =
    Some (enc_varint 33 @ enc16 20 @ enc_varint 17 @ enc32 3600 @ enc_varint 31 @ enc_bytes (map byte_of_char ''ok''))"
  using demo_text
  by (simp add: demo_properties_def property_bytes_def demo_infos value_bytes_def prop_groups int_bytes_def
      string_bytes_def del: list.map)

lemma demo_properties_good: "good_properties demo_mem demo_libc CMD_CONNACK demo_properties"
proof -
  have "mqtt_property_check_all demo_libc CMD_CONNACK (properties_object demo_properties) = 0"
    by code_simp
  then show ?thesis
    unfolding good_properties_def demo_properties_bytes
    using demo_buf_ok(1) by (simp add: demo_properties_def small_varint enc_bytes_def)
qed

definition demo_packet :: gbuffer where
  "demo_packet = the (gbuffer_create demo_mem 100 100)"

lemma demo_packet: "gb_ok demo_mem demo_packet" "unread demo_packet = []" "gb_data_size demo_packet = 100" "gb_tail demo_packet = 0"
proof -
  obtain b where b: "gbuffer_create demo_mem 100 100 = Some b"
    using gbuffer_create_some [OF demo_buf_ok(1), of 100 100] by (auto simp: demo_mem_def)
  from gbuffer_create_ok [OF demo_buf_ok(1) b] show "gb_ok demo_mem demo_packet" "unread demo_packet = []"
    "gb_data_size demo_packet = 100" "gb_tail demo_packet = 0"
    by (simp_all add: demo_packet_def b size_t_mod_def)
qed

theorem written_properties_are_read_witness:
  "\<exists>b1 b2. property__write_all demo_mem demo_libc demo_packet (Some (JObject demo_properties)) True = Some (0, b1) \<and>
    property_read_all demo_mem demo_libc CMD_CONNACK b1 = Some (Inr (properties_object demo_properties), b2) \<and> unread b2 = []"
proof (rule written_properties_are_read [OF demo_properties_good demo_packet(1,2)])
  show "length (enc_properties demo_mem demo_properties) \<le> gb_data_size demo_packet - gb_tail demo_packet"
    by (simp add: enc_properties_def packet_properties_def demo_properties_bytes demo_packet small_varint enc_bytes_def)
qed

text \<open>C27: The head of a packet that is built is recognised by the peer when it arrives whole: it takes exactly
  the bytes of the head, whatever follows, and has the command, the flags and the length of the packet.\<close>

theorem built_head_is_recognised:
  assumes "gbmem_ok mem" "w < 2 ^ 28" "w + 6 < max_block mem" "head_stream mem' ist [] 5" "gbmem_ok mem'"
    "\<not> fh_busy f" "head_accepted link (word_of_nat command) w"
  shows "\<exists>b f' ist'. build_mqtt_packet mem command w = Some (Some b) \<and>
    framehead_consume mem' link f ist (unread b @ payload) = Some (int (length (unread b)), f', ist') \<and>
    is_head f' (word_of_nat command) w"
  using assms by (rule packet_head_recognised)

theorem built_head_is_recognised_witness:
  "\<exists>b f' ist'. build_mqtt_packet demo_mem 0x10 300 = Some (Some b) \<and>
    framehead_consume demo_mem demo_link frame_zero demo_stream (unread b @ [7, 8]) = Some (int (length (unread b)), f', ist') \<and>
    is_head f' 0x10 300"
proof -
  have "\<not> fh_busy frame_zero" by (simp add: frame_zero_def)
  from built_head_is_recognised [where w = 300 and command = 16 and payload = "[7, 8]",
      OF demo_buf_ok(1) _ _ demo_head_stream demo_buf_ok(1) this] demo_accepted(1)
  show ?thesis by (simp add: demo_mem_def)
qed

text \<open>C28: A head with a remaining length below 16384 is recognised in whatever pieces it arrives, as soon as it
  is complete: no call fails, and the bytes after the head are left over in order.\<close>

theorem short_head_is_recognised_in_pieces:
  assumes "gbmem_ok mem" "w < 16384" "head_accepted link c w" "\<not> fh_busy f" "\<not> fh_header_complete f"
    "head_stream mem ist [] 5" "concat pieces = head_bytes c w @ rest" "[] \<notin> set pieces"
  shows "\<exists>ns f' ist'. framehead_feed mem link f ist pieces = Some (ns, f', ist', rest) \<and> is_head f' c w \<and>
    list_all ((<) 0) ns"
  using assms by (rule feed_head)

theorem short_head_is_recognised_in_pieces_witness:
  "\<exists>ns f' ist'. framehead_feed demo_mem demo_link frame_zero demo_stream [[0x10], [0xAC], [0x02, 7], [8]] =
      Some (ns, f', ist', [7, 8]) \<and> is_head f' 0x10 300"
proof -
  have "concat [[0x10], [0xAC], [0x02, 7], [8]] = head_bytes 0x10 300 @ [7, 8]"
    by (simp add: head_bytes_def enc_varint.simps varint_digit_value)
  from short_head_is_recognised_in_pieces [where f = frame_zero, OF demo_buf_ok(1) _ demo_accepted(1) _ _ demo_head_stream this]
  have "\<exists>ns f' ist'. framehead_feed demo_mem demo_link frame_zero demo_stream [[0x10], [0xAC], [0x02, 7], [8]] =
      Some (ns, f', ist', [7, 8]) \<and> is_head f' 0x10 300 \<and> list_all ((<) 0) ns"
    by (simp add: frame_zero_def del: framehead_feed.simps)
  then show ?thesis by blast
qed

text \<open>C29: A head with a remaining length of 2 MiB or more whose third, fourth and fifth byte each end a piece
  makes the next byte of the connection a read through a null pointer: the flag of the second digit stays
  set, each piece is taken for that digit again, and the buffer of five bytes is full. A server that waits
  for the first \<open>CONNECT\<close> is no exception.\<close>

theorem long_head_in_pieces_crashes:
  assumes "gbmem_ok mem" "2 ^ 21 \<le> w" "w < 2 ^ 28" "may_open link c" "\<not> fh_busy f" "head_stream mem ist [] 5"
    "enc_varint w = [d1, d2, d3, d4]"
  shows "framehead_feed mem link f ist [[c, d1, d2], [d3], [d4], [p]] = None"
  using assms by (rule head_cut_crashes)

theorem long_head_in_pieces_crashes_witness:
  "framehead_feed demo_mem demo_link frame_zero demo_stream [[0x10, 0x80, 0x80], [0x80], [0x01], [0]] = None"
proof (rule long_head_in_pieces_crashes [OF demo_buf_ok(1) _ _ _ _ demo_head_stream, of "2 ^ 21"])
  show "enc_varint (2 ^ 21) = [0x80, 0x80, 0x80, 0x01]" by (simp add: enc_varint.simps varint_digit_value)
qed (simp_all add: may_open_def demo_link_def cmd_defs frame_zero_def)

end
