(* ===== verification/Tranger_Md.thy ===== *)
theory Tranger_Md
  imports KwId
begin

text \<open>
  The rows of a time-series topic (\<^verbatim>\<open>src/kernel/c/timeranger2/src/timeranger2.c\<close>): the 32 bytes that
  stand for a record in a \<^verbatim>\<open>.md2\<close> file, with its times and two flags packed in two words, the flags of
  a topic and their names, and the names of the files a record goes to.
\<close>

unbundle bit_operations_syntax

section \<open>The flags\<close>

abbreviation (input) sf_string_key :: "16 word" where "sf_string_key \<equiv> 0x0001"
abbreviation (input) sf_rowid_key :: "16 word" where "sf_rowid_key \<equiv> 0x0002"
abbreviation (input) sf_int_key :: "16 word" where "sf_int_key \<equiv> 0x0004"
abbreviation (input) sf_t_ms :: "16 word" where "sf_t_ms \<equiv> 0x0100"
abbreviation (input) sf_tm_ms :: "16 word" where "sf_tm_ms \<equiv> 0x0200"
abbreviation (input) sf_deleted_instance :: "16 word" where "sf_deleted_instance \<equiv> 0x0400"
abbreviation (input) sf_immutable_record :: "16 word" where "sf_immutable_record \<equiv> 0x0800"
abbreviation (input) sf_loading_from_disk :: "16 word" where "sf_loading_from_disk \<equiv> 0x1000"
abbreviation (input) KEY_TYPE_MASK2 :: "16 word" where "KEY_TYPE_MASK2 \<equiv> 0x000F"
abbreviation (input) NOT_INHERITED_MASK :: "16 word" where "NOT_INHERITED_MASK \<equiv> 0xF000"

definition sf_names :: "string list" where
  "sf_names = [''sf_string_key'', ''sf_rowid_key'', ''sf_int_key'', '''', ''sf_zip_record'', ''sf_cipher_record'',
     '''', '''', ''sf_t_ms'', ''sf_tm_ms'', ''sf_deleted_instance'', ''sf_immutable_record'',
     ''sf_loading_from_disk'', '''', '''', '''']"

fun idx_in_list :: "string list \<Rightarrow> string \<Rightarrow> bool \<Rightarrow> int" where
  "idx_in_list [] str ignore_case = -1"
| "idx_in_list (s # ss) str ignore_case =
     (if (if ignore_case then strcasecmp_eq str s else str = s) then 0
      else let i = idx_in_list ss str ignore_case in if i < 0 then i else i + 1)"

text \<open>The tokens of a string between any of a set of delimiters (\<open>strtok_r\<close>: no empty ones).\<close>

fun tokens_loop :: "char list \<Rightarrow> string \<Rightarrow> string \<Rightarrow> string list" where
  "tokens_loop delim acc [] = (if acc = [] then [] else [acc])"
| "tokens_loop delim acc (c # cs) =
     (if c \<in> set delim then (if acc = [] then tokens_loop delim [] cs else acc # tokens_loop delim [] cs)
      else tokens_loop delim (acc @ [c]) cs)"

definition tranger2_str2system_flag :: "string \<Rightarrow> 32 word" where
  "tranger2_str2system_flag system_flag =
     fold (\<lambda>name bitmask. let idx = idx_in_list sf_names name True in
         if 0 < idx then bitmask OR push_bit (nat (idx - 1)) 1 else bitmask)
       (tokens_loop ''|, '' [] system_flag) 0"

section \<open>A row\<close>

record md2_record =
  md_t :: "64 word"
  md_tm :: "64 word"
  md_offset :: "64 word"
  md_size :: "64 word"

record md2_record_ex =
  x_t :: "64 word"
  x_tm :: "64 word"
  x_offset :: "64 word"
  x_size :: "64 word"
  x_system_flag :: "16 word"
  x_user_flag :: "16 word"
  x_rowid :: "64 word"

definition TIME_FLAG_MASK :: "64 word" where "TIME_FLAG_MASK = 0x00000FFFFFFFFFFF"
definition USER_FLAG_MASK :: "64 word" where "USER_FLAG_MASK = 0x0FFFF00000000000"

definition read_flag :: "64 word \<Rightarrow> 16 word" where
  "read_flag w = ucast (drop_bit 44 (w AND USER_FLAG_MASK))"

definition write_flag :: "64 word \<Rightarrow> 16 word \<Rightarrow> 64 word" where
  "write_flag w f = (w AND NOT USER_FLAG_MASK) OR push_bit 44 (ucast f AND 0xFFFF)"

definition get_user_flag :: "md2_record \<Rightarrow> 16 word" where
  "get_user_flag r = read_flag (md_t r)"

definition get_system_flag :: "md2_record \<Rightarrow> 16 word" where
  "get_system_flag r = read_flag (md_tm r)"

definition get_time_t :: "md2_record \<Rightarrow> 64 word" where
  "get_time_t r = md_t r AND TIME_FLAG_MASK"

definition get_time_tm :: "md2_record \<Rightarrow> 64 word" where
  "get_time_tm r = md_tm r AND TIME_FLAG_MASK"

definition set_user_flag :: "md2_record \<Rightarrow> 16 word \<Rightarrow> md2_record" where
  "set_user_flag r f = r\<lparr>md_t := write_flag (md_t r) f\<rparr>"

definition set_system_flag :: "md2_record \<Rightarrow> 16 word \<Rightarrow> md2_record" where
  "set_system_flag r f = r\<lparr>md_tm := write_flag (md_tm r) f\<rparr>"

definition is_deleted_instance :: "md2_record_ex \<Rightarrow> bool" where
  "is_deleted_instance x \<longleftrightarrow> x_system_flag x AND sf_deleted_instance \<noteq> 0"

definition md2json :: "md2_record_ex \<Rightarrow> int \<Rightarrow> json" where
  "md2json x rowid = JObject [(''g_rowid'', JInt rowid), (''i_rowid'', JInt (sint (x_rowid x))),
     (''t'', JInt (sint (x_t x))), (''tm'', JInt (sint (x_tm x))), (''offset'', JInt (sint (x_offset x))),
     (''size'', JInt (sint (x_size x))), (''system_flag'', JInt (uint (x_system_flag x))),
     (''user_flag'', JInt (uint (x_user_flag x)))]"

text \<open>What a reader of row number \<open>rowid\<close> of a file gets (the end of \<open>read_md\<close>).\<close>

definition md_ex :: "md2_record \<Rightarrow> int \<Rightarrow> md2_record_ex" where
  "md_ex r rowid = \<lparr>x_t = get_time_t r, x_tm = get_time_tm r, x_offset = md_offset r, x_size = md_size r,
     x_system_flag = get_system_flag r, x_user_flag = get_user_flag r, x_rowid = word_of_int rowid\<rparr>"

section \<open>Names of files\<close>

text \<open>\<open>gmtime\<close>: the date of a time in seconds; none when the year does not fit in an \<open>int\<close>. The
  conversions of \<open>strftime\<close> are those a mask of file names is made of (years, months, days, hours,
  minutes, seconds, day of the year); other conversions are left as they stand.\<close>

record tm =
  tm_year :: int
  tm_mon :: int
  tm_mday :: int
  tm_hour :: int
  tm_min :: int
  tm_sec :: int
  tm_yday :: int

definition days_before_year :: "int \<Rightarrow> int" where
  "days_before_year y = 365 * (y - 1970) + ((y - 1) div 4 - 492) - ((y - 1) div 100 - 19) + ((y - 1) div 400 - 4)"

definition leap_year :: "int \<Rightarrow> bool" where
  "leap_year y \<longleftrightarrow> y mod 4 = 0 \<and> (y mod 100 \<noteq> 0 \<or> y mod 400 = 0)"

fun month_loop :: "int list \<Rightarrow> int \<Rightarrow> int \<Rightarrow> int \<times> int" where
  "month_loop [] m d = (m, d)"
| "month_loop (n # ns) m d = (if d < n then (m, d) else month_loop ns (m + 1) (d - n))"

definition month_days :: "int \<Rightarrow> int list" where
  "month_days y = [31, if leap_year y then 29 else 28, 31, 30, 31, 30, 31, 31, 30, 31, 30, 31]"

definition gmtime :: "64 word \<Rightarrow> tm option" where
  "gmtime t = (let s = sint t; days = s div 86400; sod = s mod 86400;
       y0 = 1970 + (400 * days) div 146097;
       y = (if days < days_before_year y0 then y0 - 1
            else if days_before_year (y0 + 1) \<le> days then y0 + 1 else y0);
       yday = days - days_before_year y; (m, d) = month_loop (month_days y) 0 yday
     in if - (2 ^ 31) \<le> y - 1900 \<and> y - 1900 < 2 ^ 31
        then Some \<lparr>tm_year = y, tm_mon = m + 1, tm_mday = d + 1, tm_hour = sod div 3600,
          tm_min = sod mod 3600 div 60, tm_sec = sod mod 60, tm_yday = yday + 1\<rparr>
        else None)"

definition zero_padded :: "nat \<Rightarrow> nat \<Rightarrow> string" where
  "zero_padded w n = (let s = nat_digits n in replicate (w - length s) CHR ''0'' @ s)"

definition conversion :: "char \<Rightarrow> tm \<Rightarrow> string" where
  "conversion c tm = (if c = CHR ''Y'' then print_int (tm_year tm)
     else if c = CHR ''y'' then zero_padded 2 (nat (tm_year tm mod 100))
     else if c = CHR ''m'' then zero_padded 2 (nat (tm_mon tm))
     else if c = CHR ''d'' then zero_padded 2 (nat (tm_mday tm))
     else if c = CHR ''H'' then zero_padded 2 (nat (tm_hour tm))
     else if c = CHR ''M'' then zero_padded 2 (nat (tm_min tm))
     else if c = CHR ''S'' then zero_padded 2 (nat (tm_sec tm))
     else if c = CHR ''j'' then zero_padded 3 (nat (tm_yday tm))
     else if c = CHR ''%'' then ''%''
     else [CHR ''%'', c])"

fun strftime :: "string \<Rightarrow> tm \<Rightarrow> string" where
  "strftime [] tm = []"
| "strftime [c] tm = [c]"
| "strftime (c # d # cs) tm =
     (if c = CHR ''%'' then conversion d tm @ strftime cs tm else c # strftime (d # cs) tm)"

definition get_file_id :: "string \<Rightarrow> 64 word \<Rightarrow> string" where
  "get_file_id filename_mask t = (case gmtime t of None \<Rightarrow> [] | Some tm \<Rightarrow> strftime filename_mask tm)"

section \<open>Times and flags do not touch each other\<close>

named_theorems md_simps \<open>times and flags of a row\<close>

lemma bit_user_mask: "bit USER_FLAG_MASK k \<longleftrightarrow> 44 \<le> k \<and> k < 60"
proof -
  have eq: "USER_FLAG_MASK = push_bit 44 (mask 16)" by (simp add: USER_FLAG_MASK_def mask_eq_exp_minus_1 push_bit_eq_mult)
  show ?thesis unfolding eq by (auto simp: bit_push_bit_iff bit_mask_iff)
qed

lemma bit_time_mask: "bit TIME_FLAG_MASK k \<longleftrightarrow> k < 44"
proof -
  have eq: "TIME_FLAG_MASK = mask 44" by (simp add: TIME_FLAG_MASK_def mask_eq_exp_minus_1)
  show ?thesis unfolding eq by (auto simp: bit_mask_iff)
qed

lemma low16: "ucast (f :: 16 word) AND (0xFFFF :: 64 word) = ucast f"
proof -
  have eq: "(0xFFFF :: 64 word) = mask 16" by (simp add: mask_eq_exp_minus_1)
  show ?thesis unfolding eq by (rule bit_word_eqI) (auto simp: bit_simps dest: bit_imp_le_length)
qed

lemma bit_read_flag: "bit (read_flag w) k \<longleftrightarrow> k < 16 \<and> bit w (k + 44)"
  by (auto simp: read_flag_def bit_simps bit_user_mask add.commute dest: bit_imp_le_length)

lemma bit_write_flag:
  "bit (write_flag w f) k \<longleftrightarrow> (if 44 \<le> k \<and> k < 60 then bit f (k - 44) else bit w k)"
proof -
  have "bit f (k - 44) \<Longrightarrow> \<not> k < 60 \<Longrightarrow> False" using bit_imp_le_length [of f "k - 44"] by simp
  then show ?thesis unfolding write_flag_def low16
    by (auto simp: bit_simps bit_user_mask dest: bit_imp_le_length)
qed

lemmas flag_bits = bit_read_flag bit_write_flag bit_and_iff bit_time_mask

lemma read_write_flag [md_simps]: "read_flag (write_flag w f) = f"
  by (rule bit_word_eqI) (auto simp: flag_bits)

lemma write_read_flag [md_simps]: "write_flag w (read_flag w) = w"
  by (rule bit_word_eqI) (auto simp: flag_bits)

lemma write_write_flag [md_simps]: "write_flag (write_flag w f) g = write_flag w g"
  by (rule bit_word_eqI) (auto simp: flag_bits)

lemma time_write_flag [md_simps]: "write_flag w f AND TIME_FLAG_MASK = w AND TIME_FLAG_MASK"
  by (rule bit_word_eqI) (auto simp: flag_bits)

lemmas md_defs = get_user_flag_def get_system_flag_def set_user_flag_def set_system_flag_def
  get_time_t_def get_time_tm_def

lemma get_set_flag [md_simps]:
  "get_user_flag (set_user_flag r f) = f" "get_system_flag (set_user_flag r f) = get_system_flag r"
  "get_system_flag (set_system_flag r f) = f" "get_user_flag (set_system_flag r f) = get_user_flag r"
  by (simp_all add: md_defs md_simps)

lemma get_time_set_flag [md_simps]:
  "get_time_t (set_user_flag r f) = get_time_t r" "get_time_tm (set_user_flag r f) = get_time_tm r"
  "get_time_t (set_system_flag r f) = get_time_t r" "get_time_tm (set_system_flag r f) = get_time_tm r"
  by (simp_all add: md_defs md_simps)

lemma payload_set_flag [md_simps]:
  "md_offset (set_user_flag r f) = md_offset r" "md_size (set_user_flag r f) = md_size r"
  "md_offset (set_system_flag r f) = md_offset r" "md_size (set_system_flag r f) = md_size r"
  by (simp_all add: set_user_flag_def set_system_flag_def)

lemma set_own_flag [md_simps]:
  "set_user_flag r (get_user_flag r) = r" "set_system_flag r (get_system_flag r) = r"
  by (simp_all add: md_defs md_simps)

lemma set_flag_twice [md_simps]:
  "set_user_flag (set_user_flag r f) g = set_user_flag r g"
  "set_system_flag (set_system_flag r f) g = set_system_flag r g"
  by (simp_all add: md_defs md_simps)

lemma time_part: "w AND TIME_FLAG_MASK = take_bit 44 w"
  by (rule bit_word_eqI) (auto simp: bit_simps bit_time_mask)

lemma time_part_bound: "uint (w AND TIME_FLAG_MASK) < 2 ^ 44"
  unfolding time_part unsigned_take_bit_eq by (rule take_bit_int_less_exp)

lemma small_time: "uint w < 2 ^ 44 \<Longrightarrow> w AND TIME_FLAG_MASK = w"
  unfolding time_part by (rule word_uint_eqI) (simp add: unsigned_take_bit_eq take_bit_int_eq_self)

lemma get_time_bound: "uint (get_time_t r) < 2 ^ 44" "uint (get_time_tm r) < 2 ^ 44"
  unfolding get_time_t_def get_time_tm_def by (rule time_part_bound)+

text \<open>A time of a row, read as the signed integer of a json number, is itself.\<close>

lemma sint_time: "uint (w :: 64 word) < 2 ^ 44 \<Longrightarrow> sint w = uint w"
proof -
  assume "uint w < 2 ^ 44"
  moreover have "- (2 ^ 63) \<le> uint w" by (rule order_trans [OF _ unsigned_greater_eq]) simp
  ultimately show ?thesis unfolding sint_uint by (intro signed_take_bit_int_eq_self) simp_all
qed

lemma unat_small64: "n < 2 ^ 64 \<Longrightarrow> unat (word_of_nat n :: 64 word) = n"
  by (simp add: unsigned_of_nat take_bit_nat_eq_self)

section \<open>The names of the flags\<close>

text \<open>The position of a name counts from 0 and the code takes it as counting from 1: the first name is
  ignored and any other one gives the flag before its own.\<close>

lemma system_flag_names:
  "tranger2_str2system_flag ''sf_string_key'' = 0"
  "tranger2_str2system_flag ''sf_rowid_key'' = ucast sf_string_key"
  "tranger2_str2system_flag ''sf_int_key'' = ucast sf_rowid_key"
  "tranger2_str2system_flag ''sf_tm_ms | sf_int_key'' = ucast (sf_t_ms OR sf_rowid_key)"
  by code_simp+

end
