(* ===== verification/Tranger_Store.thy ===== *)
theory Tranger_Store
  imports Tranger_Md "HOL-Library.AList"
begin

text \<open>
  The store of a topic (\<^verbatim>\<open>timeranger2.c\<close>): per key a directory of files, each a list of rows and the
  texts of their records; in memory, per key, one cell per file with the range of times and the number
  of rows of it, and their totals. Appending a record, rewriting flags, tombstones, reading rows and
  contents, loading the cache.

  The disk is the field \<open>tp_dirs\<close>: reads and writes of the operating system succeed, files keep what was
  written. The row of a record is written whole (32 bytes).
\<close>

section \<open>State\<close>

record cell =
  c_id :: string
  c_fr_t :: int
  c_to_t :: int
  c_fr_tm :: int
  c_to_tm :: int
  c_rows :: int

record key_total =
  kt_fr_t :: int
  kt_to_t :: int
  kt_fr_tm :: int
  kt_to_tm :: int
  kt_rows :: int

record key_cache =
  kc_files :: "cell list"
  kc_total :: key_total

record key_dir =
  kd_md2 :: "(string \<times> md2_record list) list"
  kd_json :: "(string \<times> string) list"

record rt_mem =
  rm_id :: string
  rm_creator :: string
  rm_key :: string
  rm_rkey :: "string option"
  rm_only_md :: bool
  rm_key_deleted :: bool

record topic =
  tp_pkey :: string
  tp_tkey :: string
  tp_system_flag :: "16 word"
  tp_filename_mask :: string
  tp_cache :: "(string \<times> key_cache) list"
  tp_dirs :: "(string \<times> key_dir) list"
  tp_lists :: "rt_mem list"

record tranger =
  tr_master :: bool
  tr_filename_mask :: string

text \<open>What the code takes from the outside: the clock, the dates of git, the printer and the parser of
  json, regular expressions.\<close>

record tr_env =
  te_now_s :: "64 word"
  te_now_ms :: "64 word"
  te_approxidate :: "string \<Rightarrow> 64 word"
  te_dumps :: "json \<Rightarrow> string option"
  te_loads :: "string \<Rightarrow> json option"
  te_rkey_matches :: "string \<Rightarrow> string \<Rightarrow> bool"

datatype tr_error = No_record | Not_master | No_pkey | Pkey_too_long | Invalid_key | No_pkey_type
  | Dump_failed | Open_failed | Row_zero | Read_failed | Time_not_match | Write_failed
  | Bit_not_writable | Immutable_record | Bad_payload | Bad_rowid

abbreviation no_total :: key_total where
  "no_total \<equiv> \<lparr>kt_fr_t = 0, kt_to_t = 0, kt_fr_tm = 0, kt_to_tm = 0, kt_rows = 0\<rparr>"

definition file_mask :: "tranger \<Rightarrow> topic \<Rightarrow> string" where
  "file_mask tr tp = (if tp_filename_mask tp = [] then tr_filename_mask tr else tp_filename_mask tp)"

definition create_cache_key :: key_cache where
  "create_cache_key = \<lparr>kc_files = [], kc_total = no_total\<rparr>"

definition get_key_cache :: "topic \<Rightarrow> string \<Rightarrow> key_cache" where
  "get_key_cache tp key = (case map_of (tp_cache tp) key of Some kc \<Rightarrow> kc | None \<Rightarrow> create_cache_key)"

definition put_key_cache :: "string \<Rightarrow> key_cache \<Rightarrow> topic \<Rightarrow> topic" where
  "put_key_cache key kc tp = tp\<lparr>tp_cache := AList.update key kc (tp_cache tp)\<rparr>"

definition get_topic_key_rows :: "topic \<Rightarrow> string \<Rightarrow> int" where
  "get_topic_key_rows tp key = (case map_of (tp_cache tp) key of Some kc \<Rightarrow> kt_rows (kc_total kc) | None \<Rightarrow> 0)"

definition tranger2_list_keys :: "topic \<Rightarrow> string list" where
  "tranger2_list_keys tp = map fst (tp_cache tp)"

definition tranger2_topic_size :: "topic \<Rightarrow> int" where
  "tranger2_topic_size tp = sum_list (map (get_topic_key_rows tp) (tranger2_list_keys tp))"

section \<open>Files of a key\<close>

abbreviation empty_dir :: key_dir where
  "empty_dir \<equiv> \<lparr>kd_md2 = [], kd_json = []\<rparr>"

definition key_dir_of :: "topic \<Rightarrow> string \<Rightarrow> key_dir" where
  "key_dir_of tp key = (case map_of (tp_dirs tp) key of Some kd \<Rightarrow> kd | None \<Rightarrow> empty_dir)"

definition put_key_dir :: "string \<Rightarrow> key_dir \<Rightarrow> topic \<Rightarrow> topic" where
  "put_key_dir key kd tp = tp\<lparr>tp_dirs := AList.update key kd (tp_dirs tp)\<rparr>"

definition md2_rows :: "key_dir \<Rightarrow> string \<Rightarrow> md2_record list" where
  "md2_rows kd file_id = (case map_of (kd_md2 kd) file_id of Some rows \<Rightarrow> rows | None \<Rightarrow> [])"

definition data_text :: "key_dir \<Rightarrow> string \<Rightarrow> string" where
  "data_text kd file_id = (case map_of (kd_json kd) file_id of Some s \<Rightarrow> s | None \<Rightarrow> [])"

definition put_md2 :: "string \<Rightarrow> md2_record list \<Rightarrow> key_dir \<Rightarrow> key_dir" where
  "put_md2 file_id rows kd = kd\<lparr>kd_md2 := AList.update file_id rows (kd_md2 kd)\<rparr>"

definition put_data :: "string \<Rightarrow> string \<Rightarrow> key_dir \<Rightarrow> key_dir" where
  "put_data file_id s kd = kd\<lparr>kd_json := AList.update file_id s (kd_json kd)\<rparr>"

text \<open>The file a time goes to, and its opening for writing: the master creates the directory of the key
  and the file when they are missing; who is not master can only open an existing file.\<close>

definition wr_file_id :: "tranger \<Rightarrow> topic \<Rightarrow> 64 word \<Rightarrow> string" where
  "wr_file_id tr tp t =
     get_file_id (file_mask tr tp) (if tp_system_flag tp AND sf_t_ms \<noteq> 0 then t div 1000 else t)"

definition get_topic_wr_fd :: "tranger \<Rightarrow> topic \<Rightarrow> string \<Rightarrow> bool \<Rightarrow> 64 word \<Rightarrow> (string \<times> topic) option" where
  "get_topic_wr_fd tr tp key for_data t = (let file_id = wr_file_id tr tp t; kd = key_dir_of tp key;
       there = (if for_data then map_of (kd_json kd) file_id \<noteq> None else map_of (kd_md2 kd) file_id \<noteq> None)
     in if there then Some (file_id, tp)
        else if tr_master tr then
          Some (file_id, put_key_dir key (if for_data then put_data file_id [] kd else put_md2 file_id [] kd) tp)
        else None)"

section \<open>The cache\<close>

definition update_cache_cell :: "cell option \<Rightarrow> string \<Rightarrow> md2_record \<Rightarrow> int \<Rightarrow> int \<Rightarrow> cell" where
  "update_cache_cell file_cache file_id md operation new_rows =
    (let (id', file_from_t, file_to_t, file_from_tm, file_to_tm, rows) =
        (case file_cache of
           None \<Rightarrow> (file_id, - 1, 0, - 1, 0, 0)
         | Some c \<Rightarrow> (c_id c, word_of_int (c_fr_t c), word_of_int (c_to_t c), word_of_int (c_fr_tm c),
             word_of_int (c_to_tm c), c_rows c));
       rows = (if 0 < operation then rows + new_rows else if operation = 0 then new_rows else rows - new_rows);
       record_t = get_time_t md; record_tm = get_time_tm md;
       file_from_t = (if record_t < file_from_t then record_t else file_from_t);
       file_to_t = (if file_to_t < record_t then record_t else file_to_t);
       file_from_tm = (if record_tm < file_from_tm then record_tm else file_from_tm);
       file_to_tm = (if file_to_tm < record_tm then record_tm else file_to_tm)
     in \<lparr>c_id = id', c_fr_t = sint file_from_t, c_to_t = sint file_to_t, c_fr_tm = sint file_from_tm,
         c_to_tm = sint file_to_tm, c_rows = rows\<rparr>)"

text \<open>The range of the totals with a cell taken in: \<open>fr\<close> and \<open>to\<close> of the cell against both ends.\<close>

definition widen_total :: "64 word \<Rightarrow> 64 word \<Rightarrow> int \<Rightarrow> int \<Rightarrow> 64 word \<times> 64 word" where
  "widen_total from to' fr to = (let
       from = (if word_of_int fr < from then word_of_int fr else from);
       to' = (if to' < word_of_int fr then word_of_int fr else to');
       from = (if word_of_int to < from then word_of_int to else from);
       to' = (if to' < word_of_int to then word_of_int to else to')
     in (from, to'))"

definition update_totals_of_key_cache2 :: "key_total \<Rightarrow> cell \<Rightarrow> int \<Rightarrow> key_total" where
  "update_totals_of_key_cache2 kt c rows_added = (let
       (from_t, to_t) = widen_total (if kt_fr_t kt = 0 then - 1 else word_of_int (kt_fr_t kt))
         (word_of_int (kt_to_t kt)) (c_fr_t c) (c_to_t c);
       (from_tm, to_tm) = widen_total (if kt_fr_tm kt = 0 then - 1 else word_of_int (kt_fr_tm kt))
         (word_of_int (kt_to_tm kt)) (c_fr_tm c) (c_to_tm c)
     in \<lparr>kt_fr_t = sint from_t, kt_to_t = sint to_t, kt_fr_tm = sint from_tm, kt_to_tm = sint to_tm,
         kt_rows = kt_rows kt + rows_added\<rparr>)"

definition update_totals_of_key_cache :: "cell list \<Rightarrow> key_total" where
  "update_totals_of_key_cache files = (let
       (from_t, to_t) = fold (\<lambda>c (f, t). widen_total f t (c_fr_t c) (c_to_t c)) files (- 1, 0);
       (from_tm, to_tm) = fold (\<lambda>c (f, t). widen_total f t (c_fr_tm c) (c_to_tm c)) files (- 1, 0)
     in \<lparr>kt_fr_t = sint from_t, kt_to_t = sint to_t, kt_fr_tm = sint from_tm, kt_to_tm = sint to_tm,
         kt_rows = sum_list (map c_rows files)\<rparr>)"

definition get_last_cache_cell :: "key_cache \<Rightarrow> string \<Rightarrow> cell option" where
  "get_last_cache_cell kc file_id =
     (if kc_files kc = [] then None
      else if c_id (last (kc_files kc)) = file_id then Some (last (kc_files kc)) else None)"

definition update_new_record_from_mem :: "tranger \<Rightarrow> topic \<Rightarrow> string \<Rightarrow> md2_record \<Rightarrow> int \<times> topic" where
  "update_new_record_from_mem tr tp key md = (let
       t = get_time_t md;
       t = (if get_system_flag md AND sf_t_ms \<noteq> 0 then t div 1000 else t);
       file_id = get_file_id (file_mask tr tp) t;
       kc = get_key_cache tp key;
       (files, c) = (case get_last_cache_cell kc file_id of
           None \<Rightarrow> (let c = update_cache_cell None file_id md 1 1 in (kc_files kc @ [c], c))
         | Some cur \<Rightarrow> (let c = update_cache_cell (Some cur) file_id md 1 1 in (butlast (kc_files kc) @ [c], c)));
       kt = update_totals_of_key_cache2 (kc_total kc) c 1
     in (kt_rows kt, put_key_cache key \<lparr>kc_files = files, kc_total = kt\<rparr> tp))"

section \<open>Loading the cache from the disk\<close>

definition zero_md :: md2_record where
  "zero_md = \<lparr>md_t = 0, md_tm = 0, md_offset = 0, md_size = 0\<rparr>"

text \<open>The times of the rows read back have their flags masked.\<close>

definition masked_md :: "md2_record \<Rightarrow> md2_record" where
  "masked_md r = r\<lparr>md_t := md_t r AND TIME_FLAG_MASK, md_tm := md_tm r AND TIME_FLAG_MASK\<rparr>"

definition load_first_and_last_record_md :: "md2_record list \<Rightarrow> md2_record \<times> md2_record \<times> int" where
  "load_first_and_last_record_md rows =
     (if rows = [] then (zero_md, zero_md, 0)
      else (masked_md (hd rows), masked_md (last rows), int (length rows)))"

definition load_cache_cell_from_disk :: "string \<Rightarrow> md2_record list \<Rightarrow> cell" where
  "load_cache_cell_from_disk file_id rows =
    (let (first, last, file_rows) = load_first_and_last_record_md rows;
         file_cache = update_cache_cell None file_id first 0 1
     in update_cache_cell (Some file_cache) file_id last 0 file_rows)"

text \<open>Insertion of a file name in the order of \<open>strcmp\<close> on the names with their suffix.\<close>

fun insert_name :: "string \<times> 'a \<Rightarrow> (string \<times> 'a) list \<Rightarrow> (string \<times> 'a) list" where
  "insert_name x [] = [x]"
| "insert_name x (y # ys) =
     (if strcmp (fst x @ ''.md2'') (fst y @ ''.md2'') \<le> 0 then x # y # ys else y # insert_name x ys)"

definition dir_array_sort :: "(string \<times> 'a) list \<Rightarrow> (string \<times> 'a) list" where
  "dir_array_sort xs = foldr insert_name xs []"

definition load_key_cache_from_disk :: "key_dir \<Rightarrow> key_cache" where
  "load_key_cache_from_disk kd =
     \<lparr>kc_files = map (\<lambda>(file_id, rows). load_cache_cell_from_disk file_id rows) (dir_array_sort (kd_md2 kd)),
      kc_total = no_total\<rparr>"

definition find_keys_cb :: "key_dir \<Rightarrow> key_cache" where
  "find_keys_cb kd = (let kc = load_key_cache_from_disk kd
     in kc\<lparr>kc_total := update_totals_of_key_cache (kc_files kc)\<rparr>)"

fun insert_key :: "string \<times> 'a \<Rightarrow> (string \<times> 'a) list \<Rightarrow> (string \<times> 'a) list" where
  "insert_key x [] = [x]"
| "insert_key x (y # ys) = (if strcmp (fst x) (fst y) \<le> 0 then x # y # ys else y # insert_key x ys)"

definition build_topic_cache_from_disk :: "topic \<Rightarrow> topic" where
  "build_topic_cache_from_disk tp =
     fold (\<lambda>(key, kd) tp. put_key_cache key (find_keys_cb kd) tp) (foldr insert_key (tp_dirs tp) []) tp"

section \<open>Appending a record\<close>

definition NAME_MAX :: nat where "NAME_MAX = 255"

definition append_key :: "topic \<Rightarrow> json \<Rightarrow> tr_error + string \<times> json" where
  "append_key tp record =
    (let key_type = tp_system_flag tp AND KEY_TYPE_MASK2; v = json_object_get (Some record) (tp_pkey tp) in
     if key_type = sf_string_key then
       (case json_string_value v of
          None \<Rightarrow> Inl No_pkey
        | Some k \<Rightarrow>
            (if k = [] then Inl No_pkey
             else if NAME_MAX < length k then Inl Pkey_too_long
             else if CHR ''/'' \<in> set k \<or> hd k = CHR ''.'' then Inl Invalid_key
             else Inr (k, record)))
     else if key_type = sf_int_key then
       Inr (zero_padded 19 (unat (word_of_int (json_integer_value v) :: 64 word)), record)
     else if key_type = sf_rowid_key then
       Inr (''__rowid__'', json_object_set record ''__rowid__'' (JString ''__rowid__''))
     else Inl No_pkey_type)"

definition append_tm :: "tr_env \<Rightarrow> topic \<Rightarrow> json \<Rightarrow> 64 word" where
  "append_tm env tp record =
    (if tp_tkey tp = [] then 0
     else case json_object_get (Some record) (tp_tkey tp) of
         Some (JString s) \<Rightarrow>
           (if tp_system_flag tp AND sf_tm_ms \<noteq> 0 then te_approxidate env s * 1000 else te_approxidate env s)
       | Some (JInt i) \<Rightarrow> word_of_int i
       | _ \<Rightarrow> 0)"

definition list_wants_key :: "tr_env \<Rightarrow> rt_mem \<Rightarrow> string \<Rightarrow> bool" where
  "list_wants_key env l key =
    (if rm_key l \<noteq> [] then rm_key l = key
     else case rm_rkey l of None \<Rightarrow> True | Some re \<Rightarrow> te_rkey_matches env re key)"

record feed_call =
  fc_list :: string
  fc_key :: string
  fc_rowid :: int
  fc_md :: md2_record_ex
  fc_record :: "json option"

definition feed_lists :: "tr_env \<Rightarrow> topic \<Rightarrow> string \<Rightarrow> int \<Rightarrow> md2_record_ex \<Rightarrow> json \<Rightarrow> feed_call list" where
  "feed_lists env tp key g_rowid ex record =
     map (\<lambda>l. \<lparr>fc_list = rm_id l, fc_key = key, fc_rowid = g_rowid, fc_md = ex,
         fc_record = (if rm_only_md l then None else Some record)\<rparr>)
       (filter (\<lambda>l. list_wants_key env l key) (tp_lists tp))"

record appended =
  ap_key :: string
  ap_md :: md2_record_ex
  ap_rowid :: int
  ap_record :: json
  ap_fed :: "feed_call list"

definition append_row :: "topic \<Rightarrow> string \<Rightarrow> string \<Rightarrow> md2_record \<Rightarrow> topic" where
  "append_row tp key file_id md = (let kd = key_dir_of tp key
     in put_key_dir key (put_md2 file_id (md2_rows kd file_id @ [md]) kd) tp)"

definition append_data :: "topic \<Rightarrow> string \<Rightarrow> string \<Rightarrow> string \<Rightarrow> topic" where
  "append_data tp key file_id s = (let kd = key_dir_of tp key
     in put_key_dir key (put_data file_id (data_text kd file_id @ s) kd) tp)"

definition new_md :: "topic \<Rightarrow> 64 word \<Rightarrow> 64 word \<Rightarrow> 16 word \<Rightarrow> nat \<Rightarrow> nat \<Rightarrow> md2_record" where
  "new_md tp t tm user_flag offset len =
     set_system_flag (set_user_flag \<lparr>md_t = t, md_tm = tm, md_offset = word_of_nat offset,
       md_size = word_of_nat len\<rparr> user_flag) (tp_system_flag tp AND NOT NOT_INHERITED_MASK)"

definition tranger2_append_record ::
  "tr_env \<Rightarrow> tranger \<Rightarrow> topic \<Rightarrow> 64 word \<Rightarrow> 16 word \<Rightarrow> jn \<Rightarrow> (tr_error + appended) \<times> topic" where
  "tranger2_append_record env tr tp t user_flag jn_record =
    (case jn_record of None \<Rightarrow> (Inl No_record, tp)
     | Some record \<Rightarrow>
       if \<not> tr_master tr then (Inl Not_master, tp)
       else let t = (if t = 0 then (if tp_system_flag tp AND sf_t_ms \<noteq> 0 then te_now_ms env else te_now_s env)
                     else t) in
         case append_key tp record of Inl e \<Rightarrow> (Inl e, tp)
         | Inr (key, record) \<Rightarrow>
           let tm = append_tm env tp record in
           case get_topic_wr_fd tr tp key True t of None \<Rightarrow> (Inl Open_failed, tp)
           | Some (content_id, tp) \<Rightarrow>
             let offset = length (data_text (key_dir_of tp key) content_id) in
             case te_dumps env record of None \<Rightarrow> (Inl Dump_failed, tp)
             | Some srecord \<Rightarrow>
               let md = new_md tp t tm user_flag offset (length srecord + 1);
                   tp = append_data tp key content_id (srecord @ [CHR 0x00]) in
               case get_topic_wr_fd tr tp key False t of None \<Rightarrow> (Inl Open_failed, tp)
               | Some (md2_id, tp) \<Rightarrow>
                 let i_rowid = int (length (md2_rows (key_dir_of tp key) md2_id)) + 1;
                     tp = append_row tp key md2_id md;
                     (g_rowid, tp) = update_new_record_from_mem tr tp key md;
                     ex = md_ex md i_rowid;
                     record = json_object_set record ''__md_tranger__'' (md2json ex g_rowid)
                 in (Inr \<lparr>ap_key = key, ap_md = ex, ap_rowid = g_rowid, ap_record = record,
                       ap_fed = feed_lists env tp key g_rowid ex record\<rparr>, tp))"

section \<open>Reading rows and contents\<close>

text \<open>A row of a file, counted from 1 (\<open>read_md\<close>): nothing when the file or the row is not there.\<close>

definition read_md :: "topic \<Rightarrow> string \<Rightarrow> string \<Rightarrow> int \<Rightarrow> md2_record_ex option" where
  "read_md tp key file_id rowid =
    (if rowid \<le> 0 then None
     else case map_of (kd_md2 (key_dir_of tp key)) file_id of None \<Rightarrow> None
       | Some rows \<Rightarrow> (if nat (rowid - 1) < length rows then Some (md_ex (rows ! nat (rowid - 1)) rowid) else None))"

text \<open>The bytes of a record in the data file of its row, up to the first NUL; and the record they are.\<close>

definition read_payload :: "topic \<Rightarrow> string \<Rightarrow> string \<Rightarrow> md2_record_ex \<Rightarrow> string option" where
  "read_payload tp key file_id ex =
    (case map_of (kd_json (key_dir_of tp key)) file_id of None \<Rightarrow> None
     | Some s \<Rightarrow>
        (if x_size ex = 0 \<or> length s < unat (x_offset ex) \<or> length s - unat (x_offset ex) < unat (x_size ex)
         then None
         else Some (takeWhile (\<lambda>c. c \<noteq> CHR 0x00) (take (unat (x_size ex)) (drop (unat (x_offset ex)) s)))))"

definition read_record_content :: "tr_env \<Rightarrow> topic \<Rightarrow> string \<Rightarrow> string \<Rightarrow> md2_record_ex \<Rightarrow> json option" where
  "read_record_content env tp key file_id ex =
    (case read_payload tp key file_id ex of None \<Rightarrow> None
     | Some s \<Rightarrow> (if s = [] then Some (JObject []) else te_loads env s))"

definition tranger2_read_record_content ::
  "tr_env \<Rightarrow> tranger \<Rightarrow> topic \<Rightarrow> string \<Rightarrow> md2_record_ex \<Rightarrow> json option" where
  "tranger2_read_record_content env tr tp key ex =
    (let key = (if tp_system_flag tp AND sf_rowid_key \<noteq> 0 then ''__rowid__'' else key) in
     if key = [] then None
     else let t = (if x_system_flag ex AND sf_t_ms \<noteq> 0 then x_t ex div 1000 else x_t ex)
       in map_option (\<lambda>r. json_object_set r ''__md_tranger__'' (md2json ex (sint (x_rowid ex))))
            (read_record_content env tp key (get_file_id (file_mask tr tp) t) ex))"

section \<open>Rewriting the flags of a row\<close>

definition real_key :: "topic \<Rightarrow> string \<Rightarrow> string" where
  "real_key tp key = (if tp_system_flag tp AND sf_rowid_key \<noteq> 0 then ''__rowid__'' else key)"

text \<open>The row number \<open>i_rowid\<close> of the file of time \<open>t\<close>, which must be its time.\<close>

definition get_md_record_for_wr ::
  "tranger \<Rightarrow> topic \<Rightarrow> string \<Rightarrow> 64 word \<Rightarrow> 64 word \<Rightarrow> (tr_error + string \<times> md2_record \<times> nat) \<times> topic" where
  "get_md_record_for_wr tr tp key t i_rowid =
    (if i_rowid = 0 then (Inl Row_zero, tp)
     else case get_topic_wr_fd tr tp key False t of None \<Rightarrow> (Inl Open_failed, tp)
       | Some (file_id, tp) \<Rightarrow>
         let rows = md2_rows (key_dir_of tp key) file_id; i = unat ((i_rowid - 1) * 32) div 32 in
         (if length rows \<le> i then (Inl Read_failed, tp)
          else if get_time_t (rows ! i) \<noteq> t then (Inl Time_not_match, tp)
          else (Inr (file_id, rows ! i, i), tp)))"

definition rewrite_md_to_file ::
  "tranger \<Rightarrow> topic \<Rightarrow> string \<Rightarrow> string \<Rightarrow> nat \<Rightarrow> md2_record \<Rightarrow> (tr_error + unit) \<times> topic" where
  "rewrite_md_to_file tr tp key file_id i md =
    (if tr_master tr
     then let kd = key_dir_of tp key in
       (Inr (), put_key_dir key (put_md2 file_id ((md2_rows kd file_id)[i := md]) kd) tp)
     else (Inl Write_failed, tp))"

definition rewrite_row ::
  "tranger \<Rightarrow> topic \<Rightarrow> string \<Rightarrow> 64 word \<Rightarrow> 64 word \<Rightarrow> (md2_record \<Rightarrow> md2_record) \<Rightarrow> (tr_error + unit) \<times> topic" where
  "rewrite_row tr tp key t i_rowid f =
    (case get_md_record_for_wr tr tp key t i_rowid of
       (Inl e, tp) \<Rightarrow> (Inl e, tp)
     | (Inr (file_id, md, i), tp) \<Rightarrow> rewrite_md_to_file tr tp key file_id i (f md))"

definition tranger2_write_user_flag ::
  "tranger \<Rightarrow> topic \<Rightarrow> string \<Rightarrow> 64 word \<Rightarrow> 64 word \<Rightarrow> 16 word \<Rightarrow> (tr_error + unit) \<times> topic" where
  "tranger2_write_user_flag tr tp key t rowid user_flag =
     rewrite_row tr tp (real_key tp key) t rowid (\<lambda>md. set_user_flag md user_flag)"

definition tranger2_set_user_flag ::
  "tranger \<Rightarrow> topic \<Rightarrow> string \<Rightarrow> 64 word \<Rightarrow> 64 word \<Rightarrow> 16 word \<Rightarrow> bool \<Rightarrow> (tr_error + unit) \<times> topic" where
  "tranger2_set_user_flag tr tp key t i_rowid msk set' =
     rewrite_row tr tp (real_key tp key) t i_rowid
       (\<lambda>md. let f = get_user_flag md in set_user_flag md (if set' then f OR msk else f AND NOT msk))"

definition tranger2_set_system_flag ::
  "tranger \<Rightarrow> topic \<Rightarrow> string \<Rightarrow> 64 word \<Rightarrow> 64 word \<Rightarrow> 16 word \<Rightarrow> bool \<Rightarrow> (tr_error + unit) \<times> topic" where
  "tranger2_set_system_flag tr tp key t i_rowid msk set' =
    (if msk AND NOT sf_immutable_record \<noteq> 0 then (Inl Bit_not_writable, tp)
     else rewrite_row tr tp (real_key tp key) t i_rowid
       (\<lambda>md. let f = get_system_flag md in set_system_flag md (if set' then f OR msk else f AND NOT msk)))"

definition tranger2_read_user_flag ::
  "tranger \<Rightarrow> topic \<Rightarrow> string \<Rightarrow> 64 word \<Rightarrow> 64 word \<Rightarrow> 16 word \<times> topic" where
  "tranger2_read_user_flag tr tp key t rowid =
    (case get_md_record_for_wr tr tp (real_key tp key) t rowid of
       (Inl e, tp) \<Rightarrow> (- 1, tp)
     | (Inr (file_id, md, i), tp) \<Rightarrow> (get_user_flag md, tp))"

section \<open>Deleting\<close>

definition path_component :: "string \<Rightarrow> bool" where
  "path_component key \<longleftrightarrow> key \<noteq> [] \<and> CHR ''/'' \<notin> set key \<and> hd key \<noteq> CHR ''.''"

definition wipe_payload ::
  "tranger \<Rightarrow> topic \<Rightarrow> string \<Rightarrow> 64 word \<Rightarrow> md2_record \<Rightarrow> (tr_error + unit) \<times> topic" where
  "wipe_payload tr tp key t md =
    (case get_topic_wr_fd tr tp key True t of None \<Rightarrow> (Inl Open_failed, tp)
     | Some (file_id, tp) \<Rightarrow>
       let kd = key_dir_of tp key; s = data_text kd file_id; off = unat (md_offset md); n = unat (md_size md) in
       (if length s < off \<or> length s - off < n then (Inl Bad_payload, tp)
        else (Inr (), put_key_dir key (put_data file_id (list_blit off (replicate n CHR 0x00) s) kd) tp)))"

definition tranger2_delete_instance ::
  "tranger \<Rightarrow> topic \<Rightarrow> string \<Rightarrow> 64 word \<Rightarrow> 64 word \<Rightarrow> bool \<Rightarrow> (tr_error + unit) \<times> topic" where
  "tranger2_delete_instance tr tp key t rowid zero_payload =
    (if \<not> tr_master tr then (Inl Not_master, tp)
     else let key = real_key tp key in
       if \<not> path_component key then (Inl Invalid_key, tp)
       else case get_md_record_for_wr tr tp key t rowid of
           (Inl e, tp) \<Rightarrow> (Inl e, tp)
         | (Inr (file_id, md, i), tp) \<Rightarrow>
           let system_flag = get_system_flag md in
           if system_flag AND sf_immutable_record \<noteq> 0 then (Inl Immutable_record, tp)
           else if system_flag AND sf_deleted_instance \<noteq> 0 then (Inr (), tp)
           else case rewrite_md_to_file tr tp key file_id i
               (set_system_flag md (system_flag OR sf_deleted_instance)) of
             (Inl e, tp) \<Rightarrow> (Inl e, tp)
           | (Inr _, tp) \<Rightarrow> (if zero_payload \<and> md_size md \<noteq> 0 then wipe_payload tr tp key t md else (Inr (), tp)))"

definition fire_key_deleted_locally :: "topic \<Rightarrow> string \<Rightarrow> string list" where
  "fire_key_deleted_locally tp deleted_key = map rm_id
     (filter (\<lambda>l. (rm_key l = [] \<or> rm_key l = deleted_key) \<and> rm_key_deleted l) (tp_lists tp))"

definition tranger2_delete_key :: "tranger \<Rightarrow> topic \<Rightarrow> string \<Rightarrow> (tr_error + string list) \<times> topic" where
  "tranger2_delete_key tr tp key =
    (if \<not> tr_master tr then (Inl Not_master, tp)
     else if \<not> path_component key then (Inl Invalid_key, tp)
     else (Inr (fire_key_deleted_locally tp key),
       tp\<lparr>tp_dirs := AList.delete key (tp_dirs tp), tp_cache := AList.delete key (tp_cache tp)\<rparr>))"

end
