(* ===== verification/Tranger_Cache.thy ===== *)
theory Tranger_Cache
  imports Tranger_Store
begin

text \<open>
  What the cache of a key says about its files: each cell has the range of times and the number of rows
  of its file, the totals those of all its rows. The rows of a key, file after file in the order of the
  cells, are its history; an append adds one row at the end of the history as long as it goes to the last file
  or to a new one.
\<close>

section \<open>Times as integers\<close>

definition time_t :: "md2_record \<Rightarrow> int" where "time_t md = uint (get_time_t md)"
definition time_tm :: "md2_record \<Rightarrow> int" where "time_tm md = uint (get_time_tm md)"

definition small :: "int \<Rightarrow> bool" where "small x \<longleftrightarrow> 0 \<le> x \<and> x < 2 ^ 44"

lemma small_time_of [simp]: "small (time_t md)" "small (time_tm md)"
  using get_time_bound [of md] by (simp_all add: small_def time_t_def time_tm_def)

lemma get_time_word: "get_time_t md = word_of_int (time_t md)" "get_time_tm md = word_of_int (time_tm md)"
  by (simp_all add: time_t_def time_tm_def)

lemma small_uint: "small x \<Longrightarrow> uint (word_of_int x :: 64 word) = x"
  by (simp add: small_def uint_word_of_int)

lemma small_sint: "small x \<Longrightarrow> sint (word_of_int x :: 64 word) = x"
  using sint_time [of "word_of_int x"] by (simp add: small_uint small_def)

lemma small_less: "small x \<Longrightarrow> small y \<Longrightarrow> (word_of_int x :: 64 word) < word_of_int y \<longleftrightarrow> x < y"
  by (simp add: word_less_def small_uint)

lemma small_less_top: "small x \<Longrightarrow> (word_of_int x :: 64 word) < - 1"
proof -
  assume "small x"
  then have "uint (word_of_int x :: 64 word) < uint (- 1 :: 64 word)"
    by (simp only: small_uint) (simp add: small_def unsigned_minus_1_eq_mask mask_eq_exp_minus_1)
  then show ?thesis by (simp only: word_less_def)
qed

lemma small_min: "small x \<Longrightarrow> small y \<Longrightarrow>
    (if (word_of_int x :: 64 word) < word_of_int y then word_of_int x else word_of_int y) = word_of_int (min x y)"
  by (auto simp: small_less min_def)

lemma small_max: "small x \<Longrightarrow> small y \<Longrightarrow>
    (if (word_of_int y :: 64 word) < word_of_int x then word_of_int x else word_of_int y) = word_of_int (max x y)"
  by (auto simp: small_less max_def)

lemma small_min_max [simp]: "small x \<Longrightarrow> small y \<Longrightarrow> small (min x y)" "small x \<Longrightarrow> small y \<Longrightarrow> small (max x y)"
  by (auto simp: min_def max_def)

lemma small_zero [simp]: "small 0" by (simp add: small_def)

lemmas small_words = small_min small_max small_sint small_less_top

section \<open>Ranges\<close>

definition is_range :: "('a \<Rightarrow> int) \<Rightarrow> 'a list \<Rightarrow> int \<Rightarrow> int \<Rightarrow> bool" where
  "is_range f rows fr to \<longleftrightarrow> fr = Min (f ` set rows) \<and> to = Max (f ` set rows)"

lemma range_single: "is_range f [r] (f r) (f r)"
  by (simp add: is_range_def)

lemma range_snoc:
  "rows \<noteq> [] \<Longrightarrow> is_range f rows fr to \<Longrightarrow> is_range f (rows @ [r]) (min (f r) fr) (max (f r) to)"
  by (simp add: is_range_def)

lemma range_small:
  assumes "\<And>r. small (f r)" "rows \<noteq> []" "is_range f rows fr to" shows "small fr" "small to"
proof -
  have "Min (f ` set rows) \<in> f ` set rows" "Max (f ` set rows) \<in> f ` set rows"
    using assms(2) by (simp_all add: Min_in Max_in)
  then show "small fr" "small to" using assms(1,3) by (auto simp: is_range_def)
qed

lemma range_bounds:
  assumes "is_range f rows fr to" "r \<in> set rows" shows "fr \<le> f r" "f r \<le> to"
  using assms by (auto simp: is_range_def)

lemma range_le: "rows \<noteq> [] \<Longrightarrow> is_range f rows fr to \<Longrightarrow> fr \<le> to"
  using range_bounds by (metis hd_in_set order_trans)

text \<open>Taking in the range of a part that has the new row gives the range with that row.\<close>

lemma range_widen:
  assumes "hist \<noteq> []" "is_range f hist fr to" "set rows \<subseteq> set hist" "is_range f (rows @ [r]) fr' to'"
  shows "is_range f (hist @ [r]) (min fr' fr) (max to' to)"
proof -
  let ?R = "insert (f r) (f ` set rows)" and ?H = "f ` set hist"
  have "insert (f r) ?H = ?R \<union> ?H" using assms(3) by auto
  moreover have "Min (?R \<union> ?H) = min (Min ?R) (Min ?H)" using assms(1) by (intro Min_Un) auto
  moreover have "Max (?R \<union> ?H) = max (Max ?R) (Max ?H)" using assms(1) by (intro Max_Un) auto
  ultimately show ?thesis using assms(2,4) by (simp add: is_range_def)
qed

section \<open>Cells\<close>

definition cell_ok :: "cell \<Rightarrow> md2_record list \<Rightarrow> bool" where
  "cell_ok c rows \<longleftrightarrow> rows \<noteq> [] \<and> c_rows c = int (length rows) \<and>
     is_range time_t rows (c_fr_t c) (c_to_t c) \<and> is_range time_tm rows (c_fr_tm c) (c_to_tm c)"

lemma cell_smalls:
  assumes "cell_ok c rows"
  shows "small (c_fr_t c)" "small (c_to_t c)" "small (c_fr_tm c)" "small (c_to_tm c)"
  using assms range_small [of time_t rows] range_small [of time_tm rows] by (auto simp: cell_ok_def)

lemma update_cell_new:
  "update_cache_cell None file_id md op n = \<lparr>c_id = file_id, c_fr_t = time_t md, c_to_t = time_t md,
     c_fr_tm = time_tm md, c_to_tm = time_tm md, c_rows = (if op < 0 then - n else n)\<rparr>"
proof -
  have z: "(if 0 < w then w else 0) = w" for w :: "64 word" by (simp add: word_gt_0)
  show ?thesis
    unfolding update_cache_cell_def Let_def get_time_word by (simp add: z small_words)
qed

lemma update_cell_some:
  assumes "cell_ok c rows"
  shows "update_cache_cell (Some c) file_id md op n = \<lparr>c_id = c_id c, c_fr_t = min (time_t md) (c_fr_t c),
     c_to_t = max (time_t md) (c_to_t c), c_fr_tm = min (time_tm md) (c_fr_tm c),
     c_to_tm = max (time_tm md) (c_to_tm c),
     c_rows = (if 0 < op then c_rows c + n else if op = 0 then n else c_rows c - n)\<rparr>"
  unfolding update_cache_cell_def Let_def get_time_word
  by (simp add: small_words cell_smalls [OF assms])

lemma cell_new_ok: "cell_ok (update_cache_cell None file_id md 1 1) [md]"
  by (simp add: update_cell_new cell_ok_def range_single)

lemma cell_snoc_ok:
  assumes "cell_ok c rows" shows "cell_ok (update_cache_cell (Some c) file_id md 1 1) (rows @ [md])"
  using assms range_snoc [of rows time_t] range_snoc [of rows time_tm]
  by (simp add: update_cell_some [OF assms]) (simp add: cell_ok_def)

lemma update_cell_id [simp]:
  "c_id (update_cache_cell None file_id md op n) = file_id"
  "c_id (update_cache_cell (Some c) file_id md op n) = c_id c"
  by (simp_all add: update_cache_cell_def Let_def)

section \<open>Totals\<close>

definition total_ok :: "key_total \<Rightarrow> md2_record list \<Rightarrow> bool" where
  "total_ok kt hist \<longleftrightarrow> kt_rows kt = int (length hist) \<and>
     (if hist = [] then kt_fr_t kt = 0 \<and> kt_to_t kt = 0 \<and> kt_fr_tm kt = 0 \<and> kt_to_tm kt = 0
      else is_range time_t hist (kt_fr_t kt) (kt_to_t kt) \<and> is_range time_tm hist (kt_fr_tm kt) (kt_to_tm kt))"

lemma widen_small:
  assumes "small a" "small b" "small fr" "small to" "fr \<le> to"
  shows "widen_total (word_of_int a) (word_of_int b) fr to = (word_of_int (min fr a), word_of_int (max to b))"
proof -
  have "min to (min fr a) = min fr a" "max to (max fr b) = max to b" using assms(5) by auto
  then show ?thesis using assms by (simp add: widen_total_def Let_def small_words)
qed

lemma widen_first:
  assumes "small b" "small fr" "small to" "fr \<le> to"
  shows "widen_total (- 1) (word_of_int b) fr to = (word_of_int fr, word_of_int (max to b))"
proof -
  have "min to fr = fr" "max to (max fr b) = max to b" using assms(4) by auto
  then show ?thesis using assms by (simp add: widen_total_def Let_def small_words)
qed

text \<open>A time 0 counts as no time in the totals: with a row of time 0 in the history the lower end may be
  lost, unless all its times are 0.\<close>

definition no_mixed_zero :: "('a \<Rightarrow> int) \<Rightarrow> 'a list \<Rightarrow> bool" where
  "no_mixed_zero f hist \<longleftrightarrow> (\<forall>r \<in> set hist. f r \<noteq> 0) \<or> (\<forall>r \<in> set hist. f r = 0)"

lemma zero_image: "\<forall>r \<in> set rows. f r = (0::int) \<Longrightarrow> rows \<noteq> [] \<Longrightarrow> f ` set rows = {0}"
  by (cases rows) auto

lemma no_mixed_zero_part: "no_mixed_zero f (hist @ [r]) \<Longrightarrow> no_mixed_zero f hist"
  by (auto simp: no_mixed_zero_def)

lemma Min_zero_iff:
  assumes "no_mixed_zero f hist" "hist \<noteq> []" "\<And>r. 0 \<le> f r"
  shows "Min (f ` set hist) = 0 \<longleftrightarrow> (\<forall>r \<in> set hist. f r = 0)"
proof -
  have "Min (f ` set hist) \<in> f ` set hist" using assms(2) by (simp add: Min_in)
  moreover have "Min (f ` set hist) = 0" if "\<forall>r \<in> set hist. f r = 0"
    using zero_image [OF that assms(2)] by simp
  ultimately show ?thesis using assms(1) unfolding no_mixed_zero_def by force
qed

lemma widen_range:
  assumes f: "\<And>r. small (f r)" and "hist \<noteq> []" "is_range f hist a b" "set rows \<subseteq> set hist"
    and "is_range f (rows @ [r]) fr to" "no_mixed_zero f (hist @ [r])"
  shows "\<exists>a' b'. widen_total (if a = 0 then - 1 else word_of_int a) (word_of_int b) fr to =
      (word_of_int a', word_of_int b') \<and> is_range f (hist @ [r]) a' b' \<and> small a' \<and> small b'"
proof -
  have s: "small a" "small b" "small fr" "small to" "fr \<le> to"
    using range_small [OF f assms(2,3)] range_small [OF f _ assms(5)] range_le [OF _ assms(5)] by auto
  have w: "is_range f (hist @ [r]) (min fr a) (max to b)" using range_widen [OF assms(2-5)] .
  show ?thesis
  proof (cases "a = 0")
    case True
    have "\<forall>x \<in> set hist. f x = 0"
      using Min_zero_iff [OF no_mixed_zero_part [OF assms(6)] assms(2)] True assms(3) f
      by (simp add: is_range_def small_def)
    then have "\<forall>x \<in> set (rows @ [r]). f x = 0"
      using assms(2,4,6) by (auto simp: no_mixed_zero_def dest: hd_in_set)
    then have z: "f ` set (rows @ [r]) = {0}" by (rule zero_image) simp
    have "fr = Min (f ` set (rows @ [r]))" using assms(5) by (simp only: is_range_def)
    then have "fr = 0" unfolding z by simp
    then have "widen_total (if a = 0 then - 1 else word_of_int a) (word_of_int b) fr to =
        (word_of_int 0, word_of_int (max to b))" and "is_range f (hist @ [r]) 0 (max to b)"
      using True s w widen_first [of b fr to] by (simp_all add: small_def)
    then show ?thesis using s by (intro exI conjI) (assumption | simp)+
  next
    case False
    then have "widen_total (if a = 0 then - 1 else word_of_int a) (word_of_int b) fr to =
        (word_of_int (min fr a), word_of_int (max to b))"
      using s widen_small [of a b fr to] by simp
    then show ?thesis using s w by (intro exI conjI) (assumption | simp)+
  qed
qed

lemma totals_first:
  assumes "cell_ok c [md]"
  shows "total_ok (update_totals_of_key_cache2 no_total c 1) [md]"
proof -
  have "c_fr_t c = time_t md" "c_to_t c = time_t md" "c_fr_tm c = time_tm md" "c_to_tm c = time_tm md"
    using assms by (simp_all add: cell_ok_def is_range_def)
  moreover have "small x \<Longrightarrow> max x 0 = x" for x by (simp add: small_def)
  moreover have "widen_total (- 1) 0 x x = (word_of_int x, word_of_int (max x 0))" if "small x" for x
    using widen_first [of 0 x x] that by simp
  ultimately show ?thesis
    by (simp add: update_totals_of_key_cache2_def Let_def total_ok_def is_range_def small_sint)
qed

lemma totals_snoc:
  assumes "total_ok kt hist" "hist \<noteq> []" "cell_ok c (rows @ [md])" "set rows \<subseteq> set hist"
    and "no_mixed_zero time_t (hist @ [md])" "no_mixed_zero time_tm (hist @ [md])"
  shows "total_ok (update_totals_of_key_cache2 kt c 1) (hist @ [md])"
proof -
  obtain a b where t: "widen_total (if kt_fr_t kt = 0 then - 1 else word_of_int (kt_fr_t kt))
      (word_of_int (kt_to_t kt)) (c_fr_t c) (c_to_t c) = (word_of_int a, word_of_int b)"
    "is_range time_t (hist @ [md]) a b" "small a" "small b"
    using widen_range [of time_t hist "kt_fr_t kt" "kt_to_t kt" rows md "c_fr_t c" "c_to_t c"] assms
    by (auto simp: total_ok_def cell_ok_def)
  obtain a' b' where tm: "widen_total (if kt_fr_tm kt = 0 then - 1 else word_of_int (kt_fr_tm kt))
      (word_of_int (kt_to_tm kt)) (c_fr_tm c) (c_to_tm c) = (word_of_int a', word_of_int b')"
    "is_range time_tm (hist @ [md]) a' b'" "small a'" "small b'"
    using widen_range [of time_tm hist "kt_fr_tm kt" "kt_to_tm kt" rows md "c_fr_tm c" "c_to_tm c"] assms
    by (auto simp: total_ok_def cell_ok_def)
  show ?thesis
    using assms(1) t tm by (simp add: update_totals_of_key_cache2_def total_ok_def small_sint)
qed

section \<open>A key: its cells, its files, its history\<close>

definition cell_rows :: "key_dir \<Rightarrow> cell \<Rightarrow> md2_record list" where
  "cell_rows kd c = md2_rows kd (c_id c)"

definition key_hist :: "key_cache \<Rightarrow> key_dir \<Rightarrow> md2_record list" where
  "key_hist kc kd = concat (map (cell_rows kd) (kc_files kc))"

definition key_ok :: "key_cache \<Rightarrow> key_dir \<Rightarrow> bool" where
  "key_ok kc kd \<longleftrightarrow> distinct (map c_id (kc_files kc)) \<and> (\<forall>c \<in> set (kc_files kc). cell_ok c (cell_rows kd c)) \<and>
     total_ok (kc_total kc) (key_hist kc kd)"

lemma key_okI:
  "distinct (map c_id (kc_files kc)) \<Longrightarrow> (\<And>c. c \<in> set (kc_files kc) \<Longrightarrow> cell_ok c (cell_rows kd c)) \<Longrightarrow>
    key_hist kc kd = hist \<Longrightarrow> total_ok (kc_total kc) hist \<Longrightarrow> key_ok kc kd"
  by (simp add: key_ok_def)

text \<open>A row goes in order when its file is the last one of the key or one the key has no cell of.\<close>

definition in_order :: "key_cache \<Rightarrow> key_dir \<Rightarrow> string \<Rightarrow> bool" where
  "in_order kc kd file_id \<longleftrightarrow> (kc_files kc \<noteq> [] \<and> c_id (last (kc_files kc)) = file_id) \<or>
     (file_id \<notin> c_id ` set (kc_files kc) \<and> md2_rows kd file_id = [])"

lemma md2_rows_put [simp]: "md2_rows (put_md2 file_id rows kd) i = (if i = file_id then rows else md2_rows kd i)"
  by (simp add: md2_rows_def put_md2_def update_conv')

lemma md2_rows_put_data [simp]: "md2_rows (put_data file_id s kd) i = md2_rows kd i"
  by (simp add: md2_rows_def put_data_def)

lemma data_text_put [simp]: "data_text (put_data file_id s kd) i = (if i = file_id then s else data_text kd i)"
  by (simp add: data_text_def put_data_def update_conv')

lemma data_text_put_md2 [simp]: "data_text (put_md2 file_id rows kd) i = data_text kd i"
  by (simp add: data_text_def put_md2_def)

lemma cell_rows_put_data [simp]: "cell_rows (put_data file_id s kd) = cell_rows kd"
  by (rule ext) (simp add: cell_rows_def)

text \<open>The cells after a new row, and what the totals become.\<close>

definition cells_with :: "key_cache \<Rightarrow> string \<Rightarrow> md2_record \<Rightarrow> cell list \<times> cell" where
  "cells_with kc file_id md = (case get_last_cache_cell kc file_id of
       None \<Rightarrow> (let c = update_cache_cell None file_id md 1 1 in (kc_files kc @ [c], c))
     | Some cur \<Rightarrow> (let c = update_cache_cell (Some cur) file_id md 1 1 in (butlast (kc_files kc) @ [c], c)))"

definition cache_with :: "key_cache \<Rightarrow> string \<Rightarrow> md2_record \<Rightarrow> key_cache" where
  "cache_with kc file_id md = (let (files, c) = cells_with kc file_id md
     in \<lparr>kc_files = files, kc_total = update_totals_of_key_cache2 (kc_total kc) c 1\<rparr>)"

abbreviation row_added :: "key_dir \<Rightarrow> string \<Rightarrow> md2_record \<Rightarrow> key_dir" where
  "row_added kd file_id md \<equiv> put_md2 file_id (md2_rows kd file_id @ [md]) kd"

lemma cell_rows_added:
  "cell_rows (row_added kd file_id md) c = (if c_id c = file_id then cell_rows kd c @ [md] else cell_rows kd c)"
  by (simp add: cell_rows_def)

lemma last_file:
  assumes "key_ok kc kd" "kc_files kc \<noteq> []" "c_id (last (kc_files kc)) = file_id"
  defines "cs \<equiv> butlast (kc_files kc)" and "cur \<equiv> last (kc_files kc)"
  shows "kc_files kc = cs @ [cur]" "file_id \<notin> c_id ` set cs" "cell_ok cur (cell_rows kd cur)"
    "set (cell_rows kd cur) \<subseteq> set (key_hist kc kd)"
proof -
  show f: "kc_files kc = cs @ [cur]" using assms(2) by (simp add: cs_def cur_def)
  show "file_id \<notin> c_id ` set cs" using assms(1,3) unfolding key_ok_def f cur_def [symmetric] by auto
  show "cell_ok cur (cell_rows kd cur)" using assms(1) unfolding key_ok_def f by simp
  show "set (cell_rows kd cur) \<subseteq> set (key_hist kc kd)" unfolding key_hist_def f by simp
qed

lemma concat_rows_same:
  "file_id \<notin> c_id ` set cs \<Longrightarrow>
    concat (map (cell_rows (row_added kd file_id md)) cs) = concat (map (cell_rows kd) cs)"
  by (rule arg_cong [where f = concat]) (auto simp: cell_rows_added)

lemma key_append_last:
  assumes "key_ok kc kd" "kc_files kc \<noteq> []" "c_id (last (kc_files kc)) = file_id"
    and "no_mixed_zero time_t (key_hist kc kd @ [md])" "no_mixed_zero time_tm (key_hist kc kd @ [md])"
  shows "key_ok (cache_with kc file_id md) (row_added kd file_id md) \<and>
    key_hist (cache_with kc file_id md) (row_added kd file_id md) = key_hist kc kd @ [md]"
proof -
  let ?cs = "butlast (kc_files kc)" and ?cur = "last (kc_files kc)"
  let ?c = "update_cache_cell (Some ?cur) file_id md 1 1"
  note l = last_file [OF assms(1-3)]
  have files: "cells_with kc file_id md = (?cs @ [?c], ?c)"
    using assms(2,3) by (simp add: cells_with_def get_last_cache_cell_def Let_def)
  have id: "c_id ?c = file_id" using assms(3) by simp
  have rows: "cell_rows (row_added kd file_id md) ?c = cell_rows kd ?cur @ [md]"
    using assms(3) by (simp add: cell_rows_def)
  have c: "cell_ok ?c (cell_rows kd ?cur @ [md])" using cell_snoc_ok [OF l(3)] .
  have hist: "key_hist (cache_with kc file_id md) (row_added kd file_id md) = key_hist kc kd @ [md]"
  proof -
    have "key_hist kc kd = concat (map (cell_rows kd) ?cs) @ cell_rows kd ?cur"
      unfolding key_hist_def by (subst l(1)) simp
    then show ?thesis using rows concat_rows_same [OF l(2)] by (simp add: key_hist_def cache_with_def files)
  qed
  have ne: "key_hist kc kd \<noteq> []" using l(3,4) by (auto simp: cell_ok_def)
  have "total_ok (update_totals_of_key_cache2 (kc_total kc) ?c 1) (key_hist kc kd @ [md])"
    using totals_snoc [OF _ ne c l(4) assms(4,5)] assms(1) by (simp add: key_ok_def)
  moreover have "cell_ok d (cell_rows (row_added kd file_id md) d)" if "d \<in> set ?cs" for d
    using that assms(1) l(1,2) by (auto simp: key_ok_def cell_rows_added dest: in_set_butlastD)
  moreover have "distinct (map c_id (?cs @ [?c]))"
  proof -
    have "distinct (map c_id ?cs)" using assms(1) by (simp add: key_ok_def map_butlast distinct_butlast)
    then show ?thesis using l(2) id by simp
  qed
  ultimately have "key_ok (cache_with kc file_id md) (row_added kd file_id md)"
    using rows c by (intro key_okI [OF _ _ hist]) (auto simp: cache_with_def files)
  then show ?thesis using hist by blast
qed

lemma key_append_new:
  assumes "key_ok kc kd" "file_id \<notin> c_id ` set (kc_files kc)" "md2_rows kd file_id = []"
    and "no_mixed_zero time_t (key_hist kc kd @ [md])" "no_mixed_zero time_tm (key_hist kc kd @ [md])"
    and "kc_files kc = [] \<Longrightarrow> kc_total kc = no_total"
  shows "key_ok (cache_with kc file_id md) (row_added kd file_id md) \<and>
    key_hist (cache_with kc file_id md) (row_added kd file_id md) = key_hist kc kd @ [md]"
proof -
  let ?cs = "kc_files kc" and ?c = "update_cache_cell None file_id md 1 1"
  have files: "cells_with kc file_id md = (?cs @ [?c], ?c)"
    using assms(2) by (auto simp: cells_with_def get_last_cache_cell_def Let_def)
  have rows: "cell_rows (row_added kd file_id md) ?c = [] @ [md]" using assms(3) by (simp add: cell_rows_def)
  have c: "cell_ok ?c ([] @ [md])" using cell_new_ok by simp
  have hist: "key_hist (cache_with kc file_id md) (row_added kd file_id md) = key_hist kc kd @ [md]"
    using rows concat_rows_same [OF assms(2)] by (simp add: key_hist_def cache_with_def files)
  have "total_ok (update_totals_of_key_cache2 (kc_total kc) ?c 1) (key_hist kc kd @ [md])"
  proof (cases "?cs = []")
    case True
    then show ?thesis using assms(6) totals_first [of ?c md] c by (simp add: key_hist_def)
  next
    case False
    then have "cell_rows kd (hd ?cs) \<noteq> []" using assms(1) by (simp add: key_ok_def cell_ok_def)
    then have "key_hist kc kd \<noteq> []" using False by (cases ?cs) (auto simp: key_hist_def)
    then show ?thesis using totals_snoc [OF _ _ c _ assms(4,5)] assms(1) by (simp add: key_ok_def)
  qed
  moreover have "cell_ok d (cell_rows (row_added kd file_id md) d)" if "d \<in> set ?cs" for d
    using that assms(1,2) by (auto simp: key_ok_def cell_rows_added)
  moreover have "distinct (map c_id (?cs @ [?c]))" using assms(1,2) by (simp add: key_ok_def)
  ultimately have "key_ok (cache_with kc file_id md) (row_added kd file_id md)"
    using rows c by (intro key_okI [OF _ _ hist]) (auto simp: cache_with_def files)
  then show ?thesis using hist by blast
qed

lemma total_ok_nil: "total_ok kt [] \<Longrightarrow> kt = no_total"
  by (cases kt) (simp add: total_ok_def)

theorem key_append:
  assumes "key_ok kc kd" "in_order kc kd file_id"
    and "no_mixed_zero time_t (key_hist kc kd @ [md])" "no_mixed_zero time_tm (key_hist kc kd @ [md])"
  shows "key_ok (cache_with kc file_id md) (row_added kd file_id md)"
    and "key_hist (cache_with kc file_id md) (row_added kd file_id md) = key_hist kc kd @ [md]"
proof -
  have "kc_files kc = [] \<Longrightarrow> kc_total kc = no_total"
    using assms(1) total_ok_nil by (simp add: key_ok_def key_hist_def)
  then have "key_ok (cache_with kc file_id md) (row_added kd file_id md) \<and>
      key_hist (cache_with kc file_id md) (row_added kd file_id md) = key_hist kc kd @ [md]"
    using assms(2) key_append_last [OF assms(1) _ _ assms(3,4)] key_append_new [OF assms(1) _ _ assms(3,4)]
    unfolding in_order_def by blast
  then show "key_ok (cache_with kc file_id md) (row_added kd file_id md)"
    "key_hist (cache_with kc file_id md) (row_added kd file_id md) = key_hist kc kd @ [md]" by blast+
qed

lemma update_new_record_cache:
  "update_new_record_from_mem tr tp key md = (let
     kc = cache_with (get_key_cache tp key) (get_file_id (file_mask tr tp)
       (if get_system_flag md AND sf_t_ms \<noteq> 0 then get_time_t md div 1000 else get_time_t md)) md
   in (kt_rows (kc_total kc), put_key_cache key kc tp))"
  by (simp add: update_new_record_from_mem_def cache_with_def cells_with_def Let_def split: option.splits)

section \<open>Rewriting rows keeps the cache right\<close>

lemma list_update_image: "f v = f (xs ! i) \<Longrightarrow> i < length xs \<Longrightarrow> map f (xs[i := v]) = map f xs"
  by (simp add: map_update) (metis list_update_id nth_map)

lemma range_map: "map f rows = map f rows' \<Longrightarrow> is_range f rows fr to \<longleftrightarrow> is_range f rows' fr to"
proof -
  assume "map f rows = map f rows'"
  then have "f ` set rows = f ` set rows'" by (metis list.set_map)
  then show ?thesis by (simp add: is_range_def)
qed

definition same_times :: "md2_record list \<Rightarrow> md2_record list \<Rightarrow> bool" where
  "same_times rows rows' \<longleftrightarrow> map time_t rows = map time_t rows' \<and> map time_tm rows = map time_tm rows'"

lemma cell_ok_same_times: "same_times rows rows' \<Longrightarrow> cell_ok c rows \<longleftrightarrow> cell_ok c rows'"
proof -
  assume a: "same_times rows rows'"
  then have "length rows = length rows'" by (metis length_map same_times_def)
  then show ?thesis using a range_map [of time_t rows rows'] range_map [of time_tm rows rows']
    by (auto simp: cell_ok_def same_times_def)
qed

lemma total_ok_same_times: "same_times rows rows' \<Longrightarrow> total_ok kt rows \<longleftrightarrow> total_ok kt rows'"
proof -
  assume a: "same_times rows rows'"
  then have "length rows = length rows'" by (metis length_map same_times_def)
  then show ?thesis using a range_map [of time_t rows rows'] range_map [of time_tm rows rows']
    by (auto simp: total_ok_def same_times_def)
qed

lemma same_times_concat:
  "(\<And>c. c \<in> set cs \<Longrightarrow> same_times (f c) (g c)) \<Longrightarrow> same_times (concat (map f cs)) (concat (map g cs))"
  by (induction cs) (auto simp: same_times_def)

lemma key_ok_same_times:
  assumes "key_ok kc kd" "\<And>c. c \<in> set (kc_files kc) \<Longrightarrow> same_times (cell_rows kd c) (cell_rows kd' c)"
  shows "key_ok kc kd'" "same_times (key_hist kc kd) (key_hist kc kd')"
proof -
  show t: "same_times (key_hist kc kd) (key_hist kc kd')"
    unfolding key_hist_def using assms(2) by (rule same_times_concat)
  have "cell_ok c (cell_rows kd' c)" if "c \<in> set (kc_files kc)" for c
  proof -
    have "cell_ok c (cell_rows kd c)" using assms(1) that by (simp add: key_ok_def)
    then show ?thesis using cell_ok_same_times [OF assms(2) [OF that]] by blast
  qed
  then show "key_ok kc kd'" using assms(1) total_ok_same_times [OF t] by (simp add: key_ok_def)
qed

end
