(* ===== verification/Tranger_Append.thy ===== *)
theory Tranger_Append
  imports Tranger_Cache
begin

text \<open>
  What appending a record and rewriting the flags of a row do to a topic: the history of its key, the
  cache, and the contents that can be read back.
\<close>

section \<open>Fields of the topic\<close>

named_theorems topic_simps \<open>fields of a topic after an operation on it\<close>

lemma key_dir_put [topic_simps]: "key_dir_of (put_key_dir key kd tp) k = (if k = key then kd else key_dir_of tp k)"
  by (simp add: key_dir_of_def put_key_dir_def update_conv')

lemma key_cache_put [topic_simps]:
  "get_key_cache (put_key_cache key kc tp) k = (if k = key then kc else get_key_cache tp k)"
  by (simp add: get_key_cache_def put_key_cache_def update_conv')

lemma put_key_dir_fields [topic_simps]:
  "get_key_cache (put_key_dir key kd tp) = get_key_cache tp" "tp_system_flag (put_key_dir key kd tp) = tp_system_flag tp"
  "tp_lists (put_key_dir key kd tp) = tp_lists tp" "tp_cache (put_key_dir key kd tp) = tp_cache tp"
  "file_mask tr (put_key_dir key kd tp) = file_mask tr tp" "tp_pkey (put_key_dir key kd tp) = tp_pkey tp"
  "tp_tkey (put_key_dir key kd tp) = tp_tkey tp" "tp_filename_mask (put_key_dir key kd tp) = tp_filename_mask tp"
  by (auto simp: put_key_dir_def get_key_cache_def file_mask_def fun_eq_iff)

lemma put_key_cache_fields [topic_simps]:
  "key_dir_of (put_key_cache key kc tp) = key_dir_of tp" "tp_system_flag (put_key_cache key kc tp) = tp_system_flag tp"
  "tp_lists (put_key_cache key kc tp) = tp_lists tp" "file_mask tr (put_key_cache key kc tp) = file_mask tr tp"
  "tp_pkey (put_key_cache key kc tp) = tp_pkey tp" "tp_tkey (put_key_cache key kc tp) = tp_tkey tp"
  "tp_filename_mask (put_key_cache key kc tp) = tp_filename_mask tp"
  by (auto simp: put_key_cache_def key_dir_of_def file_mask_def fun_eq_iff)

lemma wr_file_id_fields:
  "file_mask tr tp = file_mask tr tp' \<Longrightarrow> tp_system_flag tp = tp_system_flag tp' \<Longrightarrow> wr_file_id tr tp t = wr_file_id tr tp' t"
  by (simp add: wr_file_id_def)

text \<open>The settings of a topic that no operation on records changes.\<close>

definition settings :: "topic \<Rightarrow> string \<times> string \<times> 16 word \<times> string \<times> rt_mem list" where
  "settings tp = (tp_pkey tp, tp_tkey tp, tp_system_flag tp, tp_filename_mask tp, tp_lists tp)"

lemma settings_put [topic_simps]:
  "settings (put_key_dir key kd tp) = settings tp" "settings (put_key_cache key kc tp) = settings tp"
  by (simp_all add: settings_def topic_simps)

lemma settings_eqD:
  assumes "settings tp' = settings tp"
  shows "tp_system_flag tp' = tp_system_flag tp" "file_mask tr tp' = file_mask tr tp"
    "wr_file_id tr tp' t = wr_file_id tr tp t" "tp_lists tp' = tp_lists tp" "append_tm env tp' r = append_tm env tp r"
    "append_key tp' r = append_key tp r"
  using assms
  by (auto simp: settings_def file_mask_def wr_file_id_def append_tm_def append_key_def split: option.splits json.splits)

text \<open>Opening a file for writing: the same rows and texts, the file is there.\<close>

lemma wr_fd_master:
  assumes "tr_master tr"
  obtains tp' where "get_topic_wr_fd tr tp key for_data t = Some (wr_file_id tr tp t, tp')"
    "settings tp' = settings tp" "get_key_cache tp' = get_key_cache tp"
    "\<And>k. md2_rows (key_dir_of tp' k) = md2_rows (key_dir_of tp k)"
    "\<And>k. data_text (key_dir_of tp' k) = data_text (key_dir_of tp k)"
proof -
  have r: "md2_rows (put_md2 f [] kd) = md2_rows kd" if "map_of (kd_md2 kd) f = None" for f kd
    using that by (auto simp: md2_rows_def put_md2_def update_conv' fun_eq_iff)
  have d: "data_text (put_data f [] kd) = data_text kd" if "map_of (kd_json kd) f = None" for f kd
    using that by (auto simp: data_text_def put_data_def update_conv' fun_eq_iff)
  have rd: "md2_rows (put_data f s kd) = md2_rows kd" "data_text (put_md2 f rows kd) = data_text kd" for f s kd rows
    by (auto simp: fun_eq_iff)
  show thesis using assms that
    by (cases "get_topic_wr_fd tr tp key for_data t")
      (auto simp: get_topic_wr_fd_def Let_def topic_simps r d rd split: if_splits)
qed

lemma key_ok_cong:
  assumes "md2_rows kd = md2_rows kd'"
  shows "key_ok kc kd \<longleftrightarrow> key_ok kc kd'" "key_hist kc kd = key_hist kc kd'" "in_order kc kd f \<longleftrightarrow> in_order kc kd' f"
proof -
  have c: "cell_rows kd = cell_rows kd'" using assms by (auto simp: cell_rows_def)
  show "key_hist kc kd = key_hist kc kd'" by (simp add: key_hist_def c)
  then show "key_ok kc kd \<longleftrightarrow> key_ok kc kd'" by (simp add: key_ok_def c)
  show "in_order kc kd f \<longleftrightarrow> in_order kc kd' f" by (simp add: in_order_def assms)
qed

section \<open>Appending\<close>

lemma new_md_fields:
  "get_time_t (new_md tp t tm uf off len) = t AND TIME_FLAG_MASK"
  "get_time_tm (new_md tp t tm uf off len) = tm AND TIME_FLAG_MASK"
  "get_user_flag (new_md tp t tm uf off len) = uf"
  "get_system_flag (new_md tp t tm uf off len) = tp_system_flag tp AND NOT NOT_INHERITED_MASK"
  "md_offset (new_md tp t tm uf off len) = word_of_nat off" "md_size (new_md tp t tm uf off len) = word_of_nat len"
  unfolding new_md_def by (simp_all add: md_simps) (simp_all add: get_time_t_def get_time_tm_def)

lemma inherited_ms: "(f AND NOT NOT_INHERITED_MASK) AND sf_t_ms = f AND sf_t_ms"
proof -
  have "NOT NOT_INHERITED_MASK AND sf_t_ms = sf_t_ms" by simp
  then show ?thesis by (simp only: and.assoc)
qed

lemma append_file_id:
  assumes "uint t < 2 ^ 44" and md_def: "md = new_md tp t tm uf off len"
  shows "get_file_id (file_mask tr tp) (if get_system_flag md AND sf_t_ms \<noteq> 0
      then get_time_t md div 1000 else get_time_t md) = wr_file_id tr tp t"
  unfolding md_def wr_file_id_def new_md_fields inherited_ms small_time [OF assms(1)] ..

lemma append_result:
  fixes uf :: "16 word"
  assumes "tr_master tr" "append_key tp record = Inr (key, record')" "te_dumps env record' = Some s"
    and "t \<noteq> 0" "uint t < 2 ^ 44"
  defines "kc \<equiv> get_key_cache tp key" and "kd \<equiv> key_dir_of tp key" and "file_id \<equiv> wr_file_id tr tp t"
  defines "md \<equiv> new_md tp t (append_tm env tp record') uf (length (data_text kd file_id)) (length s + 1)"
  defines "kc' \<equiv> cache_with kc file_id md"
  defines "g_rowid \<equiv> kt_rows (kc_total kc')" and "ex \<equiv> md_ex md (int (length (md2_rows kd file_id)) + 1)"
  defines "record'' \<equiv> json_object_set record' ''__md_tranger__'' (md2json ex g_rowid)"
  obtains tp' where
    "tranger2_append_record env tr tp t uf (Some record) = (Inr \<lparr>ap_key = key, ap_md = ex, ap_rowid = g_rowid,
       ap_record = record'', ap_fed = feed_lists env tp key g_rowid ex record''\<rparr>, tp')"
    "settings tp' = settings tp" "get_key_cache tp' = (get_key_cache tp)(key := kc')"
    "md2_rows (key_dir_of tp' key) = md2_rows (row_added kd file_id md)"
    "data_text (key_dir_of tp' key) = (data_text kd)(file_id := data_text kd file_id @ s @ [CHR 0x00])"
    "\<And>k. k \<noteq> key \<Longrightarrow> md2_rows (key_dir_of tp' k) = md2_rows (key_dir_of tp k)"
    "\<And>k. k \<noteq> key \<Longrightarrow> data_text (key_dir_of tp' k) = data_text (key_dir_of tp k)"
proof -
  obtain tp1 where o1: "get_topic_wr_fd tr tp key True t = Some (file_id, tp1)" "settings tp1 = settings tp"
      "get_key_cache tp1 = get_key_cache tp" "\<And>k. md2_rows (key_dir_of tp1 k) = md2_rows (key_dir_of tp k)"
      "\<And>k. data_text (key_dir_of tp1 k) = data_text (key_dir_of tp k)"
    using wr_fd_master [OF assms(1), of tp key True t] unfolding file_id_def by metis
  define tp2 where "tp2 = append_data tp1 key file_id (s @ [CHR 0x00])"
  have f2: "settings tp2 = settings tp" "get_key_cache tp2 = get_key_cache tp"
      "md2_rows (key_dir_of tp2 k) = md2_rows (key_dir_of tp k)"
      "data_text (key_dir_of tp2 k) = (if k = key then
         (data_text kd)(file_id := data_text kd file_id @ s @ [CHR 0x00]) else data_text (key_dir_of tp k))" for k
    using o1(2-5) by (auto simp: tp2_def append_data_def Let_def topic_simps kd_def fun_eq_iff)
  obtain tp3 where o3: "get_topic_wr_fd tr tp2 key False t = Some (file_id, tp3)" "settings tp3 = settings tp"
      "get_key_cache tp3 = get_key_cache tp" "\<And>k. md2_rows (key_dir_of tp3 k) = md2_rows (key_dir_of tp k)"
      "\<And>k. data_text (key_dir_of tp3 k) = data_text (key_dir_of tp2 k)"
    using wr_fd_master [OF assms(1), of tp2 key False t] settings_eqD(3) [OF f2(1)] f2 unfolding file_id_def
    by metis
  define tp4 where "tp4 = append_row tp3 key file_id md"
  have f4: "settings tp4 = settings tp" "get_key_cache tp4 = get_key_cache tp"
      "md2_rows (key_dir_of tp4 k) = (if k = key then md2_rows (row_added kd file_id md) else md2_rows (key_dir_of tp k))"
      "data_text (key_dir_of tp4 k) = data_text (key_dir_of tp2 k)" for k
    using o3(2-5) by (auto simp: tp4_def append_row_def Let_def topic_simps kd_def fun_eq_iff)
  have fid: "get_file_id (file_mask tr tp4) (if get_system_flag md AND sf_t_ms \<noteq> 0
      then get_time_t md div 1000 else get_time_t md) = file_id"
    unfolding file_id_def settings_eqD(2) [OF f4(1)]
    by (rule append_file_id [OF assms(5) meta_eq_to_obj_eq [OF md_def]])
  have u: "update_new_record_from_mem tr tp4 key md = (g_rowid, put_key_cache key kc' tp4)"
    unfolding update_new_record_cache fid f4(2) Let_def g_rowid_def kc'_def kc_def ..
  have md: "new_md tp1 t (append_tm env tp record') uf (length (data_text (key_dir_of tp1 key) file_id))
      (Suc (length s)) = md"
    using settings_eqD(1) [OF o1(2)] o1(5) by (simp add: md_def new_md_def kd_def)
  have i: "md_ex md (int (length (md2_rows (key_dir_of tp3 key) file_id)) + 1) = ex"
    using o3(4) by (simp add: ex_def kd_def)
  have fed: "feed_lists env (put_key_cache key kc' tp4) key g_rowid ex record'' = feed_lists env tp key g_rowid ex record''"
    using settings_eqD(4) [OF f4(1)] by (simp add: feed_lists_def topic_simps)
  have "tranger2_append_record env tr tp t uf (Some record) = (Inr \<lparr>ap_key = key, ap_md = ex, ap_rowid = g_rowid,
       ap_record = record'', ap_fed = feed_lists env tp key g_rowid ex record''\<rparr>, put_key_cache key kc' tp4)"
    using assms(1-4) o1(1) md o3(1) u
    by (simp add: tranger2_append_record_def Let_def tp2_def [symmetric] tp4_def [symmetric] i
        record''_def [symmetric] fed)
  then show thesis
    using that [of "put_key_cache key kc' tp4"] f2(4) f4 by (simp add: topic_simps fun_eq_iff)
qed

section \<open>Topics\<close>

definition key_rows :: "topic \<Rightarrow> string \<Rightarrow> md2_record list" where
  "key_rows tp key = key_hist (get_key_cache tp key) (key_dir_of tp key)"

definition topic_ok :: "topic \<Rightarrow> bool" where
  "topic_ok tp \<longleftrightarrow> (\<forall>key. key_ok (get_key_cache tp key) (key_dir_of tp key))"

lemma topic_okD: "topic_ok tp \<Longrightarrow> key_ok (get_key_cache tp key) (key_dir_of tp key)"
  by (simp add: topic_ok_def)

lemma key_rows_number: "topic_ok tp \<Longrightarrow> kt_rows (kc_total (get_key_cache tp key)) = int (length (key_rows tp key))"
  using topic_okD [of tp key] by (simp add: key_ok_def total_ok_def key_rows_def)

text \<open>The contents a row points to, in terms of the text of the data file.\<close>

lemma read_payload_text:
  "read_payload tp key file_id ex = (let s = data_text (key_dir_of tp key) file_id in
     if x_size ex = 0 \<or> length s < unat (x_offset ex) \<or> length s - unat (x_offset ex) < unat (x_size ex) then None
     else Some (takeWhile (\<lambda>c. c \<noteq> CHR 0x00) (take (unat (x_size ex)) (drop (unat (x_offset ex)) s))))"
  by (auto simp: read_payload_def data_text_def Let_def unat_gt_0 split: option.splits)

lemma read_payload_longer:
  assumes "read_payload tp key file_id ex = Some p"
    and "data_text (key_dir_of tp' key) file_id = data_text (key_dir_of tp key) file_id @ more_text"
  shows "read_payload tp' key file_id ex = Some p"
  using assms by (auto simp: read_payload_text Let_def split: if_splits)

lemma read_payload_new:
  assumes "data_text (key_dir_of tp' key) file_id = old @ s @ [CHR 0x00]" "CHR 0x00 \<notin> set s"
    and "x_offset ex = word_of_nat (length old)" "x_size ex = word_of_nat (length s + 1)"
    and "length old + length s + 1 < 2 ^ 64"
  shows "read_payload tp' key file_id ex = Some s"
proof -
  have u: "unat (x_offset ex) = length old" "unat (x_size ex) = length s + 1"
    using assms(3-5) unat_small64 [of "length old"] unat_small64 [of "length s + 1"] by simp_all
  then have "x_size ex \<noteq> 0" by (metis Suc_eq_plus1 nat.distinct(1) unat_0)
  moreover have "takeWhile (\<lambda>c. c \<noteq> CHR 0x00) (s @ [CHR 0x00]) = s"
    using assms(2) by (subst takeWhile_append2) auto
  ultimately show ?thesis using assms(1) by (simp add: read_payload_text Let_def u)
qed

theorem append_keeps_topic:
  fixes uf :: "16 word"
  assumes "topic_ok tp" "tr_master tr" "append_key tp record = Inr (key, record')" "te_dumps env record' = Some s"
    and "t \<noteq> 0" "uint t < 2 ^ 44"
  defines "kd \<equiv> key_dir_of tp key" and "file_id \<equiv> wr_file_id tr tp t"
  defines "md \<equiv> new_md tp t (append_tm env tp record') uf (length (data_text kd file_id)) (length s + 1)"
  assumes "in_order (get_key_cache tp key) kd file_id"
    and "no_mixed_zero time_t (key_rows tp key @ [md])" "no_mixed_zero time_tm (key_rows tp key @ [md])"
  obtains ap tp' where "tranger2_append_record env tr tp t uf (Some record) = (Inr ap, tp')"
    "topic_ok tp'" "key_rows tp' key = key_rows tp key @ [md]" "\<And>k. k \<noteq> key \<Longrightarrow> key_rows tp' k = key_rows tp k"
    "ap_key ap = key" "ap_rowid ap = int (length (key_rows tp key)) + 1"
    "ap_md ap = md_ex md (int (length (md2_rows kd file_id)) + 1)"
    "ap_fed ap = feed_lists env tp key (ap_rowid ap) (ap_md ap) (ap_record ap)"
    "ap_record ap = json_object_set record' ''__md_tranger__'' (md2json (ap_md ap) (ap_rowid ap))"
    "settings tp' = settings tp" "kc_files (get_key_cache tp' key) \<noteq> []"
    "c_id (last (kc_files (get_key_cache tp' key))) = file_id"
    "md2_rows (key_dir_of tp' key) = md2_rows (row_added kd file_id md)"
    "data_text (key_dir_of tp' key) = (data_text kd)(file_id := data_text kd file_id @ s @ [CHR 0x00])"
    "\<And>k. k \<noteq> key \<Longrightarrow> data_text (key_dir_of tp' k) = data_text (key_dir_of tp k)"
proof -
  let ?kc = "get_key_cache tp key"
  obtain tp' where a: "tranger2_append_record env tr tp t uf (Some record) = (Inr
       \<lparr>ap_key = key, ap_md = md_ex md (int (length (md2_rows kd file_id)) + 1),
        ap_rowid = kt_rows (kc_total (cache_with ?kc file_id md)),
        ap_record = json_object_set record' ''__md_tranger__'' (md2json (md_ex md (int (length (md2_rows kd file_id)) + 1))
          (kt_rows (kc_total (cache_with ?kc file_id md)))),
        ap_fed = feed_lists env tp key (kt_rows (kc_total (cache_with ?kc file_id md)))
          (md_ex md (int (length (md2_rows kd file_id)) + 1))
          (json_object_set record' ''__md_tranger__'' (md2json (md_ex md (int (length (md2_rows kd file_id)) + 1))
          (kt_rows (kc_total (cache_with ?kc file_id md)))))\<rparr>, tp')"
      and f: "settings tp' = settings tp" "get_key_cache tp' = (get_key_cache tp)(key := cache_with ?kc file_id md)"
      "md2_rows (key_dir_of tp' key) = md2_rows (row_added kd file_id md)"
      "data_text (key_dir_of tp' key) = (data_text kd)(file_id := data_text kd file_id @ s @ [CHR 0x00])"
      "\<And>k. k \<noteq> key \<Longrightarrow> md2_rows (key_dir_of tp' k) = md2_rows (key_dir_of tp k)"
      "\<And>k. k \<noteq> key \<Longrightarrow> data_text (key_dir_of tp' k) = data_text (key_dir_of tp k)"
    using append_result [OF assms(2-6), of uf] unfolding kd_def file_id_def md_def by blast
  have k: "key_ok ?kc kd" using topic_okD [OF assms(1)] by (simp add: kd_def)
  have rows: "key_rows tp key = key_hist ?kc kd" by (simp add: key_rows_def kd_def)
  have ka: "key_ok (cache_with ?kc file_id md) (row_added kd file_id md)"
    "key_hist (cache_with ?kc file_id md) (row_added kd file_id md) = key_hist ?kc kd @ [md]"
    using key_append [OF k] assms(10-12) rows by (simp_all add: kd_def)
  have ka': "key_ok (cache_with ?kc file_id md) (key_dir_of tp' key)"
    "key_hist (cache_with ?kc file_id md) (key_dir_of tp' key) = key_rows tp key @ [md]"
    using ka key_ok_cong [OF f(3)] rows by simp_all
  have "key_ok (get_key_cache tp' k) (key_dir_of tp' k)" for k
    using ka' topic_okD [OF assms(1), of k] key_ok_cong(1) [OF f(5), of k] f(2) by (cases "k = key") auto
  then have ok: "topic_ok tp'" by (simp add: topic_ok_def)
  have new: "key_rows tp' key = key_rows tp key @ [md]" using ka'(2) f(2) by (simp add: key_rows_def)
  have others: "key_rows tp' k = key_rows tp k" if "k \<noteq> key" for k
    using key_ok_cong(2) [OF f(5) [OF that]] f(2) that by (simp add: key_rows_def)
  have g: "kt_rows (kc_total (cache_with ?kc file_id md)) = int (length (key_rows tp key)) + 1"
    using key_rows_number [OF ok, of key] new f(2) by simp
  have last: "kc_files (get_key_cache tp' key) \<noteq> []" "c_id (last (kc_files (get_key_cache tp' key))) = file_id"
    using f(2) by (auto simp: cache_with_def cells_with_def get_last_cache_cell_def Let_def split: if_splits)
  show thesis by (rule that [OF a ok new others _ _ _ _ _ f(1) last f(3,4,6)]) (simp_all add: g)
qed

section \<open>Rewriting the flags of a row\<close>

lemma row_index: "i < 2 ^ 58 \<Longrightarrow> unat ((word_of_nat (Suc i) - 1 :: 64 word) * 32) div 32 = i"
proof -
  assume i: "i < 2 ^ 58"
  have "(word_of_nat (Suc i) - 1 :: 64 word) * 32 = word_of_nat (i * 32)" by simp
  moreover have "unat (word_of_nat (i * 32) :: 64 word) = i * 32" using i by (intro unat_small64) simp
  ultimately show ?thesis by simp
qed

lemma rewrite_row_result:
  assumes "tr_master tr" "i < length (md2_rows (key_dir_of tp key) (wr_file_id tr tp t))" "i < 2 ^ 58"
    and "get_time_t (md2_rows (key_dir_of tp key) (wr_file_id tr tp t) ! i) = t"
  defines "file_id \<equiv> wr_file_id tr tp t" and "rows \<equiv> md2_rows (key_dir_of tp key) (wr_file_id tr tp t)"
  obtains tp' where "rewrite_row tr tp key t (word_of_nat (Suc i)) f = (Inr (), tp')"
    "settings tp' = settings tp" "get_key_cache tp' = get_key_cache tp"
    "\<And>k. md2_rows (key_dir_of tp' k) = (if k = key then (md2_rows (key_dir_of tp key))(file_id := rows[i := f (rows ! i)])
       else md2_rows (key_dir_of tp k))"
    "\<And>k. data_text (key_dir_of tp' k) = data_text (key_dir_of tp k)"
    "\<exists>tp1. get_md_record_for_wr tr tp key t (word_of_nat (Suc i)) = (Inr (file_id, rows ! i, i), tp1)"
proof -
  obtain tp1 where o: "get_topic_wr_fd tr tp key False t = Some (file_id, tp1)" "settings tp1 = settings tp"
      "get_key_cache tp1 = get_key_cache tp" "\<And>k. md2_rows (key_dir_of tp1 k) = md2_rows (key_dir_of tp k)"
      "\<And>k. data_text (key_dir_of tp1 k) = data_text (key_dir_of tp k)"
    using wr_fd_master [OF assms(1), of tp key False t] unfolding file_id_def by metis
  have "unat (word_of_nat (Suc i) :: 64 word) = Suc i" using assms(3) by (intro unat_small64) simp
  then have nz: "(word_of_nat (Suc i) :: 64 word) \<noteq> 0" by (metis nat.distinct(1) unat_0)
  have g: "get_md_record_for_wr tr tp key t (word_of_nat (Suc i)) = (Inr (file_id, rows ! i, i), tp1)"
    using o(1,4) nz row_index [OF assms(3)] assms(2,4)
    by (simp add: get_md_record_for_wr_def Let_def file_id_def rows_def del: of_nat_Suc)
  show thesis
  proof (rule that)
    let ?tp' = "put_key_dir key (put_md2 file_id (rows[i := f (rows ! i)]) (key_dir_of tp1 key)) tp1"
    show "rewrite_row tr tp key t (word_of_nat (Suc i)) f = (Inr (), ?tp')"
      using g assms(1) o(4) by (simp add: rewrite_row_def rewrite_md_to_file_def Let_def rows_def file_id_def del: of_nat_Suc)
    show "settings ?tp' = settings tp" "get_key_cache ?tp' = get_key_cache tp"
      using o(2,3) by (simp_all add: topic_simps)
    show "md2_rows (key_dir_of ?tp' k) = (if k = key then (md2_rows (key_dir_of tp key))(file_id := rows[i := f (rows ! i)])
        else md2_rows (key_dir_of tp k))" for k using o(4) by (auto simp: topic_simps fun_eq_iff)
    show "data_text (key_dir_of ?tp' k) = data_text (key_dir_of tp k)" for k
      using o(5) by (auto simp: topic_simps fun_eq_iff)
    show "\<exists>tp1. get_md_record_for_wr tr tp key t (word_of_nat (Suc i)) = (Inr (file_id, rows ! i, i), tp1)"
      using g by blast
  qed
qed

end
