(* ===== verification/Tranger_Segments.thy ===== *)
theory Tranger_Segments
  imports Tranger_Append
begin

text \<open>
  Selection of the records of a key (\<^verbatim>\<open>timeranger2.c\<close>): the conditions of a search, the segments (files)
  that may hold a match, the test of one row, the walk from row to row over the segments.
\<close>

section \<open>Conditions\<close>

record match_cond =
  mc_backward :: bool
  mc_only_md :: bool
  mc_from_rowid :: int
  mc_to_rowid :: int
  mc_from_t :: int
  mc_to_t :: int
  mc_from_tm :: int
  mc_to_tm :: int
  mc_user_flag :: int
  mc_not_user_flag :: int
  mc_user_flag_mask_set :: int
  mc_user_flag_mask_notset :: int

abbreviation any_cond :: match_cond where
  "any_cond \<equiv> \<lparr>mc_backward = False, mc_only_md = False, mc_from_rowid = 0, mc_to_rowid = 0, mc_from_t = 0,
     mc_to_t = 0, mc_from_tm = 0, mc_to_tm = 0, mc_user_flag = 0, mc_not_user_flag = 0,
     mc_user_flag_mask_set = 0, mc_user_flag_mask_notset = 0\<rparr>"

text \<open>A condition may come as a string: a number, or a date when it has a \<open>T\<close>. The code looks at the flag
  \<open>sf_tm_ms\<close> of the topic for all four times.\<close>

datatype cond_value = Cond_int int | Cond_str string

definition rowid_condition :: "cond_value \<Rightarrow> int" where
  "rowid_condition v = (case v of Cond_int i \<Rightarrow> i | Cond_str s \<Rightarrow> strtoll s 0)"

definition time_condition :: "tr_env \<Rightarrow> topic \<Rightarrow> cond_value \<Rightarrow> int" where
  "time_condition env tp v = (case v of Cond_int i \<Rightarrow> i
     | Cond_str s \<Rightarrow>
        (if CHR ''T'' \<in> set s
         then sint (if tp_system_flag tp AND sf_tm_ms \<noteq> 0 then te_approxidate env s * 1000 else te_approxidate env s)
         else strtoll s 0))"

definition match_cond_selects_records :: "match_cond \<Rightarrow> bool" where
  "match_cond_selects_records mc \<longleftrightarrow> mc_from_rowid mc \<noteq> 0 \<or> mc_to_rowid mc \<noteq> 0 \<or> mc_from_t mc \<noteq> 0 \<or>
     mc_to_t mc \<noteq> 0 \<or> mc_from_tm mc \<noteq> 0 \<or> mc_to_tm mc \<noteq> 0 \<or> mc_user_flag mc \<noteq> 0 \<or> mc_not_user_flag mc \<noteq> 0 \<or>
     mc_user_flag_mask_set mc \<noteq> 0 \<or> mc_user_flag_mask_notset mc \<noteq> 0"

text \<open>Row numbers relative to the end are made absolute; none when no row can match.\<close>

definition adjust_from_rowid :: "int \<Rightarrow> int \<Rightarrow> int option" where
  "adjust_from_rowid total_rows r =
    (if r = 0 then Some 1
     else if 0 < r then (if total_rows < r then None else Some r)
     else if r < - total_rows then Some 1 else Some (total_rows + r + 1))"

definition adjust_to_rowid :: "int \<Rightarrow> int \<Rightarrow> int option" where
  "adjust_to_rowid total_rows r =
    (if r = 0 then Some total_rows
     else if 0 < r then (if total_rows < r then Some total_rows else Some r)
     else if r < - total_rows then None else Some (total_rows + r + 1))"

definition adjust_from_time :: "int \<Rightarrow> int \<Rightarrow> int \<Rightarrow> int option" where
  "adjust_from_time total_from total_to t =
    (if t = 0 then Some total_from
     else if total_to < t then None
     else if t < total_from then Some total_from else Some t)"

definition adjust_to_time :: "int \<Rightarrow> int \<Rightarrow> int \<Rightarrow> int option" where
  "adjust_to_time total_from total_to t =
    (if t = 0 then Some total_to
     else if total_to < t then Some total_to
     else if t < total_from then None else Some t)"

section \<open>Segments\<close>

record segment =
  sg_cell :: cell
  sg_first :: int
  sg_last :: int

record seg_range =
  sr_from_rowid :: int
  sr_to_rowid :: int
  sr_from_t :: int
  sr_to_t :: int
  sr_from_tm :: int
  sr_to_tm :: int

definition segment_matches :: "seg_range \<Rightarrow> int \<Rightarrow> int \<Rightarrow> cell \<Rightarrow> bool" where
  "segment_matches r fst_row lst_row c \<longleftrightarrow>
     fst_row \<le> sr_to_rowid r \<and> sr_from_rowid r \<le> lst_row \<and>
     c_fr_t c \<le> sr_to_t r \<and> sr_from_t r \<le> c_to_t c \<and>
     c_fr_tm c \<le> sr_to_tm r \<and> sr_from_tm r \<le> c_to_tm c"

fun segments_forward :: "seg_range \<Rightarrow> int \<Rightarrow> cell list \<Rightarrow> segment list" where
  "segments_forward r partial_rows [] = []"
| "segments_forward r partial_rows (c # cs) =
    (let fst_row = partial_rows; lst_row = partial_rows + c_rows c - 1 in
     if sr_to_rowid r < fst_row then []
     else if sr_to_t r < c_fr_t c then []
     else if sr_to_tm r < c_fr_tm c then []
     else (if segment_matches r fst_row lst_row c then [\<lparr>sg_cell = c, sg_first = fst_row, sg_last = lst_row\<rparr>] else []) @
       segments_forward r (partial_rows + c_rows c) cs)"

text \<open>The cells from the last to the first; each segment goes before those found so far.\<close>

fun segments_backward :: "seg_range \<Rightarrow> int \<Rightarrow> cell list \<Rightarrow> segment list" where
  "segments_backward r partial_rows [] = []"
| "segments_backward r partial_rows (c # cs) =
    (let fst_row = partial_rows - c_rows c + 1; lst_row = partial_rows in
     if lst_row < sr_from_rowid r then []
     else if c_to_t c < sr_from_t r then []
     else if c_to_tm c < sr_from_tm r then []
     else segments_backward r (partial_rows - c_rows c) cs @
       (if segment_matches r fst_row lst_row c then [\<lparr>sg_cell = c, sg_first = fst_row, sg_last = lst_row\<rparr>] else []))"

definition range_of_cond :: "key_total \<Rightarrow> match_cond \<Rightarrow> seg_range option" where
  "range_of_cond kt mc = do {
     from_rowid \<leftarrow> adjust_from_rowid (kt_rows kt) (mc_from_rowid mc);
     to_rowid \<leftarrow> adjust_to_rowid (kt_rows kt) (mc_to_rowid mc);
     if to_rowid < from_rowid then None else do {
       from_t \<leftarrow> adjust_from_time (kt_fr_t kt) (kt_to_t kt) (mc_from_t mc);
       to_t \<leftarrow> adjust_to_time (kt_fr_t kt) (kt_to_t kt) (mc_to_t mc);
       from_tm \<leftarrow> adjust_from_time (kt_fr_tm kt) (kt_to_tm kt) (mc_from_tm mc);
       to_tm \<leftarrow> adjust_to_time (kt_fr_tm kt) (kt_to_tm kt) (mc_to_tm mc);
       Some \<lparr>sr_from_rowid = from_rowid, sr_to_rowid = to_rowid, sr_from_t = from_t, sr_to_t = to_t,
         sr_from_tm = from_tm, sr_to_tm = to_tm\<rparr>
     }
   }"

definition get_segments :: "topic \<Rightarrow> string \<Rightarrow> match_cond \<Rightarrow> segment list \<times> bool" where
  "get_segments tp key mc =
    (case map_of (tp_cache tp) key of None \<Rightarrow> ([], False)
     | Some kc \<Rightarrow>
        (if kt_rows (kc_total kc) = 0 then ([], False)
         else case range_of_cond (kc_total kc) mc of None \<Rightarrow> ([], False)
           | Some r \<Rightarrow>
              ((if mc_backward mc then segments_backward r (kt_rows (kc_total kc)) (rev (kc_files kc))
                else segments_forward r 1 (kc_files kc)),
               mc_to_rowid mc = 0 \<and> mc_to_t mc = 0 \<and> mc_to_tm mc = 0)))"

section \<open>The test of a row\<close>

text \<open>Whether the row matches, and whether no row after it (in the direction of the search) can.\<close>

definition flags_match :: "match_cond \<Rightarrow> 16 word \<Rightarrow> bool" where
  "flags_match mc f =
    (let user_flag = word_of_int (mc_user_flag mc); not_user_flag = word_of_int (mc_not_user_flag mc);
         mask_set = word_of_int (mc_user_flag_mask_set mc);
         mask_notset = word_of_int (mc_user_flag_mask_notset mc)
     in (user_flag = 0 \<or> f = user_flag) \<and> (not_user_flag = 0 \<or> f \<noteq> not_user_flag) \<and>
       (mask_set = 0 \<or> f AND mask_set = mask_set) \<and>
       (mask_notset = 0 \<or> f OR NOT mask_notset = NOT mask_notset))"

definition tranger2_match_metadata :: "match_cond \<Rightarrow> int \<Rightarrow> int \<Rightarrow> md2_record_ex \<Rightarrow> bool \<times> bool" where
  "tranger2_match_metadata mc total_rows rowid ex =
    (let backward = mc_backward mc in
     case adjust_from_rowid total_rows (mc_from_rowid mc) of None \<Rightarrow> (False, True)
     | Some from_rowid \<Rightarrow>
       case adjust_to_rowid total_rows (mc_to_rowid mc) of None \<Rightarrow> (False, True)
       | Some to_rowid \<Rightarrow>
         if from_rowid \<noteq> 0 \<and> rowid < from_rowid then (False, backward)
         else if to_rowid \<noteq> 0 \<and> to_rowid < rowid then (False, \<not> backward)
         else if mc_from_t mc \<noteq> 0 \<and> x_t ex < word_of_int (mc_from_t mc) then (False, backward)
         else if mc_to_t mc \<noteq> 0 \<and> word_of_int (mc_to_t mc) < x_t ex then (False, \<not> backward)
         else if mc_from_tm mc \<noteq> 0 \<and> x_tm ex < word_of_int (mc_from_tm mc) then (False, backward)
         else if mc_to_tm mc \<noteq> 0 \<and> word_of_int (mc_to_tm mc) < x_tm ex then (False, \<not> backward)
         else (flags_match mc (x_user_flag ex), False))"

section \<open>From row to row\<close>

fun first_forward :: "match_cond \<Rightarrow> int \<Rightarrow> int \<Rightarrow> segment list \<Rightarrow> (int \<times> int) option" where
  "first_forward mc total_rows idx [] = None"
| "first_forward mc total_rows idx (s # ss) =
    (if 0 < mc_from_rowid mc \<and> total_rows < mc_from_rowid mc then None
     else let rowid = (if mc_from_rowid mc = 0 then sg_first s
         else if 0 < mc_from_rowid mc then mc_from_rowid mc
         else if mc_from_rowid mc < - total_rows then sg_first s else total_rows + mc_from_rowid mc + 1)
     in if sg_last s < rowid \<or> (mc_from_t mc \<noteq> 0 \<and> c_to_t (sg_cell s) < mc_from_t mc) \<or>
           (mc_from_tm mc \<noteq> 0 \<and> c_to_tm (sg_cell s) < mc_from_tm mc)
        then first_forward mc total_rows (idx + 1) ss else Some (idx, rowid))"

text \<open>The segments from the last to the first, with \<open>idx\<close> the index of the next one.\<close>

fun first_backward :: "match_cond \<Rightarrow> int \<Rightarrow> int \<Rightarrow> segment list \<Rightarrow> (int \<times> int) option" where
  "first_backward mc total_rows idx [] = None"
| "first_backward mc total_rows idx (s # ss) =
    (if mc_to_rowid mc < 0 \<and> mc_to_rowid mc < - total_rows then None
     else let rowid = (if mc_to_rowid mc = 0 then sg_last s
         else if 0 < mc_to_rowid mc then (if total_rows < mc_to_rowid mc then sg_last s else mc_to_rowid mc)
         else total_rows + mc_to_rowid mc + 1)
     in if rowid < sg_first s \<or> (mc_to_t mc \<noteq> 0 \<and> mc_to_t mc < c_fr_t (sg_cell s)) \<or>
           (mc_to_tm mc \<noteq> 0 \<and> mc_to_tm mc < c_fr_tm (sg_cell s))
        then first_backward mc total_rows (idx - 1) ss else Some (idx, rowid))"

definition first_segment_row :: "segment list \<Rightarrow> int \<Rightarrow> match_cond \<Rightarrow> (int \<times> int) option" where
  "first_segment_row segments total_rows mc =
    (if mc_backward mc then first_backward mc total_rows (int (length segments) - 1) (rev segments)
     else first_forward mc total_rows 0 segments)"

definition next_segment_row :: "segment list \<Rightarrow> match_cond \<Rightarrow> int \<Rightarrow> int \<Rightarrow> (int \<times> int) option" where
  "next_segment_row segments mc cur_segment rowid =
    (if segments = [] then None
     else if \<not> mc_backward mc then
       (let cur_rowid = rowid + 1 in
        if sg_last (segments ! nat cur_segment) < cur_rowid
        then (if int (length segments) \<le> cur_segment + 1 then None
          else if cur_rowid \<noteq> sg_first (segments ! nat (cur_segment + 1)) then None
          else Some (cur_segment + 1, cur_rowid))
        else Some (cur_segment, cur_rowid))
     else
       (let cur_rowid = rowid - 1 in
        if cur_rowid \<le> 0 then None
        else if cur_rowid < sg_first (segments ! nat cur_segment)
        then (if cur_segment - 1 < 0 then None
          else if cur_rowid \<noteq> sg_last (segments ! nat (cur_segment - 1)) then None
          else Some (cur_segment - 1, cur_rowid))
        else Some (cur_segment, cur_rowid)))"

fun segment_of_rowid :: "segment list \<Rightarrow> int \<Rightarrow> segment option" where
  "segment_of_rowid [] rowid = None"
| "segment_of_rowid (s # ss) rowid =
     (if sg_first s \<le> rowid \<and> rowid \<le> sg_last s then Some s else segment_of_rowid ss rowid)"

definition get_md_by_rowid :: "topic \<Rightarrow> string \<Rightarrow> segment \<Rightarrow> int \<Rightarrow> md2_record_ex option" where
  "get_md_by_rowid tp key s rowid =
    (if \<not> (sg_first s \<le> rowid \<and> rowid \<le> sg_last s) then None
     else let relative_rowid = rowid - sg_first s + 1 in
       if relative_rowid \<le> 0 then None else read_md tp key (c_id (sg_cell s)) relative_rowid)"

end
