(* ===== verification/Tranger_Iterator.thy ===== *)
theory Tranger_Iterator
  imports Tranger_Segments
begin

text \<open>
  Iterators over the records of a key (\<^verbatim>\<open>timeranger2.c\<close>): the loading loop, which hands the matching
  records to a callback or a list, the index of a filtered iterator, its pages, the iterators of a topic
  and the lists a topic feeds.
\<close>

section \<open>The loading loop\<close>

text \<open>The loop of \<open>tranger2_open_iterator\<close> and of the pages: \<open>get\<close> reads the metadata of a row, \<open>deliver\<close>
  does what the code does with a matching row (\<open>True\<close>: break). It also keeps the row it is at.\<close>

function load_loop ::
  "(segment \<Rightarrow> int \<Rightarrow> md2_record_ex option) \<Rightarrow> match_cond \<Rightarrow> segment list \<Rightarrow> int \<Rightarrow>
   (segment \<Rightarrow> int \<Rightarrow> md2_record_ex \<Rightarrow> 'a \<Rightarrow> 'a \<times> bool) \<Rightarrow> int \<Rightarrow> int \<Rightarrow> 'a \<times> int \<times> int \<Rightarrow> 'a \<times> int \<times> int" where
  "load_loop get mc segs total_rows deliver cur_segment rowid (acc, here) =
    (if cur_segment < 0 \<or> int (length segs) \<le> cur_segment then (acc, here)
     else let s = segs ! nat cur_segment in
       if \<not> (sg_first s \<le> rowid \<and> rowid \<le> sg_last s) then (acc, here)
       else case get s rowid of None \<Rightarrow> (acc, here)
       | Some ex \<Rightarrow>
         let nxt = next_segment_row segs mc cur_segment rowid in
         if is_deleted_instance ex then
           (case nxt of None \<Rightarrow> (acc, here)
            | Some (c, r) \<Rightarrow> load_loop get mc segs total_rows deliver c r (acc, (c, r)))
         else let (found, end') = tranger2_match_metadata mc total_rows rowid ex;
                  (acc, stop) = (if found then deliver s rowid ex acc else (acc, False))
           in if stop then (acc, here)
              else case nxt of None \<Rightarrow> (acc, here)
                | Some (c, r) \<Rightarrow>
                   (if end' then (acc, (c, r))
                    else load_loop get mc segs total_rows deliver c r (acc, (c, r))))"
  by pat_completeness auto

lemma next_forward:
  assumes "next_segment_row segs mc cur r = Some (c', r')" "\<not> mc_backward mc"
    and "0 \<le> cur" "cur < int (length segs)" "r \<le> sg_last (segs ! nat cur)"
  shows "(c' = cur + 1 \<and> c' < int (length segs)) \<or> (c' = cur \<and> r' = r + 1 \<and> r' \<le> sg_last (segs ! nat cur))"
  using assms by (auto simp: next_segment_row_def Let_def split: if_splits)

lemma next_backward:
  assumes "next_segment_row segs mc cur r = Some (c', r')" "mc_backward mc" shows "r' = r - 1 \<and> 0 < r'"
  using assms by (auto simp: next_segment_row_def Let_def split: if_splits)

termination load_loop
proof (relation "measures [\<lambda>(get, mc, segs, total_rows, deliver, c, r, acc).
      if mc_backward mc then nat r else nat (int (length segs) - c),
    \<lambda>(get, mc, segs, total_rows, deliver, c, r, acc).
      if mc_backward mc then 0 else nat (sg_last (segs ! nat c) + 1 - r)]", goal_cases)
  case 1
  then show ?case by simp
next
  case (2 get mc segs total_rows deliver cur r acc here s ex nxt p c' r')
  then show ?case
    using next_forward [of segs mc cur r c' r'] next_backward [of segs mc cur r c' r']
    by (cases "mc_backward mc") auto
next
  case (3 get mc segs total_rows deliver cur r acc here s ex nxt pr found end' pa acc' stop p c' r')
  then show ?case
    using next_forward [of segs mc cur r c' r'] next_backward [of segs mc cur r c' r']
    by (cases "mc_backward mc") auto
qed

declare load_loop.simps [simp del]

section \<open>Iterators\<close>

record iterator =
  it_id :: string
  it_creator :: string
  it_key :: string
  it_cond :: match_cond
  it_segments :: "segment list"
  it_cur_segment :: int
  it_cur_rowid :: int
  it_index :: "int list option"

record loaded =
  ld_calls :: "(int \<times> md2_record_ex \<times> json option) list"
  ld_data :: "json list"

definition with_md :: "md2_record_ex \<Rightarrow> int \<Rightarrow> json \<Rightarrow> json" where
  "with_md ex rowid record = json_object_set record ''__md_tranger__'' (md2json ex rowid)"

text \<open>What is done with a matching row when an iterator is opened: the callback, if any, is called; it
  breaks the load when it asks for it; the record is appended to the list of data, if any.\<close>

definition deliver_loaded ::
  "tr_env \<Rightarrow> topic \<Rightarrow> string \<Rightarrow> bool \<Rightarrow> (int \<Rightarrow> md2_record_ex \<Rightarrow> json option \<Rightarrow> bool) option \<Rightarrow> bool \<Rightarrow>
   segment \<Rightarrow> int \<Rightarrow> md2_record_ex \<Rightarrow> loaded \<Rightarrow> loaded \<times> bool" where
  "deliver_loaded env tp key only_md callback data s rowid ex ld =
    (let ex = ex\<lparr>x_system_flag := x_system_flag ex OR sf_loading_from_disk\<rparr>;
         record = (if only_md then None
           else map_option (with_md ex rowid) (read_record_content env tp key (c_id (sg_cell s)) ex));
         (ld, stop) = (case callback of None \<Rightarrow> (ld, False)
           | Some cb \<Rightarrow> (ld\<lparr>ld_calls := ld_calls ld @ [(rowid, ex, record)]\<rparr>, cb rowid ex record))
     in if stop then (ld, True)
        else if data then (ld\<lparr>ld_data := ld_data ld @ (case record of None \<Rightarrow> [] | Some j \<Rightarrow> [j])\<rparr>, False)
        else (ld, False))"

fun index_rows ::
  "topic \<Rightarrow> string \<Rightarrow> match_cond \<Rightarrow> int \<Rightarrow> segment \<Rightarrow> int list \<Rightarrow> int list \<Rightarrow> (int list \<times> bool) option" where
  "index_rows tp key mc total_rows s [] index = Some (index, False)"
| "index_rows tp key mc total_rows s (rowid # rs) index =
    (case get_md_by_rowid tp key s rowid of None \<Rightarrow> None
     | Some ex \<Rightarrow>
        (if is_deleted_instance ex then index_rows tp key mc total_rows s rs index
         else let (found, end') = tranger2_match_metadata mc total_rows rowid ex;
                  index = (if found then index @ [rowid] else index)
           in if end' then Some (index, True) else index_rows tp key mc total_rows s rs index))"

fun index_segments ::
  "topic \<Rightarrow> string \<Rightarrow> match_cond \<Rightarrow> int \<Rightarrow> segment list \<Rightarrow> int list \<Rightarrow> int list option" where
  "index_segments tp key mc total_rows [] index = Some index"
| "index_segments tp key mc total_rows (s # ss) index =
    (case index_rows tp key mc total_rows s [sg_first s..sg_last s] index of None \<Rightarrow> None
     | Some (index, end') \<Rightarrow> (if end' then Some index else index_segments tp key mc total_rows ss index))"

definition build_iterator_index :: "topic \<Rightarrow> string \<Rightarrow> segment list \<Rightarrow> match_cond \<Rightarrow> int list option" where
  "build_iterator_index tp key segs mc =
     index_segments tp key (mc\<lparr>mc_backward := False\<rparr>) (get_topic_key_rows tp key) segs []"

definition tranger2_get_iterator_by_id :: "iterator list \<Rightarrow> string \<Rightarrow> string \<Rightarrow> iterator option" where
  "tranger2_get_iterator_by_id its id' creator =
     (if id' = [] then None else find (\<lambda>it. it_id it = id' \<and> it_creator it = creator) its)"

datatype iterator_error = No_key | Iterator_exists | No_index

definition tranger2_open_iterator ::
  "tr_env \<Rightarrow> topic \<Rightarrow> iterator list \<Rightarrow> string \<Rightarrow> match_cond \<Rightarrow>
   (int \<Rightarrow> md2_record_ex \<Rightarrow> json option \<Rightarrow> bool) option \<Rightarrow> string \<Rightarrow> string \<Rightarrow> bool \<Rightarrow>
   (iterator_error + iterator \<times> loaded) \<times> iterator list" where
  "tranger2_open_iterator env tp its key mc callback iterator_id creator data =
    (if key = [] then (Inl No_key, its)
     else let iterator_id = (if iterator_id = [] then key else iterator_id) in
     if tranger2_get_iterator_by_id its iterator_id creator \<noteq> None then (Inl Iterator_exists, its)
     else let (segs, realtime) = get_segments tp key mc;
       it = \<lparr>it_id = iterator_id, it_creator = creator, it_key = key, it_cond = mc, it_segments = segs,
             it_cur_segment = 0, it_cur_rowid = 0, it_index = None\<rparr>;
       ld = \<lparr>ld_calls = [], ld_data = []\<rparr>;
       total_rows = get_topic_key_rows tp key
     in if callback \<noteq> None \<or> data then
          (case first_segment_row segs total_rows mc of
             None \<Rightarrow> (Inr (it, ld), its @ [it])
           | Some (c, r) \<Rightarrow>
              (let (ld, c, r) = load_loop (get_md_by_rowid tp key) mc segs total_rows
                   (deliver_loaded env tp key (mc_only_md mc) callback data) c r (ld, (c, r));
                   it = it\<lparr>it_cur_segment := c, it_cur_rowid := r\<rparr>
               in (Inr (it, ld), its @ [it])))
        else if match_cond_selects_records mc then
          (case build_iterator_index tp key segs mc of
             None \<Rightarrow> (Inl No_index, its)
           | Some index \<Rightarrow> let it = it\<lparr>it_index := Some index\<rparr> in (Inr (it, ld), its @ [it]))
        else (Inr (it, ld), its @ [it]))"

definition tranger2_close_iterator :: "iterator list \<Rightarrow> iterator \<Rightarrow> int \<times> iterator list" where
  "tranger2_close_iterator its it = (if it \<in> set its then (0, remove1 it its) else (-1, its))"

definition tranger2_iterator_size :: "iterator \<Rightarrow> int" where
  "tranger2_iterator_size it = (case it_index it of Some index \<Rightarrow> int (length index)
     | None \<Rightarrow> sum_list (map (\<lambda>s. c_rows (sg_cell s)) (it_segments it)))"

section \<open>Pages\<close>

record page =
  pg_total_rows :: int
  pg_pages :: int
  pg_data :: "json list"

definition number_of_pages :: "int \<Rightarrow> nat \<Rightarrow> int" where
  "number_of_pages rows limit =
     (if limit = 0 then 0 else rows div int limit + (if rows mod int limit \<noteq> 0 then 1 else 0))"

fun index_page :: "tr_env \<Rightarrow> topic \<Rightarrow> iterator \<Rightarrow> int list \<Rightarrow> bool \<Rightarrow> int \<Rightarrow> nat \<Rightarrow> nat \<Rightarrow> json list \<Rightarrow> json list" where
  "index_page env tp it index backward from_rowid i 0 data = data"
| "index_page env tp it index backward from_rowid i (Suc n) data =
    (let rows = int (length index);
         pos = (if backward then rows - (from_rowid - 1) - 1 - int i else from_rowid - 1 + int i)
     in if pos < 0 \<or> rows \<le> pos then data
        else let rowid = index ! nat pos in
          case segment_of_rowid (it_segments it) rowid of None \<Rightarrow> data
          | Some s \<Rightarrow>
            case get_md_by_rowid tp (it_key it) s rowid of None \<Rightarrow> data
            | Some ex \<Rightarrow> index_page env tp it index backward from_rowid (Suc i) n
                (data @ (case read_record_content env tp (it_key it) (c_id (sg_cell s)) ex of
                   None \<Rightarrow> [] | Some j \<Rightarrow> [with_md ex rowid j])))"

definition deliver_page :: "tr_env \<Rightarrow> topic \<Rightarrow> string \<Rightarrow> segment \<Rightarrow> int \<Rightarrow> md2_record_ex \<Rightarrow> json list \<Rightarrow> json list \<times> bool" where
  "deliver_page env tp key s rowid ex data =
     (data @ (case read_record_content env tp key (c_id (sg_cell s)) ex of
        None \<Rightarrow> [] | Some j \<Rightarrow> [with_md ex rowid j]), False)"

definition tranger2_iterator_get_page ::
  "tr_env \<Rightarrow> topic \<Rightarrow> iterator \<Rightarrow> int \<Rightarrow> nat \<Rightarrow> bool \<Rightarrow> page \<times> iterator" where
  "tranger2_iterator_get_page env tp it from_rowid limit backward =
    (case it_index it of
       Some index \<Rightarrow>
         (\<lparr>pg_total_rows = int (length index), pg_pages = number_of_pages (int (length index)) limit,
           pg_data = (if 0 < from_rowid \<and> from_rowid \<le> int (length index) \<and> 0 < limit
             then index_page env tp it index backward from_rowid 0 limit [] else [])\<rparr>, it)
     | None \<Rightarrow>
        (let total_rows = get_topic_key_rows tp (it_key it); pages = number_of_pages total_rows limit;
             no_page = \<lparr>pg_total_rows = total_rows, pg_pages = pages, pg_data = []\<rparr>
         in if from_rowid \<le> 0 \<or> total_rows < from_rowid \<or> limit = 0 then (no_page, it)
            else let mc = any_cond\<lparr>mc_from_rowid := from_rowid, mc_to_rowid := from_rowid + int limit - 1,
                mc_backward := backward\<rparr>
              in case first_segment_row (it_segments it) total_rows mc of
                   None \<Rightarrow> (no_page, it)
                 | Some (c, r) \<Rightarrow>
                    (let (data, c, r) = load_loop (get_md_by_rowid tp (it_key it)) mc (it_segments it) total_rows
                         (deliver_page env tp (it_key it)) c r ([], (c, r))
                     in (\<lparr>pg_total_rows = total_rows, pg_pages = pages, pg_data = data\<rparr>,
                         it\<lparr>it_cur_segment := c, it_cur_rowid := r\<rparr>))))"

end
