(* ===== verification/Tranger_Walk.thy ===== *)
theory Tranger_Walk
  imports Tranger_Iterator
begin

text \<open>
  The rows of a key as a numbered sequence: reading a row by its number, the segments the code selects
  as a filter of all segments, and the loading loop as a fold over the rows wanted, in both directions.
\<close>

section \<open>All segments of a key\<close>

fun annotate :: "int \<Rightarrow> cell list \<Rightarrow> segment list" where
  "annotate p [] = []"
| "annotate p (c # cs) = \<lparr>sg_cell = c, sg_first = p, sg_last = p + c_rows c - 1\<rparr> # annotate (p + c_rows c) cs"

definition key_segments :: "topic \<Rightarrow> string \<Rightarrow> segment list" where
  "key_segments tp key = annotate 1 (kc_files (get_key_cache tp key))"

definition row_ex :: "topic \<Rightarrow> string \<Rightarrow> int \<Rightarrow> md2_record_ex" where
  "row_ex tp key r = (case segment_of_rowid (key_segments tp key) r of
     Some s \<Rightarrow> md_ex (key_rows tp key ! nat (r - 1)) (r - sg_first s + 1)
   | None \<Rightarrow> md_ex (key_rows tp key ! nat (r - 1)) r)"

lemma row_ex_fields:
  "x_t (row_ex tp key r) = get_time_t (key_rows tp key ! nat (r - 1))"
  "x_tm (row_ex tp key r) = get_time_tm (key_rows tp key ! nat (r - 1))"
  "x_user_flag (row_ex tp key r) = get_user_flag (key_rows tp key ! nat (r - 1))"
  "x_system_flag (row_ex tp key r) = get_system_flag (key_rows tp key ! nat (r - 1))"
  by (simp_all add: row_ex_def md_ex_def split: option.splits)

definition cells_ok :: "key_dir \<Rightarrow> cell list \<Rightarrow> bool" where
  "cells_ok kd cs \<longleftrightarrow> (\<forall>c \<in> set cs. cell_ok c (cell_rows kd c))"

lemma cells_okD: "cells_ok kd cs \<Longrightarrow> c \<in> set cs \<Longrightarrow> c_rows c = int (length (cell_rows kd c)) \<and> 0 < c_rows c"
  by (auto simp: cells_ok_def cell_ok_def)

lemma annotate_cells: "s \<in> set (annotate p cs) \<Longrightarrow> sg_cell s \<in> set cs \<and> sg_last s = sg_first s + c_rows (sg_cell s) - 1"
  by (induction p cs rule: annotate.induct) auto

lemma annotate_range:
  assumes "cells_ok kd cs" "s \<in> set (annotate p cs)"
  shows "p \<le> sg_first s \<and> sg_first s \<le> sg_last s \<and> sg_last s < p + int (length (concat (map (cell_rows kd) cs)))"
  using assms
proof (induction p cs rule: annotate.induct)
  case (2 p c cs)
  have c: "c_rows c = int (length (cell_rows kd c))" "0 < c_rows c" using cells_okD [OF 2(2), of c] by auto
  have "cells_ok kd cs" using 2(2) by (simp add: cells_ok_def)
  then show ?case using 2(1,3) c by auto
qed simp

text \<open>A row number of the key lies in exactly one segment, and is the row of its file.\<close>

lemma annotate_row:
  assumes "cells_ok kd cs" "s \<in> set (annotate p cs)" "sg_first s \<le> r" "r \<le> sg_last s"
  shows "segment_of_rowid (annotate p cs) r = Some s \<and>
    concat (map (cell_rows kd) cs) ! nat (r - p) = cell_rows kd (sg_cell s) ! nat (r - sg_first s) \<and>
    nat (r - sg_first s) < length (cell_rows kd (sg_cell s))"
  using assms
proof (induction p cs rule: annotate.induct)
  case (2 p c cs)
  have c: "c_rows c = int (length (cell_rows kd c))" "0 < c_rows c" using cells_okD [OF 2(2), of c] by auto
  have cs: "cells_ok kd cs" using 2(2) by (simp add: cells_ok_def)
  show ?case
  proof (cases "r < p + c_rows c")
    case True
    then have "s \<notin> set (annotate (p + c_rows c) cs)" using annotate_range [OF cs, of s "p + c_rows c"] 2(4) by auto
    then have "s = \<lparr>sg_cell = c, sg_first = p, sg_last = p + c_rows c - 1\<rparr>" using 2(3) by simp
    then show ?thesis using 2(4,5) c by (simp add: nth_append nat_less_iff)
  next
    case False
    then have "s \<in> set (annotate (p + c_rows c) cs)" using 2(3,5) by auto
    have e: "nat (r - p) - length (cell_rows kd c) = nat (r - (p + c_rows c))" using c by simp
    from 2(1) [OF cs \<open>s \<in> set (annotate (p + c_rows c) cs)\<close> 2(4,5)] False c
    show ?thesis by (simp add: nth_append e [unfolded c(1)])
  qed
qed simp

lemma segment_of_rowid_Some:
  "segment_of_rowid ss r = Some s \<Longrightarrow> s \<in> set ss \<and> sg_first s \<le> r \<and> r \<le> sg_last s"
  by (induction ss) (auto split: if_splits)

lemma key_cells_ok: "topic_ok tp \<Longrightarrow> cells_ok (key_dir_of tp key) (kc_files (get_key_cache tp key))"
  using topic_okD [of tp key] by (simp add: key_ok_def cells_ok_def)

lemma md2_rows_there: "i < length (md2_rows kd f) \<Longrightarrow> map_of (kd_md2 kd) f = Some (md2_rows kd f)"
  by (simp add: md2_rows_def split: option.splits)

theorem read_row:
  assumes "topic_ok tp" "s \<in> set (key_segments tp key)" "sg_first s \<le> r" "r \<le> sg_last s"
  shows "get_md_by_rowid tp key s r = Some (row_ex tp key r)"
proof -
  let ?kd = "key_dir_of tp key"
  note a = annotate_row [OF key_cells_ok [OF assms(1)] assms(2) [unfolded key_segments_def] assms(3,4)]
  have rows: "key_rows tp key ! nat (r - 1) = cell_rows ?kd (sg_cell s) ! nat (r - sg_first s)"
    and i: "nat (r - sg_first s) < length (cell_rows ?kd (sg_cell s))"
    and s: "segment_of_rowid (key_segments tp key) r = Some s"
    using a by (simp_all add: key_rows_def key_hist_def key_segments_def)
  have "map_of (kd_md2 ?kd) (c_id (sg_cell s)) = Some (cell_rows ?kd (sg_cell s))"
    using md2_rows_there i unfolding cell_rows_def by blast
  moreover have "nat (r - sg_first s + 1 - 1) = nat (r - sg_first s)" by simp
  ultimately show ?thesis using assms(3,4) i rows s
    by (simp add: get_md_by_rowid_def read_md_def row_ex_def Let_def)
qed

section \<open>Consecutive segments\<close>

definition consecutive :: "segment list \<Rightarrow> bool" where
  "consecutive ss \<longleftrightarrow> (\<forall>s \<in> set ss. sg_first s \<le> sg_last s) \<and>
     (\<forall>i. Suc i < length ss \<longrightarrow> sg_first (ss ! Suc i) = sg_last (ss ! i) + 1)"

lemma consecutive_annotate: "cells_ok kd cs \<Longrightarrow> consecutive (annotate p cs)"
proof (induction p cs rule: annotate.induct)
  case (2 p c cs)
  have c: "0 < c_rows c" using cells_okD [OF 2(2), of c] by auto
  have "consecutive (annotate (p + c_rows c) cs)" using 2 by (simp add: cells_ok_def)
  moreover have "annotate (p + c_rows c) cs \<noteq> [] \<Longrightarrow> sg_first (annotate (p + c_rows c) cs ! 0) = p + c_rows c"
    by (cases cs) auto
  ultimately show ?case using c by (auto simp: consecutive_def nth_Cons split: nat.splits)
qed (simp add: consecutive_def)

lemma consecutive_take: "consecutive ss \<Longrightarrow> consecutive (take n ss)"
  by (auto simp: consecutive_def dest: in_set_takeD)

lemma consecutive_drop: "consecutive ss \<Longrightarrow> consecutive (drop n ss)"
  by (auto simp: consecutive_def dest: in_set_dropD)

lemma consecutive_nth: "consecutive ss \<Longrightarrow> i < length ss \<Longrightarrow> sg_first (ss ! i) \<le> sg_last (ss ! i)"
  by (simp add: consecutive_def)

lemma consecutive_Suc: "consecutive ss \<Longrightarrow> Suc i < length ss \<Longrightarrow> sg_first (ss ! Suc i) = sg_last (ss ! i) + 1"
  by (simp add: consecutive_def)

lemma consecutive_sorted:
  assumes "consecutive ss" "i \<le> j" "j < length ss"
  shows "sg_first (ss ! i) \<le> sg_first (ss ! j) \<and> sg_last (ss ! i) \<le> sg_last (ss ! j)"
  using assms(2,3)
proof (induction j rule: dec_induct)
  case (step n)
  note n = consecutive_nth [OF assms(1) Suc_lessD [OF step(4)]] consecutive_nth [OF assms(1) step(4)]
    consecutive_Suc [OF assms(1) step(4)]
  show ?case using step(3) step(4) n by auto
qed simp

section \<open>The loading loop\<close>

lemma load_step:
  fixes mc :: match_cond and n :: int
  assumes "0 \<le> cur" "cur < int (length segs)" "sg_first (segs ! nat cur) \<le> r" "r \<le> sg_last (segs ! nat cur)"
    and "get (segs ! nat cur) r = Some ex" "\<And>acc. snd (deliver (segs ! nat cur) r ex acc) = False"
  defines "acc' \<equiv> \<lambda>acc. if \<not> is_deleted_instance ex \<and> fst (tranger2_match_metadata mc n r ex)
    then fst (deliver (segs ! nat cur) r ex acc) else acc"
  shows "fst (load_loop get mc segs n deliver cur r (acc, here)) = (case next_segment_row segs mc cur r of
      None \<Rightarrow> acc' acc
    | Some (c, r') \<Rightarrow>
       (if \<not> is_deleted_instance ex \<and> snd (tranger2_match_metadata mc n r ex) then acc' acc
        else fst (load_loop get mc segs n deliver c r' (acc' acc, (c, r')))))"
proof -
  obtain found e where m: "tranger2_match_metadata mc n r ex = (found, e)" by fastforce
  obtain a where d: "deliver (segs ! nat cur) r ex acc = (a, False)" using assms(6) by (metis prod.collapse)
  show ?thesis using assms(1-5)
    by (subst load_loop.simps) (simp add: acc'_def m d Let_def split: option.splits)
qed

text \<open>What the loop needs of a store: in a good state the rows of the segments it is given are read as
  the rows of a sequence. Under that law the loop is a fold over the rows it wants, from the row it
  begins at to the last (or, backwards, the first) row of the segments.\<close>

definition wanted_row :: "match_cond \<Rightarrow> int \<Rightarrow> (int \<Rightarrow> md2_record_ex) \<Rightarrow> int \<Rightarrow> bool" where
  "wanted_row mc n row r \<longleftrightarrow> \<not> is_deleted_instance (row r) \<and> fst (tranger2_match_metadata mc n r (row r))"

definition ends_at :: "match_cond \<Rightarrow> int \<Rightarrow> (int \<Rightarrow> md2_record_ex) \<Rightarrow> int \<Rightarrow> bool" where
  "ends_at mc n row r \<longleftrightarrow> snd (tranger2_match_metadata mc n r (row r))"

definition deliveries :: "segment list \<Rightarrow> (int \<Rightarrow> md2_record_ex) \<Rightarrow>
    (segment \<Rightarrow> int \<Rightarrow> md2_record_ex \<Rightarrow> 'a \<Rightarrow> 'a \<times> bool) \<Rightarrow> int list \<Rightarrow> 'a \<Rightarrow> 'a" where
  "deliveries segs row deliver rs acc =
     fold (\<lambda>r acc. fst (deliver (the (segment_of_rowid segs r)) r (row r) acc)) rs acc"

locale row_store =
  fixes good :: "'s \<Rightarrow> bool" and segments :: "'s \<Rightarrow> segment list"
    and get :: "'s \<Rightarrow> segment \<Rightarrow> int \<Rightarrow> md2_record_ex option" and row :: "'s \<Rightarrow> int \<Rightarrow> md2_record_ex"
  assumes reads: "good st \<Longrightarrow> s \<in> set (segments st) \<Longrightarrow> sg_first s \<le> r \<Longrightarrow> r \<le> sg_last s \<Longrightarrow>
      get st s r = Some (row st r)"
    and one_segment: "good st \<Longrightarrow> s \<in> set (segments st) \<Longrightarrow> sg_first s \<le> r \<Longrightarrow> r \<le> sg_last s \<Longrightarrow>
      segment_of_rowid (segments st) r = Some s"
begin

text \<open>Where the walk goes from a row: the next row, or nowhere from the last one.\<close>

lemma next_row_forward:
  assumes "consecutive segs" "\<not> mc_backward mc" "0 \<le> cur" "cur < int (length segs)"
    and "sg_first (segs ! nat cur) \<le> r" "r \<le> sg_last (segs ! nat cur)"
  shows "(next_segment_row segs mc cur r = None \<and> r = sg_last (last segs)) \<or>
    (\<exists>c. next_segment_row segs mc cur r = Some (c, r + 1) \<and> 0 \<le> c \<and> c < int (length segs) \<and>
      sg_first (segs ! nat c) \<le> r + 1 \<and> r + 1 \<le> sg_last (segs ! nat c) \<and> r + 1 \<le> sg_last (last segs))"
proof -
  have ne: "segs \<noteq> []" using assms(3,4) by auto
  have top: "sg_last (segs ! nat c) \<le> sg_last (last segs)" if "0 \<le> c" "c < int (length segs)" for c
    using consecutive_sorted [OF assms(1), of "nat c" "length segs - 1"] that ne
    by (auto simp: last_conv_nth nat_less_iff)
  show ?thesis
  proof (cases "r < sg_last (segs ! nat cur)")
    case True
    then show ?thesis using assms(2-5) ne top [of cur] by (auto simp: next_segment_row_def Let_def)
  next
    case False
    then have r: "r = sg_last (segs ! nat cur)" using assms(6) by simp
    show ?thesis
    proof (cases "cur + 1 < int (length segs)")
      case True
      then have i: "Suc (nat cur) < length segs" and n: "nat (cur + 1) = Suc (nat cur)" using assms(3) by auto
      have "sg_first (segs ! nat (cur + 1)) = r + 1" "r + 1 \<le> sg_last (segs ! nat (cur + 1))"
        using consecutive_Suc [OF assms(1) i] consecutive_nth [OF assms(1) i] r by (simp_all add: n)
      then show ?thesis using assms(2,3) ne r True top [of "cur + 1"]
        by (auto simp: next_segment_row_def Let_def)
    next
      case False
      then have "nat cur = length segs - 1" using assms(3,4) by auto
      then show ?thesis using False assms(2) ne r by (auto simp: next_segment_row_def Let_def last_conv_nth)
    qed
  qed
qed

lemma next_row_backward:
  assumes "consecutive segs" "mc_backward mc" "0 \<le> cur" "cur < int (length segs)" "0 < sg_first (hd segs)"
    and "sg_first (segs ! nat cur) \<le> r" "r \<le> sg_last (segs ! nat cur)"
  shows "(next_segment_row segs mc cur r = None \<and> r = sg_first (hd segs)) \<or>
    (\<exists>c. next_segment_row segs mc cur r = Some (c, r - 1) \<and> 0 \<le> c \<and> c < int (length segs) \<and>
      sg_first (segs ! nat c) \<le> r - 1 \<and> r - 1 \<le> sg_last (segs ! nat c) \<and> sg_first (hd segs) \<le> r - 1)"
proof -
  have ne: "segs \<noteq> []" using assms(3,4) by auto
  have low: "sg_first (hd segs) \<le> sg_first (segs ! nat c)" if "0 \<le> c" "c < int (length segs)" for c
    using consecutive_sorted [OF assms(1), of 0 "nat c"] that ne by (auto simp: hd_conv_nth nat_less_iff)
  show ?thesis
  proof (cases "sg_first (segs ! nat cur) < r")
    case True
    then show ?thesis using assms ne low [of cur] by (auto simp: next_segment_row_def Let_def)
  next
    case False
    then have r: "r = sg_first (segs ! nat cur)" using assms(6) by simp
    show ?thesis
    proof (cases "0 < cur")
      case True
      then have i: "Suc (nat (cur - 1)) < length segs" and n: "nat cur = Suc (nat (cur - 1))" using assms(4) by auto
      have "sg_last (segs ! nat (cur - 1)) = r - 1" "sg_first (segs ! nat (cur - 1)) \<le> r - 1"
        using consecutive_Suc [OF assms(1) i] consecutive_nth [OF assms(1) Suc_lessD [OF i]] r by (simp_all add: n)
      then show ?thesis using assms(2,4,5) ne r True low [of "cur - 1"]
        by (auto simp: next_segment_row_def Let_def)
    next
      case False
      then have "cur = 0" using assms(3) by simp
      then show ?thesis using assms(2) ne r by (auto simp: next_segment_row_def Let_def hd_conv_nth)
    qed
  qed
qed

lemma load_forward:
  assumes "good st" "consecutive segs" "set segs \<subseteq> set (segments st)" "\<not> mc_backward mc"
    and cont: "\<And>s r ex acc. snd (deliver s r ex acc) = False"
    and finish: "\<And>r r' s. s \<in> set segs \<Longrightarrow> sg_first s \<le> r \<Longrightarrow> r \<le> sg_last s \<Longrightarrow> ends_at mc n (row st) r \<Longrightarrow>
      r < r' \<Longrightarrow> r' \<le> sg_last (last segs) \<Longrightarrow> \<not> wanted_row mc n (row st) r'"
    and "0 \<le> cur" "cur < int (length segs)" "sg_first (segs ! nat cur) \<le> r" "r \<le> sg_last (segs ! nat cur)"
  shows "fst (load_loop (get st) mc segs n deliver cur r (acc, here)) =
    deliveries (segments st) (row st) deliver (filter (wanted_row mc n (row st)) [r..sg_last (last segs)]) acc"
  using assms(7-)
proof (induction "nat (sg_last (last segs) - r)" arbitrary: cur r acc here rule: less_induct)
  case less
  let ?s = "segs ! nat cur" and ?row = "row st" and ?hi = "sg_last (last segs)"
  let ?m = "tranger2_match_metadata mc n r (?row r)" and ?acc = "fst (deliver ?s r (?row r) acc)"
  have here_in: "?s \<in> set segs" using less.prems(1,2) by simp
  then have s: "?s \<in> set (segments st)" using assms(3) by blast
  have g: "get st ?s r = Some (?row r)" "segment_of_rowid (segments st) r = Some ?s"
    using reads [OF assms(1) s] one_segment [OF assms(1) s] less.prems(3,4) by blast+
  define acc' where "acc' = (if wanted_row mc n ?row r then ?acc else acc)"
  have empty: "filter (wanted_row mc n ?row) [r + 1..?hi] = []" if "ends_at mc n ?row r"
    using finish [OF here_in less.prems(3,4) that] by (auto simp: filter_empty_conv)
  have now: "deliveries (segments st) ?row deliver (filter (wanted_row mc n ?row) [r..?hi]) acc =
      deliveries (segments st) ?row deliver (filter (wanted_row mc n ?row) [r + 1..?hi]) acc'" if "r \<le> ?hi"
    using that g(2) by (simp add: upto_rec1 deliveries_def acc'_def)
  note step = load_step [where deliver = deliver and get = "get st" and mc = mc and n = n and acc = acc and
      here = here, OF less.prems g(1) cont]
  from next_row_forward [OF assms(2,4) less.prems] show ?case
  proof (elim disjE exE conjE)
    assume none: "next_segment_row segs mc cur r = None" and r: "r = ?hi"
    then show ?thesis using now step by (simp add: deliveries_def acc'_def wanted_row_def)
  next
    fix c assume c: "next_segment_row segs mc cur r = Some (c, r + 1)" "0 \<le> c" "c < int (length segs)"
      "sg_first (segs ! nat c) \<le> r + 1" "r + 1 \<le> sg_last (segs ! nat c)" "r + 1 \<le> ?hi"
    have IH: "fst (load_loop (get st) mc segs n deliver c (r + 1) (acc', (c, r + 1))) =
        deliveries (segments st) ?row deliver (filter (wanted_row mc n ?row) [r + 1..?hi]) acc'"
      using c by (intro less.hyps) auto
    have "fst (load_loop (get st) mc segs n deliver cur r (acc, here)) = (if ends_at mc n ?row r \<and> \<not> is_deleted_instance (?row r)
        then acc' else fst (load_loop (get st) mc segs n deliver c (r + 1) (acc', (c, r + 1))))"
      unfolding step c(1) by (simp add: acc'_def wanted_row_def ends_at_def)
    also have "\<dots> = deliveries (segments st) ?row deliver (filter (wanted_row mc n ?row) [r + 1..?hi]) acc'"
      using IH empty by (simp add: deliveries_def)
    also have "\<dots> = deliveries (segments st) ?row deliver (filter (wanted_row mc n ?row) [r..?hi]) acc"
      using now c(6) by simp
    finally show ?thesis .
  qed
qed

lemma load_backward:
  assumes "good st" "consecutive segs" "set segs \<subseteq> set (segments st)" "mc_backward mc" "0 < sg_first (hd segs)"
    and cont: "\<And>s r ex acc. snd (deliver s r ex acc) = False"
    and finish: "\<And>r r' s. s \<in> set segs \<Longrightarrow> sg_first s \<le> r \<Longrightarrow> r \<le> sg_last s \<Longrightarrow> ends_at mc n (row st) r \<Longrightarrow>
      r' < r \<Longrightarrow> sg_first (hd segs) \<le> r' \<Longrightarrow> \<not> wanted_row mc n (row st) r'"
    and "0 \<le> cur" "cur < int (length segs)" "sg_first (segs ! nat cur) \<le> r" "r \<le> sg_last (segs ! nat cur)"
  shows "fst (load_loop (get st) mc segs n deliver cur r (acc, here)) =
    deliveries (segments st) (row st) deliver (rev (filter (wanted_row mc n (row st)) [sg_first (hd segs)..r])) acc"
  using assms(8-)
proof (induction "nat r" arbitrary: cur r acc here rule: less_induct)
  case less
  let ?s = "segs ! nat cur" and ?row = "row st" and ?lo = "sg_first (hd segs)"
  let ?m = "tranger2_match_metadata mc n r (?row r)" and ?acc = "fst (deliver ?s r (?row r) acc)"
  have here_in: "?s \<in> set segs" using less.prems(1,2) by simp
  then have s: "?s \<in> set (segments st)" using assms(3) by blast
  have g: "get st ?s r = Some (?row r)" "segment_of_rowid (segments st) r = Some ?s"
    using reads [OF assms(1) s] one_segment [OF assms(1) s] less.prems(3,4) by blast+
  define acc' where "acc' = (if wanted_row mc n ?row r then ?acc else acc)"
  have empty: "filter (wanted_row mc n ?row) [?lo..r - 1] = []" if "ends_at mc n ?row r"
    using finish [OF here_in less.prems(3,4) that] by (auto simp: filter_empty_conv)
  have now: "deliveries (segments st) ?row deliver (rev (filter (wanted_row mc n ?row) [?lo..r])) acc =
      deliveries (segments st) ?row deliver (rev (filter (wanted_row mc n ?row) [?lo..r - 1])) acc'" if "?lo \<le> r"
    using that g(2) by (simp add: upto_rec2 deliveries_def acc'_def)
  note step = load_step [where deliver = deliver and get = "get st" and mc = mc and n = n and acc = acc and
      here = here, OF less.prems g(1) cont]
  from next_row_backward [OF assms(2,4) less.prems(1,2) assms(5) less.prems(3,4)] show ?case
  proof (elim disjE exE conjE)
    assume none: "next_segment_row segs mc cur r = None" and r: "r = ?lo"
    then show ?thesis using now step by (simp add: deliveries_def acc'_def wanted_row_def)
  next
    fix c assume c: "next_segment_row segs mc cur r = Some (c, r - 1)" "0 \<le> c" "c < int (length segs)"
      "sg_first (segs ! nat c) \<le> r - 1" "r - 1 \<le> sg_last (segs ! nat c)" "?lo \<le> r - 1"
    have IH: "fst (load_loop (get st) mc segs n deliver c (r - 1) (acc', (c, r - 1))) =
        deliveries (segments st) ?row deliver (rev (filter (wanted_row mc n ?row) [?lo..r - 1])) acc'"
      using c assms(5) by (intro less.hyps) auto
    have "fst (load_loop (get st) mc segs n deliver cur r (acc, here)) = (if ends_at mc n ?row r \<and> \<not> is_deleted_instance (?row r)
        then acc' else fst (load_loop (get st) mc segs n deliver c (r - 1) (acc', (c, r - 1))))"
      unfolding step c(1) by (simp add: acc'_def wanted_row_def ends_at_def)
    also have "\<dots> = deliveries (segments st) ?row deliver (rev (filter (wanted_row mc n ?row) [?lo..r - 1])) acc'"
      using IH empty by (simp add: deliveries_def)
    also have "\<dots> = deliveries (segments st) ?row deliver (rev (filter (wanted_row mc n ?row) [?lo..r])) acc"
      using now c(6) by simp
    finally show ?thesis .
  qed
qed

end

text \<open>A topic whose cache describes its files is such a store.\<close>

lemma key_one_segment:
  assumes "topic_ok tp" "s \<in> set (key_segments tp key)" "sg_first s \<le> r" "r \<le> sg_last s"
  shows "segment_of_rowid (key_segments tp key) r = Some s"
  using annotate_row [OF key_cells_ok [OF assms(1)] assms(2) [unfolded key_segments_def] assms(3,4)]
  by (simp add: key_segments_def)

interpretation topic_rows: row_store "\<lambda>(tp, key). topic_ok tp" "\<lambda>(tp, key). key_segments tp key"
  "\<lambda>(tp, key). get_md_by_rowid tp key" "\<lambda>(tp, key). row_ex tp key"
  by unfold_locales (auto simp: read_row key_one_segment)

end
