(* ===== verification/Tranger_Select.thy ===== *)
theory Tranger_Select
  imports Tranger_Walk
begin

text \<open>
  The segments the code selects are all those whose ranges meet the conditions, when the times of the
  rows of the key never go back; then they are consecutive, hold every row that can match, and the walk
  begins at the right row: loading gives exactly the rows wanted, in order.
\<close>

section \<open>Lists whose elements pass a test up to a point, or from a point on\<close>

lemma filter_takeWhile:
  "sorted_wrt (\<lambda>x y. A y \<longrightarrow> A x) xs \<Longrightarrow> filter A xs = takeWhile A xs"
  by (induction xs) (auto simp: filter_empty_conv)

lemma filter_dropWhile:
  "sorted_wrt (\<lambda>x y. B x \<longrightarrow> B y) xs \<Longrightarrow> filter B xs = dropWhile (\<lambda>x. \<not> B x) xs"
  by (induction xs) (auto simp: filter_id_conv)

lemma filter_interval:
  assumes "sorted_wrt (\<lambda>x y. A y \<longrightarrow> A x) xs" "sorted_wrt (\<lambda>x y. B x \<longrightarrow> B y) xs"
  shows "filter (\<lambda>x. A x \<and> B x) xs = dropWhile (\<lambda>x. \<not> B x) (takeWhile A xs)"
proof -
  have "sorted_wrt (\<lambda>x y. B x \<longrightarrow> B y) (takeWhile A xs)"
    by (subst takeWhile_eq_take) (rule sorted_wrt_take [OF assms(2)])
  then have "filter B (takeWhile A xs) = dropWhile (\<lambda>x. \<not> B x) (takeWhile A xs)" by (rule filter_dropWhile)
  moreover have "filter (\<lambda>x. A x \<and> B x) xs = filter B (filter A xs)" by simp
  ultimately show ?thesis using filter_takeWhile [OF assms(1)] by simp
qed

lemma consecutive_interval: "consecutive ss \<Longrightarrow> consecutive (dropWhile P (takeWhile Q ss))"
  by (subst dropWhile_eq_drop, rule consecutive_drop, subst takeWhile_eq_take, rule consecutive_take)

section \<open>Keys whose times never go back\<close>

definition key_sorted :: "topic \<Rightarrow> string \<Rightarrow> bool" where
  "key_sorted tp key \<longleftrightarrow> sorted (map time_t (key_rows tp key)) \<and> sorted (map time_tm (key_rows tp key))"

definition cell_before :: "cell \<Rightarrow> cell \<Rightarrow> bool" where
  "cell_before c d \<longleftrightarrow> c_fr_t c \<le> c_fr_t d \<and> c_to_t c \<le> c_to_t d \<and> c_fr_tm c \<le> c_fr_tm d \<and> c_to_tm c \<le> c_to_tm d"

lemma range_append_le:
  assumes "sorted (map f (xs @ ys))" "xs \<noteq> []" "ys \<noteq> []" "is_range f xs a b" "is_range f ys c d"
  shows "a \<le> c" "b \<le> d"
proof -
  have le: "f x \<le> f y" if "x \<in> set xs" "y \<in> set ys" for x y using assms(1) that by (simp add: sorted_append)
  obtain x y where xy: "x \<in> set xs" "y \<in> set ys" using hd_in_set [OF assms(2)] hd_in_set [OF assms(3)] by blast
  note xyb = range_bounds(1) [OF assms(4) xy(1)] range_bounds(2) [OF assms(5) xy(2)]
  have "c \<in> f ` set ys" using assms(3,5) by (simp add: is_range_def Min_in)
  then show "a \<le> c" using le [OF xy(1)] xyb(1) by force
  have "b \<in> f ` set xs" using assms(2,4) by (simp add: is_range_def Max_in)
  then show "b \<le> d" using le [OF _ xy(2)] xyb(2) by force
qed

lemma cells_sorted:
  assumes "cells_ok kd cs" "sorted (map time_t (concat (map (cell_rows kd) cs)))"
    "sorted (map time_tm (concat (map (cell_rows kd) cs)))"
  shows "sorted_wrt cell_before cs"
  using assms
proof (induction cs)
  case (Cons c cs)
  have "cell_before c d" if d: "d \<in> set cs" for d
  proof -
    obtain us vs where cs: "cs = us @ d # vs" using split_list [OF d] by blast
    have c: "cell_ok c (cell_rows kd c)" "cell_ok d (cell_rows kd d)" using Cons.prems(1) d by (auto simp: cells_ok_def)
    have s: "sorted (map time_t (cell_rows kd c @ cell_rows kd d))" "sorted (map time_tm (cell_rows kd c @ cell_rows kd d))"
      using Cons.prems(2,3) unfolding cs by (auto simp: sorted_append)
    show ?thesis using c unfolding cell_ok_def cell_before_def
      by (blast intro: range_append_le [OF s(1)] range_append_le [OF s(2)])
  qed
  then show ?case using Cons by (simp add: cells_ok_def sorted_append)
qed simp

text \<open>The segments of sorted cells: rows, times grow from one to the next.\<close>

definition seg_before :: "segment \<Rightarrow> segment \<Rightarrow> bool" where
  "seg_before s s' \<longleftrightarrow> cell_before (sg_cell s) (sg_cell s') \<and> sg_first s \<le> sg_first s' \<and> sg_last s \<le> sg_last s'"

lemma annotate_sorted:
  assumes "cells_ok kd cs" "sorted_wrt cell_before cs" shows "sorted_wrt seg_before (annotate p cs)"
  using assms
proof (induction p cs rule: annotate.induct)
  case (2 p c cs)
  have cs: "cells_ok kd cs" "sorted_wrt cell_before cs" using 2(2,3) by (simp_all add: cells_ok_def)
  have "0 < c_rows c" using cells_okD [OF 2(2), of c] by (auto simp del: of_nat_0_less_iff)
  then have "seg_before \<lparr>sg_cell = c, sg_first = p, sg_last = p + c_rows c - 1\<rparr> s"
    if "s \<in> set (annotate (p + c_rows c) cs)" for s
    using annotate_range [OF cs(1) that] annotate_cells [OF that] 2(3) by (auto simp: seg_before_def)
  then show ?case using 2(1) [OF cs] by simp
qed simp

definition seg_low :: "seg_range \<Rightarrow> segment \<Rightarrow> bool" where
  "seg_low r s \<longleftrightarrow> sg_first s \<le> sr_to_rowid r \<and> c_fr_t (sg_cell s) \<le> sr_to_t r \<and> c_fr_tm (sg_cell s) \<le> sr_to_tm r"

definition seg_high :: "seg_range \<Rightarrow> segment \<Rightarrow> bool" where
  "seg_high r s \<longleftrightarrow> sr_from_rowid r \<le> sg_last s \<and> sr_from_t r \<le> c_to_t (sg_cell s) \<and> sr_from_tm r \<le> c_to_tm (sg_cell s)"

lemma segment_matches_iff: "segment_matches r (sg_first s) (sg_last s) (sg_cell s) \<longleftrightarrow> seg_low r s \<and> seg_high r s"
  by (auto simp: segment_matches_def seg_low_def seg_high_def)

lemma seg_low_mono: "seg_before s s' \<Longrightarrow> seg_low r s' \<Longrightarrow> seg_low r s"
  by (auto simp: seg_before_def cell_before_def seg_low_def)

lemma seg_high_mono: "seg_before s s' \<Longrightarrow> seg_high r s \<Longrightarrow> seg_high r s'"
  by (auto simp: seg_before_def cell_before_def seg_high_def)

theorem segments_forward_filter:
  assumes "sorted_wrt seg_before (annotate p cs)"
  shows "segments_forward r p cs = filter (\<lambda>s. seg_low r s \<and> seg_high r s) (annotate p cs)"
  using assms
proof (induction r p cs rule: segments_forward.induct)
  case (2 r p c cs)
  let ?s = "\<lparr>sg_cell = c, sg_first = p, sg_last = p + c_rows c - 1\<rparr>"
  have m: "segment_matches r p (p + c_rows c - 1) c \<longleftrightarrow> seg_low r ?s \<and> seg_high r ?s"
    using segment_matches_iff [of r ?s] by simp
  show ?case
  proof (cases "seg_low r ?s")
    case True
    then show ?thesis using 2 m by (simp add: Let_def) (auto simp: seg_low_def)
  next
    case False
    then have "\<forall>s \<in> set (annotate p (c # cs)). \<not> seg_low r s" using 2(2) seg_low_mono by auto
    then have "filter (\<lambda>s. seg_low r s \<and> seg_high r s) (annotate p (c # cs)) = []" by (auto simp: filter_empty_conv)
    moreover have "segments_forward r p (c # cs) = []" using False by (auto simp: seg_low_def Let_def)
    ultimately show ?thesis by (simp only:)
  qed
qed simp

lemma annotate_append: "annotate p (cs @ ds) = annotate p cs @ annotate (p + sum_list (map c_rows cs)) ds"
  by (induction cs arbitrary: p) (simp_all add: add.assoc)

theorem segments_backward_filter:
  assumes "sorted_wrt seg_before (annotate p cs)"
  shows "segments_backward r (p + sum_list (map c_rows cs) - 1) (rev cs) =
    filter (\<lambda>s. seg_low r s \<and> seg_high r s) (annotate p cs)"
  using assms
proof (induction cs rule: rev_induct)
  case (snoc c cs)
  let ?q = "p + sum_list (map c_rows cs)"
  let ?s = "\<lparr>sg_cell = c, sg_first = ?q, sg_last = ?q + c_rows c - 1\<rparr>"
  have a: "annotate p (cs @ [c]) = annotate p cs @ [?s]" by (simp add: annotate_append)
  have q: "p + (sum_list (map c_rows cs) + c_rows c) - 1 - c_rows c = ?q - 1"
    "p + (sum_list (map c_rows cs) + c_rows c) - 1 = ?q + c_rows c - 1"
    "p + (sum_list (map c_rows cs) - 1) = ?q - 1" by simp_all
  have m: "segment_matches r ?q (?q + c_rows c - 1) c \<longleftrightarrow> seg_low r ?s \<and> seg_high r ?s"
    using segment_matches_iff [of r ?s] by simp
  show ?case
  proof (cases "seg_high r ?s")
    case True
    have "segments_backward r (?q - 1) (rev cs) = filter (\<lambda>s. seg_low r s \<and> seg_high r s) (annotate p cs)"
      using snoc by (simp add: a sorted_wrt_append)
    moreover have "\<not> ?q + c_rows c - 1 < sr_from_rowid r" "\<not> c_to_t c < sr_from_t r" "\<not> c_to_tm c < sr_from_tm r"
      using True by (simp_all add: seg_high_def)
    ultimately show ?thesis using True m by (simp add: a Let_def q)
  next
    case False
    then have "\<forall>s \<in> set (annotate p (cs @ [c])). \<not> seg_high r s"
      using snoc(2) seg_high_mono unfolding a by (auto simp: sorted_wrt_append)
    then have "filter (\<lambda>s. seg_low r s \<and> seg_high r s) (annotate p (cs @ [c])) = []" by (auto simp: filter_empty_conv)
    moreover have "segments_backward r (p + sum_list (map c_rows (cs @ [c])) - 1) (rev (cs @ [c])) = []"
      using False by (auto simp: seg_high_def Let_def)
    ultimately show ?thesis by (simp only:)
  qed
qed simp

section \<open>Which rows are wanted\<close>

text \<open>The conditions as the header of the library states them, on the numbers of a row.\<close>

definition row_number_wanted :: "match_cond \<Rightarrow> int \<Rightarrow> int \<Rightarrow> bool" where
  "row_number_wanted mc n r \<longleftrightarrow>
     (\<exists>f l. adjust_from_rowid n (mc_from_rowid mc) = Some f \<and> adjust_to_rowid n (mc_to_rowid mc) = Some l \<and>
        f \<le> r \<and> r \<le> l)"

definition times_wanted :: "match_cond \<Rightarrow> md2_record \<Rightarrow> bool" where
  "times_wanted mc md \<longleftrightarrow> mc_from_t mc \<le> time_t md \<and> (mc_to_t mc = 0 \<or> time_t md \<le> mc_to_t mc) \<and>
     mc_from_tm mc \<le> time_tm md \<and> (mc_to_tm mc = 0 \<or> time_tm md \<le> mc_to_tm mc)"

definition wanted :: "match_cond \<Rightarrow> int \<Rightarrow> int \<Rightarrow> md2_record \<Rightarrow> bool" where
  "wanted mc n r md \<longleftrightarrow> get_system_flag md AND sf_deleted_instance = 0 \<and> row_number_wanted mc n r \<and>
     times_wanted mc md \<and> flags_match mc (get_user_flag md)"

text \<open>Times in a condition are times: not negative, and within 64 bits.\<close>

definition cond_ok :: "match_cond \<Rightarrow> bool" where
  "cond_ok mc \<longleftrightarrow> (\<forall>t \<in> {mc_from_t mc, mc_to_t mc, mc_from_tm mc, mc_to_tm mc}. 0 \<le> t \<and> t < 2 ^ 63)"

lemma word_time_less:
  assumes "0 \<le> c" "c < 2 ^ 63"
  shows "(w :: 64 word) < word_of_int c \<longleftrightarrow> uint w < c" "word_of_int c < w \<longleftrightarrow> c < uint w"
proof -
  have "uint (word_of_int c :: 64 word) = c" using assms by (simp add: uint_word_of_int)
  then show "w < word_of_int c \<longleftrightarrow> uint w < c" "word_of_int c < w \<longleftrightarrow> c < uint w" by (simp_all add: word_less_def)
qed

lemma match_row:
  assumes "cond_ok mc" "x_t ex = get_time_t md" "x_tm ex = get_time_tm md" "x_user_flag ex = get_user_flag md"
    "0 < r" "r \<le> n"
  shows "fst (tranger2_match_metadata mc n r ex) \<longleftrightarrow>
    row_number_wanted mc n r \<and> times_wanted mc md \<and> flags_match mc (get_user_flag md)"
proof -
  have b: "0 \<le> mc_from_t mc" "mc_from_t mc < 2 ^ 63" "0 \<le> mc_to_t mc" "mc_to_t mc < 2 ^ 63"
    "0 \<le> mc_from_tm mc" "mc_from_tm mc < 2 ^ 63" "0 \<le> mc_to_tm mc" "mc_to_tm mc < 2 ^ 63"
    using assms(1) by (auto simp: cond_ok_def)
  have pos: "0 \<le> time_t md" "0 \<le> time_tm md" by (simp_all add: time_t_def time_tm_def)
  have w: "x_t ex < word_of_int (mc_from_t mc) \<longleftrightarrow> time_t md < mc_from_t mc"
    "word_of_int (mc_to_t mc) < x_t ex \<longleftrightarrow> mc_to_t mc < time_t md"
    "x_tm ex < word_of_int (mc_from_tm mc) \<longleftrightarrow> time_tm md < mc_from_tm mc"
    "word_of_int (mc_to_tm mc) < x_tm ex \<longleftrightarrow> mc_to_tm mc < time_tm md"
    using b assms(2,3) by (simp_all add: word_time_less time_t_def time_tm_def)
  show ?thesis
  proof (cases "adjust_from_rowid n (mc_from_rowid mc)")
    case None
    then show ?thesis by (simp add: tranger2_match_metadata_def row_number_wanted_def)
  next
    case f: (Some f)
    show ?thesis
    proof (cases "adjust_to_rowid n (mc_to_rowid mc)")
      case None
      then show ?thesis by (simp add: tranger2_match_metadata_def row_number_wanted_def f)
    next
      case l: (Some l)
      have "f \<noteq> 0" "l \<noteq> 0"
        using f l assms(5,6) by (auto simp: adjust_from_rowid_def adjust_to_rowid_def split: if_splits)
      then show ?thesis using pos b
        by (auto simp: tranger2_match_metadata_def row_number_wanted_def times_wanted_def f l w assms(4) Let_def not_less)
    qed
  qed
qed

lemma ends_row:
  assumes "cond_ok mc" "x_t ex = get_time_t md" "x_tm ex = get_time_tm md" "0 < r" "r \<le> n"
    and "snd (tranger2_match_metadata mc n r ex)"
  shows "(\<forall>r'. \<not> row_number_wanted mc n r') \<or>
    (if mc_backward mc
     then (\<forall>r' < r. \<not> row_number_wanted mc n r') \<or> time_t md < mc_from_t mc \<or> time_tm md < mc_from_tm mc
     else (\<forall>r' > r. \<not> row_number_wanted mc n r') \<or> (mc_to_t mc \<noteq> 0 \<and> mc_to_t mc < time_t md) \<or>
       (mc_to_tm mc \<noteq> 0 \<and> mc_to_tm mc < time_tm md))"
proof -
  have b: "0 \<le> mc_from_t mc" "mc_from_t mc < 2 ^ 63" "0 \<le> mc_to_t mc" "mc_to_t mc < 2 ^ 63"
    "0 \<le> mc_from_tm mc" "mc_from_tm mc < 2 ^ 63" "0 \<le> mc_to_tm mc" "mc_to_tm mc < 2 ^ 63"
    using assms(1) by (auto simp: cond_ok_def)
  have w: "x_t ex < word_of_int (mc_from_t mc) \<longleftrightarrow> time_t md < mc_from_t mc"
    "word_of_int (mc_to_t mc) < x_t ex \<longleftrightarrow> mc_to_t mc < time_t md"
    "x_tm ex < word_of_int (mc_from_tm mc) \<longleftrightarrow> time_tm md < mc_from_tm mc"
    "word_of_int (mc_to_tm mc) < x_tm ex \<longleftrightarrow> mc_to_tm mc < time_tm md"
    using b assms(2,3) by (simp_all add: word_time_less time_t_def time_tm_def)
  show ?thesis using assms(6)
    by (auto simp: tranger2_match_metadata_def row_number_wanted_def w Let_def split: option.splits if_splits)
qed

section \<open>The segments of a search\<close>

lemma annotate_cover:
  assumes "cells_ok kd cs" "p \<le> r" "r < p + int (length (concat (map (cell_rows kd) cs)))"
  shows "\<exists>s \<in> set (annotate p cs). sg_first s \<le> r \<and> r \<le> sg_last s"
  using assms
proof (induction p cs rule: annotate.induct)
  case (2 p c cs)
  have c: "c_rows c = int (length (cell_rows kd c))" using cells_okD [OF 2(2), of c] by simp
  have "cells_ok kd cs" using 2(2) by (simp add: cells_ok_def)
  then show ?case using 2(1,3,4) c by (cases "r < p + c_rows c") auto
qed simp

definition key_row :: "topic \<Rightarrow> string \<Rightarrow> int \<Rightarrow> md2_record" where
  "key_row tp key r = key_rows tp key ! nat (r - 1)"

lemma row_segment:
  assumes "topic_ok tp" "0 < r" "r \<le> int (length (key_rows tp key))"
  obtains s where "s \<in> set (key_segments tp key)" "sg_first s \<le> r" "r \<le> sg_last s"
    "c_fr_t (sg_cell s) \<le> time_t (key_row tp key r)" "time_t (key_row tp key r) \<le> c_to_t (sg_cell s)"
    "c_fr_tm (sg_cell s) \<le> time_tm (key_row tp key r)" "time_tm (key_row tp key r) \<le> c_to_tm (sg_cell s)"
proof -
  let ?kd = "key_dir_of tp key" and ?cs = "kc_files (get_key_cache tp key)"
  note ok = key_cells_ok [OF assms(1), of key]
  obtain s where s: "s \<in> set (key_segments tp key)" "sg_first s \<le> r" "r \<le> sg_last s"
    using annotate_cover [OF ok, of 1 r] assms(2,3) by (auto simp: key_segments_def key_rows_def key_hist_def)
  note a = annotate_row [OF ok s(1) [unfolded key_segments_def] s(2,3)]
  have m: "key_row tp key r \<in> set (cell_rows ?kd (sg_cell s))"
    using a by (simp add: key_row_def key_rows_def key_hist_def)
  have "cell_ok (sg_cell s) (cell_rows ?kd (sg_cell s))"
    using annotate_cells [OF s(1) [unfolded key_segments_def]] ok by (simp add: cells_ok_def)
  then have g: "is_range time_t (cell_rows ?kd (sg_cell s)) (c_fr_t (sg_cell s)) (c_to_t (sg_cell s))"
    "is_range time_tm (cell_rows ?kd (sg_cell s)) (c_fr_tm (sg_cell s)) (c_to_tm (sg_cell s))"
    by (simp_all add: cell_ok_def)
  show thesis by (rule that [OF s range_bounds [OF g(1) m] range_bounds [OF g(2) m]])
qed

lemma total_bounds:
  assumes "topic_ok tp" "0 < r" "r \<le> int (length (key_rows tp key))"
  defines "kt \<equiv> kc_total (get_key_cache tp key)"
  shows "kt_fr_t kt \<le> time_t (key_row tp key r)" "time_t (key_row tp key r) \<le> kt_to_t kt"
    "kt_fr_tm kt \<le> time_tm (key_row tp key r)" "time_tm (key_row tp key r) \<le> kt_to_tm kt"
proof -
  have m: "key_row tp key r \<in> set (key_rows tp key)" using assms(2,3) by (simp add: key_row_def)
  then have g: "is_range time_t (key_rows tp key) (kt_fr_t kt) (kt_to_t kt)"
    "is_range time_tm (key_rows tp key) (kt_fr_tm kt) (kt_to_tm kt)"
    using topic_okD [OF assms(1), of key] by (auto simp: key_ok_def total_ok_def key_rows_def kt_def split: if_splits)
  then show "kt_fr_t kt \<le> time_t (key_row tp key r)" "time_t (key_row tp key r) \<le> kt_to_t kt"
    "kt_fr_tm kt \<le> time_tm (key_row tp key r)" "time_tm (key_row tp key r) \<le> kt_to_tm kt"
    using range_bounds [OF g(1) m] range_bounds [OF g(2) m] by simp_all
qed

lemma adjust_from_time_Some:
  "adjust_from_time a b t = Some t' \<Longrightarrow> 0 \<le> t \<Longrightarrow> t \<le> t' \<or> t = 0"
  "adjust_from_time a b t = Some t' \<Longrightarrow> t' \<le> max a t"
  "adjust_from_time a b 0 = Some a" "t \<le> x \<Longrightarrow> x \<le> b \<Longrightarrow> \<exists>t'. adjust_from_time a b t = Some t'"
  by (auto simp: adjust_from_time_def split: if_splits)

lemma adjust_to_time_Some:
  "adjust_to_time a b t = Some t' \<Longrightarrow> t' \<le> t \<or> t = 0" "adjust_to_time a b t = Some t' \<Longrightarrow> x \<le> b \<Longrightarrow> t = 0 \<or> x \<le> t \<Longrightarrow> x \<le> t'"
  "a \<le> x \<Longrightarrow> t = 0 \<or> x \<le> t \<Longrightarrow> \<exists>t'. adjust_to_time a b t = Some t'"
  by (auto simp: adjust_to_time_def split: if_splits)

definition search_range :: "topic \<Rightarrow> string \<Rightarrow> match_cond \<Rightarrow> seg_range option" where
  "search_range tp key mc = range_of_cond (kc_total (get_key_cache tp key)) mc"

text \<open>A wanted row is in a segment of the range, and there is none when there is no range.\<close>

lemma wanted_in_range:
  assumes "topic_ok tp" "0 < r" "r \<le> int (length (key_rows tp key))"
    and "row_number_wanted mc (int (length (key_rows tp key))) r" "times_wanted mc (key_row tp key r)"
  obtains rg s where "search_range tp key mc = Some rg" "s \<in> set (key_segments tp key)" "sg_first s \<le> r"
    "r \<le> sg_last s" "seg_low rg s" "seg_high rg s"
proof -
  let ?kt = "kc_total (get_key_cache tp key)" and ?md = "key_row tp key r"
  have rows: "kt_rows ?kt = int (length (key_rows tp key))" using key_rows_number [OF assms(1)] .
  note t = total_bounds [OF assms(1-3)]
  obtain f l where fl: "adjust_from_rowid (kt_rows ?kt) (mc_from_rowid mc) = Some f"
      "adjust_to_rowid (kt_rows ?kt) (mc_to_rowid mc) = Some l" "f \<le> r" "r \<le> l"
    using assms(4) rows by (auto simp: row_number_wanted_def)
  have w: "mc_from_t mc \<le> time_t ?md" "mc_to_t mc = 0 \<or> time_t ?md \<le> mc_to_t mc"
    "mc_from_tm mc \<le> time_tm ?md" "mc_to_tm mc = 0 \<or> time_tm ?md \<le> mc_to_tm mc"
    using assms(5) by (simp_all add: times_wanted_def)
  obtain a where a: "adjust_from_time (kt_fr_t ?kt) (kt_to_t ?kt) (mc_from_t mc) = Some a"
    using adjust_from_time_Some(4) [OF w(1) t(2)] by blast
  obtain b where b: "adjust_to_time (kt_fr_t ?kt) (kt_to_t ?kt) (mc_to_t mc) = Some b"
    using adjust_to_time_Some(3) [OF t(1) w(2)] by blast
  obtain a' where a': "adjust_from_time (kt_fr_tm ?kt) (kt_to_tm ?kt) (mc_from_tm mc) = Some a'"
    using adjust_from_time_Some(4) [OF w(3) t(4)] by blast
  obtain b' where b': "adjust_to_time (kt_fr_tm ?kt) (kt_to_tm ?kt) (mc_to_tm mc) = Some b'"
    using adjust_to_time_Some(3) [OF t(3) w(4)] by blast
  define rg where "rg = \<lparr>sr_from_rowid = f, sr_to_rowid = l, sr_from_t = a, sr_to_t = b, sr_from_tm = a', sr_to_tm = b'\<rparr>"
  have rg: "search_range tp key mc = Some rg"
    using fl a b a' b' by (simp add: search_range_def range_of_cond_def rg_def)
  have le: "a \<le> time_t ?md" "a' \<le> time_tm ?md"
    using adjust_from_time_Some(2) [OF a] adjust_from_time_Some(2) [OF a'] w t by auto
  have ge: "time_t ?md \<le> b" "time_tm ?md \<le> b'"
    using adjust_to_time_Some(2) [OF b t(2) w(2)] adjust_to_time_Some(2) [OF b' t(4) w(4)] by auto
  obtain s where s: "s \<in> set (key_segments tp key)" "sg_first s \<le> r" "r \<le> sg_last s"
    "c_fr_t (sg_cell s) \<le> time_t ?md" "time_t ?md \<le> c_to_t (sg_cell s)"
    "c_fr_tm (sg_cell s) \<le> time_tm ?md" "time_tm ?md \<le> c_to_tm (sg_cell s)"
    using row_segment [OF assms(1-3)] .
  show thesis
    by (rule that [OF rg s(1-3)]) (use fl le ge s in \<open>auto simp: seg_low_def seg_high_def rg_def\<close>)
qed

lemma key_segments_sorted:
  assumes "topic_ok tp" "key_sorted tp key"
  shows "sorted_wrt seg_before (key_segments tp key)"
  using assms unfolding key_segments_def key_sorted_def key_rows_def key_hist_def
  by (intro annotate_sorted [OF key_cells_ok [OF assms(1)]] cells_sorted [OF key_cells_ok [OF assms(1)]]) simp_all

definition selected_segments :: "topic \<Rightarrow> string \<Rightarrow> seg_range \<Rightarrow> segment list" where
  "selected_segments tp key rg = dropWhile (\<lambda>s. \<not> seg_high rg s) (takeWhile (seg_low rg) (key_segments tp key))"

lemma selected_filter:
  assumes "sorted_wrt seg_before (key_segments tp key)"
  shows "filter (\<lambda>s. seg_low rg s \<and> seg_high rg s) (key_segments tp key) = selected_segments tp key rg"
proof -
  have a: "sorted_wrt (\<lambda>x y. seg_low rg y \<longrightarrow> seg_low rg x) (key_segments tp key)"
    by (rule sorted_wrt_mono_rel [OF _ assms]) (use seg_low_mono in blast)
  have b: "sorted_wrt (\<lambda>x y. seg_high rg x \<longrightarrow> seg_high rg y) (key_segments tp key)"
    by (rule sorted_wrt_mono_rel [OF _ assms]) (use seg_high_mono in blast)
  show ?thesis using filter_interval [OF a b] by (simp add: selected_segments_def)
qed

lemma key_total_rows: "topic_ok tp \<Longrightarrow> get_topic_key_rows tp key = int (length (key_rows tp key))"
  using key_rows_number [of tp key]
  by (auto simp: get_topic_key_rows_def get_key_cache_def create_cache_key_def split: option.splits)

lemma sum_rows: "cells_ok kd cs \<Longrightarrow> sum_list (map c_rows cs) = int (length (concat (map (cell_rows kd) cs)))"
  by (induction cs) (simp_all add: cells_ok_def cell_ok_def)

theorem get_segments_selected:
  assumes "topic_ok tp" "key_sorted tp key"
  shows "fst (get_segments tp key mc) = (case search_range tp key mc of
     None \<Rightarrow> [] | Some rg \<Rightarrow> (if key_rows tp key = [] then [] else selected_segments tp key rg))"
proof (cases "map_of (tp_cache tp) key")
  case None
  then have "key_rows tp key = []" by (simp add: key_rows_def key_hist_def get_key_cache_def create_cache_key_def)
  then show ?thesis using None by (simp add: get_segments_def split: option.splits)
next
  case (Some kc)
  have kc: "get_key_cache tp key = kc" using Some by (simp add: get_key_cache_def)
  have n: "kt_rows (kc_total kc) = int (length (key_rows tp key))" using key_rows_number [OF assms(1), of key] kc by simp
  have "sum_list (map c_rows (kc_files kc)) = int (length (key_rows tp key))"
    using sum_rows [OF key_cells_ok [OF assms(1), of key]] by (simp add: key_rows_def key_hist_def kc)
  then have b: "segments_backward rg (kt_rows (kc_total kc)) (rev (kc_files kc)) = selected_segments tp key rg" for rg
    using segments_backward_filter [OF key_segments_sorted [OF assms, unfolded key_segments_def], of rg]
      selected_filter [OF key_segments_sorted [OF assms], of rg] n
    by (simp add: key_segments_def kc)
  have f: "segments_forward rg 1 (kc_files kc) = selected_segments tp key rg" for rg
    using segments_forward_filter [OF key_segments_sorted [OF assms, unfolded key_segments_def], of rg]
      selected_filter [OF key_segments_sorted [OF assms], of rg]
    by (simp add: key_segments_def kc)
  show ?thesis using Some b f n by (simp add: get_segments_def search_range_def kc split: option.splits)
qed

end
