(* ===== verification/Tranger_Load.thy ===== *)
theory Tranger_Load
  imports Tranger_Select
begin

text \<open>
  Loading a key: the rows a search gives are the wanted rows of the history of the key, in its order or
  in the opposite one, and the index of a filtered iterator numbers the same rows.
\<close>

section \<open>Rows read and rows of the history\<close>

lemma row_ex_row:
  "x_t (row_ex tp key r) = get_time_t (key_row tp key r)" "x_tm (row_ex tp key r) = get_time_tm (key_row tp key r)"
  "x_user_flag (row_ex tp key r) = get_user_flag (key_row tp key r)"
  "x_system_flag (row_ex tp key r) = get_system_flag (key_row tp key r)"
  by (simp_all add: row_ex_fields key_row_def)

lemma wanted_row_iff:
  assumes "cond_ok mc" "0 < r" "r \<le> n"
  shows "wanted_row mc n (row_ex tp key) r \<longleftrightarrow> wanted mc n r (key_row tp key r)"
  using match_row [OF assms(1) row_ex_row(1-3) assms(2,3), of tp key]
  by (auto simp: wanted_row_def wanted_def is_deleted_instance_def row_ex_row)

lemma key_row_sorted:
  assumes "key_sorted tp key" "0 < r" "r \<le> r'" "r' \<le> int (length (key_rows tp key))"
  shows "time_t (key_row tp key r) \<le> time_t (key_row tp key r')" "time_tm (key_row tp key r) \<le> time_tm (key_row tp key r')"
  using assms sorted_nth_mono [of "map time_t (key_rows tp key)" "nat (r - 1)" "nat (r' - 1)"]
    sorted_nth_mono [of "map time_tm (key_rows tp key)" "nat (r - 1)" "nat (r' - 1)"]
  by (auto simp: key_sorted_def key_row_def)

lemma ends_forward:
  assumes "cond_ok mc" "\<not> mc_backward mc" "key_sorted tp key" "0 < r" "r < r'" "r' \<le> int (length (key_rows tp key))"
    and "ends_at mc (int (length (key_rows tp key))) (row_ex tp key) r"
  shows "\<not> wanted mc (int (length (key_rows tp key))) r' (key_row tp key r')"
proof -
  have n: "r \<le> int (length (key_rows tp key))" using assms(5,6) by simp
  have le: "time_t (key_row tp key r) \<le> time_t (key_row tp key r')" "time_tm (key_row tp key r) \<le> time_tm (key_row tp key r')"
    using key_row_sorted [OF assms(3,4)] assms(5,6) by simp_all
  from ends_row [OF assms(1) row_ex_row(1,2) [of tp key r] assms(4) n] assms(2,5,7) le show ?thesis
    by (auto simp: ends_at_def wanted_def times_wanted_def)
qed

lemma ends_backward:
  assumes "cond_ok mc" "mc_backward mc" "key_sorted tp key" "0 < r'" "r' < r" "r \<le> int (length (key_rows tp key))"
    and "ends_at mc (int (length (key_rows tp key))) (row_ex tp key) r"
  shows "\<not> wanted mc (int (length (key_rows tp key))) r' (key_row tp key r')"
proof -
  have r: "0 < r" using assms(4,5) by simp
  have le: "time_t (key_row tp key r') \<le> time_t (key_row tp key r)" "time_tm (key_row tp key r') \<le> time_tm (key_row tp key r)"
    using key_row_sorted [OF assms(3,4)] assms(5,6) by simp_all
  from ends_row [OF assms(1) row_ex_row(1,2) [of tp key r] r assms(6)] assms(2,5,7) le show ?thesis
    by (auto simp: ends_at_def wanted_def times_wanted_def)
qed

section \<open>Where the selected segments begin and end\<close>

lemma key_segments_range:
  assumes "topic_ok tp" "s \<in> set (key_segments tp key)"
  shows "1 \<le> sg_first s" "sg_first s \<le> sg_last s" "sg_last s \<le> int (length (key_rows tp key))"
  using annotate_range [OF key_cells_ok [OF assms(1)] assms(2) [unfolded key_segments_def]]
  by (simp_all add: key_rows_def key_hist_def)

lemma selected_consecutive: "topic_ok tp \<Longrightarrow> consecutive (selected_segments tp key rg)"
  unfolding selected_segments_def key_segments_def
  by (rule consecutive_interval [OF consecutive_annotate [OF key_cells_ok]])

lemma selected_subset: "set (selected_segments tp key rg) \<subseteq> set (key_segments tp key)"
  unfolding selected_segments_def by (auto dest: set_dropWhileD set_takeWhileD)

lemma selected_iff:
  assumes "topic_ok tp" "key_sorted tp key"
  shows "s \<in> set (selected_segments tp key rg) \<longleftrightarrow> s \<in> set (key_segments tp key) \<and> seg_low rg s \<and> seg_high rg s"
  unfolding selected_filter [OF key_segments_sorted [OF assms], symmetric] by simp

lemma consecutive_hd_last:
  assumes "consecutive ss" "s \<in> set ss" shows "sg_first (hd ss) \<le> sg_first s" "sg_last s \<le> sg_last (last ss)"
proof -
  obtain i where i: "i < length ss" "ss ! i = s" using assms(2) by (auto simp: in_set_conv_nth)
  then have "ss \<noteq> []" by auto
  then show "sg_first (hd ss) \<le> sg_first s" "sg_last s \<le> sg_last (last ss)"
    using consecutive_sorted [OF assms(1), of 0 i] consecutive_sorted [OF assms(1), of i "length ss - 1"] i
    by (simp_all add: hd_conv_nth last_conv_nth)
qed

lemma wanted_selected:
  assumes "topic_ok tp" "key_sorted tp key" "0 < r" "r \<le> int (length (key_rows tp key))"
    and "wanted mc (int (length (key_rows tp key))) r (key_row tp key r)"
  obtains rg s where "search_range tp key mc = Some rg" "s \<in> set (selected_segments tp key rg)" "sg_first s \<le> r" "r \<le> sg_last s"
  using wanted_in_range [OF assms(1,3,4), of mc] assms(5) selected_iff [OF assms(1,2)] unfolding wanted_def by metis

text \<open>The segment before the first selected one ends before the conditions begin.\<close>

lemma before_selected:
  assumes "topic_ok tp" "selected_segments tp key rg \<noteq> []"
  shows "sg_first (hd (selected_segments tp key rg)) = 1 \<or>
    (\<exists>s \<in> set (key_segments tp key). \<not> seg_high rg s \<and> sg_last s + 1 = sg_first (hd (selected_segments tp key rg)))"
proof -
  let ?ks = "key_segments tp key" and ?t = "takeWhile (seg_low rg) (key_segments tp key)"
  let ?u = "takeWhile (\<lambda>s. \<not> seg_high rg s) ?t" and ?v = "selected_segments tp key rg"
  have t: "?t = ?u @ ?v" by (simp add: selected_segments_def)
  have c: "consecutive ?t" unfolding key_segments_def
    by (subst takeWhile_eq_take) (rule consecutive_take [OF consecutive_annotate [OF key_cells_ok [OF assms(1)]]])
  show ?thesis
  proof (cases "?u = []")
    case True
    then have "hd ?v = hd ?t" using t by simp
    also have "hd ?t = hd ?ks" using t assms(2) by (cases ?ks) (auto split: if_splits)
    also have "sg_first (hd ?ks) = 1"
      using t assms(2) by (cases "kc_files (get_key_cache tp key)") (auto simp: key_segments_def)
    finally show ?thesis ..
  next
    case False
    let ?i = "length ?u - 1"
    have i: "Suc ?i < length ?t" using False assms(2) by (subst t) simp
    have "?t ! ?i = last ?u" "?t ! Suc ?i = hd ?v"
      using False assms(2) by (subst t, simp add: nth_append last_conv_nth hd_conv_nth)+
    then have "sg_last (last ?u) + 1 = sg_first (hd ?v)" using consecutive_Suc [OF c i] by simp
    moreover have "last ?u \<in> set ?u" using False by simp
    then have "\<not> seg_high rg (last ?u)" "last ?u \<in> set ?ks" by (auto dest!: set_takeWhileD)
    ultimately show ?thesis by blast
  qed
qed

section \<open>The row a search begins at\<close>

text \<open>A search that begins at a row number and also at a time may begin at a row of a file it does not
  look at, and then finds nothing. The searches below begin at a row number or at a time.\<close>

definition starts_ok :: "match_cond \<Rightarrow> bool" where
  "starts_ok mc \<longleftrightarrow> (if mc_backward mc then mc_to_rowid mc = 0 \<or> (mc_to_t mc = 0 \<and> mc_to_tm mc = 0)
     else mc_from_rowid mc = 0 \<or> (mc_from_t mc = 0 \<and> mc_from_tm mc = 0))"

lemma search_rangeD:
  assumes "search_range tp key mc = Some rg" "topic_ok tp"
  defines "n \<equiv> int (length (key_rows tp key))" and "kt \<equiv> kc_total (get_key_cache tp key)"
  shows "adjust_from_rowid n (mc_from_rowid mc) = Some (sr_from_rowid rg)" "adjust_to_rowid n (mc_to_rowid mc) = Some (sr_to_rowid rg)"
    "adjust_from_time (kt_fr_t kt) (kt_to_t kt) (mc_from_t mc) = Some (sr_from_t rg)"
    "adjust_to_time (kt_fr_t kt) (kt_to_t kt) (mc_to_t mc) = Some (sr_to_t rg)"
    "adjust_from_time (kt_fr_tm kt) (kt_to_tm kt) (mc_from_tm mc) = Some (sr_from_tm rg)"
    "adjust_to_time (kt_fr_tm kt) (kt_to_tm kt) (mc_to_tm mc) = Some (sr_to_tm rg)"
  using assms(1) key_rows_number [OF assms(2), of key]
  by (auto simp: search_range_def range_of_cond_def n_def kt_def bind_eq_Some_conv split: if_splits)

lemma cell_in_total:
  assumes "topic_ok tp" "s \<in> set (key_segments tp key)"
  defines "kt \<equiv> kc_total (get_key_cache tp key)"
  shows "kt_fr_t kt \<le> c_to_t (sg_cell s)" "kt_fr_tm kt \<le> c_to_tm (sg_cell s)"
    "c_fr_t (sg_cell s) \<le> kt_to_t kt" "c_fr_tm (sg_cell s) \<le> kt_to_tm kt"
proof -
  note k = key_segments_range [OF assms(1,2)]
  have r: "0 < sg_first s" "sg_first s \<le> int (length (key_rows tp key))" using k by simp_all
  obtain s' where s': "s' \<in> set (key_segments tp key)" "sg_first s' \<le> sg_first s" "sg_first s \<le> sg_last s'"
    "c_fr_t (sg_cell s') \<le> time_t (key_row tp key (sg_first s))" "time_t (key_row tp key (sg_first s)) \<le> c_to_t (sg_cell s')"
    "c_fr_tm (sg_cell s') \<le> time_tm (key_row tp key (sg_first s))" "time_tm (key_row tp key (sg_first s)) \<le> c_to_tm (sg_cell s')"
    using row_segment [OF assms(1) r] .
  have "s' = s" using key_one_segment [OF assms(1) s'(1-3)] key_one_segment [OF assms(1,2) order_refl k(2)] by simp
  then show "kt_fr_t kt \<le> c_to_t (sg_cell s)" "kt_fr_tm kt \<le> c_to_tm (sg_cell s)"
    "c_fr_t (sg_cell s) \<le> kt_to_t kt" "c_fr_tm (sg_cell s) \<le> kt_to_tm kt"
    using s' total_bounds [OF assms(1) r] by (simp_all add: kt_def)
qed

lemma first_row_forward:
  assumes "topic_ok tp" "search_range tp key mc = Some rg" "\<not> mc_backward mc" "starts_ok mc" "cond_ok mc"
  defines "segs \<equiv> selected_segments tp key rg" and "n \<equiv> int (length (key_rows tp key))"
  assumes "segs \<noteq> []" "key_sorted tp key"
  obtains r where "first_segment_row segs n mc = Some (0, r)" "sg_first (hd segs) \<le> r" "r \<le> sg_last (hd segs)"
    "sg_first (hd segs) < r \<Longrightarrow> r = sr_from_rowid rg"
proof -
  note rg = search_rangeD [OF assms(2,1)]
  obtain s ss where segs: "segs = s # ss" using assms(8) by (cases segs) auto
  then have s: "s \<in> set (key_segments tp key)" "seg_high rg s"
    using selected_iff [OF assms(1,9), of s rg] unfolding segs_def by auto
  have high: "sr_from_rowid rg \<le> sg_last s" "sr_from_t rg \<le> c_to_t (sg_cell s)" "sr_from_tm rg \<le> c_to_tm (sg_cell s)"
    using s(2) by (simp_all add: seg_high_def)
  have pos: "0 \<le> mc_from_t mc" "0 \<le> mc_from_tm mc" using assms(5) by (simp_all add: cond_ok_def)
  have t: "\<not> (mc_from_t mc \<noteq> 0 \<and> c_to_t (sg_cell s) < mc_from_t mc)" "\<not> (mc_from_tm mc \<noteq> 0 \<and> c_to_tm (sg_cell s) < mc_from_tm mc)"
    using adjust_from_time_Some(1) [OF rg(3) pos(1)] adjust_from_time_Some(1) [OF rg(5) pos(2)] high by auto
  note k = key_segments_range [OF assms(1) s(1)]
  show thesis
  proof (cases "mc_from_rowid mc = 0 \<or> mc_from_rowid mc < - n")
    case True
    then have "first_segment_row segs n mc = Some (0, sg_first s)"
      using assms(3) segs t k by (auto simp: first_segment_row_def Let_def n_def)
    then show thesis using that [of "sg_first s"] segs k(2) by simp
  next
    case False
    then have times: "mc_from_t mc = 0" "mc_from_tm mc = 0" using assms(3,4) by (auto simp: starts_ok_def)
    have f: "mc_from_rowid mc \<le> n \<and> (if 0 < mc_from_rowid mc then mc_from_rowid mc else n + mc_from_rowid mc + 1) = sr_from_rowid rg"
      using rg(1) False by (auto simp: adjust_from_rowid_def n_def split: if_splits)
    have one: "1 \<le> sr_from_rowid rg" using rg(1) by (auto simp: adjust_from_rowid_def split: if_splits)
    have low: "sg_first s \<le> sr_from_rowid rg"
      using before_selected [OF assms(1) assms(8) [unfolded segs_def]]
    proof
      assume "sg_first (hd (selected_segments tp key rg)) = 1"
      then show ?thesis using segs one by (simp add: segs_def)
    next
      assume "\<exists>p \<in> set (key_segments tp key). \<not> seg_high rg p \<and> sg_last p + 1 = sg_first (hd (selected_segments tp key rg))"
      then obtain p where p: "p \<in> set (key_segments tp key)" "\<not> seg_high rg p" "sg_last p + 1 = sg_first s"
        using segs by (auto simp: segs_def)
      have "sr_from_t rg \<le> c_to_t (sg_cell p)" "sr_from_tm rg \<le> c_to_tm (sg_cell p)"
        using cell_in_total [OF assms(1) p(1)] rg(3,5) times by (simp_all add: adjust_from_time_Some(3))
      then show ?thesis using p(2,3) by (auto simp: seg_high_def)
    qed
    have "first_segment_row segs n mc = Some (0, sr_from_rowid rg)"
      using assms(3) segs f high(1) times False by (auto simp: first_segment_row_def Let_def)
    then show thesis using that [of "sr_from_rowid rg"] segs low high(1) by simp
  qed
qed

text \<open>The segment after the last selected one begins after the conditions end.\<close>

lemma after_selected:
  assumes "topic_ok tp" "selected_segments tp key rg \<noteq> []"
  shows "sg_last (last (selected_segments tp key rg)) = int (length (key_rows tp key)) \<or>
    (\<exists>s \<in> set (key_segments tp key). \<not> seg_low rg s \<and> sg_first s = sg_last (last (selected_segments tp key rg)) + 1)"
proof -
  let ?ks = "key_segments tp key" and ?t = "takeWhile (seg_low rg) (key_segments tp key)"
  let ?w = "dropWhile (seg_low rg) ?ks" and ?v = "selected_segments tp key rg"
  have v: "last ?v = last ?t" and ne: "?t \<noteq> []"
  proof -
    have "?t = takeWhile (\<lambda>s. \<not> seg_high rg s) ?t @ ?v" by (simp add: selected_segments_def)
    then show "last ?v = last ?t" "?t \<noteq> []" using assms(2) by (metis append_is_Nil_conv last_appendR)+
  qed
  have ks: "?ks = ?t @ ?w" by simp
  have c: "consecutive ?ks" unfolding key_segments_def by (rule consecutive_annotate [OF key_cells_ok [OF assms(1)]])
  show ?thesis
  proof (cases "?w = []")
    case True
    then have "?t = ?ks" by (simp add: takeWhile_eq_all_conv)
    then have l: "last ?v = last ?ks" using v by (simp only:)
    have "?ks \<noteq> []" using ne by auto
    then have "0 < int (length (key_rows tp key))" using key_segments_range [OF assms(1) hd_in_set] by fastforce
    then obtain s where s: "s \<in> set ?ks" "int (length (key_rows tp key)) \<le> sg_last s"
      using row_segment [OF assms(1), of "int (length (key_rows tp key))" key] by (metis order_refl)
    have "sg_last s \<le> sg_last (last ?ks)" using consecutive_hd_last(2) [OF c s(1)] .
    moreover have "sg_last (last ?ks) \<le> int (length (key_rows tp key))"
      using key_segments_range(3) [OF assms(1) last_in_set [OF \<open>?ks \<noteq> []\<close>]] .
    ultimately show ?thesis using s(2) l by simp
  next
    case False
    let ?i = "length ?t - 1"
    have len: "length ?ks = length ?t + length ?w" using arg_cong [OF ks, of length] by (simp only: length_append)
    have i: "Suc ?i < length ?ks" unfolding len using False ne by (simp del: dropWhile_eq_Nil_conv add: Suc_le_eq)
    have "?ks ! ?i = last ?t" "?ks ! Suc ?i = hd ?w"
      using False ne by (subst ks, simp only: nth_append, simp add: last_conv_nth hd_conv_nth)+
    then have "sg_first (hd ?w) = sg_last (last ?v) + 1" using consecutive_Suc [OF c i] v by simp
    moreover have "\<not> seg_low rg (hd ?w)" using False by (rule hd_dropWhile)
    moreover have "hd ?w \<in> set ?ks" using False by (meson hd_in_set set_dropWhileD)
    ultimately show ?thesis by blast
  qed
qed

lemma first_row_backward:
  assumes "topic_ok tp" "search_range tp key mc = Some rg" "mc_backward mc" "starts_ok mc" "cond_ok mc"
  defines "segs \<equiv> selected_segments tp key rg" and "n \<equiv> int (length (key_rows tp key))"
  assumes "segs \<noteq> []" "key_sorted tp key"
  obtains r where "first_segment_row segs n mc = Some (int (length segs) - 1, r)" "sg_first (last segs) \<le> r"
    "r \<le> sg_last (last segs)" "r < sg_last (last segs) \<Longrightarrow> r = sr_to_rowid rg"
proof -
  note rg = search_rangeD [OF assms(2,1)]
  obtain s ss where segs: "segs = ss @ [s]" using assms(8) by (cases segs rule: rev_cases) auto
  then have s: "s \<in> set (key_segments tp key)" "seg_low rg s"
    using selected_iff [OF assms(1,9), of s rg] unfolding segs_def by auto
  have low: "sg_first s \<le> sr_to_rowid rg" "c_fr_t (sg_cell s) \<le> sr_to_t rg" "c_fr_tm (sg_cell s) \<le> sr_to_tm rg"
    using s(2) by (simp_all add: seg_low_def)
  have t: "\<not> (mc_to_t mc \<noteq> 0 \<and> mc_to_t mc < c_fr_t (sg_cell s))" "\<not> (mc_to_tm mc \<noteq> 0 \<and> mc_to_tm mc < c_fr_tm (sg_cell s))"
    using adjust_to_time_Some(1) [OF rg(4)] adjust_to_time_Some(1) [OF rg(6)] low by auto
  note k = key_segments_range [OF assms(1) s(1)]
  show thesis
  proof (cases "mc_to_rowid mc = 0 \<or> n < mc_to_rowid mc")
    case True
    then have "first_segment_row segs n mc = Some (int (length segs) - 1, sg_last s)"
      using assms(3) segs t k by (auto simp: first_segment_row_def Let_def n_def)
    then show thesis using that [of "sg_last s"] segs k(2) by simp
  next
    case False
    then have times: "mc_to_t mc = 0" "mc_to_tm mc = 0" using assms(3,4) by (auto simp: starts_ok_def)
    have f: "\<not> (mc_to_rowid mc < 0 \<and> mc_to_rowid mc < - n) \<and>
        (if 0 < mc_to_rowid mc then mc_to_rowid mc else n + mc_to_rowid mc + 1) = sr_to_rowid rg"
      using rg(2) False by (auto simp: adjust_to_rowid_def n_def split: if_splits)
    have top: "sr_to_rowid rg \<le> n" using rg(2) by (auto simp: adjust_to_rowid_def n_def split: if_splits)
    have high: "sr_to_rowid rg \<le> sg_last s"
      using after_selected [OF assms(1) assms(8) [unfolded segs_def]]
    proof
      assume "sg_last (last (selected_segments tp key rg)) = int (length (key_rows tp key))"
      then show ?thesis using segs top by (simp add: segs_def n_def)
    next
      assume "\<exists>p \<in> set (key_segments tp key). \<not> seg_low rg p \<and> sg_first p = sg_last (last (selected_segments tp key rg)) + 1"
      then obtain p where p: "p \<in> set (key_segments tp key)" "\<not> seg_low rg p" "sg_first p = sg_last s + 1"
        using segs by (auto simp: segs_def)
      have "c_fr_t (sg_cell p) \<le> sr_to_t rg" "c_fr_tm (sg_cell p) \<le> sr_to_tm rg"
        using cell_in_total [OF assms(1) p(1)] rg(4,6) times by (simp_all add: adjust_to_time_def)
      then show ?thesis using p(2,3) by (auto simp: seg_low_def)
    qed
    have "first_segment_row segs n mc = Some (int (length segs) - 1, sr_to_rowid rg)"
      using assms(3) segs f low(1) times False by (auto simp: first_segment_row_def Let_def)
    then show thesis using that [of "sr_to_rowid rg"] segs low(1) high by simp
  qed
qed

section \<open>Loading gives the wanted rows\<close>

definition wanted_rows :: "topic \<Rightarrow> string \<Rightarrow> match_cond \<Rightarrow> int list" where
  "wanted_rows tp key mc = (let n = int (length (key_rows tp key))
     in filter (\<lambda>r. wanted mc n r (key_row tp key r)) [1..n])"

lemma wanted_rows_within:
  assumes "\<And>r. 1 \<le> r \<Longrightarrow> r \<le> int (length (key_rows tp key)) \<Longrightarrow>
      wanted mc (int (length (key_rows tp key))) r (key_row tp key r) \<Longrightarrow> a \<le> r \<and> r \<le> b"
    and "1 \<le> a" "b \<le> int (length (key_rows tp key))" "cond_ok mc"
  shows "filter (wanted_row mc (int (length (key_rows tp key))) (row_ex tp key)) [a..b] = wanted_rows tp key mc"
proof -
  let ?n = "int (length (key_rows tp key))" and ?P = "\<lambda>r. wanted mc (int (length (key_rows tp key))) r (key_row tp key r)"
  have "filter (wanted_row mc ?n (row_ex tp key)) [a..b] = filter ?P [a..b]"
    using wanted_row_iff [OF assms(4), of _ ?n tp key] assms(2,3) by (intro filter_cong) auto
  moreover have "filter ?P [1..?n] = filter ?P [a..b]"
    by (rule sorted_distinct_set_unique)
      (use assms(1-3) in \<open>force simp: sorted_wrt_filter distinct_filter\<close>)+
  ultimately show ?thesis by (simp add: wanted_rows_def Let_def)
qed

lemma loads_with_range:
  assumes "topic_ok tp" "key_sorted tp key" "cond_ok mc" "starts_ok mc" "\<And>s r ex acc. snd (deliver s r ex acc) = False"
    and "search_range tp key mc = Some rg" "selected_segments tp key rg \<noteq> []"
  defines "segs \<equiv> selected_segments tp key rg" and "n \<equiv> int (length (key_rows tp key))"
  obtains c r where "first_segment_row segs n mc = Some (c, r)"
    "\<And>acc here. fst (load_loop (get_md_by_rowid tp key) mc segs n deliver c r (acc, here)) =
      deliveries (key_segments tp key) (row_ex tp key) deliver
        ((if mc_backward mc then rev else id) (wanted_rows tp key mc)) acc"
proof -
  note rg = search_rangeD [OF assms(6,1)]
  have c: "consecutive segs" and sub: "set segs \<subseteq> set (key_segments tp key)"
    using selected_consecutive [OF assms(1)] selected_subset by (simp_all add: segs_def)
  have ne: "segs \<noteq> []" using assms(7) by (simp add: segs_def)
  have low: "1 \<le> sg_first (hd segs)" and high: "sg_last (last segs) \<le> n"
  proof -
    have "hd segs \<in> set (key_segments tp key)" "last segs \<in> set (key_segments tp key)" using sub ne by auto
    then show "1 \<le> sg_first (hd segs)" "sg_last (last segs) \<le> n"
      using key_segments_range [OF assms(1)] by (simp_all add: n_def)
  qed
  have inside: "sg_first (hd segs) \<le> r \<and> r \<le> sg_last (last segs)"
    if w: "1 \<le> r" "r \<le> n" "wanted mc n r (key_row tp key r)" for r
  proof -
    obtain rg' s where s: "search_range tp key mc = Some rg'" "s \<in> set (selected_segments tp key rg')" "sg_first s \<le> r" "r \<le> sg_last s"
      using wanted_selected [OF assms(1,2), of r mc] w by (auto simp: n_def)
    then have "s \<in> set segs" using assms(6) by (simp add: segs_def)
    then show ?thesis using consecutive_hd_last [OF c] s(3,4) by fastforce
  qed
  have number: "sr_from_rowid rg \<le> r \<and> r \<le> sr_to_rowid rg" if "wanted mc n r (key_row tp key r)" for r
    using that rg(1,2) by (auto simp: wanted_def row_number_wanted_def n_def)
  have rows: "sg_first s \<ge> 1" "sg_last s \<le> n" if "s \<in> set segs" for s
    using key_segments_range [OF assms(1)] sub that by (auto simp: n_def)
  have not_wanted: "\<not> wanted_row mc n (row_ex tp key) r" if "1 \<le> r" "r \<le> n" "\<not> wanted mc n r (key_row tp key r)" for r
    using wanted_row_iff [OF assms(3), of r n tp key] that by simp
  show thesis
  proof (cases "mc_backward mc")
    case False
    obtain r where r: "first_segment_row segs n mc = Some (0, r)" "sg_first (hd segs) \<le> r" "r \<le> sg_last (hd segs)"
        "sg_first (hd segs) < r \<Longrightarrow> r = sr_from_rowid rg"
      using first_row_forward [OF assms(1,6) False assms(4,3,7,2)] unfolding segs_def n_def by blast
    have "fst (load_loop (get_md_by_rowid tp key) mc segs n deliver 0 r (acc, here)) =
        deliveries (key_segments tp key) (row_ex tp key) deliver
          (filter (wanted_row mc n (row_ex tp key)) [r..sg_last (last segs)]) acc" for acc here
    proof (rule topic_rows.load_forward [where st = "(tp, key)", simplified split_conv, OF assms(1) c sub False assms(5)])
      fix a b s assume s: "s \<in> set segs" "sg_first s \<le> a" "a \<le> sg_last s" "ends_at mc n (row_ex tp key) a"
        and b: "a < b" "b \<le> sg_last (last segs)"
      show "\<not> wanted_row mc n (row_ex tp key) b"
        using not_wanted ends_forward [OF assms(3) False assms(2), of a b] rows [OF s(1)] s b high by (simp add: n_def)
    qed (use ne r in \<open>simp_all add: hd_conv_nth\<close>)
    moreover have "filter (wanted_row mc n (row_ex tp key)) [r..sg_last (last segs)] = wanted_rows tp key mc"
      unfolding n_def using inside number r(2,4) low high
      by (intro wanted_rows_within [OF _ _ _ assms(3)]) (fastforce simp: n_def)+
    ultimately show thesis using that [OF r(1)] False by simp
  next
    case True
    obtain r where r: "first_segment_row segs n mc = Some (int (length segs) - 1, r)" "sg_first (last segs) \<le> r"
        "r \<le> sg_last (last segs)" "r < sg_last (last segs) \<Longrightarrow> r = sr_to_rowid rg"
      using first_row_backward [OF assms(1,6) True assms(4,3,7,2)] unfolding segs_def n_def by blast
    have "fst (load_loop (get_md_by_rowid tp key) mc segs n deliver (int (length segs) - 1) r (acc, here)) =
        deliveries (key_segments tp key) (row_ex tp key) deliver
          (rev (filter (wanted_row mc n (row_ex tp key)) [sg_first (hd segs)..r])) acc" for acc here
    proof (rule topic_rows.load_backward [where st = "(tp, key)", simplified split_conv, OF assms(1) c sub True _ assms(5)])
      fix a b s assume s: "s \<in> set segs" "sg_first s \<le> a" "a \<le> sg_last s" "ends_at mc n (row_ex tp key) a"
        and b: "b < a" "sg_first (hd segs) \<le> b"
      show "\<not> wanted_row mc n (row_ex tp key) b"
        using not_wanted ends_backward [OF assms(3) True assms(2), of b a] rows [OF s(1)] s b low by (simp add: n_def)
    qed (use ne r low in \<open>simp_all add: last_conv_nth nat_diff_distrib' Suc_le_eq\<close>)
    moreover have "filter (wanted_row mc n (row_ex tp key)) [sg_first (hd segs)..r] = wanted_rows tp key mc"
      unfolding n_def using inside number r(3,4) low high
      by (intro wanted_rows_within [OF _ _ _ assms(3)]) (fastforce simp: n_def)+
    ultimately show thesis using that [OF r(1)] True by simp
  qed
qed

theorem loads_wanted_rows:
  assumes "topic_ok tp" "key_sorted tp key" "cond_ok mc" "starts_ok mc" "\<And>s r ex acc. snd (deliver s r ex acc) = False"
  defines "segs \<equiv> fst (get_segments tp key mc)" and "n \<equiv> int (length (key_rows tp key))"
  shows "(case first_segment_row segs n mc of None \<Rightarrow> acc
      | Some (c, r) \<Rightarrow> fst (load_loop (get_md_by_rowid tp key) mc segs n deliver c r (acc, (c, r)))) =
    deliveries (key_segments tp key) (row_ex tp key) deliver
      ((if mc_backward mc then rev else id) (wanted_rows tp key mc)) acc"
proof (cases "segs = []")
  case True
  have "wanted_rows tp key mc = []"
  proof (rule ccontr)
    assume "wanted_rows tp key mc \<noteq> []"
    then obtain r where r1: "1 \<le> r" and r2: "r \<le> n" "wanted mc n r (key_row tp key r)"
      by (auto simp: wanted_rows_def Let_def filter_empty_conv n_def)
    note r = less_le_trans [OF zero_less_one r1] r2
    then have "key_rows tp key \<noteq> []" by (auto simp: n_def)
    moreover obtain rg s where "search_range tp key mc = Some rg" "s \<in> set (selected_segments tp key rg)"
      using wanted_selected [OF assms(1,2) r [unfolded n_def]] by blast
    ultimately show False using True get_segments_selected [OF assms(1,2), of mc] by (simp add: segs_def)
  qed
  then show ?thesis using True
    by (simp add: first_segment_row_def deliveries_def split: option.splits)
next
  case False
  then obtain rg where rg: "search_range tp key mc = Some rg" "segs = selected_segments tp key rg" "selected_segments tp key rg \<noteq> []"
    using get_segments_selected [OF assms(1,2), of mc] by (auto simp: segs_def split: option.splits if_splits)
  show ?thesis
  proof (rule loads_with_range [OF assms(1-5) rg(1,3)])
    fix c r
    assume "first_segment_row (selected_segments tp key rg) (int (length (key_rows tp key))) mc = Some (c, r)"
      and "\<And>acc here. fst (load_loop (get_md_by_rowid tp key) mc (selected_segments tp key rg)
          (int (length (key_rows tp key))) deliver c r (acc, here)) =
        deliveries (key_segments tp key) (row_ex tp key) deliver
          ((if mc_backward mc then rev else id) (wanted_rows tp key mc)) acc"
    then show ?thesis by (simp add: rg(2) n_def)
  qed
qed

end
