(* ===== verification/Tranger_Index.thy ===== *)
theory Tranger_Index
  imports Tranger_Load
begin

text \<open>
  Opened iterators: the calls of a loading iterator, the index of a filtered one, and its pages, which
  cut the index in pieces of the size asked for.
\<close>

section \<open>The calls of a loading iterator\<close>

definition loaded_call :: "tr_env \<Rightarrow> topic \<Rightarrow> string \<Rightarrow> bool \<Rightarrow> int \<Rightarrow> int \<times> md2_record_ex \<times> json option" where
  "loaded_call env tp key only_md r =
    (let ex = (row_ex tp key r)\<lparr>x_system_flag := x_system_flag (row_ex tp key r) OR sf_loading_from_disk\<rparr>;
         file_id = c_id (sg_cell (the (segment_of_rowid (key_segments tp key) r)))
     in (r, ex, if only_md then None else map_option (with_md ex r) (read_record_content env tp key file_id ex)))"

lemma deliver_loaded_calls:
  assumes "\<And>r ex j. \<not> cb r ex j"
  shows "snd (deliver_loaded env tp key om (Some cb) data s r ex ld) = False"
    "ld_calls (deliveries (key_segments tp key) (row_ex tp key) (deliver_loaded env tp key om (Some cb) data) rs ld) =
      ld_calls ld @ map (loaded_call env tp key om) rs"
proof -
  show "snd (deliver_loaded env tp key om (Some cb) data s r ex ld) = False" for s r ex ld
    using assms by (simp add: deliver_loaded_def Let_def)
  show "ld_calls (deliveries (key_segments tp key) (row_ex tp key) (deliver_loaded env tp key om (Some cb) data) rs ld) =
      ld_calls ld @ map (loaded_call env tp key om) rs" for ld
  proof (induction rs arbitrary: ld)
    case (Cons r rs)
    have "ld_calls (fst (deliver_loaded env tp key om (Some cb) data (the (segment_of_rowid (key_segments tp key) r)) r
        (row_ex tp key r) ld)) = ld_calls ld @ [loaded_call env tp key om r]"
      using assms by (simp add: deliver_loaded_def loaded_call_def Let_def)
    then show ?case using Cons by (simp add: deliveries_def)
  qed (simp add: deliveries_def)
qed

theorem open_iterator_calls:
  assumes "topic_ok tp" "key_sorted tp key" "cond_ok mc" "starts_ok mc" "key \<noteq> []"
    and "\<And>r ex j. \<not> cb r ex j" "tranger2_get_iterator_by_id its (if it_name = [] then key else it_name) creator = None"
  obtains it ld where "tranger2_open_iterator env tp its key mc (Some cb) it_name creator data = (Inr (it, ld), its @ [it])"
    "ld_calls ld = map (loaded_call env tp key (mc_only_md mc)) ((if mc_backward mc then rev else id) (wanted_rows tp key mc))"
    "it_id it = (if it_name = [] then key else it_name)" "it_creator it = creator"
proof -
  obtain segs realtime where g: "get_segments tp key mc = (segs, realtime)" by (rule prod.exhaust)
  let ?n = "int (length (key_rows tp key))"
  let ?d = "deliver_loaded env tp key (mc_only_md mc) (Some cb) data"
  let ?ld0 = "\<lparr>ld_calls = [], ld_data = []\<rparr>"
  have n: "get_topic_key_rows tp key = ?n" by (rule key_total_rows [OF assms(1)])
  note calls = deliver_loaded_calls [OF assms(6)]
  note loads = loads_wanted_rows [where deliver = ?d and acc = ?ld0, OF assms(1-4) calls(1)]
  have c: "ld_calls (case first_segment_row segs ?n mc of None \<Rightarrow> ?ld0
      | Some (c, r) \<Rightarrow> fst (load_loop (get_md_by_rowid tp key) mc segs ?n ?d c r (?ld0, (c, r)))) =
    map (loaded_call env tp key (mc_only_md mc)) ((if mc_backward mc then rev else id) (wanted_rows tp key mc))"
    unfolding loads [unfolded g fst_conv] calls(2) by simp
  show thesis
  proof (cases "first_segment_row segs ?n mc")
    case None
    then show thesis using c assms(5,7) by (intro that, simp add: tranger2_open_iterator_def g n Let_def) simp_all
  next
    case (Some p)
    obtain k r where p: "p = (k, r)" by (cases p)
    obtain ld k' r' where l: "load_loop (get_md_by_rowid tp key) mc segs ?n ?d k r (?ld0, (k, r)) = (ld, k', r')"
      using prod_cases3 by blast
    show thesis using c assms(5,7) Some p l
      by (intro that, simp add: tranger2_open_iterator_def g n Let_def) simp_all
  qed
qed

section \<open>The index of a filtered iterator\<close>

lemma index_rows_filter:
  assumes "\<And>r. r \<in> set rs \<Longrightarrow> get_md_by_rowid tp key s r = Some (row r)"
    and "sorted_wrt (\<lambda>r r'. ends_at mc n row r \<longrightarrow> \<not> wanted_row mc n row r') rs"
  shows "\<exists>e. index_rows tp key mc n s rs index = Some (index @ filter (wanted_row mc n row) rs, e) \<and>
    (e \<longrightarrow> (\<exists>r \<in> set rs. ends_at mc n row r))"
  using assms
proof (induction rs arbitrary: index)
  case (Cons r rs)
  obtain found e where m: "tranger2_match_metadata mc n r (row r) = (found, e)" by fastforce
  have IH: "\<exists>e. index_rows tp key mc n s rs index' = Some (index' @ filter (wanted_row mc n row) rs, e) \<and>
      (e \<longrightarrow> (\<exists>r \<in> set rs. ends_at mc n row r))" for index'
    using Cons by simp
  have last: "filter (wanted_row mc n row) rs = []" if "ends_at mc n row r"
    using Cons.prems(2) that by (auto simp: filter_empty_conv)
  have get: "get_md_by_rowid tp key s r = Some (row r)" using Cons.prems(1) by simp
  show ?case
  proof (cases "is_deleted_instance (row r)")
    case True
    then have "\<not> wanted_row mc n row r" by (simp add: wanted_row_def)
    then show ?thesis using IH [of index] True get by auto
  next
    case False
    let ?index = "if found then index @ [r] else index"
    have w: "wanted_row mc n row r \<longleftrightarrow> found" "ends_at mc n row r \<longleftrightarrow> e" using False m by (simp_all add: wanted_row_def ends_at_def)
    have step: "index_rows tp key mc n s (r # rs) index =
        (if e then Some (?index, True) else index_rows tp key mc n s rs ?index)"
      using False m get by simp
    show ?thesis
    proof (cases e)
      case True
      then have "index_rows tp key mc n s (r # rs) index = Some (index @ filter (wanted_row mc n row) (r # rs), True)"
        using step w last by simp
      then show ?thesis using True w by auto
    next
      case False
      then show ?thesis using IH [of ?index] step w(1) by auto
    qed
  qed
next
  case Nil
  show ?case by (intro exI [of _ False]) simp
qed

definition rows_of_segment :: "segment \<Rightarrow> int list" where
  "rows_of_segment s = [sg_first s..sg_last s]"

lemma index_segments_filter:
  assumes "\<And>s r. s \<in> set ss \<Longrightarrow> sg_first s \<le> r \<Longrightarrow> r \<le> sg_last s \<Longrightarrow> get_md_by_rowid tp key s r = Some (row r)"
    and "sorted_wrt (\<lambda>r r'. ends_at mc n row r \<longrightarrow> \<not> wanted_row mc n row r') (concat (map rows_of_segment ss))"
  shows "index_segments tp key mc n ss index = Some (index @ filter (wanted_row mc n row) (concat (map rows_of_segment ss)))"
  using assms
proof (induction ss arbitrary: index)
  case (Cons s ss)
  let ?W = "wanted_row mc n row"
  have "\<exists>e. index_rows tp key mc n s (rows_of_segment s) index = Some (index @ filter ?W (rows_of_segment s), e) \<and>
      (e \<longrightarrow> (\<exists>r \<in> set (rows_of_segment s). ends_at mc n row r))"
    using Cons.prems by (intro index_rows_filter) (auto simp: rows_of_segment_def sorted_wrt_append)
  then obtain e where e: "index_rows tp key mc n s [sg_first s..sg_last s] index = Some (index @ filter ?W (rows_of_segment s), e)"
      "e \<Longrightarrow> \<exists>r \<in> set (rows_of_segment s). ends_at mc n row r"
    unfolding rows_of_segment_def by blast
  have rest: "filter ?W (concat (map rows_of_segment ss)) = []" if e
    using e(2) [OF that] Cons.prems(2) by (fastforce simp: sorted_wrt_append filter_empty_conv)
  have "index_segments tp key mc n ss (index @ filter ?W (rows_of_segment s)) =
      Some ((index @ filter ?W (rows_of_segment s)) @ filter ?W (concat (map rows_of_segment ss)))"
    using Cons.prems by (intro Cons.IH) (auto simp: sorted_wrt_append)
  then show ?case using e(1) rest by simp
qed simp

lemma consecutive_Cons: "consecutive (s # t # ss) \<Longrightarrow> sg_first t = sg_last s + 1 \<and> consecutive (t # ss) \<and> sg_first s \<le> sg_last s"
  using consecutive_Suc [of "s # t # ss" 0] consecutive_drop [of "s # t # ss" 1] consecutive_nth [of "s # t # ss" 0] by simp

lemma rows_of_consecutive:
  assumes "consecutive ss" "ss \<noteq> []"
  shows "concat (map rows_of_segment ss) = [sg_first (hd ss)..sg_last (last ss)] \<and> sg_first (hd ss) \<le> sg_last (last ss)"
  using assms(2,1)
proof (induction ss rule: list_nonempty_induct)
  case (single s)
  then show ?case by (simp add: rows_of_segment_def consecutive_def)
next
  case (cons s ss)
  then obtain t ts where ss: "ss = t # ts" by (cases ss) auto
  note c = consecutive_Cons [OF cons.prems [unfolded ss]]
  have IH: "concat (map rows_of_segment ss) = [sg_first t..sg_last (last ss)]" "sg_first t \<le> sg_last (last ss)"
    using cons.IH c ss by simp_all
  have "[sg_first s..sg_last (last ss)] = rows_of_segment s @ [sg_first t..sg_last (last ss)]"
    using c IH(2) unfolding rows_of_segment_def by (subst upto_split2 [of _ "sg_last s"]) simp_all
  then have "concat (map rows_of_segment (s # ss)) = [sg_first s..sg_last (last ss)]" using IH(1) by simp
  then show ?case using IH(2) c cons.hyps by simp
qed

theorem index_is_wanted_rows:
  assumes "topic_ok tp" "key_sorted tp key" "cond_ok mc"
  shows "build_iterator_index tp key (fst (get_segments tp key mc)) mc = Some (wanted_rows tp key mc)"
proof -
  let ?mc = "mc\<lparr>mc_backward := False\<rparr>" and ?segs = "fst (get_segments tp key mc)" and ?n = "int (length (key_rows tp key))"
  have same: "wanted ?mc n r md = wanted mc n r md" for n r md
    by (simp add: wanted_def row_number_wanted_def times_wanted_def flags_match_def)
  have ok: "cond_ok ?mc" using assms(3) by (simp add: cond_ok_def)
  have rows: "wanted_rows tp key ?mc = wanted_rows tp key mc" by (simp add: wanted_rows_def same)
  show ?thesis
  proof (cases "?segs = []")
    case True
    have "wanted_rows tp key mc = []"
    proof (rule ccontr)
      assume "wanted_rows tp key mc \<noteq> []"
      then obtain r where r1: "1 \<le> r" and r2: "r \<le> ?n" "wanted mc ?n r (key_row tp key r)"
        by (auto simp: wanted_rows_def Let_def filter_empty_conv)
      have "key_rows tp key \<noteq> []" using r1 r2(1) by auto
      moreover obtain rg s where "search_range tp key mc = Some rg" "s \<in> set (selected_segments tp key rg)"
        using wanted_selected [OF assms(1,2) less_le_trans [OF zero_less_one r1] r2] by blast
      ultimately show False using True get_segments_selected [OF assms(1,2), of mc] by simp
    qed
    then show ?thesis using True by (simp add: build_iterator_index_def)
  next
    case False
    then obtain rg where rg: "search_range tp key mc = Some rg" "?segs = selected_segments tp key rg"
      using get_segments_selected [OF assms(1,2), of mc] by (auto split: option.splits if_splits)
    have c: "consecutive ?segs" and sub: "set ?segs \<subseteq> set (key_segments tp key)"
      using selected_consecutive [OF assms(1)] selected_subset by (simp_all add: rg(2))
    note cat = rows_of_consecutive [OF c False]
    have "hd ?segs \<in> set (key_segments tp key)" "last ?segs \<in> set (key_segments tp key)" using False sub by auto
    then have ends: "1 \<le> sg_first (hd ?segs)" "sg_last (last ?segs) \<le> ?n"
      using key_segments_range [OF assms(1)] by simp_all
    have "index_segments tp key ?mc ?n ?segs [] =
        Some ([] @ filter (wanted_row ?mc ?n (row_ex tp key)) (concat (map rows_of_segment ?segs)))"
    proof (rule index_segments_filter)
      show "get_md_by_rowid tp key s r = Some (row_ex tp key r)"
        if "s \<in> set ?segs" "sg_first s \<le> r" "r \<le> sg_last s" for s r
        using read_row [OF assms(1) _ that(2,3)] sub that(1) by blast
      have e: "ends_at ?mc ?n (row_ex tp key) r \<longrightarrow> \<not> wanted_row ?mc ?n (row_ex tp key) r'"
        if "1 \<le> r" "r < r'" "r' \<le> ?n" for r r'
        using ends_forward [OF ok _ assms(2), of r r'] wanted_row_iff [OF ok, of r' ?n tp key] that by simp
      have e': "ends_at ?mc ?n (row_ex tp key) r \<longrightarrow> \<not> wanted_row ?mc ?n (row_ex tp key) r'"
        if "r \<in> set [a..b]" "r' \<in> set [a..b]" "r < r'" "1 \<le> a" "b \<le> ?n" for r r' a b
        using that by (intro e) simp_all
      show "sorted_wrt (\<lambda>r r'. ends_at ?mc ?n (row_ex tp key) r \<longrightarrow> \<not> wanted_row ?mc ?n (row_ex tp key) r')
          (concat (map rows_of_segment ?segs))"
        unfolding cat [THEN conjunct1]
        by (rule sorted_wrt_mono_rel [OF _ sorted_wrt_upto]) (rule e' [OF _ _ _ ends])
    qed
    also have "filter (wanted_row ?mc ?n (row_ex tp key)) (concat (map rows_of_segment ?segs)) = wanted_rows tp key ?mc"
      unfolding cat [THEN conjunct1]
    proof (rule wanted_rows_within [OF _ ends ok])
      fix r assume r: "1 \<le> r" "r \<le> ?n" "wanted ?mc ?n r (key_row tp key r)"
      obtain rg' s where s: "search_range tp key mc = Some rg'" "s \<in> set (selected_segments tp key rg')" "sg_first s \<le> r" "r \<le> sg_last s"
        using wanted_selected [OF assms(1,2), of r mc] r same by auto
      then have "s \<in> set ?segs" using rg by simp
      then show "sg_first (hd ?segs) \<le> r \<and> r \<le> sg_last (last ?segs)" using consecutive_hd_last [OF c] s(3,4) by fastforce
    qed
    finally show ?thesis using rows by (simp add: build_iterator_index_def key_total_rows [OF assms(1)])
  qed
qed

end

