(* ===== verification/Tranger_Pages.thy ===== *)
theory Tranger_Pages
  imports Tranger_Index
begin

text \<open>
  Pages of an iterator: a filtered one cuts its index in pieces, in order or from its end; the pages of
  an iterator, one after the other, give every indexed record once.
\<close>

section \<open>Cutting a list in pages\<close>

lemma pages_take:
  "concat (map (\<lambda>p. concat (map f (take n (drop (p * n) xs)))) [0..<k]) = concat (map f (take (k * n) xs))"
proof (induction k)
  case (Suc k)
  have "take (Suc k * n) xs = take (k * n) xs @ take n (drop (k * n) xs)" by (simp only: mult_Suc add.commute [of n] take_add)
  then show ?case using Suc by simp
qed simp

lemma pages_enough:
  assumes "0 < limit" shows "n \<le> nat (number_of_pages (int n) limit) * limit"
proof -
  have e: "number_of_pages (int n) limit = int (n div limit + (if n mod limit \<noteq> 0 then 1 else 0))"
    using assms by (simp add: number_of_pages_def zdiv_int flip: of_nat_mod)
  have d: "n div limit * limit + n mod limit = n" by simp
  moreover have "n mod limit < limit" using assms by simp
  ultimately have "n \<le> n div limit * limit + limit" by linarith
  then have "n \<le> (n div limit + (if n mod limit \<noteq> 0 then 1 else 0)) * limit"
    using d by (auto simp: add_mult_distrib)
  then show ?thesis unfolding e nat_int .
qed

section \<open>A page of an index\<close>

definition page_record :: "tr_env \<Rightarrow> topic \<Rightarrow> string \<Rightarrow> int \<Rightarrow> json list" where
  "page_record env tp key r = (let ex = row_ex tp key r;
       file_id = c_id (sg_cell (the (segment_of_rowid (key_segments tp key) r)))
     in case read_record_content env tp key file_id ex of None \<Rightarrow> [] | Some j \<Rightarrow> [with_md ex r j])"

definition indexed :: "topic \<Rightarrow> string \<Rightarrow> segment list \<Rightarrow> int \<Rightarrow> bool" where
  "indexed tp key segs r \<longleftrightarrow> (\<exists>s. segment_of_rowid segs r = Some s \<and> segment_of_rowid (key_segments tp key) r = Some s \<and>
     get_md_by_rowid tp key s r = Some (row_ex tp key r))"

lemma index_page_take:
  fixes backward :: bool
  assumes "\<And>r. r \<in> set index \<Longrightarrow> indexed tp (it_key it) (it_segments it) r" "0 < from_rowid"
  defines "rows \<equiv> (if backward then rev index else index)"
  shows "index_page env tp it index backward from_rowid i n data =
    data @ concat (map (page_record env tp (it_key it)) (take n (drop (nat (from_rowid - 1) + i) rows)))"
proof (induction n arbitrary: i data)
  case (Suc n)
  let ?k = "nat (from_rowid - 1) + i" and ?len = "int (length index)"
  let ?pos = "if backward then ?len - (from_rowid - 1) - 1 - int i else from_rowid - 1 + int i"
  have k: "int ?k = from_rowid - 1 + int i" using assms(2) by (simp add: of_nat_diff)
  have l: "length rows = length index" by (simp add: rows_def)
  show ?case
  proof (cases "?k < length index")
    case False
    then have "?len \<le> from_rowid - 1 + int i" using k by linarith
    then have "?pos < 0 \<or> ?len \<le> ?pos" by simp
    then show ?thesis using False l by (simp add: Let_def)
  next
    case True
    have "from_rowid - 1 + int i < ?len" using True k by linarith
    then have p: "0 \<le> ?pos" "?pos < ?len" using assms(2) by simp_all
    have r: "index ! nat ?pos = rows ! ?k"
    proof (cases backward)
      case b: True
      have "nat ?pos = length index - Suc ?k" using b k True by (simp add: nat_eq_iff)
      then show ?thesis using b True by (simp add: rows_def rev_nth)
    next
      case b: False
      have "nat ?pos = ?k" using b k assms(2) by (simp add: nat_eq_iff)
      then show ?thesis using b by (simp add: rows_def)
    qed
    have "set rows = set index" by (simp add: rows_def)
    then have "rows ! ?k \<in> set index" using True l nth_mem [of ?k rows] by simp
    then obtain s where s: "segment_of_rowid (it_segments it) (rows ! ?k) = Some s"
        "segment_of_rowid (key_segments tp (it_key it)) (rows ! ?k) = Some s"
        "get_md_by_rowid tp (it_key it) s (rows ! ?k) = Some (row_ex tp (it_key it) (rows ! ?k))"
      using assms(1) unfolding indexed_def by blast
    have d: "drop ?k rows = rows ! ?k # drop (Suc ?k) rows" using True l by (simp add: Cons_nth_drop_Suc)
    have "index_page env tp it index backward from_rowid i (Suc n) data =
        index_page env tp it index backward from_rowid (Suc i) n (data @ page_record env tp (it_key it) (rows ! ?k))"
      unfolding index_page.simps Let_def r using p s by (simp add: page_record_def Let_def)
    also have "\<dots> = (data @ page_record env tp (it_key it) (rows ! ?k)) @
        concat (map (page_record env tp (it_key it)) (take n (drop (nat (from_rowid - 1) + Suc i) rows)))"
      by (rule Suc.IH)
    finally show ?thesis by (simp add: d)
  qed
qed simp

lemma indexed_page:
  fixes backward :: bool
  assumes "it_index it = Some index" "\<And>r. r \<in> set index \<Longrightarrow> indexed tp (it_key it) (it_segments it) r" "0 < limit"
  defines "rows \<equiv> (if backward then rev index else index)"
  shows "tranger2_iterator_get_page env tp it (int (p * limit) + 1) limit backward =
    (\<lparr>pg_total_rows = int (length index), pg_pages = number_of_pages (int (length index)) limit,
      pg_data = concat (map (page_record env tp (it_key it)) (take limit (drop (p * limit) rows)))\<rparr>, it)"
proof (cases "p * limit < length index")
  case True
  then have "int (p * limit) + 1 \<le> int (length index)" by linarith
  moreover have "index_page env tp it index backward (int (p * limit) + 1) 0 limit [] =
      concat (map (page_record env tp (it_key it)) (take limit (drop (p * limit) rows)))"
    using index_page_take [where from_rowid = "int (p * limit) + 1" and i = 0 and data = "[]" and n = limit, OF assms(2)]
    by (simp add: rows_def del: of_nat_mult)
  ultimately show ?thesis using assms(1,3) by (simp add: tranger2_iterator_get_page_def del: of_nat_mult)
next
  case False
  then have n: "\<not> int (p * limit) + 1 \<le> int (length index)" by linarith
  have e: "drop (p * limit) rows = []" using False by (simp add: rows_def)
  show ?thesis unfolding e using assms(1) n by (simp add: tranger2_iterator_get_page_def)
qed

section \<open>The pages of a filtered iterator\<close>

lemma wanted_rows_indexed:
  assumes "topic_ok tp" "key_sorted tp key" "r \<in> set (wanted_rows tp key mc)"
  shows "indexed tp key (fst (get_segments tp key mc)) r"
proof -
  let ?n = "int (length (key_rows tp key))" and ?segs = "fst (get_segments tp key mc)"
  have r: "0 < r" "r \<le> ?n" "wanted mc ?n r (key_row tp key r)" using assms(3) by (auto simp: wanted_rows_def Let_def)
  obtain rg s where s: "search_range tp key mc = Some rg" "s \<in> set (selected_segments tp key rg)" "sg_first s \<le> r" "r \<le> sg_last s"
    using wanted_selected [OF assms(1,2) r] .
  have "key_rows tp key \<noteq> []" using r(1,2) by auto
  then have segs: "?segs = selected_segments tp key rg"
    using get_segments_selected [OF assms(1,2), of mc] s(1) by simp
  have "s \<in> set ss \<Longrightarrow> \<exists>t. segment_of_rowid ss r = Some t" for ss using s(3,4) by (induction ss) auto
  then have "\<exists>t. segment_of_rowid ?segs r = Some t" using s(2) segs by simp
  then obtain t where t: "segment_of_rowid ?segs r = Some t" by blast
  then have "t \<in> set (key_segments tp key)" "sg_first t \<le> r" "r \<le> sg_last t"
    using segment_of_rowid_Some selected_subset unfolding segs by blast+
  then show ?thesis unfolding indexed_def
    using t annotate_row [OF key_cells_ok [OF assms(1)]] read_row [OF assms(1)] by (auto simp: key_segments_def)
qed

theorem filtered_iterator_pages:
  assumes "topic_ok tp" "key_sorted tp key" "cond_ok mc" "match_cond_selects_records mc" "key \<noteq> []" "0 < limit"
    and "tranger2_get_iterator_by_id its (if it_name = [] then key else it_name) creator = None"
  obtains it where "tranger2_open_iterator env tp its key mc None it_name creator False =
      (Inr (it, \<lparr>ld_calls = [], ld_data = []\<rparr>), its @ [it])"
    "tranger2_iterator_size it = int (length (wanted_rows tp key mc))"
    "\<And>p. pg_total_rows (fst (tranger2_iterator_get_page env tp it (int (p * limit) + 1) limit backward)) =
      int (length (wanted_rows tp key mc))"
    "\<And>p. pg_data (fst (tranger2_iterator_get_page env tp it (int (p * limit) + 1) limit backward)) =
      concat (map (page_record env tp key) (take limit (drop (p * limit)
        ((if backward then rev else id) (wanted_rows tp key mc)))))"
    "concat (map (\<lambda>p. pg_data (fst (tranger2_iterator_get_page env tp it (int (p * limit) + 1) limit backward)))
        [0..<nat (number_of_pages (tranger2_iterator_size it) limit)]) =
      concat (map (page_record env tp key) ((if backward then rev else id) (wanted_rows tp key mc)))"
proof -
  obtain segs realtime where g: "get_segments tp key mc = (segs, realtime)" by (rule prod.exhaust)
  let ?rows = "wanted_rows tp key mc" and ?dir = "if backward then rev else id"
  let ?it = "\<lparr>it_id = if it_name = [] then key else it_name, it_creator = creator, it_key = key, it_cond = mc,
     it_segments = segs, it_cur_segment = 0, it_cur_rowid = 0, it_index = Some ?rows\<rparr>"
  have i: "build_iterator_index tp key segs mc = Some ?rows" using index_is_wanted_rows [OF assms(1-3)] g by simp
  have all: "r \<in> set ?rows \<Longrightarrow> indexed tp (it_key ?it) (it_segments ?it) r" for r
    using wanted_rows_indexed [OF assms(1,2), of r mc] g by simp
  have page: "tranger2_iterator_get_page env tp ?it (int (p * limit) + 1) limit backward =
      (\<lparr>pg_total_rows = int (length ?rows), pg_pages = number_of_pages (int (length ?rows)) limit,
        pg_data = concat (map (page_record env tp key) (take limit (drop (p * limit) (?dir ?rows))))\<rparr>, ?it)" for p
    using indexed_page [of ?it ?rows tp limit env p backward, OF _ all assms(6)] by simp
  have size: "tranger2_iterator_size ?it = int (length ?rows)" by (simp add: tranger2_iterator_size_def)
  show thesis
  proof (rule that [of ?it])
    show "tranger2_open_iterator env tp its key mc None it_name creator False =
        (Inr (?it, \<lparr>ld_calls = [], ld_data = []\<rparr>), its @ [?it])"
      using assms(4,5,7) i by (simp add: tranger2_open_iterator_def g Let_def)
    show "concat (map (\<lambda>p. pg_data (fst (tranger2_iterator_get_page env tp ?it (int (p * limit) + 1) limit backward)))
        [0..<nat (number_of_pages (tranger2_iterator_size ?it) limit)]) =
        concat (map (page_record env tp key) (?dir ?rows))"
      unfolding page fst_conv page.select_convs pages_take size
      using pages_enough [OF assms(6), of "length ?rows"] by simp
  qed (simp_all only: page size fst_conv page.select_convs)
qed

section \<open>The pages of a plain iterator\<close>

text \<open>A plain iterator has the segments of the whole key; a page of it is loaded, and starts in the segment
  of its first row.\<close>

lemma first_forward_in:
  assumes "consecutive ss" "ss \<noteq> []" "sg_first (hd ss) \<le> mc_from_rowid mc" "mc_from_rowid mc \<le> sg_last (last ss)"
    and "0 < mc_from_rowid mc" "mc_from_rowid mc \<le> n" "mc_from_t mc = 0" "mc_from_tm mc = 0"
  shows "\<exists>k < length ss. first_forward mc n idx ss = Some (idx + int k, mc_from_rowid mc) \<and>
    sg_first (ss ! k) \<le> mc_from_rowid mc \<and> mc_from_rowid mc \<le> sg_last (ss ! k)"
  using assms(2,1,3,4)
proof (induction ss arbitrary: idx rule: list_nonempty_induct)
  case (single s)
  then show ?case using assms(5-) by auto
next
  case (cons s ss)
  show ?case
  proof (cases "mc_from_rowid mc \<le> sg_last s")
    case True
    then show ?thesis using cons.prems assms(5-) by (intro exI [of _ 0]) auto
  next
    case False
    obtain t ts where ss: "ss = t # ts" using cons.hyps by (cases ss) auto
    note c = consecutive_Cons [OF cons.prems(1) [unfolded ss]]
    obtain k where k: "k < length ss" "first_forward mc n (idx + 1) ss = Some (idx + 1 + int k, mc_from_rowid mc)"
        "sg_first (ss ! k) \<le> mc_from_rowid mc" "mc_from_rowid mc \<le> sg_last (ss ! k)"
      using cons.IH [of "idx + 1"] c False cons.prems(3) cons.hyps ss by auto
    have "first_forward mc n idx (s # ss) = Some (idx + int (Suc k), mc_from_rowid mc)"
      using k(2) False assms(5-) by simp
    then show ?thesis using k(1,3,4) by (intro exI [of _ "Suc k"]) simp
  qed
qed

lemma first_backward_in:
  assumes "consecutive ss" "ss \<noteq> []" "sg_first (hd ss) \<le> mc_to_rowid mc" "mc_to_rowid mc \<le> sg_last (last ss)"
    and "0 < mc_to_rowid mc" "mc_to_rowid mc \<le> n" "mc_to_t mc = 0" "mc_to_tm mc = 0"
  shows "\<exists>k < length ss. first_backward mc n (int (length ss) - 1) (rev ss) = Some (int k, mc_to_rowid mc) \<and>
    sg_first (ss ! k) \<le> mc_to_rowid mc \<and> mc_to_rowid mc \<le> sg_last (ss ! k)"
  using assms(2,1,3,4)
proof (induction ss rule: rev_nonempty_induct)
  case (single s)
  then show ?case using assms(5-) by auto
next
  case (snoc s ss)
  show ?case
  proof (cases "sg_first s \<le> mc_to_rowid mc")
    case True
    then have "first_backward mc n (int (length (ss @ [s])) - 1) (rev (ss @ [s])) = Some (int (length ss), mc_to_rowid mc)"
      using assms(5-) by simp
    then show ?thesis using True snoc.prems(3) by (intro exI [of _ "length ss"]) simp
  next
    case False
    have c: "consecutive ss" using consecutive_take [OF snoc.prems(1), of "length ss"] by simp
    have i: "Suc (length ss - 1) < length (ss @ [s])" "Suc (length ss - 1) = length ss" using snoc.hyps by (cases ss; simp)+
    have "sg_first s = sg_last (last ss) + 1"
      using consecutive_Suc [OF snoc.prems(1) i(1)] snoc.hyps unfolding i(2) by (simp add: nth_append last_conv_nth)
    then obtain k where k: "k < length ss" "first_backward mc n (int (length ss) - 1) (rev ss) = Some (int k, mc_to_rowid mc)"
        "sg_first (ss ! k) \<le> mc_to_rowid mc" "mc_to_rowid mc \<le> sg_last (ss ! k)"
      using snoc.IH [OF c] False snoc.prems(2) snoc.hyps by auto
    have "first_backward mc n (int (length (ss @ [s])) - 1) (rev (ss @ [s])) = Some (int k, mc_to_rowid mc)"
      using k(2) False assms(5-) by simp
    then show ?thesis using k(1,3,4) by (intro exI [of _ k]) (simp add: nth_append)
  qed
qed

lemma whole_key_segments:
  assumes "topic_ok tp" "key_rows tp key \<noteq> []"
  shows "key_segments tp key \<noteq> []" "sg_first (hd (key_segments tp key)) = 1"
    "sg_last (last (key_segments tp key)) = int (length (key_rows tp key))" "consecutive (key_segments tp key)"
proof -
  have c: "cells_ok (key_dir_of tp key) (kc_files (get_key_cache tp key))" by (rule key_cells_ok [OF assms(1)])
  show "consecutive (key_segments tp key)" unfolding key_segments_def by (rule consecutive_annotate [OF c])
  have ne: "kc_files (get_key_cache tp key) \<noteq> []" using assms(2) by (auto simp: key_rows_def key_hist_def)
  then show "key_segments tp key \<noteq> []" "sg_first (hd (key_segments tp key)) = 1"
    by (cases "kc_files (get_key_cache tp key)"; simp add: key_segments_def)+
  have "sg_last (last (annotate p cs)) = p + int (length (concat (map (cell_rows kd) cs))) - 1"
    if "cells_ok kd cs" "cs \<noteq> []" for p kd cs using that
  proof (induction p cs rule: annotate.induct)
    case (2 p c cs)
    then show ?case using cells_okD [OF 2(2), of c] by (cases cs) (auto simp: cells_ok_def)
  qed simp
  from this [OF c ne, of 1] show "sg_last (last (key_segments tp key)) = int (length (key_rows tp key))"
    by (simp add: key_segments_def key_rows_def key_hist_def)
qed

definition page_cond :: "int \<Rightarrow> nat \<Rightarrow> bool \<Rightarrow> match_cond" where
  "page_cond from_rowid limit backward = any_cond\<lparr>mc_from_rowid := from_rowid, mc_to_rowid := from_rowid + int limit - 1,
     mc_backward := backward\<rparr>"

lemma page_wanted:
  assumes "0 < from_rowid" "from_rowid \<le> n" "0 < limit" "0 < r" "r \<le> n"
  shows "wanted_row (page_cond from_rowid limit backward) n row r \<longleftrightarrow>
    \<not> is_deleted_instance (row r) \<and> from_rowid \<le> r \<and> r \<le> from_rowid + int limit - 1"
  using assms by (auto simp: wanted_row_def page_cond_def tranger2_match_metadata_def Let_def flags_match_def
      adjust_from_rowid_def adjust_to_rowid_def)

lemma page_ends:
  assumes "0 < from_rowid" "from_rowid \<le> n" "0 < limit" "0 < r" "r \<le> n"
    and "ends_at (page_cond from_rowid limit backward) n row r"
  shows "if backward then r < from_rowid else from_rowid + int limit - 1 < r"
  using assms by (auto simp: ends_at_def page_cond_def tranger2_match_metadata_def Let_def flags_match_def
      adjust_from_rowid_def adjust_to_rowid_def split: if_splits)

definition alive :: "topic \<Rightarrow> string \<Rightarrow> int \<Rightarrow> bool" where
  "alive tp key r \<longleftrightarrow> \<not> is_deleted_instance (row_ex tp key r)"

lemma page_rows:
  assumes "1 \<le> from_rowid" "from_rowid \<le> n" "0 < limit" "1 \<le> a" "b \<le> n"
    and "a \<le> from_rowid" "min n (from_rowid + int limit - 1) \<le> b"
  shows "filter (wanted_row (page_cond from_rowid limit backward) n (row_ex tp key)) [a..b] =
    filter (alive tp key) [from_rowid..min n (from_rowid + int limit - 1)]"
proof -
  let ?m = "min n (from_rowid + int limit - 1)"
  have "[a..b] = [a..from_rowid - 1] @ [from_rowid..b]" using assms by (intro upto_split1) simp_all
  moreover have "[from_rowid..b] = [from_rowid..?m] @ [?m + 1..b]" using assms by (intro upto_split2) simp_all
  moreover have "filter (wanted_row (page_cond from_rowid limit backward) n (row_ex tp key)) [a..from_rowid - 1] = []"
    "filter (wanted_row (page_cond from_rowid limit backward) n (row_ex tp key)) [?m + 1..b] = []"
    using page_wanted [of from_rowid n limit _ backward "row_ex tp key"] assms by (auto simp: filter_empty_conv min_def split: if_splits)
  moreover have "filter (wanted_row (page_cond from_rowid limit backward) n (row_ex tp key)) [from_rowid..?m] =
      filter (alive tp key) [from_rowid..?m]"
    using page_wanted [of from_rowid n limit _ backward "row_ex tp key"] assms by (intro filter_cong) (auto simp: alive_def)
  ultimately show ?thesis by simp
qed

lemma deliveries_page:
  "deliveries (key_segments tp key) (row_ex tp key) (deliver_page env tp key) rs data =
    data @ concat (map (page_record env tp key) rs)"
  by (induction rs arbitrary: data) (simp_all add: deliveries_def deliver_page_def page_record_def Let_def)

theorem plain_iterator_page:
  assumes "topic_ok tp" "1 \<le> from_rowid" "from_rowid \<le> int (length (key_rows tp (it_key it)))" "0 < limit"
    and "it_index it = None" "it_segments it = key_segments tp (it_key it)"
  shows "pg_data (fst (tranger2_iterator_get_page env tp it from_rowid limit backward)) =
    concat (map (page_record env tp (it_key it)) ((if backward then rev else id)
      (filter (alive tp (it_key it)) [from_rowid..min (int (length (key_rows tp (it_key it)))) (from_rowid + int limit - 1)])))"
proof -
  let ?key = "it_key it" and ?n = "int (length (key_rows tp (it_key it)))" and ?segs = "key_segments tp (it_key it)"
  let ?mc = "page_cond from_rowid limit backward" and ?d = "deliver_page env tp (it_key it)"
  let ?row = "row_ex tp ?key" and ?top = "min ?n (from_rowid + int limit - 1)"
  have "key_rows tp ?key \<noteq> []" using assms(2,3) by auto
  note w = whole_key_segments [OF assms(1) this]
  have len: "0 < length ?segs" using w(1) by simp
  have n: "get_topic_key_rows tp ?key = ?n" by (rule key_total_rows [OF assms(1)])
  have cont: "snd (?d s r ex acc) = False" for s r ex acc by (simp add: deliver_page_def)
  have inside: "1 \<le> r \<and> r \<le> ?n" if "s \<in> set ?segs" "sg_first s \<le> r" "r \<le> sg_last s" for s r
    using key_segments_range [OF assms(1) that(1)] that(2,3) by simp
  have "\<exists>c r. first_segment_row ?segs ?n ?mc = Some (c, r) \<and>
      fst (load_loop (get_md_by_rowid tp ?key) ?mc ?segs ?n ?d c r ([], (c, r))) =
      deliveries ?segs ?row ?d ((if backward then rev else id) (filter (alive tp ?key) [from_rowid..?top])) []"
  proof (cases backward)
    case False
    obtain k where k: "k < length ?segs" "first_forward ?mc ?n 0 ?segs = Some (int k, from_rowid)"
        "sg_first (?segs ! k) \<le> from_rowid" "from_rowid \<le> sg_last (?segs ! k)"
      using first_forward_in [OF w(4,1), of ?mc ?n 0] w(2,3) assms(2,3) by (auto simp: page_cond_def)
    have "fst (load_loop (get_md_by_rowid tp ?key) ?mc ?segs ?n ?d (int k) from_rowid ([], (int k, from_rowid))) =
        deliveries ?segs ?row ?d (filter (wanted_row ?mc ?n ?row) [from_rowid..sg_last (last ?segs)]) []"
    proof (rule topic_rows.load_forward [where st = "(tp, ?key)", simplified split_conv, OF assms(1) w(4) subset_refl _ cont])
      fix r r' s assume s: "s \<in> set ?segs" "sg_first s \<le> r" "r \<le> sg_last s" "ends_at ?mc ?n ?row r"
        "r < r'" "r' \<le> sg_last (last ?segs)"
      show "\<not> wanted_row ?mc ?n ?row r'"
        using page_ends [OF _ _ _ _ _ s(4)] page_wanted [of from_rowid ?n limit r' backward ?row] inside [OF s(1-3)]
          s(5,6) assms(2-4) False w(3) by auto
    qed (use k False in \<open>simp_all add: page_cond_def\<close>)
    moreover have "filter (wanted_row ?mc ?n ?row) [from_rowid..sg_last (last ?segs)] = filter (alive tp ?key) [from_rowid..?top]"
      unfolding w(3) by (rule page_rows) (use assms(2-4) in auto)
    ultimately show ?thesis using k(2) False by (simp add: first_segment_row_def page_cond_def)
  next
    case True
    have top: "1 \<le> ?top" using assms(2-4) by simp
    obtain k where k: "k < length ?segs" "first_backward ?mc ?n (int (length ?segs) - 1) (rev ?segs) = Some (int k, ?top)"
        "sg_first (?segs ! k) \<le> ?top" "?top \<le> sg_last (?segs ! k)"
    proof (cases "?n < from_rowid + int limit - 1")
      case big: True
      obtain ss s where ss: "?segs = ss @ [s]" using w(1) by (cases ?segs rule: rev_cases) auto
      have "sg_first s \<le> sg_last s" "sg_last s = ?n" using key_segments_range(2) [OF assms(1), of s ?key] w(3) by (simp_all add: ss)
      then show thesis using that [of "length ss"] big assms(2-4) by (simp add: ss page_cond_def)
    next
      case False
      then show thesis using that first_backward_in [OF w(4,1), of ?mc ?n] w(2,3) assms(2-4) by (auto simp: page_cond_def)
    qed
    have "fst (load_loop (get_md_by_rowid tp ?key) ?mc ?segs ?n ?d (int k) ?top ([], (int k, ?top))) =
        deliveries ?segs ?row ?d (rev (filter (wanted_row ?mc ?n ?row) [sg_first (hd ?segs)..?top])) []"
    proof (rule topic_rows.load_backward [where st = "(tp, ?key)", simplified split_conv, OF assms(1) w(4) subset_refl _ _ cont])
      fix r r' s assume s: "s \<in> set ?segs" "sg_first s \<le> r" "r \<le> sg_last s" "ends_at ?mc ?n ?row r"
        "r' < r" "sg_first (hd ?segs) \<le> r'"
      show "\<not> wanted_row ?mc ?n ?row r'"
        using page_ends [OF _ _ _ _ _ s(4)] page_wanted [of from_rowid ?n limit r' backward ?row] inside [OF s(1-3)]
          s(5,6) assms(2-4) True w(2) by auto
    qed (use k True w(2) in \<open>simp_all add: page_cond_def\<close>)
    moreover have "filter (wanted_row ?mc ?n ?row) [sg_first (hd ?segs)..?top] = filter (alive tp ?key) [from_rowid..?top]"
      unfolding w(2) by (rule page_rows) (use assms(2-4) in auto)
    ultimately show ?thesis using k(2) True by (simp add: first_segment_row_def page_cond_def)
  qed
  then obtain c r where cr: "first_segment_row ?segs ?n ?mc = Some (c, r)"
      "fst (load_loop (get_md_by_rowid tp ?key) ?mc ?segs ?n ?d c r ([], (c, r))) =
        concat (map (page_record env tp ?key) ((if backward then rev else id) (filter (alive tp ?key) [from_rowid..?top])))"
    unfolding deliveries_page by auto
  obtain data c' r' where l: "load_loop (get_md_by_rowid tp ?key) ?mc ?segs ?n ?d c r ([], (c, r)) = (data, c', r')"
    using prod_cases3 by blast
  show ?thesis using assms(2-6) cr l
    unfolding tranger2_iterator_get_page_def Let_def n page_cond_def [symmetric] by simp
qed

end
