(* ===== verification/Tranger_Reload.thy ===== *)
theory Tranger_Reload
  imports Tranger_Select "HOL-Library.Multiset"
begin

text \<open>
  Restarting: the cache built from the files of the disk, which reads only the first and the last row of
  each file, is the cache that was kept in memory, when the times of the rows never go back and the names
  of the files follow them.
\<close>

section \<open>The order of \<open>strcmp\<close>\<close>

lemma strcmp_lexord: "strcmp s t \<le> 0 \<longleftrightarrow> lexordp_eq (map of_char s) (map of_char t :: nat list)"
  by (induction s t rule: strcmp.induct) auto

lemma strcmp_antisym: "strcmp s t \<le> 0 \<Longrightarrow> strcmp t s \<le> 0 \<Longrightarrow> s = t"
proof -
  assume "strcmp s t \<le> 0" "strcmp t s \<le> 0"
  then have "map of_char s = (map of_char t :: nat list)" unfolding strcmp_lexord by (rule lexordp_eq_antisym)
  moreover have "inj (of_char :: char \<Rightarrow> nat)" by (rule injI) simp
  ultimately show "s = t" by (simp only: inj_map_eq_map)
qed

lemma strcmp_total: "strcmp s t \<le> 0 \<or> strcmp t s \<le> 0"
  unfolding strcmp_lexord by (rule lexordp_eq_linear)

lemma strcmp_trans: "strcmp s t \<le> 0 \<Longrightarrow> strcmp t u \<le> 0 \<Longrightarrow> strcmp s u \<le> 0"
  unfolding strcmp_lexord by (rule lexordp_eq_trans)

section \<open>Sorting names\<close>

definition name_le :: "string \<Rightarrow> string \<Rightarrow> bool" where
  "name_le a b \<longleftrightarrow> strcmp (a @ ''.md2'') (b @ ''.md2'') \<le> 0"

lemma name_le_order:
  "name_le a b \<Longrightarrow> name_le b a \<Longrightarrow> a = b" "name_le a b \<or> name_le b a" "name_le a b \<Longrightarrow> name_le b c \<Longrightarrow> name_le a c"
  using strcmp_antisym [of "a @ ''.md2''" "b @ ''.md2''"] strcmp_total [of "a @ ''.md2''" "b @ ''.md2''"]
    strcmp_trans [of "a @ ''.md2''" "b @ ''.md2''" "c @ ''.md2''"]
  by (simp_all add: name_le_def)

lemma set_insert_name [simp]: "mset (insert_name x xs) = add_mset x (mset xs)"
  by (induction x xs rule: insert_name.induct) simp_all

lemma set_insert_name' [simp]: "set (insert_name x xs) = insert x (set xs)"
  by (metis set_insert_name set_mset_add_mset_insert set_mset_mset)

lemma insert_name_sorted:
  "sorted_wrt name_le (map fst xs) \<Longrightarrow> sorted_wrt name_le (map fst (insert_name x xs))"
proof (induction x xs rule: insert_name.induct)
  case (2 x y ys)
  have "name_le (fst y) (fst x)" if "\<not> name_le (fst x) (fst y)" using that name_le_order(2) by blast
  then show ?case using 2 name_le_order(3) by (auto simp: name_le_def [symmetric])
qed simp

lemma dir_array_sort_sorted:
  "sorted_wrt name_le (map fst (dir_array_sort xs))" "mset (dir_array_sort xs) = mset xs"
  by (induction xs) (simp_all add: dir_array_sort_def insert_name_sorted)

lemma sorted_unique:
  assumes "\<And>a b. P a b \<Longrightarrow> P b a \<Longrightarrow> a = b"
  shows "sorted_wrt P xs \<Longrightarrow> sorted_wrt P ys \<Longrightarrow> distinct xs \<Longrightarrow> distinct ys \<Longrightarrow> set xs = set ys \<Longrightarrow> xs = ys"
proof (induction xs arbitrary: ys)
  case (Cons x xs)
  then obtain y zs where ys: "ys = y # zs" by (cases ys) auto
  have "x = y"
  proof (rule ccontr)
    assume "x \<noteq> y"
    then have "x \<in> set zs" "y \<in> set xs" using Cons.prems(5) by (auto simp: ys)
    then have "P y x" "P x y" using Cons.prems(1,2) by (auto simp: ys)
    then show False using assms \<open>x \<noteq> y\<close> by blast
  qed
  then have "set xs = set zs" using Cons.prems(3-5) by (auto simp: ys)
  then show ?case using Cons.IH [of zs] Cons.prems \<open>x = y\<close> by (simp add: ys)
qed simp

section \<open>One file\<close>

lemma masked_times [simp]: "time_t (masked_md r) = time_t r" "time_tm (masked_md r) = time_tm r"
  by (simp_all add: time_t_def time_tm_def masked_md_def get_time_t_def get_time_tm_def and.assoc)

lemma sorted_range:
  assumes "rows \<noteq> []" "sorted (map f rows)"
  shows "is_range f rows (f (hd rows)) (f (last rows))"
proof -
  have "Min (f ` set rows) = f (hd rows)"
    using assms by (cases rows) (auto intro!: Min_eqI)
  moreover have "Max (f ` set rows) = f (last rows)"
    using assms by (cases rows rule: rev_cases) (auto intro!: Max_eqI simp: sorted_append)
  ultimately show ?thesis by (simp add: is_range_def)
qed

lemma reload_cell:
  assumes "cell_ok c rows" "sorted (map time_t rows)" "sorted (map time_tm rows)"
  shows "load_cache_cell_from_disk (c_id c) rows = c"
proof -
  have ne: "rows \<noteq> []" using assms(1) by (simp add: cell_ok_def)
  have r: "c_fr_t c = time_t (hd rows)" "c_to_t c = time_t (last rows)" "c_fr_tm c = time_tm (hd rows)"
      "c_to_tm c = time_tm (last rows)" "c_rows c = int (length rows)"
    using assms(1) sorted_range [OF ne assms(2)] sorted_range [OF ne assms(3)] by (simp_all add: cell_ok_def is_range_def)
  have le: "time_t (hd rows) \<le> time_t (last rows)" "time_tm (hd rows) \<le> time_tm (last rows)"
    using ne assms(2,3) by (cases rows; auto)+
  let ?c1 = "update_cache_cell None (c_id c) (masked_md (hd rows)) 0 1"
  have one: "cell_ok ?c1 [masked_md (hd rows)]" by (simp add: update_cell_new cell_ok_def is_range_def)
  show ?thesis using ne le r
    by (simp add: load_cache_cell_from_disk_def load_first_and_last_record_md_def update_cell_some [OF one])
      (simp add: update_cell_new)
qed

section \<open>Totals\<close>

lemma fold_widen:
  fixes lo hi :: "cell \<Rightarrow> int"
  assumes "\<And>c. c \<in> set cs \<Longrightarrow> small (lo c) \<and> small (hi c) \<and> lo c \<le> hi c" "small a" "small b"
  shows "fold (\<lambda>c (f, t). widen_total f t (lo c) (hi c)) cs (word_of_int a, word_of_int b) =
    (word_of_int (fold (\<lambda>c. min (lo c)) cs a), word_of_int (fold (\<lambda>c. max (hi c)) cs b))"
  using assms
proof (induction cs arbitrary: a b)
  case (Cons c cs)
  have "widen_total (word_of_int a) (word_of_int b) (lo c) (hi c) = (word_of_int (min (lo c) a), word_of_int (max (hi c) b))"
    using Cons.prems by (intro widen_small) auto
  then show ?case using Cons by simp
qed simp

lemma fold_ranges:
  assumes "\<And>c. c \<in> set cs \<Longrightarrow> rows c \<noteq> [] \<and> is_range f (rows c) (lo c) (hi c)" "hist \<noteq> []" "is_range f hist a b"
  shows "is_range f (hist @ concat (map rows cs)) (fold (\<lambda>c. min (lo c)) cs a) (fold (\<lambda>c. max (hi c)) cs b)"
  using assms
proof (induction cs arbitrary: hist a b)
  case (Cons c cs)
  have "is_range f (hist @ rows c) (min (lo c) a) (max (hi c) b)"
    using Cons.prems(1) [of c] Cons.prems(2,3)
    by (auto simp: is_range_def image_Un Min_Un Max_Un min.commute max.commute)
  then have "is_range f ((hist @ rows c) @ concat (map rows cs))
      (fold (\<lambda>c. min (lo c)) cs (min (lo c) a)) (fold (\<lambda>c. max (hi c)) cs (max (hi c) b))"
    using Cons.prems by (intro Cons.IH) auto
  then show ?case by simp
qed simp

lemma fold_widen_range:
  fixes lo hi :: "cell \<Rightarrow> int"
  assumes "\<And>c. c \<in> set cs \<Longrightarrow> rows c \<noteq> [] \<and> is_range f (rows c) (lo c) (hi c)" "cs \<noteq> []" "\<And>r. small (f r)"
  obtains a b where "fold (\<lambda>c (f, t). widen_total f t (lo c) (hi c)) cs (- 1, 0) = (word_of_int a, word_of_int b)"
    "is_range f (concat (map rows cs)) a b" "small a" "small b"
proof -
  obtain c cs' where cs: "cs = c # cs'" using assms(2) by (cases cs) auto
  have s: "small (lo d) \<and> small (hi d) \<and> lo d \<le> hi d" if "d \<in> set cs" for d
    using assms(1) [OF that] range_small [of f "rows d"] range_le [of "rows d" f] assms(3) by blast
  have sc: "small (lo c)" "small (hi c)" "lo c \<le> hi c" "0 \<le> hi c" using s [of c] by (auto simp: cs small_def)
  have "widen_total (- 1) (word_of_int 0) (lo c) (hi c) = (word_of_int (lo c), word_of_int (max (hi c) 0))"
    using sc by (intro widen_first) simp_all
  then have one: "widen_total (- 1) 0 (lo c) (hi c) = (word_of_int (lo c), word_of_int (hi c))" using sc(4) by simp
  let ?a = "fold (\<lambda>c. min (lo c)) cs' (lo c)" and ?b = "fold (\<lambda>c. max (hi c)) cs' (hi c)"
  have r: "is_range f (rows c @ concat (map rows cs')) ?a ?b"
    using assms(1) by (intro fold_ranges) (auto simp: cs)
  show thesis
  proof (rule that)
    show "fold (\<lambda>c (f, t). widen_total f t (lo c) (hi c)) cs (- 1, 0) = (word_of_int ?a, word_of_int ?b)"
      using fold_widen [of cs' lo hi "lo c" "hi c"] s sc one by (simp add: cs)
    show "is_range f (concat (map rows cs)) ?a ?b" using r by (simp add: cs)
    show "small ?a" "small ?b" using range_small [OF assms(3) _ r] assms(1) [of c] by (auto simp: cs)
  qed
qed

lemma reload_totals:
  assumes "key_ok kc kd" "key_hist kc kd \<noteq> []"
  shows "update_totals_of_key_cache (kc_files kc) = kc_total kc"
proof -
  have ne: "kc_files kc \<noteq> []" using assms(2) by (auto simp: key_hist_def)
  have c: "cell_rows kd c \<noteq> [] \<and> is_range time_t (cell_rows kd c) (c_fr_t c) (c_to_t c)"
    "cell_rows kd c \<noteq> [] \<and> is_range time_tm (cell_rows kd c) (c_fr_tm c) (c_to_tm c)" if "c \<in> set (kc_files kc)" for c
    using assms(1) that by (simp_all add: key_ok_def cell_ok_def)
  obtain a b where t: "fold (\<lambda>c (f, t). widen_total f t (c_fr_t c) (c_to_t c)) (kc_files kc) (- 1, 0) = (word_of_int a, word_of_int b)"
      "is_range time_t (key_hist kc kd) a b" "small a" "small b"
    using fold_widen_range [where lo = c_fr_t and hi = c_to_t, OF c(1) ne small_time_of(1)] unfolding key_hist_def by blast
  obtain a' b' where tm: "fold (\<lambda>c (f, t). widen_total f t (c_fr_tm c) (c_to_tm c)) (kc_files kc) (- 1, 0) = (word_of_int a', word_of_int b')"
      "is_range time_tm (key_hist kc kd) a' b'" "small a'" "small b'"
    using fold_widen_range [where lo = c_fr_tm and hi = c_to_tm, OF c(2) ne small_time_of(2)] unfolding key_hist_def by blast
  have "sum_list (map c_rows (kc_files kc)) = int (length (key_hist kc kd))"
    using sum_rows [of kd "kc_files kc"] assms(1) by (simp add: key_ok_def cells_ok_def key_hist_def)
  then have "update_totals_of_key_cache (kc_files kc) = \<lparr>kt_fr_t = a, kt_to_t = b, kt_fr_tm = a', kt_to_tm = b',
      kt_rows = int (length (key_hist kc kd))\<rparr>"
    using t tm by (simp add: update_totals_of_key_cache_def small_sint)
  moreover have "kt_rows (kc_total kc) = int (length (key_hist kc kd)) \<and> kt_fr_t (kc_total kc) = a \<and> kt_to_t (kc_total kc) = b \<and>
      kt_fr_tm (kc_total kc) = a' \<and> kt_to_tm (kc_total kc) = b'"
    using assms t(2) tm(2) by (simp add: key_ok_def total_ok_def is_range_def)
  ultimately show ?thesis by simp
qed

section \<open>A key, and a topic\<close>

definition files_listed :: "key_cache \<Rightarrow> key_dir \<Rightarrow> bool" where
  "files_listed kc kd \<longleftrightarrow> distinct (map fst (kd_md2 kd)) \<and> fst ` set (kd_md2 kd) = c_id ` set (kc_files kc) \<and>
     sorted_wrt name_le (map c_id (kc_files kc))"

lemma reload_files:
  assumes "key_ok kc kd" "files_listed kc kd"
    and "\<And>c. c \<in> set (kc_files kc) \<Longrightarrow> sorted (map time_t (cell_rows kd c)) \<and> sorted (map time_tm (cell_rows kd c))"
  shows "kc_files (load_key_cache_from_disk kd) = kc_files kc"
proof -
  let ?zs = "dir_array_sort (kd_md2 kd)"
  have set: "set ?zs = set (kd_md2 kd)" using dir_array_sort_sorted(2) by (metis set_mset_mset)
  have d: "distinct (map fst ?zs)"
    using assms(2) dir_array_sort_sorted(2) [of "kd_md2 kd"] unfolding files_listed_def
    by (metis mset_eq_imp_distinct_iff mset_map)
  have names: "map fst ?zs = map c_id (kc_files kc)"
    using assms(1,2) d dir_array_sort_sorted(1) name_le_order(1) set
    by (intro sorted_unique [of name_le]) (auto simp: files_listed_def key_ok_def)
  have "rows = md2_rows kd f" if "(f, rows) \<in> set (kd_md2 kd)" for f rows
    using that assms(2) by (simp add: files_listed_def md2_rows_def)
  then have row: "snd z = md2_rows kd (fst z)" if "z \<in> set ?zs" for z
    using that set by (metis prod.collapse)
  have "kc_files (load_key_cache_from_disk kd) = map (\<lambda>z. load_cache_cell_from_disk (fst z) (md2_rows kd (fst z))) ?zs"
    using row by (auto simp: load_key_cache_from_disk_def)
  also have "\<dots> = map (\<lambda>f. load_cache_cell_from_disk f (md2_rows kd f)) (map fst ?zs)" by simp
  also have "\<dots> = map (\<lambda>c. load_cache_cell_from_disk (c_id c) (cell_rows kd c)) (kc_files kc)"
    unfolding names by (simp add: cell_rows_def)
  also have "\<dots> = kc_files kc"
    using assms(1,3) reload_cell by (intro map_idI) (auto simp: key_ok_def)
  finally show ?thesis .
qed

lemma sorted_part: "sorted (map f (concat (map g cs))) \<Longrightarrow> c \<in> set cs \<Longrightarrow> sorted (map f (g c))"
  by (induction cs) (auto simp: sorted_append)

theorem reload_key:
  assumes "topic_ok tp" "key_sorted tp key" "key_rows tp key \<noteq> []" "files_listed (get_key_cache tp key) (key_dir_of tp key)"
  shows "find_keys_cb (key_dir_of tp key) = get_key_cache tp key"
proof -
  let ?kc = "get_key_cache tp key" and ?kd = "key_dir_of tp key"
  have s: "sorted (map time_t (cell_rows ?kd c)) \<and> sorted (map time_tm (cell_rows ?kd c))" if "c \<in> set (kc_files ?kc)" for c
    using assms(2) that sorted_part [of time_t "cell_rows ?kd" "kc_files ?kc" c]
      sorted_part [of time_tm "cell_rows ?kd" "kc_files ?kc" c] by (simp add: key_sorted_def key_rows_def key_hist_def)
  have f: "kc_files (load_key_cache_from_disk ?kd) = kc_files ?kc"
    by (rule reload_files [OF topic_okD [OF assms(1)] assms(4) s])
  have t: "update_totals_of_key_cache (kc_files ?kc) = kc_total ?kc"
    by (rule reload_totals [OF topic_okD [OF assms(1)] assms(3) [unfolded key_rows_def]])
  show ?thesis using f t by (simp add: find_keys_cb_def Let_def)
qed

lemma insert_key_mset [simp]: "mset (insert_key x xs) = add_mset x (mset xs)"
  by (induction x xs rule: insert_key.induct) simp_all

lemma insert_key_sorted:
  "sorted_wrt (\<lambda>a b. strcmp a b \<le> 0) (map fst xs) \<Longrightarrow> sorted_wrt (\<lambda>a b. strcmp a b \<le> 0) (map fst (insert_key x xs))"
proof (induction x xs rule: insert_key.induct)
  case (2 x y ys)
  have "set (insert_key x ys) = insert x (set ys)" by (metis insert_key_mset set_mset_add_mset_insert set_mset_mset)
  moreover have "strcmp (fst y) (fst x) \<le> 0" if "\<not> strcmp (fst x) (fst y) \<le> 0" using that strcmp_total by blast
  ultimately show ?case using 2 strcmp_trans by auto
qed simp

lemma keys_sorted: "sorted_wrt (\<lambda>a b. strcmp a b \<le> 0) (map fst (foldr insert_key xs []))" "mset (foldr insert_key xs []) = mset xs"
  by (induction xs) (simp_all add: insert_key_sorted)

lemma fold_put_caches:
  assumes "distinct (map fst xs)"
  shows "get_key_cache (fold (\<lambda>(key, kd) tp. put_key_cache key (find_keys_cb kd) tp) xs tp) k =
      (case map_of xs k of Some kd \<Rightarrow> find_keys_cb kd | None \<Rightarrow> get_key_cache tp k)"
    "key_dir_of (fold (\<lambda>(key, kd) tp. put_key_cache key (find_keys_cb kd) tp) xs tp) = key_dir_of tp"
    "fst ` set (tp_cache tp) \<inter> fst ` set xs = {} \<Longrightarrow> tranger2_list_keys (fold (\<lambda>(key, kd) tp. put_key_cache key (find_keys_cb kd) tp) xs tp) =
      tranger2_list_keys tp @ map fst xs"
  using assms
proof (induction xs arbitrary: tp)
  case (Cons x xs)
  obtain key kd where x: "x = (key, kd)" by (cases x)
  {
    case 1
    then have "key \<notin> fst ` set xs" by (simp add: x)
    then have "map_of xs key = None" by (simp add: map_of_eq_None_iff)
    then show ?case using 1 Cons.IH(1) by (auto simp: x topic_simps split: option.splits)
  next
    case 2
    then show ?case using Cons.IH(2) by (simp add: x topic_simps)
  next
    case 3
    then have "key \<notin> fst ` set (tp_cache tp)" by (auto simp: x)
    then have "map fst (AList.update key (find_keys_cb kd) (tp_cache tp)) = map fst (tp_cache tp) @ [key]"
      by (simp add: update_keys)
    then have k: "tranger2_list_keys (put_key_cache key (find_keys_cb kd) tp) = tranger2_list_keys tp @ [key]"
      "fst ` set (tp_cache (put_key_cache key (find_keys_cb kd) tp)) = insert key (fst ` set (tp_cache tp))"
      by (simp_all add: tranger2_list_keys_def put_key_cache_def dom_update)
    then show ?case using 3 Cons.IH(3) [of "put_key_cache key (find_keys_cb kd) tp"] by (auto simp: x)
  }
qed simp_all

definition reloadable :: "topic \<Rightarrow> bool" where
  "reloadable tp \<longleftrightarrow> distinct (map fst (tp_dirs tp)) \<and> fst ` set (tp_cache tp) = fst ` set (tp_dirs tp) \<and>
     (\<forall>key \<in> fst ` set (tp_dirs tp). key_sorted tp key \<and> key_rows tp key \<noteq> [] \<and>
       files_listed (get_key_cache tp key) (key_dir_of tp key))"

theorem reload_topic:
  assumes "topic_ok tp" "reloadable tp"
  defines "tp' \<equiv> build_topic_cache_from_disk (tp\<lparr>tp_cache := []\<rparr>)"
  shows "get_key_cache tp' = get_key_cache tp" "topic_ok tp'" "key_rows tp' = key_rows tp"
    "set (tranger2_list_keys tp') = set (tranger2_list_keys tp)"
    "sorted_wrt (\<lambda>a b. strcmp a b \<le> 0) (tranger2_list_keys tp')"
proof -
  let ?xs = "foldr insert_key (tp_dirs tp) []"
  have set: "set ?xs = set (tp_dirs tp)" using keys_sorted(2) by (metis set_mset_mset)
  have d: "distinct (map fst ?xs)" "distinct (map fst (tp_dirs tp))"
    using assms(2) keys_sorted(2) [of "tp_dirs tp"] unfolding reloadable_def by (metis mset_eq_imp_distinct_iff mset_map)+
  have m: "map_of ?xs = map_of (tp_dirs tp)" using set d by (simp add: map_of_inject_set)
  have dir: "key_dir_of (tp\<lparr>tp_cache := []\<rparr>) = key_dir_of tp" by (auto simp: key_dir_of_def)
  have c': "get_key_cache tp' k = (case map_of (tp_dirs tp) k of Some kd \<Rightarrow> find_keys_cb kd | None \<Rightarrow> create_cache_key)" for k
    using fold_put_caches(1) [OF d(1), of "tp\<lparr>tp_cache := []\<rparr>" k]
    unfolding tp'_def build_topic_cache_from_disk_def m by (simp add: get_key_cache_def split: option.split)
  have c: "get_key_cache tp' k = get_key_cache tp k" for k
  proof (cases "map_of (tp_dirs tp) k")
    case None
    then have "k \<notin> fst ` set (tp_cache tp)" using assms(2) by (simp add: reloadable_def map_of_eq_None_iff)
    then have "map_of (tp_cache tp) k = None" by (simp add: map_of_eq_None_iff)
    then show ?thesis using None by (simp add: c') (simp add: get_key_cache_def)
  next
    case (Some kd)
    then have k: "k \<in> fst ` set (tp_dirs tp)" "kd = key_dir_of tp k"
      using map_of_SomeD by (force simp: key_dir_of_def)+
    then have "find_keys_cb kd = get_key_cache tp k"
      using assms(2) reload_key [OF assms(1), of k] by (auto simp: reloadable_def)
    then show ?thesis using Some by (simp add: c')
  qed
  have dirs: "key_dir_of tp' = key_dir_of tp"
    unfolding tp'_def build_topic_cache_from_disk_def by (simp add: fold_put_caches(2) [OF d(1)] dir)
  have keys: "tranger2_list_keys tp' = map fst ?xs"
    unfolding tp'_def build_topic_cache_from_disk_def by (simp add: fold_put_caches(3) [OF d(1)]) (simp add: tranger2_list_keys_def)
  show "get_key_cache tp' = get_key_cache tp" using c by (rule ext)
  then show "topic_ok tp'" "key_rows tp' = key_rows tp"
    using assms(1) dirs by (auto simp: topic_ok_def key_rows_def)
  show "set (tranger2_list_keys tp') = set (tranger2_list_keys tp)"
    using assms(2) set by (simp add: keys reloadable_def) (simp add: tranger2_list_keys_def)
  show "sorted_wrt (\<lambda>a b. strcmp a b \<le> 0) (tranger2_list_keys tp')" unfolding keys by (rule keys_sorted(1))
qed

end
