(* ===== verification/Tranger_Delete.thy ===== *)
theory Tranger_Delete
  imports Tranger_Load
begin

text \<open>
  Deleting an instance: its row gets the tombstone, every other row of the topic stays as it was, the
  cache still describes the files, and no search wants the row any more.
\<close>

section \<open>One row of the files is one row of the key\<close>

lemma concat_update:
  assumes "cells_ok kd cs" "distinct (map c_id cs)" "s \<in> set (annotate p cs)" "sg_first s \<le> r" "r \<le> sg_last s"
    and "\<And>c. rows' c = (if c_id c = c_id (sg_cell s) then (cell_rows kd c)[nat (r - sg_first s) := v] else cell_rows kd c)"
  shows "concat (map rows' cs) = (concat (map (cell_rows kd) cs))[nat (r - p) := v]"
  using assms
proof (induction p cs rule: annotate.induct)
  case (2 p c cs)
  have c: "c_rows c = int (length (cell_rows kd c))" "0 < c_rows c" using cells_okD [OF 2(2), of c] by auto
  have cs: "cells_ok kd cs" using 2(2) by (simp add: cells_ok_def)
  have others: "concat (map rows' cs) = concat (map (cell_rows kd) cs)" if "c_id (sg_cell s) \<notin> c_id ` set cs"
  proof -
    have "rows' x = cell_rows kd x" if "x \<in> set cs" for x
    proof -
      have "c_id x \<noteq> c_id (sg_cell s)" using that \<open>c_id (sg_cell s) \<notin> c_id ` set cs\<close> by (metis imageI)
      then show ?thesis using 2(7) [of x] by simp
    qed
    then show ?thesis by (simp cong: map_cong)
  qed
  show ?case
  proof (cases "r < p + c_rows c")
    case True
    then have "s \<notin> set (annotate (p + c_rows c) cs)" using annotate_range [OF cs, of s "p + c_rows c"] 2(5) by auto
    then have s: "s = \<lparr>sg_cell = c, sg_first = p, sg_last = p + c_rows c - 1\<rparr>" using 2(4) by simp
    then have "rows' c = (cell_rows kd c)[nat (r - p) := v]" "c_id (sg_cell s) \<notin> c_id ` set cs"
      using 2(3,7) by auto
    then show ?thesis using others True c 2(5) s by (simp add: list_update_append nat_less_iff)
  next
    case False
    then have s: "s \<in> set (annotate (p + c_rows c) cs)" using 2(4,6) by auto
    then have "c_id c \<noteq> c_id (sg_cell s)" using 2(3) annotate_cells by fastforce
    then have "rows' c = cell_rows kd c" using 2(7) by simp
    moreover have "concat (map rows' cs) = (concat (map (cell_rows kd) cs))[nat (r - (p + c_rows c)) := v]"
      using 2(1) [OF cs _ s 2(5,6,7)] 2(3) by simp
    moreover have "nat (r - p) - length (cell_rows kd c) = nat (r - (p + c_rows c))" "\<not> nat (r - p) < length (cell_rows kd c)"
      using False c by auto
    ultimately show ?thesis by (simp add: list_update_append)
  qed
qed simp

section \<open>Rewriting the flags of a numbered row\<close>

text \<open>A row is in the file of its time, and its number in the file fits an offset.\<close>

definition row_filed :: "tranger \<Rightarrow> topic \<Rightarrow> string \<Rightarrow> int \<Rightarrow> bool" where
  "row_filed tr tp key r \<longleftrightarrow> (case segment_of_rowid (key_segments tp key) r of None \<Rightarrow> False
     | Some s \<Rightarrow> c_id (sg_cell s) = wr_file_id tr tp (x_t (row_ex tp key r)) \<and> r - sg_first s < 2 ^ 58)"

lemma rewrite_numbered_row:
  assumes "topic_ok tp" "tr_master tr" "row_filed tr tp key r"
    and f: "\<And>md. get_time_t (f md) = get_time_t md" "\<And>md. get_time_tm (f md) = get_time_tm md"
  defines "ex \<equiv> row_ex tp key r"
  obtains tp' where "rewrite_row tr tp key (x_t ex) (x_rowid ex) f = (Inr (), tp')" "topic_ok tp'" "settings tp' = settings tp"
    "key_rows tp' key = (key_rows tp key)[nat (r - 1) := f (key_row tp key r)]" "\<And>k. k \<noteq> key \<Longrightarrow> key_rows tp' k = key_rows tp k"
    "get_key_cache tp' = get_key_cache tp"
    "\<And>k. data_text (key_dir_of tp' k) = data_text (key_dir_of tp k)"
    "\<exists>file_id n tp1. get_md_record_for_wr tr tp key (x_t ex) (x_rowid ex) = (Inr (file_id, key_row tp key r, n), tp1)" "1 \<le> r"
proof -
  let ?kc = "get_key_cache tp key" and ?kd = "key_dir_of tp key"
  obtain s where s: "segment_of_rowid (key_segments tp key) r = Some s"
      "c_id (sg_cell s) = wr_file_id tr tp (x_t ex)" "r - sg_first s < 2 ^ 58"
    using assms(3) by (auto simp: row_filed_def ex_def split: option.splits)
  note in_s = segment_of_rowid_Some [OF s(1)]
  let ?i = "nat (r - sg_first s)" and ?id = "c_id (sg_cell s)"
  have ok: "cells_ok ?kd (kc_files ?kc)" by (rule key_cells_ok [OF assms(1)])
  have a: "key_row tp key r = md2_rows ?kd ?id ! ?i" "?i < length (md2_rows ?kd ?id)"
    using annotate_row [OF ok, of s 1 r] in_s by (simp_all add: key_segments_def key_row_def key_rows_def key_hist_def cell_rows_def)
  have x: "x_rowid ex = word_of_nat (Suc ?i)" "x_t ex = get_time_t (md2_rows ?kd ?id ! ?i)"
  proof -
    have "int (Suc ?i) = r - sg_first s + 1" using in_s by simp
    then have "(word_of_nat (Suc ?i) :: 64 word) = word_of_int (r - sg_first s + 1)" by (metis of_int_of_nat_eq)
    moreover have "x_rowid ex = word_of_int (r - sg_first s + 1)" by (simp add: ex_def row_ex_def s(1) md_ex_def)
    ultimately show "x_rowid ex = word_of_nat (Suc ?i)" by simp
    show "x_t ex = get_time_t (md2_rows ?kd ?id ! ?i)" using a(1) by (simp add: ex_def row_ex_fields key_row_def)
  qed
  have i: "?i < 2 ^ 58" using s(3) by simp
  obtain tp' where w: "rewrite_row tr tp key (x_t ex) (word_of_nat (Suc ?i)) f = (Inr (), tp')"
      "settings tp' = settings tp" "get_key_cache tp' = get_key_cache tp"
      "\<And>k. md2_rows (key_dir_of tp' k) = (if k = key then (md2_rows ?kd)(?id := (md2_rows ?kd ?id)[?i := f (md2_rows ?kd ?id ! ?i)])
        else md2_rows (key_dir_of tp k))"
      "\<And>k. data_text (key_dir_of tp' k) = data_text (key_dir_of tp k)"
      "\<exists>tp1. get_md_record_for_wr tr tp key (x_t ex) (word_of_nat (Suc ?i)) = (Inr (?id, md2_rows ?kd ?id ! ?i, ?i), tp1)"
    using rewrite_row_result [of tr ?i tp key "x_t ex" f, OF assms(2) _ i] a(2) x(2) unfolding s(2) by metis
  define rows' where "rows' = cell_rows (key_dir_of tp' key)"
  have rows': "rows' c = (if c_id c = ?id then (cell_rows ?kd c)[?i := f (key_row tp key r)] else cell_rows ?kd c)" for c
    using w(4) a(1) by (simp add: rows'_def cell_rows_def)
  have hist: "key_hist ?kc (key_dir_of tp' key) = (key_rows tp key)[nat (r - 1) := f (key_row tp key r)]"
    using concat_update [OF ok _ _ _ _ rows', of 1] in_s topic_okD [OF assms(1), of key]
    by (simp add: key_hist_def key_rows_def rows'_def key_ok_def key_segments_def)
  have same: "same_times (cell_rows ?kd c) (rows' c)" for c
    using a f by (auto simp: rows' same_times_def cell_rows_def time_t_def time_tm_def list_update_image)
  have "key_ok (get_key_cache tp' k) (key_dir_of tp' k)" for k
  proof (cases "k = key")
    case True
    then show ?thesis using key_ok_same_times(1) [OF topic_okD [OF assms(1)]] same w(3) by (simp add: rows'_def)
  next
    case False
    then show ?thesis using key_ok_cong(1) [of "key_dir_of tp' k" "key_dir_of tp k"] w(3,4) topic_okD [OF assms(1), of k] by simp
  qed
  then have "topic_ok tp'" by (simp add: topic_ok_def)
  moreover have "key_rows tp' key = (key_rows tp key)[nat (r - 1) := f (key_row tp key r)]"
    using hist w(3) by (simp add: key_rows_def)
  moreover have "key_rows tp' k = key_rows tp k" if "k \<noteq> key" for k
    using key_ok_cong(2) [of "key_dir_of tp' k" "key_dir_of tp k"] w(3,4) that by (simp add: key_rows_def)
  moreover have "\<exists>file_id n tp1. get_md_record_for_wr tr tp key (x_t ex) (x_rowid ex) = (Inr (file_id, key_row tp key r, n), tp1)"
    using w(6) a(1) x(1) by metis
  moreover have "1 \<le> r" using in_s key_segments_range(1) [OF assms(1)] by force
  ultimately show thesis using that [of tp'] w(1,2,3,5) x(1) by simp
qed

section \<open>Tombstones\<close>

definition tombstone :: "md2_record \<Rightarrow> md2_record" where
  "tombstone md = set_system_flag md (get_system_flag md OR sf_deleted_instance)"

lemma tombstone_times [simp]: "get_time_t (tombstone md) = get_time_t md" "get_time_tm (tombstone md) = get_time_tm md"
  by (simp_all add: tombstone_def md_simps)

lemma tombstone_flag: "get_system_flag (tombstone md) AND sf_deleted_instance \<noteq> 0"
proof -
  have "(get_system_flag md OR sf_deleted_instance) AND sf_deleted_instance = sf_deleted_instance"
    by (rule bit_word_eqI) (auto simp: bit_simps)
  then show ?thesis by (simp add: tombstone_def md_simps)
qed

lemma delete_is_rewrite:
  assumes "tr_master tr" "path_component key" "tp_system_flag tp AND sf_rowid_key = 0"
    and "get_md_record_for_wr tr tp key t i = (Inr (file_id, md, n), tp1)"
    and "get_system_flag md AND sf_immutable_record = 0" "get_system_flag md AND sf_deleted_instance = 0"
  shows "tranger2_delete_instance tr tp key t i False = rewrite_row tr tp key t i tombstone"
  using assms by (simp add: tranger2_delete_instance_def real_key_def rewrite_row_def Let_def tombstone_def
      rewrite_md_to_file_def)

lemma wanted_rows_update:
  assumes rows: "key_rows tp' key = (key_rows tp key)[nat (r - 1) := md]" "1 \<le> r"
    and dead: "get_system_flag md AND sf_deleted_instance \<noteq> 0"
  shows "wanted_rows tp' key mc = filter (\<lambda>a. a \<noteq> r) (wanted_rows tp key mc)"
proof -
  let ?n = "int (length (key_rows tp key))"
  have n: "int (length (key_rows tp' key)) = ?n" by (simp add: rows)
  have w: "wanted mc ?n a (key_row tp' key a) \<longleftrightarrow> wanted mc ?n a (key_row tp key a) \<and> a \<noteq> r" if "a \<in> set [1..?n]" for a
  proof (cases "a = r")
    case True
    then have "nat (r - 1) < length (key_rows tp key)" using that rows(2) by simp
    then have "key_row tp' key a = md" using True by (simp add: key_row_def rows)
    then show ?thesis using True dead by (simp add: wanted_def)
  next
    case False
    then have "nat (a - 1) \<noteq> nat (r - 1)" using that rows(2) by auto
    then show ?thesis using False by (simp add: key_row_def rows)
  qed
  show ?thesis unfolding wanted_rows_def n Let_def filter_filter using w by (intro filter_cong) auto
qed

theorem delete_instance_result:
  assumes "topic_ok tp" "tr_master tr" "row_filed tr tp key r" "path_component key" "tp_system_flag tp AND sf_rowid_key = 0"
    and "get_system_flag (key_row tp key r) AND sf_immutable_record = 0"
    and "get_system_flag (key_row tp key r) AND sf_deleted_instance = 0"
  defines "ex \<equiv> row_ex tp key r"
  obtains tp' where "tranger2_delete_instance tr tp key (x_t ex) (x_rowid ex) False = (Inr (), tp')" "topic_ok tp'"
    "key_rows tp' key = (key_rows tp key)[nat (r - 1) := tombstone (key_row tp key r)]"
    "\<And>k. k \<noteq> key \<Longrightarrow> key_rows tp' k = key_rows tp k"
    "\<And>mc. wanted_rows tp' key mc = filter (\<lambda>a. a \<noteq> r) (wanted_rows tp key mc)"
    "\<And>k. data_text (key_dir_of tp' k) = data_text (key_dir_of tp k)"
proof -
  obtain tp' file_id n tp1 where w: "rewrite_row tr tp key (x_t ex) (x_rowid ex) tombstone = (Inr (), tp')" "topic_ok tp'"
      "key_rows tp' key = (key_rows tp key)[nat (r - 1) := tombstone (key_row tp key r)]"
      "\<And>k. k \<noteq> key \<Longrightarrow> key_rows tp' k = key_rows tp k"
      "\<And>k. data_text (key_dir_of tp' k) = data_text (key_dir_of tp k)"
      and g: "get_md_record_for_wr tr tp key (x_t ex) (x_rowid ex) = (Inr (file_id, key_row tp key r, n), tp1)" and r: "1 \<le> r"
    by (rule rewrite_numbered_row [OF assms(1-3), of tombstone]) (auto simp: ex_def)
  have "tranger2_delete_instance tr tp key (x_t ex) (x_rowid ex) False = (Inr (), tp')"
    using delete_is_rewrite [OF assms(2,4,5) g assms(6,7)] w(1) by simp
  then show thesis using that w wanted_rows_update [OF w(3) r tombstone_flag] by blast
qed

end
