(* ===== verification/Tranger_Properties.thy ===== *)
theory Tranger_Properties
  imports Protocol_Properties Kw_Flatten Tranger_Pages Tranger_Reload Tranger_Delete
begin

text \<open>
  The main properties of the time-series store, on the definitions of the \<open>Tranger\<close> theories, with a
  small topic they are applied to: one key, two files, three records.
\<close>

section \<open>An example\<close>

definition demo_env :: tr_env where
  "demo_env = \<lparr>te_now_s = 100, te_now_ms = 100000, te_approxidate = (\<lambda>_. 7),
     te_dumps = (\<lambda>j. Some (case json_object_get (Some j) ''v'' of Some (JString s) \<Rightarrow> s | _ \<Rightarrow> [])),
     te_loads = (\<lambda>s. Some (JObject [(''v'', JString s)])), te_rkey_matches = (\<lambda>re key. True)\<rparr>"

definition demo_tr :: tranger where
  "demo_tr = \<lparr>tr_master = True, tr_filename_mask = ''%Y-%m-%d''\<rparr>"

abbreviation demo_md :: "64 word \<Rightarrow> 64 word \<Rightarrow> 64 word \<Rightarrow> md2_record" where
  "demo_md t off sz \<equiv> \<lparr>md_t = t, md_tm = 0x100000000000, md_offset = off, md_size = sz\<rparr>"

definition demo_dir :: key_dir where
  "demo_dir = \<lparr>kd_md2 = [(''1970-01-01'', [demo_md 1 0 2, demo_md 2 2 3]), (''1970-01-02'', [demo_md 86401 0 2])],
     kd_json = [(''1970-01-01'', [CHR ''a'', CHR 0x00, CHR ''b'', CHR ''c'', CHR 0x00]), (''1970-01-02'', [CHR ''d'', CHR 0x00])]\<rparr>"

definition demo_cache :: key_cache where
  "demo_cache = \<lparr>kc_files =
     [\<lparr>c_id = ''1970-01-01'', c_fr_t = 1, c_to_t = 2, c_fr_tm = 0, c_to_tm = 0, c_rows = 2\<rparr>,
      \<lparr>c_id = ''1970-01-02'', c_fr_t = 86401, c_to_t = 86401, c_fr_tm = 0, c_to_tm = 0, c_rows = 1\<rparr>],
     kc_total = \<lparr>kt_fr_t = 1, kt_to_t = 86401, kt_fr_tm = 0, kt_to_tm = 0, kt_rows = 3\<rparr>\<rparr>"

definition demo_topic :: topic where
  "demo_topic = \<lparr>tp_pkey = ''id'', tp_tkey = [], tp_system_flag = sf_string_key, tp_filename_mask = [],
     tp_cache = [(''k'', demo_cache)], tp_dirs = [(''k'', demo_dir)], tp_lists = []\<rparr>"

definition demo_record :: json where
  "demo_record = JObject [(''id'', JString ''k''), (''v'', JString ''e'')]"

lemma demo_fields:
  "key_dir_of demo_topic k = (if k = ''k'' then demo_dir else empty_dir)"
  "get_key_cache demo_topic k = (if k = ''k'' then demo_cache else create_cache_key)"
  by (simp_all add: demo_topic_def key_dir_of_def get_key_cache_def)

lemma demo_times:
  "get_time_t (demo_md t off sz) = t AND TIME_FLAG_MASK" "get_time_tm (demo_md t off sz) = 0"
  "get_system_flag (demo_md t off sz) = 1"
  by (simp_all add: get_time_t_def get_time_tm_def get_system_flag_def read_flag_def TIME_FLAG_MASK_def USER_FLAG_MASK_def)

lemma demo_rows:
  "md2_rows demo_dir ''1970-01-01'' = [demo_md 1 0 2, demo_md 2 2 3]" "md2_rows demo_dir ''1970-01-02'' = [demo_md 86401 0 2]"
  by (simp_all add: md2_rows_def demo_dir_def)

lemma demo_key_rows: "key_rows demo_topic ''k'' = [demo_md 1 0 2, demo_md 2 2 3, demo_md 86401 0 2]"
  by (simp add: key_rows_def demo_fields key_hist_def demo_cache_def cell_rows_def demo_rows)

lemma demo_time_of:
  "time_t (demo_md 1 off sz) = 1" "time_t (demo_md 2 off sz) = 2" "time_t (demo_md 86401 off sz) = 86401"
  "time_t (demo_md 86402 off sz) = 86402" "time_tm (demo_md t off sz) = 0"
  by (simp_all add: time_t_def time_tm_def demo_times TIME_FLAG_MASK_def)

lemma demo_topic_ok: "topic_ok demo_topic"
proof -
  have "key_ok demo_cache demo_dir"
    by (simp add: key_ok_def key_hist_def cell_rows_def demo_cache_def demo_rows cell_ok_def total_ok_def is_range_def demo_time_of)
  moreover have "key_ok create_cache_key empty_dir" by (simp add: key_ok_def key_hist_def total_ok_def create_cache_key_def)
  ultimately show ?thesis by (simp add: topic_ok_def demo_fields)
qed

lemma demo_key_sorted: "key_sorted demo_topic ''k''"
  by (simp add: key_sorted_def demo_key_rows demo_time_of)

lemma demo_file: "wr_file_id demo_tr demo_topic 86402 = ''1970-01-02''" "wr_file_id demo_tr demo_topic 1 = ''1970-01-01''"
  by (code_simp, code_simp)

section \<open>Keys are names of directories\<close>

lemma nat_digits_length: "0 < k \<Longrightarrow> n < 10 ^ k \<Longrightarrow> length (nat_digits n) \<le> k"
proof (induction n arbitrary: k rule: nat_digits.induct)
  case (1 n)
  show ?case
  proof (cases "n < 10")
    case True
    then show ?thesis using 1(2) by (simp add: nat_digits.simps [of n])
  next
    case False
    then obtain j where k: "k = Suc j" "0 < j" using 1(3) by (cases k; cases "k = 1") auto
    then have "n div 10 < 10 ^ j" using 1(3) by (simp add: less_mult_imp_div_less mult.commute)
    then show ?thesis using 1(1) [OF False k(2)] False k by (simp add: nat_digits.simps [of n])
  qed
qed

lemma int_key_safe:
  assumes "n < 2 ^ 64" shows "path_component (zero_padded 19 n) \<and> length (zero_padded 19 n) \<le> NAME_MAX"
proof -
  have "n < 10 ^ 20" using assms by simp
  then have l: "length (nat_digits n) \<le> 20" by (intro nat_digits_length) simp_all
  have d: "nat_digits n \<noteq> []" "list_all isdigit (nat_digits n)" using nat_digits_props by blast+
  have "isdigit CHR ''0''" by (simp add: isdigit_def)
  then have "list_all isdigit (zero_padded 19 n)" using d by (auto simp: zero_padded_def Let_def list_all_iff)
  moreover have "zero_padded 19 n \<noteq> []" using d by (simp add: zero_padded_def Let_def)
  moreover have "\<not> isdigit CHR ''/''" "\<not> isdigit CHR ''.''" by (simp_all add: isdigit_def)
  ultimately have "path_component (zero_padded 19 n)" unfolding path_component_def list_all_iff by (metis hd_in_set)
  then show ?thesis using l by (simp add: zero_padded_def Let_def NAME_MAX_def)
qed

lemma append_key_safe:
  assumes "append_key tp record = Inr (key, record')" shows "path_component key \<and> length key \<le> NAME_MAX"
proof -
  have i: "zero_padded 19 (unat (w :: 64 word)) = key \<Longrightarrow> path_component key \<and> length key \<le> NAME_MAX" for w
    using int_key_safe [of "unat w"] unsigned_less [of w, where ?'a = nat] by auto
  have r: "path_component ''__rowid__'' \<and> length ''__rowid__'' \<le> NAME_MAX" by (simp add: path_component_def NAME_MAX_def)
  from assms show ?thesis using i r
    by (auto simp: append_key_def Let_def path_component_def split: if_splits option.splits)
qed

definition dir_keys :: "topic \<Rightarrow> string set" where
  "dir_keys tp = fst ` set (tp_dirs tp)"

lemma dirs_put: "dir_keys (put_key_dir key kd tp) = insert key (dir_keys tp)"
  by (simp add: dir_keys_def put_key_dir_def dom_update)

lemma dirs_wr_fd:
  "get_topic_wr_fd tr tp key b t = Some (f, tp') \<Longrightarrow> dir_keys tp' \<subseteq> insert key (dir_keys tp)"
  by (auto simp: get_topic_wr_fd_def Let_def dirs_put split: if_splits)

lemma dirs_append_row: "dir_keys (append_row tp key f md) = insert key (dir_keys tp)"
  "dir_keys (append_data tp key f s) = insert key (dir_keys tp)"
  by (simp_all add: append_row_def append_data_def Let_def dirs_put)

lemma dirs_update_record: "dir_keys (snd (update_new_record_from_mem tr tp key md)) = dir_keys tp"
  by (simp add: dir_keys_def update_new_record_cache Let_def put_key_cache_def)

lemma dirs_append:
  assumes "append_key tp record = Inr (key, record')"
  shows "dir_keys (snd (tranger2_append_record env tr tp t uf (Some record))) \<subseteq> insert key (dir_keys tp)"
proof (cases "tr_master tr")
  case True
  define t' where "t' = (if t = 0 then (if tp_system_flag tp AND sf_t_ms \<noteq> 0 then te_now_ms env else te_now_s env) else t)"
  define tm where "tm = append_tm env tp record'"
  show ?thesis
  proof (cases "get_topic_wr_fd tr tp key True t'")
    case None
    then show ?thesis using assms by (auto simp: tranger2_append_record_def Let_def t'_def)
  next
    case (Some q)
    then obtain f tp1 where q: "get_topic_wr_fd tr tp key True t' = Some (f, tp1)" by (cases q) auto
    note d1 = dirs_wr_fd [OF q]
    show ?thesis
    proof (cases "te_dumps env record'")
      case None
      then show ?thesis using True assms q d1 by (simp add: tranger2_append_record_def Let_def t'_def [symmetric])
    next
      case (Some str)
      let ?md = "new_md tp1 t' tm uf (length (data_text (key_dir_of tp1 key) f)) (length str + 1)"
      let ?tp2 = "append_data tp1 key f (str @ [CHR 0x00])"
      show ?thesis
      proof (cases "get_topic_wr_fd tr ?tp2 key False t'")
        case None
        then show ?thesis using True assms q d1 Some
          by (auto simp: tranger2_append_record_def Let_def t'_def [symmetric] dirs_append_row)
      next
        case (Some q')
        then obtain g tp3 where q': "get_topic_wr_fd tr ?tp2 key False t' = Some (g, tp3)" by (cases q') auto
        obtain rowid tp4 where u: "update_new_record_from_mem tr (append_row tp3 key g ?md) key ?md = (rowid, tp4)" by fastforce
        have "dir_keys tp4 = dir_keys (append_row tp3 key g ?md)" using dirs_update_record u by (metis snd_conv)
        then have "dir_keys tp4 \<subseteq> insert key (dir_keys tp)"
          using dirs_wr_fd [OF q'] d1 by (auto simp: dirs_append_row)
        then show ?thesis using True assms q q' u \<open>te_dumps env record' = Some str\<close>
          by (simp add: tranger2_append_record_def Let_def t'_def [symmetric] tm_def [symmetric])
      qed
    qed
  qed
next
  case False
  then show ?thesis by (auto simp: tranger2_append_record_def)
qed

text \<open>C35: Appending a record, whatever the record, its key and the outcome, makes no directory but one whose
  name is a single component of a path, not hidden and within the limit of names: no key leads out of
  the directory of the topic.\<close>

theorem only_safe_keys_reach_the_disk:
  "dir_keys (snd (tranger2_append_record env tr tp t user_flag jn_record))
    \<subseteq> dir_keys tp \<union> {key. path_component key \<and> length key \<le> NAME_MAX}"
proof (cases jn_record)
  case (Some j)
  show ?thesis
  proof (cases "append_key tp j")
    case (Inl e)
    then show ?thesis using Some by (auto simp: tranger2_append_record_def Let_def)
  next
    case (Inr q)
    then obtain key j' where q: "append_key tp j = Inr (key, j')" by (cases q) auto
    show ?thesis using dirs_append [OF q, of env tr t user_flag] append_key_safe [OF q] Some by blast
  qed
qed (auto simp: tranger2_append_record_def)

section \<open>Appending and reading\<close>

lemma append_key_not_empty: "append_key tp jn = Inr (key, jn') \<Longrightarrow> key \<noteq> []"
  using append_key_safe by (auto simp: path_component_def)

text \<open>C33: A record appended in the order of the files becomes the last row of its key: its number is the
  number of rows of the key, the rows of the key are the old ones and the new one, those of other keys
  are the same, every list that wants the key is fed with it, and the cache in memory still describes the
  files (ranges of times, rows per file, totals).\<close>

theorem record_is_appended:
  assumes "topic_ok tp" "tr_master tr" "append_key tp jn = Inr (key, jn')" "te_dumps env jn' = Some s"
    and "t \<noteq> 0" "uint t < 2 ^ 44"
    and "md = new_md tp t (append_tm env tp jn') user_flag
      (length (data_text (key_dir_of tp key) (wr_file_id tr tp t))) (length s + 1)"
    and "in_order (get_key_cache tp key) (key_dir_of tp key) (wr_file_id tr tp t)"
    and "no_mixed_zero time_t (key_rows tp key @ [md])" "no_mixed_zero time_tm (key_rows tp key @ [md])"
  shows "\<exists>ap tp'. tranger2_append_record env tr tp t user_flag (Some jn) = (Inr ap, tp') \<and> topic_ok tp' \<and>
    key_rows tp' key = key_rows tp key @ [md] \<and> (\<forall>k. k \<noteq> key \<longrightarrow> key_rows tp' k = key_rows tp k) \<and>
    ap_rowid ap = int (length (key_rows tp' key)) \<and> get_topic_key_rows tp' key = ap_rowid ap \<and>
    map fc_list (ap_fed ap) = map rm_id (filter (\<lambda>l. list_wants_key env l key) (tp_lists tp))"
proof -
  note a = append_keeps_topic [OF assms(1-6), of user_flag]
  obtain ap tp' where ap: "tranger2_append_record env tr tp t user_flag (Some jn) = (Inr ap, tp')" "topic_ok tp'"
      "key_rows tp' key = key_rows tp key @ [md]" "\<And>k. k \<noteq> key \<Longrightarrow> key_rows tp' k = key_rows tp k"
      "ap_rowid ap = int (length (key_rows tp key)) + 1"
      "ap_fed ap = feed_lists env tp key (ap_rowid ap) (ap_md ap) (ap_record ap)"
    by (rule a) (use assms(7-10) in simp_all)
  have "get_topic_key_rows tp' key = ap_rowid ap" using key_total_rows [OF ap(2)] ap(3,5) by simp
  then show ?thesis using ap by (auto simp: feed_lists_def)
qed

lemma demo_data: "data_text (key_dir_of demo_topic ''k'') ''1970-01-02'' = [CHR ''d'', CHR 0x00]"
  by (simp add: demo_fields demo_dir_def data_text_def)

lemma demo_new_md:
  "new_md demo_topic 86402 (append_tm demo_env demo_topic demo_record) 0
    (length (data_text (key_dir_of demo_topic ''k'') (wr_file_id demo_tr demo_topic 86402))) (length ''e'' + 1) = demo_md 86402 2 2"
  unfolding demo_file demo_data
  by (simp add: append_tm_def new_md_def set_user_flag_def set_system_flag_def
      write_flag_def demo_topic_def USER_FLAG_MASK_def)

lemma demo_appends:
  "append_key demo_topic demo_record = Inr (''k'', demo_record)" "te_dumps demo_env demo_record = Some ''e''"
  by (simp_all add: append_key_def demo_topic_def demo_record_def demo_env_def NAME_MAX_def)

lemma demo_append_ok:
  "in_order (get_key_cache demo_topic ''k'') (key_dir_of demo_topic ''k'') (wr_file_id demo_tr demo_topic 86402)"
  "no_mixed_zero time_t (key_rows demo_topic ''k'' @ [demo_md 86402 2 2])"
  "no_mixed_zero time_tm (key_rows demo_topic ''k'' @ [demo_md 86402 2 2])"
  unfolding demo_file demo_key_rows
  by (simp_all add: demo_fields in_order_def demo_cache_def no_mixed_zero_def demo_time_of)

lemma demo_times_ok: "(86402 :: 64 word) \<noteq> 0" "uint (86402 :: 64 word) < 2 ^ 44"
  by simp_all

theorem record_is_appended_witness:
  "\<exists>ap tp'. tranger2_append_record demo_env demo_tr demo_topic 86402 0 (Some demo_record) = (Inr ap, tp') \<and>
    topic_ok tp' \<and> ap_rowid ap = 4"
proof -
  have m: "tr_master demo_tr" by (simp add: demo_tr_def)
  show ?thesis
    using record_is_appended [OF demo_topic_ok m demo_appends demo_times_ok demo_new_md [symmetric] demo_append_ok]
    by (auto simp: demo_key_rows)
qed

text \<open>C34: What was appended is read back: with the metadata of the new record, its content is the record the
  parser makes of the text that was written; and every content that could be read before can still be read.\<close>

theorem record_is_read_back:
  assumes "topic_ok tp" "tr_master tr" "append_key tp jn = Inr (key, jn')" "te_dumps env jn' = Some s"
    and "t \<noteq> 0" "uint t < 2 ^ 44" "tp_system_flag tp AND sf_rowid_key = 0"
    and "md = new_md tp t (append_tm env tp jn') user_flag
      (length (data_text (key_dir_of tp key) (wr_file_id tr tp t))) (length s + 1)"
    and "in_order (get_key_cache tp key) (key_dir_of tp key) (wr_file_id tr tp t)"
    and "no_mixed_zero time_t (key_rows tp key @ [md])" "no_mixed_zero time_tm (key_rows tp key @ [md])"
    and "CHR 0x00 \<notin> set s" "s \<noteq> []" "te_loads env s = Some j"
    and "length (data_text (key_dir_of tp key) (wr_file_id tr tp t)) + length s + 1 < 2 ^ 64"
  shows "\<exists>ap tp'. tranger2_append_record env tr tp t user_flag (Some jn) = (Inr ap, tp') \<and>
    tranger2_read_record_content env tr tp' key (ap_md ap) =
      Some (json_object_set j ''__md_tranger__'' (md2json (ap_md ap) (sint (x_rowid (ap_md ap))))) \<and>
    (\<forall>k file_id ex p. read_payload tp k file_id ex = Some p \<longrightarrow> read_payload tp' k file_id ex = Some p)"
proof -
  let ?kd = "key_dir_of tp key" and ?f = "wr_file_id tr tp t"
  note a = append_keeps_topic [OF assms(1-6), of user_flag]
  obtain ap tp' where ap: "tranger2_append_record env tr tp t user_flag (Some jn) = (Inr ap, tp')"
      "ap_md ap = md_ex md (int (length (md2_rows ?kd ?f)) + 1)" "settings tp' = settings tp"
      "data_text (key_dir_of tp' key) = (data_text ?kd)(?f := data_text ?kd ?f @ s @ [CHR 0x00])"
      "\<And>k. k \<noteq> key \<Longrightarrow> data_text (key_dir_of tp' k) = data_text (key_dir_of tp k)"
    by (rule a) (use assms(8-11) in simp_all)
  have payload: "read_payload tp' key ?f (ap_md ap) = Some s"
    by (rule read_payload_new [of _ _ _ "data_text ?kd ?f", OF _ assms(12) _ _ assms(15)])
      (simp_all add: ap(2,4) md_ex_def assms(8) new_md_fields)
  have fid: "get_file_id (file_mask tr tp') (if x_system_flag (ap_md ap) AND sf_t_ms \<noteq> 0
      then x_t (ap_md ap) div 1000 else x_t (ap_md ap)) = ?f"
  proof -
    have x: "x_system_flag (ap_md ap) = get_system_flag md" "x_t (ap_md ap) = get_time_t md" by (simp_all add: ap(2) md_ex_def)
    show ?thesis unfolding x settings_eqD(2) [OF ap(3)] by (rule append_file_id [OF assms(6,8)])
  qed
  have old: "read_payload tp' k file_id ex = Some p" if "read_payload tp k file_id ex = Some p" for k file_id ex p
  proof (rule read_payload_longer [OF that])
    show "data_text (key_dir_of tp' k) file_id = data_text (key_dir_of tp k) file_id @
        (if k = key \<and> file_id = ?f then s @ [CHR 0x00] else [])" using ap(4,5) by (cases "k = key") simp_all
  qed
  have "read_record_content env tp' key ?f (ap_md ap) = Some j"
    using payload assms(13,14) by (simp add: read_record_content_def)
  then have "tranger2_read_record_content env tr tp' key (ap_md ap) =
      Some (json_object_set j ''__md_tranger__'' (md2json (ap_md ap) (sint (x_rowid (ap_md ap)))))"
    using append_key_not_empty [OF assms(3)] settings_eqD(1) [OF ap(3)] assms(7)
    unfolding tranger2_read_record_content_def Let_def fid by simp
  then show ?thesis using ap(1) old by blast
qed

theorem record_is_read_back_witness:
  "\<exists>ap tp'. tranger2_append_record demo_env demo_tr demo_topic 86402 0 (Some demo_record) = (Inr ap, tp') \<and>
    tranger2_read_record_content demo_env demo_tr tp' ''k'' (ap_md ap) =
      Some (json_object_set (JObject [(''v'', JString ''e'')]) ''__md_tranger__'' (md2json (ap_md ap) (sint (x_rowid (ap_md ap)))))"
proof -
  have m: "tr_master demo_tr" by (simp add: demo_tr_def)
  have f: "tp_system_flag demo_topic AND sf_rowid_key = 0" by (simp add: demo_topic_def)
  have j: "CHR 0x00 \<notin> set ''e''" "''e'' \<noteq> []" "te_loads demo_env ''e'' = Some (JObject [(''v'', JString ''e'')])"
    by (simp_all add: demo_env_def)
  have l: "length (data_text (key_dir_of demo_topic ''k'') (wr_file_id demo_tr demo_topic 86402)) + length ''e'' + 1 < 2 ^ 64"
    unfolding demo_file demo_data by simp
  show ?thesis
    using record_is_read_back [OF demo_topic_ok m demo_appends demo_times_ok f demo_new_md [symmetric] demo_append_ok j l]
    by blast
qed

section \<open>Restarting\<close>

text \<open>C36: When the times of the rows of each key never go back and the names of its files follow them, the
  cache that is built from the files when a topic is opened, out of the first and the last row of each
  file only, is the cache that was kept in memory record by record: same cells, same totals; and the keys
  come back in the order of their names.\<close>

theorem restart_keeps_the_cache:
  assumes "topic_ok tp" "reloadable tp" "tp' = build_topic_cache_from_disk (tp\<lparr>tp_cache := []\<rparr>)"
  shows "get_key_cache tp' = get_key_cache tp \<and> topic_ok tp' \<and> key_rows tp' = key_rows tp \<and>
    set (tranger2_list_keys tp') = set (tranger2_list_keys tp) \<and>
    sorted_wrt (\<lambda>a b. strcmp a b \<le> 0) (tranger2_list_keys tp')"
  using reload_topic [OF assms(1,2)] unfolding assms(3) by simp

lemma demo_reloadable: "reloadable demo_topic"
proof -
  have "files_listed demo_cache demo_dir"
    by (simp add: files_listed_def demo_cache_def demo_dir_def name_le_def)
  then show ?thesis using demo_key_sorted
    by (simp add: reloadable_def demo_fields demo_key_rows) (simp add: demo_topic_def)
qed

theorem restart_keeps_the_cache_witness:
  "get_key_cache (build_topic_cache_from_disk (demo_topic\<lparr>tp_cache := []\<rparr>)) ''k'' = demo_cache"
  using restart_keeps_the_cache [OF demo_topic_ok demo_reloadable refl] by (simp add: demo_fields)

section \<open>Iterators\<close>

definition demo_cond :: match_cond where
  "demo_cond = any_cond\<lparr>mc_from_rowid := 2, mc_backward := True\<rparr>"

lemma demo_cond_ok: "cond_ok demo_cond" "starts_ok demo_cond" "match_cond_selects_records demo_cond"
  by (simp_all add: cond_ok_def starts_ok_def match_cond_selects_records_def demo_cond_def)

lemma demo_wanted: "wanted_rows demo_topic ''k'' demo_cond = [2, 3]"
proof -
  have u: "[1..3] = [1, 2, 3 :: int]" by (simp add: upto.simps)
  have n: "int (length (key_rows demo_topic ''k'')) = 3" by (simp add: demo_key_rows)
  have "wanted demo_cond 3 r (key_row demo_topic ''k'' r) \<longleftrightarrow> 2 \<le> r" if "r \<in> {1, 2, 3}" for r
    using that by (auto simp: wanted_def key_row_def demo_key_rows row_number_wanted_def times_wanted_def flags_match_def
        demo_cond_def adjust_from_rowid_def adjust_to_rowid_def demo_times demo_time_of)
  then show ?thesis unfolding wanted_rows_def n Let_def u by simp
qed

text \<open>C37: Opening an iterator with a callback that never breaks calls it with exactly the records that are wanted:
  those alive whose number, times and user flags satisfy the conditions, in the order of the rows, or the
  opposite one for a backward search, each with its metadata and, unless only metadata are asked for, its
  content. So skipping files by their ranges and stopping early loses nothing when times never go back.\<close>

theorem iterator_delivers_wanted_records:
  assumes "topic_ok tp" "key_sorted tp key" "cond_ok mc" "starts_ok mc" "key \<noteq> []"
    and "\<And>r ex j. \<not> cb r ex j" "tranger2_get_iterator_by_id its (if it_name = [] then key else it_name) creator = None"
  shows "\<exists>it ld. tranger2_open_iterator env tp its key mc (Some cb) it_name creator data = (Inr (it, ld), its @ [it]) \<and>
    ld_calls ld = map (loaded_call env tp key (mc_only_md mc))
      ((if mc_backward mc then rev else id) (wanted_rows tp key mc))"
  by (rule open_iterator_calls [where cb = cb and env = env and data = data, OF assms]) blast

lemma loaded_call_row: "fst (loaded_call env tp key om r) = r"
  by (simp add: loaded_call_def Let_def)

theorem iterator_delivers_wanted_records_witness:
  "\<exists>it ld. tranger2_open_iterator demo_env demo_topic [] ''k'' demo_cond (Some (\<lambda>r ex j. False)) [] [] False = (Inr (it, ld), [it]) \<and>
    map fst (ld_calls ld) = [3, 2]"
proof -
  have k: "''k'' \<noteq> []" "tranger2_get_iterator_by_id [] (if [] = ([] :: string) then ''k'' else []) [] = None"
    by (simp_all add: tranger2_get_iterator_by_id_def)
  have b: "mc_backward demo_cond" by (simp add: demo_cond_def)
  obtain it ld where l: "tranger2_open_iterator demo_env demo_topic [] ''k'' demo_cond (Some (\<lambda>r ex j. False)) [] [] False = (Inr (it, ld), [] @ [it])"
      "ld_calls ld = map (loaded_call demo_env demo_topic ''k'' (mc_only_md demo_cond)) (rev [2, 3])"
    using iterator_delivers_wanted_records [OF demo_topic_ok demo_key_sorted demo_cond_ok(1,2) k(1) _ k(2),
        where cb = "\<lambda>r ex j. False" and env = demo_env and data = False] b demo_wanted by auto
  then show ?thesis using loaded_call_row [of demo_env demo_topic "''k''"] by auto
qed

text \<open>C38: A filtered iterator counts and pages over the wanted records only: its size is their number, and its
  pages of a size, read one after the other, forward or backward, give each wanted record once, in order.\<close>

theorem pages_give_every_wanted_record:
  assumes "topic_ok tp" "key_sorted tp key" "cond_ok mc" "match_cond_selects_records mc" "key \<noteq> []" "0 < limit"
    and "tranger2_get_iterator_by_id its (if it_name = [] then key else it_name) creator = None"
  shows "\<exists>it. tranger2_open_iterator env tp its key mc None it_name creator False =
      (Inr (it, \<lparr>ld_calls = [], ld_data = []\<rparr>), its @ [it]) \<and>
    tranger2_iterator_size it = int (length (wanted_rows tp key mc)) \<and>
    concat (map (\<lambda>p. pg_data (fst (tranger2_iterator_get_page env tp it (int (p * limit) + 1) limit backward)))
        [0..<nat (number_of_pages (tranger2_iterator_size it) limit)]) =
      concat (map (page_record env tp key) ((if backward then rev else id) (wanted_rows tp key mc)))"
  by (rule filtered_iterator_pages [OF assms, of env backward]) blast

theorem pages_give_every_wanted_record_witness:
  "\<exists>it. tranger2_open_iterator demo_env demo_topic [] ''k'' demo_cond None [] [] False =
      (Inr (it, \<lparr>ld_calls = [], ld_data = []\<rparr>), [it]) \<and> tranger2_iterator_size it = 2 \<and>
    concat (map (\<lambda>p. pg_data (fst (tranger2_iterator_get_page demo_env demo_topic it (int (p * 1) + 1) 1 True))) [0..<2]) =
      page_record demo_env demo_topic ''k'' 3 @ page_record demo_env demo_topic ''k'' 2"
proof -
  have k: "''k'' \<noteq> []" "tranger2_get_iterator_by_id [] (if [] = ([] :: string) then ''k'' else []) [] = None"
    by (simp_all add: tranger2_get_iterator_by_id_def)
  have n: "nat (number_of_pages 2 1) = 2" by (simp add: number_of_pages_def)
  have l: "int (length [2 :: int, 3]) = 2" by simp
  obtain it where it: "tranger2_open_iterator demo_env demo_topic [] ''k'' demo_cond None [] [] False =
      (Inr (it, \<lparr>ld_calls = [], ld_data = []\<rparr>), [] @ [it])" "tranger2_iterator_size it = 2"
    "concat (map (\<lambda>p. pg_data (fst (tranger2_iterator_get_page demo_env demo_topic it (int (p * 1) + 1) 1 True)))
        [0..<nat (number_of_pages (tranger2_iterator_size it) 1)]) =
      concat (map (page_record demo_env demo_topic ''k'') ((if True then rev else id) [2, 3]))"
    using pages_give_every_wanted_record [OF demo_topic_ok demo_key_sorted demo_cond_ok(1,3) k(1) zero_less_one k(2),
        of demo_env True] unfolding demo_wanted l by blast
  show ?thesis using it(1,2) it(3) [unfolded it(2) n] by auto
qed

text \<open>C39: A page of an iterator without conditions has the records alive among the rows from the one asked for, as
  many rows as the page has; a backward page has the same records in the opposite order.\<close>

theorem plain_page_has_its_rows:
  assumes "topic_ok tp" "1 \<le> from_rowid" "from_rowid \<le> int (length (key_rows tp (it_key it)))" "0 < limit"
    and "it_index it = None" "it_segments it = key_segments tp (it_key it)"
  shows "pg_data (fst (tranger2_iterator_get_page env tp it from_rowid limit backward)) =
    concat (map (page_record env tp (it_key it)) ((if backward then rev else id)
      (filter (alive tp (it_key it)) [from_rowid..min (int (length (key_rows tp (it_key it)))) (from_rowid + int limit - 1)])))"
  by (rule plain_iterator_page [OF assms])

definition demo_iterator :: iterator where
  "demo_iterator = \<lparr>it_id = ''k'', it_creator = [], it_key = ''k'', it_cond = any_cond,
     it_segments = key_segments demo_topic ''k'', it_cur_segment = 0, it_cur_rowid = 0, it_index = None\<rparr>"

theorem plain_page_has_its_rows_witness:
  "pg_data (fst (tranger2_iterator_get_page demo_env demo_topic demo_iterator 2 5 False)) =
    concat (map (page_record demo_env demo_topic ''k'') (filter (alive demo_topic ''k'') [2..3]))"
  using plain_page_has_its_rows [OF demo_topic_ok, of 2 demo_iterator 5 demo_env False]
  by (simp add: demo_iterator_def demo_key_rows)

section \<open>Tombstones\<close>

text \<open>C40: Deleting an instance by the time and the number in its file that a search gave sets its tombstone and
  changes no other row, no content and no cache; from then on no search of the key wants it, and every
  search still wants all other records it wanted.\<close>

theorem deleted_instance_is_never_wanted:
  assumes "topic_ok tp" "tr_master tr" "row_filed tr tp key r" "path_component key" "tp_system_flag tp AND sf_rowid_key = 0"
    and "get_system_flag (key_row tp key r) AND sf_immutable_record = 0"
    and "get_system_flag (key_row tp key r) AND sf_deleted_instance = 0" "ex = row_ex tp key r"
  shows "\<exists>tp'. tranger2_delete_instance tr tp key (x_t ex) (x_rowid ex) False = (Inr (), tp') \<and> topic_ok tp' \<and>
    key_rows tp' key = (key_rows tp key)[nat (r - 1) := tombstone (key_row tp key r)] \<and>
    (\<forall>k. k \<noteq> key \<longrightarrow> key_rows tp' k = key_rows tp k) \<and>
    (\<forall>mc. wanted_rows tp' key mc = filter (\<lambda>a. a \<noteq> r) (wanted_rows tp key mc)) \<and>
    (\<forall>k. data_text (key_dir_of tp' k) = data_text (key_dir_of tp k))"
  unfolding assms(8) by (rule delete_instance_result [OF assms(1-7)]) blast

lemma demo_row_filed: "row_filed demo_tr demo_topic ''k'' 1"
proof -
  have s: "segment_of_rowid (key_segments demo_topic ''k'') 1 = Some \<lparr>sg_cell = hd (kc_files demo_cache), sg_first = 1, sg_last = 2\<rparr>"
    by (simp add: key_segments_def demo_fields demo_cache_def)
  have "x_t (row_ex demo_topic ''k'' 1) = 1" by (simp add: row_ex_fields demo_key_rows demo_times TIME_FLAG_MASK_def)
  then show ?thesis unfolding row_filed_def s by (simp add: demo_file demo_cache_def)
qed

theorem deleted_instance_is_never_wanted_witness:
  "\<exists>tp'. tranger2_delete_instance demo_tr demo_topic ''k'' (x_t (row_ex demo_topic ''k'' 1)) (x_rowid (row_ex demo_topic ''k'' 1)) False = (Inr (), tp') \<and>
    wanted_rows tp' ''k'' any_cond = filter (\<lambda>a. a \<noteq> 1) (wanted_rows demo_topic ''k'' any_cond)"
proof -
  have h: "tr_master demo_tr" "path_component ''k''" "tp_system_flag demo_topic AND sf_rowid_key = 0"
      "get_system_flag (key_row demo_topic ''k'' 1) AND sf_immutable_record = 0"
      "get_system_flag (key_row demo_topic ''k'' 1) AND sf_deleted_instance = 0"
  proof -
    show "tp_system_flag demo_topic AND sf_rowid_key = 0" by (simp add: demo_topic_def)
  qed (simp_all add: demo_tr_def path_component_def key_row_def demo_key_rows demo_times)
  show ?thesis
    using deleted_instance_is_never_wanted [OF demo_topic_ok h(1) demo_row_filed h(2-5) refl] by blast
qed

end
