(* ===== verification/Spec2Isabelle.thy ===== *)
theory Spec2Isabelle
  imports Data_Properties Message_Properties Protocol_Properties Tranger_Properties Demo_System
begin

text \<open>
  Verification development for the C kernel of Yuneta.

  Yuneta programs (yunos) are trees of gobjs: objects with attributes, a finite state machine given by
  their gclass, and events as the only way to talk to each other. The kernel is the C library
  \<^verbatim>\<open>src/kernel/c/gobj-c/src\<close>; on it stand the event loop, the time-series and graph databases,
  the gclasses of the runtime and the yunos. This development models the core of that library.

  Theories and the code they model (file names without a directory are under \<^verbatim>\<open>kernel/c/gobj-c/src\<close>):

  \<^item> \<open>Yuneta_Prelude\<close>: collections of rules, \<open>size_t\<close> arithmetic, lists as nullable ends, the predicate
    \<open>holds\<close> on partial results.
  \<^item> \<open>Dl_List\<close>: the intrusive doubly linked list of \<^verbatim>\<open>dl_list.c\<close>, as a heap of items and headers;
    every operation refines an operation on HOL lists.
  \<^item> \<open>Base64\<close>, \<open>GBuffer\<close>: the base64 codec and the growable byte buffer of \<^verbatim>\<open>gbuffer.c\<close>, with the
    allocator of \<^verbatim>\<open>gbmem.c\<close>.
  \<^item> \<open>Json\<close>: the json values of jansson, and the json helpers of \<^verbatim>\<open>helpers.c\<close>.
  \<^item> \<open>KwId\<close>: access to message dictionaries by path, the getters with defaults, matching of filters
    (\<^verbatim>\<open>kwid.c\<close>). \<open>Kw_Records\<close>: the rest of that file, with deep comparison of records and lists,
    duplicates without private keys, selections, clones, collapsing, ids. \<open>Kw_Flatten\<close>: messages as
    dicts of paths and back, with the proof that nothing else than empty containers is lost.
    \<open>Kw_Serialize\<close>: messages with binary fields.
  \<^item> \<open>GClass\<close>: gclasses as state machines, their creation, check and registry (\<^verbatim>\<open>gobj.c\<close>).
  \<^item> \<open>GObj\<close>, \<open>GObj_Subs\<close>, \<open>GObj_Events\<close>, \<open>GObj_Lifecycle\<close>: the world of gobjs, subscriptions, events
    (send, post, deliver, publish, change of state) and life (start, stop, play, pause, enable, disable,
    destroy) of \<^verbatim>\<open>gobj.c\<close>. A function that calls others has them as arguments.
  \<^item> \<open>GObj_Kernel\<close>: the knot. \<open>kernel lc code n\<close> is the kernel with at most \<open>n\<close> nested entries, for the
    code \<open>code\<close> of the gclasses, which is a parameter; theorems hold for every \<open>n\<close>. Scripts are a
    concrete code.
  \<^item> \<open>GObj_Laws\<close>, \<open>GObj_Invariants\<close>: the locale \<open>kernel_laws\<close> reduces an invariant of the whole kernel
    to one law per change of the world the kernel makes; six interpretations.
  \<^item> \<open>GObj_System\<close>, \<open>GObj_Behaviour\<close>: runs of a system as reachable worlds; what single operations do.
  \<^item> \<open>Demo_System\<close>: a small system the theorems are applied to.
  \<^item> \<open>IStream\<close>: input streams, which collect bytes up to a number or a delimiter
    (\<^verbatim>\<open>kernel/c/root-linux/src/istream.c\<close>).
  \<^item> \<open>Mqtt_Text\<close>, \<open>Mqtt_Codec\<close>, \<open>Mqtt_Properties\<close>, \<open>Mqtt_Frame\<close>: the MQTT protocol of
    \<^verbatim>\<open>modules/c/mqtt/src\<close>: checks of UTF-8 and topic filters, the codec of properties and packets on
    buffers, the recognition of heads of packets that arrive in pieces.
  \<^item> \<open>Tranger_Md\<close>, \<open>Tranger_Store\<close>, \<open>Tranger_Segments\<close>, \<open>Tranger_Iterator\<close>: the time-series store of
    \<^verbatim>\<open>kernel/c/timeranger2/src/timeranger2.c\<close>: rows with flags in the high bits of their times, files
    named by the time, appending, the cache of ranges and totals per file, flags and tombstones, searches
    by conditions, iterators and pages.
  \<^item> \<open>Tranger_Cache\<close>, \<open>Tranger_Append\<close>, \<open>Tranger_Walk\<close>, \<open>Tranger_Select\<close>, \<open>Tranger_Load\<close>,
    \<open>Tranger_Index\<close>, \<open>Tranger_Pages\<close>, \<open>Tranger_Reload\<close>, \<open>Tranger_Delete\<close>: what holds of them. The
    specification is the list of rows of a key and the set of rows a search wants; the cache is an
    optimisation of it. The locale \<open>row_store\<close> is what the loading loop needs of a store.
  \<^item> \<open>Data_Properties\<close>, \<open>Message_Properties\<close>, \<open>Protocol_Properties\<close>, \<open>Tranger_Properties\<close>: the main
    properties of these components.

  Conventions. A C function that may touch freed memory, or a loop that may not end, has result
  \<open>None\<close>. Handles of gobjs are addresses; a freed gobj is not in the map \<open>gobjs\<close>. Messages (\<open>kw\<close>) are
  passed by reference in C: functions return the message as they leave it. Names of events and states
  are compared by address in C, where equal names share one string; here by value. Log messages are
  appended to the world, traces are not modelled, memory is not exhausted except where \<open>GBuffer\<close> says
  so. Reference counts of json values are not modelled (values are immutable here) except for the
  message shared by the subscribers of one publication.

  In the store the disk of a topic is a map from keys to files, a file a list of rows or a text; the
  operating system does not fail, files are found by name and a row is written whole. The clock, the
  dates of git (\<open>approxidate\<close>), the printer and the parser of json and regular expressions are
  parameters (\<open>tr_env\<close>); \<open>gmtime\<close> and the conversions of \<open>strftime\<close> that masks of names use are
  modelled. The theorems on searches assume that the times of a key never go back, because the code
  skips files and stops early on that assumption without checking it.

  Not modelled: attributes of gobjs beyond the check of required ones, creation of gobjs from trees of
  json, commands and stats, persistence hooks, tracing and the log handlers, the event loop, of
  timeranger2 the creation, description and backup of topics, open descriptors and the feeds that watch
  the disk, the databases built on it (treedb, queues), of MQTT what follows the head of a packet in
  the gclass, the gclasses of the runtime and other modules, the yunos, and code in other languages.
\<close>

section \<open>Invariants of a running system\<close>



text \<open>C2: In every reachable world each gobj is an instance of a registered, checked gclass; its
  current state is a state of that gclass, and so is the next state of each of its transitions.\<close>

theorem gobjs_are_in_their_fsm:
  assumes "code_keeps fsm_inv (\<lambda>_ _. True) code" and "fsm_inv w0"
    and "reachable (kernel lc code n) w0 w" and "gobjs w x = Some g"
  shows "\<exists>gc. gclass_of w g = Some gc \<and> (\<forall>st. current_state g = Some st \<longrightarrow>
    (\<exists>s. find_state gc st = Some s \<and>
      (\<forall>ea \<in> set (dl_actions s). \<forall>nxt. ea_next_state ea = Some nxt \<longrightarrow> find_state gc nxt \<noteq> None)))"
proof -
  have "fsm_inv w" using fsm.reachable_good [OF assms(1-3)] by (simp add: good_def)
  then obtain gc where gc: "gclass_of w g = Some gc" "gc \<in> set (dl_gclass w)" "gclass_ok gc"
      "\<forall>st. current_state g = Some st \<longrightarrow> find_state gc st \<noteq> None"
    using assms(4) unfolding fsm_inv_def state_ok_def gclass_of_def registry_ok_def
    by (metis find_SomeD gclass_find_by_name_def)
  have "find_state gc nxt \<noteq> None"
    if "find_state gc st = Some s" "ea \<in> set (dl_actions s)" "ea_next_state ea = Some nxt" for st s ea nxt
  proof -
    have "s \<in> set (dl_states gc)" using that(1) unfolding find_state_def by (blast dest: find_SomeD)
    then show ?thesis using gc(3) that(2,3) by (auto simp: gclass_ok_def fsm_ok_def action_ok_def)
  qed
  then show ?thesis using gc by fastforce
qed

theorem gobjs_are_in_their_fsm_witness:
  "\<exists>gc. gclass_of demo_posted demo_child = Some gc \<and> find_state gc ST_IDLE \<noteq> None"
proof -
  have "\<exists>gc. gclass_of demo_posted demo_child = Some gc \<and> (\<forall>st. current_state demo_child = Some st \<longrightarrow>
    (\<exists>s. find_state gc st = Some s \<and>
      (\<forall>ea \<in> set (dl_actions s). \<forall>nxt. ea_next_state ea = Some nxt \<longrightarrow> find_state gc nxt \<noteq> None)))"
    by (rule gobjs_are_in_their_fsm [OF demo_code_keeps(1) demo_fsm demo_reaches, where x = 2]) simp
  then show ?thesis by (auto simp: demo_child_def)
qed




text \<open>C4: In every reachable world the subscriptions a live publisher holds for a live subscriber are
  the subscribings the subscriber holds for that publisher, in the same order.\<close>

theorem both_ends_hold_the_same_subscriptions:
  assumes "code_keeps subs_inv (\<lambda>_ _. True) code" and "subs_inv w0"
    and "reachable (kernel lc code n) w0 w" and "gobjs w p = Some pg" and "gobjs w s = Some sg"
  shows "filter (\<lambda>x. subs_subscriber x = s) (dl_subscriptions pg) =
    filter (\<lambda>x. subs_publisher x = p) (dl_subscribings sg)"
proof -
  have "subs_inv w" using subs.reachable_good [OF assms(1-3)] by (simp add: good_def)
  then show ?thesis using assms(4,5) unfolding subs_inv_def to_def of_pub_def by blast
qed

theorem both_ends_hold_the_same_subscriptions_witness:
  "filter (\<lambda>x. subs_publisher x = 1) (dl_subscribings demo_child) = [demo_subs]"
proof -
  have "filter (\<lambda>x. subs_subscriber x = 2) (dl_subscriptions demo_parent) =
      filter (\<lambda>x. subs_publisher x = 1) (dl_subscribings demo_child)"
    by (rule both_ends_hold_the_same_subscriptions [OF demo_code_keeps(5) demo_subs_inv demo_reaches]) simp_all
  moreover have "filter (\<lambda>x. subs_subscriber x = 2) (dl_subscriptions demo_parent) = [demo_subs]"
    by (simp add: demo_parent_def demo_subs_def)
  ultimately show ?thesis by simp
qed



section \<open>What a destroyed gobj leaves behind\<close>





section \<open>Delivery of posted events\<close>

lemma kernel_deliver:
  assumes "k_deliver (kernel lc code n) w = Some (d, w')"
  obtains m where "gobj_deliver_posted_events (k_send (kernel lc code m)) w = Some (d, w')"
  using assms by (cases n) (auto simp: no_kernel_def kernel_step_def Let_def)

lemma kernel_send_keeps_ids:
  assumes "code_keeps ids_inv only_newer code"
  shows "send_keeps ids_inv only_newer (k_send (kernel lc code m))"
  using ids.kernel_keeps [OF assms, of lc m] unfolding api_keeps_def by (elim conjE)

text \<open>C7: One delivery sends at most the messages that were waiting when it began, and leaves only
  messages with a later id than those, as long as no more messages were ever posted than \<open>size_t\<close> counts.\<close>

theorem delivery_sends_what_was_waiting:
  assumes "code_keeps ids_inv only_newer code" and "ids_inv w"
    and "k_deliver (kernel lc code n) w = Some (d, w')" and "posted_total w' < size_t_mod"
  shows "0 \<le> d \<and> d \<le> int (length (dl_posted_events w)) \<and>
    (\<forall>m \<in> set (dl_posted_events w). \<forall>m' \<in> set (dl_posted_events w'). pe_id m < pe_id m')"
proof (cases "dl_posted_events w = []")
  case True
  then show ?thesis using assms(3) by (auto elim!: kernel_deliver simp: gobj_deliver_posted_events_def)
next
  case False
  let ?l = "pe_id (last (dl_posted_events w))"
  obtain m where m: "deliver_loop (k_send (kernel lc code m)) ?l 0 w = Some (d, w')"
    using assms(3) False by (auto elim!: kernel_deliver simp: gobj_deliver_posted_events_def)
  have "posted_total w < size_t_mod \<longrightarrow> ?l \<le> posted_total w" using last_id_total assms(2) False by blast
  from holdsD [OF deliver_bounded [OF kernel_send_keeps_ids [OF assms(1)] assms(2) this] m]
  have d: "good ids_inv only_newer w w'" "0 \<le> d" "d \<le> int (length (pending ?l w))" "pending ?l w' = []"
    using assms(4) by auto
  have old: "pe_id m \<le> ?l" if "m \<in> set (dl_posted_events w)" for m
    using assms(2,4) d(1) that False sorted_wrt_last_le [of pe_id "dl_posted_events w" m]
    by (auto simp: ids_inv_def good_def only_newer_def sorted_wrt_map)
  have "?l < pe_id m'" if "m' \<in> set (dl_posted_events w')" for m'
    using d(4) that by (auto simp: pending_def filter_empty_conv not_le)
  then show ?thesis using d(2,3) old pending_length [of ?l w] by force
qed
definition demo_busy :: world where
  "demo_busy = demo_world\<lparr>gobjs := [1 \<mapsto> demo_parent, 2 \<mapsto> demo_child\<lparr>current_state := Some ST_BUSY\<rparr>]\<rparr>"

lemma demo_busy_deliver:
  "map_option fst (k_deliver (kernel lc demo_code (Suc (Suc (Suc 0)))) demo_busy) = Some 1"
  by code_simp

lemma demo_busy_total:
  "map_option (\<lambda>(d, w). posted_total w) (k_deliver (kernel lc demo_code (Suc (Suc (Suc 0)))) demo_busy) = Some 1"
  by code_simp

lemma demo_busy_ids: "ids_inv demo_busy"
  using demo_ids by (simp add: demo_busy_def ids_inv_def)

theorem delivery_sends_what_was_waiting_witness:
  "\<exists>w'. k_deliver (kernel demo_libc demo_code (Suc (Suc (Suc 0)))) demo_busy = Some (1, w') \<and>
    (1::int) \<le> int (length (dl_posted_events demo_busy))"
proof -
  obtain w' where w': "k_deliver (kernel demo_libc demo_code (Suc (Suc (Suc 0)))) demo_busy = Some (1, w')"
    using demo_busy_deliver [of demo_libc] by auto
  have "posted_total w' < size_t_mod" using demo_busy_total [of demo_libc] w' by (simp add: size_t_mod_def)
  then show ?thesis
    using w' delivery_sends_what_was_waiting [OF demo_code_keeps(3) demo_busy_ids w'] by blast
qed




section \<open>What the operations do\<close>

lemma fsm_inv_gclass: "fsm_inv w \<Longrightarrow> gobjs w x = Some g \<Longrightarrow> \<exists>gc. gclass_of w g = Some gc"
  unfolding fsm_inv_def state_ok_def gclass_of_def by blast

text \<open>C9: Posting to a live gobj always returns: it queues the message behind the others and returns 0
  exactly when the gobj is not being destroyed, its gclass knows the event and the queue has room;
  otherwise it returns -1 and only logs.\<close>

theorem post_event_accepts:
  assumes "fsm_inv w" and "\<forall>d. dst = Some d \<longrightarrow> gobjs w d \<noteq> None"
  shows "\<exists>ret w'. gobj_post_event dst ev kw src w = Some (ret, w') \<and>
    (if postable w dst ev then ret = 0 \<and> w' = queue_add (the dst) src (the ev) kw w
     else ret = -1 \<and> (\<exists>m. w' = log_msg m w))"
proof -
  have "\<exists>ret w'. gobj_post_event dst ev kw src w = Some (ret, w')"
  proof (cases dst)
    case None
    then show ?thesis by (simp add: gobj_post_event_def)
  next
    case (Some d)
    then obtain g where g: "gobjs w d = Some g" using assms(2) by auto
    then obtain gc where gc: "gclass_of w g = Some gc"
      using fsm_inv_gclass [OF assms(1)] by blast
    show ?thesis
      using Some g has_event_iff [OF g gc] by (cases ev) (auto simp: gobj_post_event_def)
  qed
  then show ?thesis using post_event_spec by fastforce
qed

theorem post_event_accepts_witness:
  "\<exists>ret w'. gobj_post_event (Some 2) (Some EV_GO) None None demo_world = Some (ret, w') \<and> ret = 0 \<and>
    w' = demo_posted"
proof -
  have "postable demo_world (Some 2) (Some EV_GO)"
    using demo_event by (simp add: postable_def MAX_POSTED_EVENTS_def)
  then show ?thesis
    using post_event_accepts [OF demo_fsm, of "Some 2" "Some EV_GO" None None] by (simp add: demo_posted_def)
qed
text \<open>C10: A change of state either does nothing but perhaps log, and says so, or moves the gobj to a known
  other state, remembers the last one, and then tells the gclass or the subscribers, once, with the two
  names.\<close>

theorem change_state_moves_or_logs:
  assumes "gobj_change_state_with u publish (Some x) nm w = Some (b, w')" and "gobjs w x = Some g"
  shows "if b then \<exists>gc previous r kw. gclass_of w g = Some gc \<and> find_state gc nm \<noteq> None \<and>
      current_state g = Some previous \<and> previous \<noteq> nm \<and> \<not> is_destroyed g \<and>
      (let w1 = set_gobj x (g\<lparr>last_state := Some previous, current_state := Some nm\<rparr>) w;
           st = Some (state_changed_kw previous nm)
       in (if mt_state_changed \<in> set (gmt gc) then u (U_state_changed x) st w1
           else publish (Some x) (Some EV_STATE_CHANGED) st w1) = Some (r, kw, w'))
    else w' = w \<or> (\<exists>m. w' = log_msg m w)"
  using change_state_spec [OF assms] by (cases b) (auto simp: Let_def)

definition quiet_publish :: publish_fn where
  "quiet_publish h ev kw w = Some (0, kw, w)"

theorem change_state_moves_or_logs_witness:
  "gobj_change_state_with (demo_code no_kernel) quiet_publish (Some 2) ST_BUSY demo_world = Some (True,
     set_gobj 2 (demo_child\<lparr>last_state := Some ST_IDLE, current_state := Some ST_BUSY\<rparr>) demo_world) \<and>
   (\<exists>gc. gclass_of demo_world demo_child = Some gc \<and> find_state gc ST_BUSY \<noteq> None)"
proof -
  have moved: "gobj_change_state_with (demo_code no_kernel) quiet_publish (Some 2) ST_BUSY demo_world = Some (True,
      set_gobj 2 (demo_child\<lparr>last_state := Some ST_IDLE, current_state := Some ST_BUSY\<rparr>) demo_world)"
    by (simp add: gobj_change_state_with_def is_destroyed_def demo_child_def demo_gclass_def
        gclass_of_def gclass_find_by_name_def find_state_def ST_IDLE_def ST_BUSY_def has_flag_def
        obflag_created_def obflag_destroyed_def quiet_publish_def upd_gobj_eq)
  have "gobjs demo_world 2 = Some demo_child" by simp
  from change_state_moves_or_logs [OF moved this] show ?thesis unfolding if_True using moved by blast
qed

text \<open>Stopping a gobj that was just started leads back to exactly the world before, when its gclass
  has no start and stop methods and it is not playing; in between the gobj is running.\<close>

theorem stop_undoes_start:
  assumes "gobjs w x = Some g" and "gclass_of w g = Some gc"
    and "mt_start \<notin> set (gmt gc)" and "mt_stop \<notin> set (gmt gc)"
    and "\<not> playing g" and "\<not> is_destroying g"
    and "gobj_start_with u (Some x) w = Some (0, w1)"
  shows "gobjs w1 x = Some (g\<lparr>running := True\<rparr>) \<and> gobj_stop_with u pause (Some x) w1 = Some (0, w)"
  using assms by (rule start_stop_restores)

definition no_life :: life_fn where
  "no_life h w = Some (0, w)"

theorem stop_undoes_start_witness:
  "\<exists>w1. gobj_start_with (demo_code no_kernel) (Some 1) demo_world = Some (0, w1) \<and>
    gobj_stop_with (demo_code no_kernel) no_life (Some 1) w1 = Some (0, demo_world)"
proof -
  let ?w = "set_gobj 1 (demo_parent\<lparr>running := True\<rparr>) demo_world"
  have start: "gobj_start_with (demo_code no_kernel) (Some 1) demo_world = Some (0, ?w)"
    by (simp add: gobj_start_with_def upd_gobj_eq demo_gclass_def demo_parent_def
        gclass_of_def gclass_find_by_name_def has_flag_def is_destroying_def is_destroyed_def
        obflag_created_def obflag_destroying_def obflag_destroyed_def gobj_check_required_attrs_def has_method_def)
  have fields: "gclass_of demo_world demo_parent = Some demo_gclass" "gmt demo_gclass = []"
    "\<not> playing demo_parent"
    by (simp_all add: demo_gclass_def demo_parent_def gclass_of_def gclass_find_by_name_def)
  show ?thesis
    using start stop_undoes_start [OF _ fields(1) _ _ fields(3) _ start, of no_life] fields(2) by auto
qed
section \<open>Subscriptions and publication\<close>









end
